(* ===== verification/Prelude.thy ===== *)
theory Prelude
  imports Main "HOL-Library.Word" "HOL-Library.Char_ord" "HOL-Library.List_Lexorder"
begin

text \<open>
  Shared vocabulary of the development: Go outcomes (a value, an error, or a run-time
  panic), byte strings, slicing and indexing with their panics, Go's \<open>strings\<close> helpers on
  \<open>string\<close> (a Go string is a byte sequence, here a \<open>char list\<close>), association-list maps,
  and the lemmas on them that the components share.
\<close>

unbundle bit_operations_syntax

named_theorems go_simps \<open>evaluation of Go outcomes\<close>

section \<open>Outcomes\<close>

text \<open>A Go call returns a value, returns a non-nil error, or panics.\<close>

datatype ('e, 'a) go = Ok 'a | Err 'e | Panic

primrec bind_go :: "('e, 'a) go \<Rightarrow> ('a \<Rightarrow> ('e, 'b) go) \<Rightarrow> ('e, 'b) go" where
  "bind_go (Ok x) f = f x"
| "bind_go (Err e) f = Err e"
| "bind_go Panic f = Panic"

primrec map_err :: "('e \<Rightarrow> 'f) \<Rightarrow> ('e, 'a) go \<Rightarrow> ('f, 'a) go" where
  "map_err f (Ok x) = Ok x"
| "map_err f (Err e) = Err (f e)"
| "map_err f Panic = Panic"

declare bind_go.simps [go_simps] map_err.simps [go_simps]

lemma bind_go_Ok_iff: "bind_go m f = Ok y \<longleftrightarrow> (\<exists>x. m = Ok x \<and> f x = Ok y)"
  by (cases m) auto

lemma bind_go_assoc: "bind_go (bind_go m f) g = bind_go m (\<lambda>x. bind_go (f x) g)"
  by (cases m) auto

lemma bind_go_cong [fundef_cong]:
  assumes "m = m'" and "\<And>x. m' = Ok x \<Longrightarrow> f x = f' x"
  shows "bind_go m f = bind_go m' f'"
  using assms by (cases m') auto

section \<open>Bytes and slices\<close>

type_synonym byte = "8 word"
type_synonym bytes = "byte list"

text \<open>\<open>xs[i]\<close> and \<open>xs[lo:hi]\<close>: out of range is a panic.\<close>

definition go_index :: "'a list \<Rightarrow> nat \<Rightarrow> ('e, 'a) go" where
  "go_index xs i = (if i < length xs then Ok (xs ! i) else Panic)"

definition slice :: "nat \<Rightarrow> nat \<Rightarrow> 'a list \<Rightarrow> 'a list" where
  "slice lo hi xs = take (hi - lo) (drop lo xs)"

definition go_slice :: "'a list \<Rightarrow> nat \<Rightarrow> nat \<Rightarrow> ('e, 'a list) go" where
  "go_slice xs lo hi = (if lo \<le> hi \<and> hi \<le> length xs then Ok (slice lo hi xs) else Panic)"

lemma length_slice [simp]: "length (slice lo hi xs) = min (length xs - lo) (hi - lo)"
  by (simp add: slice_def min.commute)

lemma slice_append_add:
  "lo \<le> mid \<Longrightarrow> mid \<le> hi \<Longrightarrow> slice lo mid xs @ slice mid hi xs = slice lo hi xs"
proof -
  assume "lo \<le> mid" "mid \<le> hi"
  then have "drop mid xs = drop (mid - lo) (drop lo xs)" and "hi - lo = (mid - lo) + (hi - mid)"
    by simp_all
  then show ?thesis by (simp only: slice_def take_add)
qed

lemma slice_all [simp]: "slice 0 (length xs) xs = xs"
  by (simp add: slice_def)

lemma slice_empty [simp]: "slice n n xs = []"
  by (simp add: slice_def)

lemma slice_Suc: "i < length xs \<Longrightarrow> slice i (Suc i) xs = [xs ! i]"
  by (simp add: slice_def take_Suc_conv_app_nth)

lemma slice_append_left: "hi \<le> length xs \<Longrightarrow> slice lo hi (xs @ ys) = slice lo hi xs"
  by (cases "lo \<le> length xs") (simp_all add: slice_def)

lemma slice_nth_eqI:
  assumes "lo + n \<le> length xs" and "lo' + n \<le> length ys"
    and "\<And>k. k < n \<Longrightarrow> xs ! (lo + k) = ys ! (lo' + k)"
  shows "slice lo (lo + n) xs = slice lo' (lo' + n) ys"
  using assms by (intro nth_equalityI) (auto simp: slice_def)

text \<open>The least significant bytes of a non-negative integer: \<open>byte(n >> 8k)\<close>.\<close>

definition byte_at :: "nat \<Rightarrow> nat \<Rightarrow> nat" where
  "byte_at k n = (n div 256 ^ k) mod 256"

lemma byte_at_less [simp]: "byte_at k n < 256"
  by (simp add: byte_at_def)

lemma unat_byte [simp]: "n < 256 \<Longrightarrow> unat (word_of_nat n :: byte) = n"
  by (simp add: unat_of_nat)

lemma word_of_nat_byte_mod: "(word_of_nat (n mod 256) :: byte) = word_of_nat n"
  by (simp add: word_unat_eq_iff unat_of_nat)

lemma byte_at_step: "byte_at k n + 256 * (n div 256 ^ Suc k) = n div 256 ^ k"
proof -
  have "n div 256 ^ Suc k = n div 256 ^ k div 256"
    by (simp add: div_mult2_eq [symmetric] mult.commute)
  then show ?thesis by (simp add: byte_at_def)
qed

lemma byte_at_steps:
  "byte_at 0 n + 256 * (n div 256) = n"
  "byte_at 1 n + 256 * (n div 65536) = n div 256"
  "byte_at 2 n + 256 * (n div 16777216) = n div 65536"
  "byte_at 3 n + 256 * (n div 4294967296) = n div 16777216"
  using byte_at_step [of 0 n] byte_at_step [of 1 n] byte_at_step [of 2 n] byte_at_step [of 3 n]
  by (simp_all add: power_numeral_odd power_numeral_even)

lemma byte_at_sum4:
  assumes "n < 4294967296"
  shows "byte_at 0 n + byte_at 1 n * 256 + byte_at 2 n * 65536 + byte_at 3 n * 16777216 = n"
  using assms byte_at_steps [of n] by simp

lemma byte_at_sum3:
  assumes "n < 16777216"
  shows "byte_at 0 n + byte_at 1 n * 256 + byte_at 2 n * 65536 = n"
  using assms byte_at_steps [of n] by simp

text \<open>Big-endian 32-bit integers (\<open>encoding/binary\<close>, and the shifts in \<open>writePack\<close>).\<close>

definition be32 :: "nat \<Rightarrow> bytes" where
  "be32 n = map word_of_nat [byte_at 3 n, byte_at 2 n, byte_at 1 n, byte_at 0 n]"

fun of_be32 :: "bytes \<Rightarrow> nat" where
  "of_be32 [a, b, c, d] = unat a * 16777216 + unat b * 65536 + unat c * 256 + unat d"
| "of_be32 _ = 0"

lemma length_be32 [simp]: "length (be32 n) = 4"
  by (simp add: be32_def)

lemma of_be32_be32: "n < 4294967296 \<Longrightarrow> of_be32 (be32 n) = n"
  using byte_at_sum4 [of n] by (simp add: be32_def)

end
