(* ===== verification/Delta.thy ===== *)
theory Delta
  imports Prelude
begin

text \<open>
  The git delta codec of \<open>src/kailab/sshserver/delta.go\<close> (index, match search, encoder) and
  the decoder \<open>applyDelta\<close> of \<open>src/kailab/sshserver/gitpack_parse.go\<close>. Lengths and offsets
  are non-negative Go \<open>int\<close>s and are natural numbers here; the hash and the decoded sizes,
  where 64-bit wrap-around can show, are 64-bit words. A read through a reslice \<open>delta[offset:]\<close>
  is modelled by passing the remaining bytes.
\<close>

section \<open>The block index\<close>

abbreviation (input) minMatchSize :: nat where "minMatchSize \<equiv> 4"
abbreviation (input) blockSize :: nat where "blockSize \<equiv> 16"
abbreviation (input) maxChainLength :: nat where "maxChainLength \<equiv> 64"

text \<open>
  Offsets in \<open>table\<close> and \<open>next\<close> use -1 for "none", as in the code. A nil \<open>table\<close> is \<open>[]\<close>:
  an allocated one has at least 256 entries.
\<close>

record deltaIndex =
  src :: bytes
  table :: "int list"
  chain_next :: "int list"
  mask :: nat

text \<open>\<open>hashBlock\<close>: 64-bit arithmetic, the low 31 bits are kept.\<close>

definition hashBlock :: "bytes \<Rightarrow> nat" where
  "hashBlock data =
     unat (foldl (\<lambda>h b. h * 31 + ucast b) (0 :: 64 word) (take blockSize data) AND 0x7FFFFFFF)"

text \<open>\<open>for tableSize < n { tableSize <<= 1 }\<close>\<close>

function grow_table :: "nat \<Rightarrow> nat \<Rightarrow> nat" where
  "grow_table sz n = (if 0 < sz \<and> sz < n then grow_table (2 * sz) n else sz)"
  by pat_completeness auto
termination
  by (relation "measure (\<lambda>(sz, n). n - sz)") auto

declare grow_table.simps [simp del]

definition table_size :: "nat \<Rightarrow> nat" where
  "table_size srcLen =
     (let tableSize = grow_table 1 (srcLen div blockSize) in if tableSize < 256 then 256 else tableSize)"

text \<open>One iteration of the indexing loop: chain offset \<open>i\<close> in front of its hash bucket.\<close>

definition index_block :: "bytes \<Rightarrow> nat \<Rightarrow> nat \<Rightarrow> int list \<times> int list \<Rightarrow> int list \<times> int list" where
  "index_block s m i = (\<lambda>(tab, nxt).
     let tIdx = hashBlock (drop i s) AND m
     in (tab[tIdx := int i], nxt[i := tab ! tIdx]))"

definition newDeltaIndex :: "bytes \<Rightarrow> deltaIndex" where
  "newDeltaIndex s =
     (if length s < blockSize then \<lparr>src = s, table = [], chain_next = [], mask = 0\<rparr>
      else
        let tableSize = table_size (length s);
            n = length s - blockSize + 1;
            (tab, nxt) = foldl (\<lambda>st i. index_block s (tableSize - 1) i st)
              (replicate tableSize (-1), replicate n (-1)) [0..<n]
        in \<lparr>src = s, table = tab, chain_next = nxt, mask = tableSize - 1\<rparr>)"

section \<open>Match search\<close>

text \<open>\<open>for length < maxLen && src[srcOff+length] == tgt[tgtOff+length] { length++ }\<close>\<close>

function match_loop :: "bytes \<Rightarrow> bytes \<Rightarrow> nat \<Rightarrow> nat \<Rightarrow> nat \<Rightarrow> nat \<Rightarrow> nat" where
  "match_loop s tgt srcOff tgtOff maxLen len =
     (if len < maxLen \<and> s ! (srcOff + len) = tgt ! (tgtOff + len)
      then match_loop s tgt srcOff tgtOff maxLen (Suc len) else len)"
  by pat_completeness auto
termination
  by (relation "measure (\<lambda>(s, tgt, so, to, m, l). m - l)") auto

declare match_loop.simps [simp del]

definition matchLength :: "deltaIndex \<Rightarrow> nat \<Rightarrow> bytes \<Rightarrow> nat \<Rightarrow> nat" where
  "matchLength idx srcOff tgt tgtOff =
     match_loop (src idx) tgt srcOff tgtOff
       (min (length (src idx) - srcOff) (length tgt - tgtOff)) 0"

text \<open>The chain walk of \<open>findMatch\<close>: state (\<open>srcOff\<close>, \<open>bestSrcOff\<close>, \<open>bestLen\<close>), at most
  \<open>maxChainLength\<close> steps.\<close>

function chain_walk :: "deltaIndex \<Rightarrow> bytes \<Rightarrow> nat \<Rightarrow> int \<Rightarrow> int \<Rightarrow> nat \<Rightarrow> nat \<Rightarrow> int \<times> nat" where
  "chain_walk idx tgt tgtOff srcOff bestSrcOff bestLen chainLen =
     (if 0 \<le> srcOff \<and> chainLen < maxChainLength then
        let matchLen = matchLength idx (nat srcOff) tgt tgtOff;
            (bestSrcOff, bestLen) =
              (if matchLen > bestLen then (srcOff, matchLen) else (bestSrcOff, bestLen))
        in chain_walk idx tgt tgtOff (chain_next idx ! nat srcOff) bestSrcOff bestLen (Suc chainLen)
      else (bestSrcOff, bestLen))"
  by pat_completeness auto
termination
  by (relation "measure (\<lambda>(i, t, o1, s, b, l, c). maxChainLength - c)") auto

declare chain_walk.simps [simp del]

definition findMatch :: "deltaIndex \<Rightarrow> bytes \<Rightarrow> nat \<Rightarrow> int \<times> nat" where
  "findMatch idx tgt tgtOff =
     (if table idx = [] \<or> tgtOff + blockSize > length tgt then (-1, 0)
      else
        let h = hashBlock (drop tgtOff tgt);
            (bestSrcOff, bestLen) =
              chain_walk idx tgt tgtOff (table idx ! (h AND mask idx)) (-1) 0 0
        in if bestLen < minMatchSize then (-1, 0) else (bestSrcOff, bestLen))"

section \<open>Instruction encoding\<close>

text \<open>Little-endian base-128 sizes, the high bit marking continuation.\<close>

function size_loop :: "nat \<Rightarrow> nat \<Rightarrow> bytes" where
  "size_loop c sz =
     (if sz > 0 then word_of_nat (c OR 0x80) # size_loop (take_bit 7 sz) (drop_bit 7 sz)
      else [word_of_nat c])"
  by pat_completeness auto
termination
  by (relation "measure snd") (auto simp: drop_bit_eq_div)

declare size_loop.simps [simp del]

definition deltaEncodeSize :: "nat \<Rightarrow> bytes" where
  "deltaEncodeSize sz = size_loop (take_bit 7 sz) (drop_bit 7 sz)"

function encodeInsert :: "bytes \<Rightarrow> bytes" where
  "encodeInsert data =
     (if data = [] then []
      else let n = (if length data > 127 then 127 else length data)
           in word_of_nat n # take n data @ encodeInsert (drop n data))"
  by pat_completeness auto
termination
  by (relation "measure length") (auto simp: Let_def)

declare encodeInsert.simps [simp del]

text \<open>
  \<open>encodeCopy\<close>: the flag of each operand byte is set when that byte is non-zero, and exactly
  the flagged bytes are written. Size 0x10000 writes no sz byte; sz bits above 23 have no
  operand byte.
\<close>

definition flag :: "bool \<Rightarrow> byte \<Rightarrow> byte" where
  "flag b m = (if b then m else 0)"

definition copy_cmd :: "nat \<Rightarrow> nat \<Rightarrow> byte" where
  "copy_cmd offset sz =
     0x80 OR flag (byte_at 0 offset \<noteq> 0) 0x01 OR flag (byte_at 1 offset \<noteq> 0) 0x02
     OR flag (byte_at 2 offset \<noteq> 0) 0x04 OR flag (byte_at 3 offset \<noteq> 0) 0x08
     OR flag (sz \<noteq> 0x10000 \<and> byte_at 0 sz \<noteq> 0) 0x10
     OR flag (sz \<noteq> 0x10000 \<and> byte_at 1 sz \<noteq> 0) 0x20
     OR flag (sz \<noteq> 0x10000 \<and> byte_at 2 sz \<noteq> 0) 0x40"

definition opt_byte :: "byte \<Rightarrow> byte \<Rightarrow> nat \<Rightarrow> bytes" where
  "opt_byte cmd m v = (if cmd AND m \<noteq> 0 then [word_of_nat v] else [])"

definition encodeCopy :: "nat \<Rightarrow> nat \<Rightarrow> bytes" where
  "encodeCopy offset sz =
     (let cmd = copy_cmd offset sz in
      cmd # opt_byte cmd 0x01 (byte_at 0 offset) @ opt_byte cmd 0x02 (byte_at 1 offset)
      @ opt_byte cmd 0x04 (byte_at 2 offset) @ opt_byte cmd 0x08 (byte_at 3 offset)
      @ opt_byte cmd 0x10 (byte_at 0 sz) @ opt_byte cmd 0x20 (byte_at 1 sz)
      @ opt_byte cmd 0x40 (byte_at 2 sz))"

section \<open>The encoder\<close>

definition flush :: "bytes \<Rightarrow> bytes" where
  "flush insertBuf = (if length insertBuf > 0 then encodeInsert insertBuf else [])"

text \<open>The main loop: state (\<open>delta\<close>, \<open>insertBuf\<close>, \<open>tgtOff\<close>).\<close>

function gen_loop :: "deltaIndex \<Rightarrow> bytes \<Rightarrow> nat \<Rightarrow> bytes \<Rightarrow> bytes \<Rightarrow> bytes" where
  "gen_loop idx tgt tgtOff delta insertBuf =
     (if tgtOff < length tgt then
        let (srcOff, matchLen) = findMatch idx tgt tgtOff in
        if matchLen \<ge> minMatchSize then
          gen_loop idx tgt (tgtOff + matchLen)
            (delta @ flush insertBuf @ encodeCopy (nat srcOff) matchLen) []
        else
          let insertBuf = insertBuf @ [tgt ! tgtOff] in
          if length insertBuf = 127
          then gen_loop idx tgt (Suc tgtOff) (delta @ encodeInsert insertBuf) []
          else gen_loop idx tgt (Suc tgtOff) delta insertBuf
      else delta @ flush insertBuf)"
  by pat_completeness auto
termination
  by (relation "measure (\<lambda>(idx, tgt, off, d, i). length tgt - off)") auto

declare gen_loop.simps [simp del]

text \<open>\<open>None\<close> is the nil delta: the object is sent whole.\<close>

definition GenerateDelta :: "bytes \<Rightarrow> bytes \<Rightarrow> bytes option" where
  "GenerateDelta s tgt =
     (if length tgt < 16 then None
      else if length s > 0 \<and> length tgt < length s div 16 then None
      else
        let idx = newDeltaIndex s in
        if table idx = [] then None
        else
          let delta = gen_loop idx tgt 0
                (deltaEncodeSize (length s) @ deltaEncodeSize (length tgt)) []
          in if length delta + 20 \<ge> length tgt then None else Some delta)"

section \<open>The decoder\<close>

datatype delta_error =
    DeltaTooShort
  | BaseSizeMismatch int nat
  | CopyPastBase
  | InsertPastDelta

text \<open>The largest allocation the runtime accepts (48-bit addresses); \<open>make\<close> with a negative
  or larger capacity panics.\<close>

abbreviation (input) maxAlloc :: int where "maxAlloc \<equiv> 281474976710656"

fun readDeltaSize :: "bytes \<Rightarrow> 64 word \<Rightarrow> nat \<Rightarrow> (delta_error, 64 word \<times> bytes) go" where
  "readDeltaSize [] sz shift = Panic"
| "readDeltaSize (b # rest) sz shift =
     (let sz = sz OR push_bit shift (ucast (b AND 0x7f)) in
      if b AND 0x80 = 0 then Ok (sz, rest) else readDeltaSize rest sz (shift + 7))"

text \<open>One optional operand byte: \<open>if cmd&m != 0 { v |= int(delta[offset]) << shift; offset++ }\<close>.\<close>

definition read_opt :: "byte \<Rightarrow> byte \<Rightarrow> nat \<Rightarrow> nat \<times> bytes \<Rightarrow> (delta_error, nat \<times> bytes) go" where
  "read_opt cmd m shift = (\<lambda>(v, rest).
     if cmd AND m \<noteq> 0 then
       (case rest of [] \<Rightarrow> Panic | b # rest' \<Rightarrow> Ok (v OR push_bit shift (unat b), rest'))
     else Ok (v, rest))"

definition read_copy :: "byte \<Rightarrow> bytes \<Rightarrow> (delta_error, nat \<times> nat \<times> bytes) go" where
  "read_copy cmd rest =
     bind_go (read_opt cmd 0x01 0 (0, rest)) (\<lambda>o1.
     bind_go (read_opt cmd 0x02 8 o1) (\<lambda>o2.
     bind_go (read_opt cmd 0x04 16 o2) (\<lambda>o3.
     bind_go (read_opt cmd 0x08 24 o3) (\<lambda>(copyOffset, rest).
     bind_go (read_opt cmd 0x10 0 (0, rest)) (\<lambda>s1.
     bind_go (read_opt cmd 0x20 8 s1) (\<lambda>s2.
     bind_go (read_opt cmd 0x40 16 s2) (\<lambda>(copySize, rest).
       Ok (copyOffset, if copySize = 0 then 0x10000 else copySize, rest))))))))"

lemma read_opt_length: "read_opt cmd m k (v, rest) = Ok (v', rest') \<Longrightarrow> length rest' \<le> length rest"
  by (auto simp: read_opt_def split: if_splits list.splits)

lemma read_copy_length:
  "read_copy cmd rest = Ok (off, sz, rest') \<Longrightarrow> length rest' \<le> length rest"
  by (auto simp: read_copy_def bind_go_Ok_iff dest!: read_opt_length)

text \<open>The instruction loop of \<open>applyDelta\<close>; command 0 is skipped, as in the code.\<close>

function apply_loop :: "bytes \<Rightarrow> bytes \<Rightarrow> bytes \<Rightarrow> (delta_error, bytes) go" where
  "apply_loop base [] result = Ok result"
| "apply_loop base (cmd # rest) result =
     (if cmd AND 0x80 \<noteq> 0 then
        bind_go (read_copy cmd rest) (\<lambda>(copyOffset, copySize, rest').
          if copyOffset + copySize > length base then Err CopyPastBase
          else apply_loop base rest'
                 (result @ slice copyOffset (copyOffset + copySize) base))
      else if cmd \<noteq> 0 then
        if unat cmd > length rest then Err InsertPastDelta
        else apply_loop base (drop (unat cmd) rest) (result @ take (unat cmd) rest)
      else apply_loop base rest result)"
  by pat_completeness auto
termination
  by (relation "measure (\<lambda>(base, delta, result). length delta)")
    (auto dest!: read_copy_length)

declare apply_loop.simps(2) [simp del]

definition applyDelta :: "bytes \<Rightarrow> bytes \<Rightarrow> (delta_error, bytes) go" where
  "applyDelta base delta =
     (if length delta < 2 then Err DeltaTooShort
      else
        bind_go (readDeltaSize delta 0 0) (\<lambda>(baseSize, rest).
          if sint baseSize \<noteq> int (length base)
          then Err (BaseSizeMismatch (sint baseSize) (length base))
          else
            bind_go (readDeltaSize rest 0 0) (\<lambda>(resultSize, rest).
              if sint resultSize < 0 \<or> sint resultSize > maxAlloc then Panic
              else apply_loop base rest [])))"

section \<open>Size encoding round trip\<close>

lemma word_of_nat_7bit:
  "(word_of_nat n :: 64 word) = word_of_nat (take_bit 7 n) OR push_bit 7 (word_of_nat (drop_bit 7 n))"
proof -
  have "n = take_bit 7 n OR push_bit 7 (drop_bit 7 n)"
  proof (rule bit_eqI)
    fix k show "bit n k = bit (take_bit 7 n OR push_bit 7 (drop_bit 7 n)) k"
      by (cases "k < 7") (auto simp: bit_or_iff bit_take_bit_iff bit_push_bit_iff bit_drop_bit_eq)
  qed
  then have "(word_of_nat n :: 64 word) = word_of_nat (take_bit 7 n OR push_bit 7 (drop_bit 7 n))"
    by simp
  then show ?thesis by (simp add: of_nat_or_eq of_nat_push_bit)
qed

lemma push_bit_or_word: "push_bit k (a OR b) = push_bit k a OR push_bit k (b :: 64 word)"
  by (rule bit_eqI) (auto simp: bit_or_iff bit_push_bit_iff)

lemma and_127_byte: "(b :: byte) AND 127 = take_bit 7 b"
  by (simp add: take_bit_eq_mask mask_eq_exp_minus_1)

lemma and_128_byte: "(b :: byte) AND 128 = 0 \<longleftrightarrow> \<not> bit b 7"
  using and_exp_eq_0_iff_not_bit [of b 7] by simp

lemma ucast_of_nat_byte: "c < 256 \<Longrightarrow> ucast (word_of_nat c :: byte) = (word_of_nat c :: 64 word)"
  by (simp add: word_unat_eq_iff unat_of_nat unsigned_ucast_eq take_bit_eq_mod)

lemma low7_of_cont:
  assumes "c < 128"
  shows "ucast ((word_of_nat (c OR 0x80) :: byte) AND 0x7f) = (word_of_nat c :: 64 word)"
    and "(word_of_nat (c OR 0x80) :: byte) AND 0x80 \<noteq> 0"
    and "ucast ((word_of_nat c :: byte) AND 0x7f) = (word_of_nat c :: 64 word)"
    and "(word_of_nat c :: byte) AND 0x80 = 0"
proof -
  have c: "take_bit 7 c = c" using assms by (simp add: take_bit_nat_eq_self)
  have nb: "\<not> bit c 7" using c by (metis bit_take_bit_iff less_irrefl)
  have t: "take_bit 7 (word_of_nat m :: byte) = word_of_nat (take_bit 7 m)" for m
    by (rule bit_eqI) (auto simp: bit_take_bit_iff bit_of_nat_iff)
  have o: "take_bit 7 (c OR 128) = c"
    using c by (simp add: take_bit_or)
  show "ucast ((word_of_nat (c OR 0x80) :: byte) AND 0x7f) = (word_of_nat c :: 64 word)"
    using assms by (simp only: and_127_byte t o) (simp add: ucast_of_nat_byte)
  show "ucast ((word_of_nat c :: byte) AND 0x7f) = (word_of_nat c :: 64 word)"
    using assms by (simp only: and_127_byte t c) (simp add: ucast_of_nat_byte)
  have "bit (c OR 128) 7" using bit_exp_iff [of 7 7, where 'a = nat] by (simp add: bit_or_iff)
  then show "(word_of_nat (c OR 0x80) :: byte) AND 0x80 \<noteq> 0"
    by (simp add: and_128_byte bit_of_nat_iff)
  show "(word_of_nat c :: byte) AND 0x80 = 0"
    using nb by (simp add: and_128_byte bit_of_nat_iff)
qed

lemma take_bit7_less: "take_bit 7 (n :: nat) < 128"
  using take_bit_nat_less_exp [of 7 n] by simp

lemma readDeltaSize_size_loop:
  "c < 128 \<Longrightarrow> readDeltaSize (size_loop c sz @ rest) acc k =
     Ok (acc OR push_bit k (word_of_nat c OR push_bit 7 (word_of_nat sz)), rest)"
proof (induction c sz arbitrary: acc k rule: size_loop.induct)
  case (1 c sz)
  show ?case
  proof (cases "sz > 0")
    case True
    have IH: "readDeltaSize (size_loop (take_bit 7 sz) (drop_bit 7 sz) @ rest)
        (acc OR push_bit k (word_of_nat c)) (k + 7) =
      Ok ((acc OR push_bit k (word_of_nat c)) OR push_bit (k + 7)
        (word_of_nat (take_bit 7 sz) OR push_bit 7 (word_of_nat (drop_bit 7 sz))), rest)"
      by (rule "1.IH" [OF True take_bit7_less])
    have "size_loop c sz = word_of_nat (c OR 0x80) # size_loop (take_bit 7 sz) (drop_bit 7 sz)"
      using True by (subst size_loop.simps) simp
    with IH show ?thesis
      by (simp add: low7_of_cont [OF "1.prems"] word_of_nat_7bit [of sz, symmetric]
          push_bit_or_word or.assoc push_bit_push_bit)
  next
    case False
    then have "size_loop c sz = [word_of_nat c]" by (subst size_loop.simps) simp
    with False show ?thesis by (simp add: low7_of_cont [OF "1.prems"])
  qed
qed

lemma readDeltaSize_encode:
  "readDeltaSize (deltaEncodeSize n @ rest) 0 0 = Ok (word_of_nat n, rest)"
  by (simp add: deltaEncodeSize_def readDeltaSize_size_loop [OF take_bit7_less]
      word_of_nat_7bit [of n, symmetric])
section \<open>Copy instruction round trip\<close>

lemma bit_flag: "bit (flag b m) n \<longleftrightarrow> b \<and> bit m n"
  by (simp add: flag_def)

lemma and_masks:
  "(w :: byte) AND 1 = 0 \<longleftrightarrow> \<not> bit w 0" "w AND 2 = 0 \<longleftrightarrow> \<not> bit w 1"
  "w AND 4 = 0 \<longleftrightarrow> \<not> bit w 2" "w AND 8 = 0 \<longleftrightarrow> \<not> bit w 3"
  "w AND 16 = 0 \<longleftrightarrow> \<not> bit w 4" "w AND 32 = 0 \<longleftrightarrow> \<not> bit w 5"
  "w AND 64 = 0 \<longleftrightarrow> \<not> bit w 6" "w AND 128 = 0 \<longleftrightarrow> \<not> bit w 7"
  using and_exp_eq_0_iff_not_bit [of w 0] and_exp_eq_0_iff_not_bit [of w 1]
    and_exp_eq_0_iff_not_bit [of w 2] and_exp_eq_0_iff_not_bit [of w 3]
    and_exp_eq_0_iff_not_bit [of w 4] and_exp_eq_0_iff_not_bit [of w 5]
    and_exp_eq_0_iff_not_bit [of w 6] and_exp_eq_0_iff_not_bit [of w 7]
  by simp_all

lemma bit_byte_exp: "k < 8 \<Longrightarrow> bit (2 ^ k :: byte) n \<longleftrightarrow> n = k"
  by (auto simp: bit_exp_iff possible_bit_def)

lemmas bit_byte_masks =
  bit_byte_exp [of 0, simplified] bit_byte_exp [of 1, simplified] bit_byte_exp [of 2, simplified]
  bit_byte_exp [of 3, simplified] bit_byte_exp [of 4, simplified] bit_byte_exp [of 5, simplified]
  bit_byte_exp [of 6, simplified] bit_byte_exp [of 7, simplified]

lemma copy_cmd_flags:
  "copy_cmd off sz AND 1 = 0 \<longleftrightarrow> byte_at 0 off = 0"
  "copy_cmd off sz AND 2 = 0 \<longleftrightarrow> byte_at 1 off = 0"
  "copy_cmd off sz AND 4 = 0 \<longleftrightarrow> byte_at 2 off = 0"
  "copy_cmd off sz AND 8 = 0 \<longleftrightarrow> byte_at 3 off = 0"
  "copy_cmd off sz AND 16 = 0 \<longleftrightarrow> sz = 65536 \<or> byte_at 0 sz = 0"
  "copy_cmd off sz AND 32 = 0 \<longleftrightarrow> sz = 65536 \<or> byte_at 1 sz = 0"
  "copy_cmd off sz AND 64 = 0 \<longleftrightarrow> sz = 65536 \<or> byte_at 2 sz = 0"
  "copy_cmd off sz AND 128 \<noteq> 0"
  by (auto simp: and_masks copy_cmd_def bit_or_iff bit_flag bit_byte_masks)

lemma or_push_bit_add: "a < 2 ^ k \<Longrightarrow> a OR push_bit k b = a + push_bit k (b :: nat)"
proof -
  assume "a < 2 ^ k"
  then have "take_bit k a = a" by (simp add: take_bit_nat_eq_self)
  then have "\<not> bit a n \<or> \<not> bit (push_bit k b) n" for n
    by (metis bit_push_bit_iff bit_take_bit_iff not_le)
  then show ?thesis by (simp add: disjunctive_add)
qed

lemma read_opt_opt_byte:
  "n < 256 \<Longrightarrow> read_opt cmd m k (v, opt_byte cmd m n @ rest) =
     Ok (if cmd AND m \<noteq> 0 then v OR push_bit k n else v, rest)"
  by (simp add: read_opt_def opt_byte_def)

lemma read_opt_byte:
  assumes "n < 256" and "cmd AND m = 0 \<Longrightarrow> n = 0"
  shows "read_opt cmd m k (v, opt_byte cmd m n @ rest) = Ok (v OR push_bit k n, rest)"
  using assms by (simp add: read_opt_opt_byte)

text \<open>What a copy instruction decodes to: 32 offset bits, 24 size bits, and 0 read as 0x10000.\<close>

definition copy_size :: "nat \<Rightarrow> nat" where
  "copy_size sz = (if sz mod 16777216 = 0 then 65536 else sz mod 16777216)"

lemma or_bytes3: "byte_at 0 n OR push_bit 8 (byte_at 1 n) OR push_bit 16 (byte_at 2 n)
   = n mod 16777216"
proof -
  let ?a = "byte_at 0 n" and ?b = "byte_at 1 n" and ?c = "byte_at 2 n"
  have b: "?a < 256" "?b < 256" "?c < 256" by simp_all
  have 1: "?a OR push_bit 8 ?b = ?a + ?b * 256"
    using or_push_bit_add [of ?a 8 ?b] b by (simp add: push_bit_eq_mult)
  have "?a + ?b * 256 < 65536" using b(1,2) by linarith
  then have "?a + ?b * 256 < 2 ^ 16" by simp
  from or_push_bit_add [OF this, of ?c]
  have "(?a + ?b * 256) OR push_bit 16 ?c = ?a + ?b * 256 + ?c * 65536"
    by (simp add: push_bit_eq_mult)
  with 1 have "?a OR push_bit 8 ?b OR push_bit 16 ?c = ?a + ?b * 256 + ?c * 65536"
    by (simp add: or.assoc [symmetric])
  also have "\<dots> = n mod 16777216"
  proof -
    have "?a + ?b * 256 + ?c * 65536 + 16777216 * (n div 16777216) = n"
      using byte_at_steps [of n] by simp
    moreover have "?a + ?b * 256 + ?c * 65536 < 16777216" using b by linarith
    ultimately show ?thesis
      by (metis mod_less mod_mult_self2)
  qed
  finally show ?thesis .
qed

lemma or_byte_top: "n mod 16777216 OR push_bit 24 (byte_at 3 n) = n mod 4294967296"
proof -
  have b: "n mod 16777216 < 16777216" "byte_at 3 n < 256" by simp_all
  have "n mod 16777216 OR push_bit 24 (byte_at 3 n) = n mod 16777216 + byte_at 3 n * 16777216"
    using or_push_bit_add [of "n mod 16777216" 24 "byte_at 3 n"] b by (simp add: push_bit_eq_mult)
  also have "\<dots> = n mod 4294967296"
  proof -
    have "n mod 16777216 + byte_at 3 n * 16777216 + 4294967296 * (n div 4294967296) = n"
      using byte_at_steps(4) [of n] mod_mult_div_eq [of n 16777216] by linarith
    moreover have "n mod 16777216 + byte_at 3 n * 16777216 < 4294967296" using b by linarith
    ultimately show ?thesis by (metis mod_less mod_mult_self2)
  qed
  finally show ?thesis .
qed

lemma or_bytes4: "byte_at 0 n OR push_bit 8 (byte_at 1 n) OR push_bit 16 (byte_at 2 n)
   OR push_bit 24 (byte_at 3 n) = n mod 4294967296"
  by (simp only: or_byte_top [symmetric] or_bytes3 [symmetric] or.assoc)

lemma read_opt_skip: "cmd AND m = 0 \<Longrightarrow> read_opt cmd m k (v, rest) = Ok (v, rest)"
  by (simp add: read_opt_def)

lemma opt_byte_skip: "cmd AND m = 0 \<Longrightarrow> opt_byte cmd m v = []"
  by (simp add: opt_byte_def)

lemma copy_cmd_size_flags:
  assumes "sz \<noteq> 65536"
  shows "copy_cmd off sz AND 16 = 0 \<Longrightarrow> byte_at 0 sz = 0"
    "copy_cmd off sz AND 32 = 0 \<Longrightarrow> byte_at 1 sz = 0"
    "copy_cmd off sz AND 64 = 0 \<Longrightarrow> byte_at 2 sz = 0"
  using assms copy_cmd_flags(5-7) [of off sz] by blast+

lemmas read_copy_bytes =
  read_opt_byte [OF byte_at_less copy_cmd_flags(1) [THEN iffD1]]
  read_opt_byte [OF byte_at_less copy_cmd_flags(2) [THEN iffD1]]
  read_opt_byte [OF byte_at_less copy_cmd_flags(3) [THEN iffD1]]
  read_opt_byte [OF byte_at_less copy_cmd_flags(4) [THEN iffD1]]
  read_opt_byte [OF byte_at_less copy_cmd_size_flags(1)]
  read_opt_byte [OF byte_at_less copy_cmd_size_flags(2)]
  read_opt_byte [OF byte_at_less copy_cmd_size_flags(3)]

lemma read_copy_encodeCopy_aux:
  "sz \<noteq> 65536 \<Longrightarrow> read_copy (copy_cmd off sz) (tl (encodeCopy off sz) @ rest) =
     Ok (off mod 4294967296, copy_size sz, rest)"
  by (simp add: read_copy_def encodeCopy_def Let_def read_copy_bytes or.assoc or_byte_top or_bytes4
    or_bytes3 copy_size_def del: One_nat_def)

text \<open>Size 0x10000 is encoded as size 0 would be: no size byte at all.\<close>

lemma encodeCopy_64K: "copy_cmd off 65536 = copy_cmd off 0" "encodeCopy off 65536 = encodeCopy off 0"
proof -
  show c: "copy_cmd off 65536 = copy_cmd off 0"
    by (simp add: copy_cmd_def flag_def byte_at_def)
  have "opt_byte (copy_cmd off 0) 16 x = []" "opt_byte (copy_cmd off 0) 32 x = []"
    "opt_byte (copy_cmd off 0) 64 x = []" for x
    by (rule opt_byte_skip, simp add: copy_cmd_flags byte_at_def)+
  then show "encodeCopy off 65536 = encodeCopy off 0"
    by (simp add: encodeCopy_def Let_def c)
qed

lemma read_copy_encodeCopy:
  "read_copy (copy_cmd off sz) (tl (encodeCopy off sz) @ rest) =
     Ok (off mod 4294967296, copy_size sz, rest)"
proof (cases "sz = 65536")
  case True
  then show ?thesis
    using read_copy_encodeCopy_aux [of 0 off rest] by (simp add: encodeCopy_64K copy_size_def)
qed (rule read_copy_encodeCopy_aux)

section \<open>Instruction streams\<close>

lemma apply_loop_copy:
  "apply_loop base (encodeCopy off sz @ rest) result =
     (let o' = off mod 4294967296; n = copy_size sz in
      if o' + n > length base then Err CopyPastBase
      else apply_loop base rest (result @ slice o' (o' + n) base))"
proof -
  have "encodeCopy off sz = copy_cmd off sz # tl (encodeCopy off sz)"
    by (simp add: encodeCopy_def Let_def)
  then have "apply_loop base (encodeCopy off sz @ rest) result =
      apply_loop base (copy_cmd off sz # (tl (encodeCopy off sz) @ rest)) result"
    by (metis append_Cons)
  then show ?thesis
    by (simp add: apply_loop.simps(2) copy_cmd_flags(8) read_copy_encodeCopy Let_def)
qed

lemma small_byte:
  assumes "0 < n" "n \<le> 127"
  shows "(word_of_nat n :: byte) AND 128 = 0" "(word_of_nat n :: byte) \<noteq> 0"
    "unat (word_of_nat n :: byte) = n"
proof -
  show u: "unat (word_of_nat n :: byte) = n" using assms by simp
  show "(word_of_nat n :: byte) \<noteq> 0" using u assms by (metis unat_0 less_irrefl)
  show "(word_of_nat n :: byte) AND 128 = 0" using low7_of_cont(4) [of n] assms by simp
qed

lemma apply_loop_insert:
  "apply_loop base (encodeInsert data @ rest) result = apply_loop base rest (result @ data)"
proof (induction data arbitrary: result rule: encodeInsert.induct)
  case (1 data)
  show ?case
  proof (cases "data = []")
    case True
    then show ?thesis by (simp add: encodeInsert.simps [of "[]"])
  next
    case False
    define n where "n = (if length data > 127 then 127 else length data)"
    have n: "0 < n" "n \<le> 127" "n \<le> length data" using False by (auto simp: n_def)
    have e: "encodeInsert data = word_of_nat n # take n data @ encodeInsert (drop n data)"
      using False by (subst encodeInsert.simps) (simp add: Let_def n_def)
    have "apply_loop base (encodeInsert data @ rest) result =
        apply_loop base (encodeInsert (drop n data) @ rest) (result @ take n data)"
      using n small_byte [OF n(1,2)] by (simp add: e apply_loop.simps(2))
    also have "\<dots> = apply_loop base rest ((result @ take n data) @ drop n data)"
      by (rule "1.IH" [OF False refl, folded n_def])
    finally show ?thesis by simp
  qed
qed

lemma apply_loop_flush:
  "apply_loop base (flush buf @ rest) result = apply_loop base rest (result @ buf)"
  by (simp add: flush_def apply_loop_insert)

section \<open>The index only holds offsets of whole blocks\<close>

definition block_offsets :: "nat \<Rightarrow> int list \<Rightarrow> bool" where
  "block_offsets n xs \<longleftrightarrow> (\<forall>e \<in> set xs. -1 \<le> e \<and> e < int n)"

definition idx_wf :: "deltaIndex \<Rightarrow> bool" where
  "idx_wf idx \<longleftrightarrow>
     (table idx \<noteq> [] \<longrightarrow> length (chain_next idx) + 15 = length (src idx) \<and>
        mask idx < length (table idx) \<and>
        block_offsets (length (chain_next idx)) (table idx) \<and>
        block_offsets (length (chain_next idx)) (chain_next idx))"

lemma block_offsets_update:
  "block_offsets n xs \<Longrightarrow> -1 \<le> v \<Longrightarrow> v < int n \<Longrightarrow> block_offsets n (xs[i := v])"
  unfolding block_offsets_def using set_update_subset_insert [of xs i v] by auto

lemma and_le_mask: "(a AND m) \<le> (m :: nat)"
proof -
  have "of_nat (a AND m) = (of_nat a AND of_nat m :: int)" by (simp add: of_nat_and_eq)
  moreover have "(of_nat a AND of_nat m :: int) \<le> of_nat m" by (rule AND_upper2) simp
  ultimately show ?thesis by linarith
qed

definition tables_ok :: "nat \<Rightarrow> nat \<Rightarrow> int list \<times> int list \<Rightarrow> bool" where
  "tables_ok k n st \<longleftrightarrow> length (fst st) = k \<and> length (snd st) = n \<and>
     block_offsets n (fst st) \<and> block_offsets n (snd st)"

lemma index_block_ok:
  assumes "tables_ok k n st" "i < n" "m < k"
  shows "tables_ok k n (index_block s m i st)"
proof -
  obtain tab nxt where st: "st = (tab, nxt)" by fastforce
  define t where "t = hashBlock (drop i s) AND m"
  have "t < length tab" using assms and_le_mask [of _ m] by (auto simp: t_def tables_ok_def st intro: le_less_trans)
  then have "-1 \<le> tab ! t" "tab ! t < int n"
    using assms by (auto simp: tables_ok_def block_offsets_def st)
  then show ?thesis
    using assms unfolding tables_ok_def st index_block_def prod.case Let_def t_def [symmetric]
    by (auto intro!: block_offsets_update)
qed

lemma index_blocks_ok:
  "tables_ok k n st \<Longrightarrow> m < k \<Longrightarrow> (\<And>i. i \<in> set is \<Longrightarrow> i < n) \<Longrightarrow>
   tables_ok k n (foldl (\<lambda>st i. index_block s m i st) st is)"
proof (induction "is" arbitrary: st)
  case (Cons i "is")
  have "tables_ok k n (index_block s m i st)"
    using Cons.prems by (intro index_block_ok) auto
  then show ?case using Cons by auto
qed simp

lemma table_size_pos: "256 \<le> table_size n"
  by (simp add: table_size_def Let_def)

lemma newDeltaIndex_wf: "idx_wf (newDeltaIndex s)"
proof (cases "length s < blockSize")
  case True
  then show ?thesis by (simp add: newDeltaIndex_def idx_wf_def)
next
  case False
  define k where "k = table_size (length s)"
  define n where "n = length s - blockSize + 1"
  define st where "st = foldl (\<lambda>st i. index_block s (k - 1) i st)
      (replicate k (-1), replicate n (-1)) [0..<n]"
  have k: "256 \<le> k" by (simp add: k_def table_size_pos)
  have "tables_ok k n st"
    unfolding st_def by (rule index_blocks_ok) (use k in \<open>auto simp: tables_ok_def block_offsets_def n_def\<close>)
  moreover have "newDeltaIndex s = \<lparr>src = s, table = fst st, chain_next = snd st, mask = k - 1\<rparr>"
    using False by (simp add: newDeltaIndex_def Let_def st_def k_def n_def split: prod.splits)
  ultimately show ?thesis
    using False k by (auto simp: idx_wf_def tables_ok_def n_def)
qed

lemma newDeltaIndex_src [simp]: "src (newDeltaIndex s) = s"
  by (simp add: newDeltaIndex_def Let_def split: prod.splits)

section \<open>Match search returns real matches\<close>

definition is_match :: "bytes \<Rightarrow> bytes \<Rightarrow> nat \<Rightarrow> nat \<Rightarrow> nat \<Rightarrow> bool" where
  "is_match s tgt so to n \<longleftrightarrow> so + n \<le> length s \<and> to + n \<le> length tgt \<and>
     slice so (so + n) s = slice to (to + n) tgt"

lemma match_loop_sound:
  assumes "so + maxLen \<le> length s" "to + maxLen \<le> length tgt" "len \<le> maxLen"
    and "\<And>k. k < len \<Longrightarrow> s ! (so + k) = tgt ! (to + k)"
  shows "match_loop s tgt so to maxLen len \<le> maxLen \<and>
    (\<forall>k < match_loop s tgt so to maxLen len. s ! (so + k) = tgt ! (to + k))"
  using assms
proof (induction s tgt so to maxLen len rule: match_loop.induct)
  case (1 s tgt so to maxLen len)
  show ?case
  proof (cases "len < maxLen \<and> s ! (so + len) = tgt ! (to + len)")
    case True
    with "1.IH" "1.prems" show ?thesis
      by (subst (1 2) match_loop.simps) (auto simp: less_Suc_eq)
  next
    case False
    with "1.prems" show ?thesis by (subst (1 2) match_loop.simps) auto
  qed
qed

lemma matchLength_is_match:
  assumes "so \<le> length (src idx)" "to \<le> length tgt"
  shows "is_match (src idx) tgt so to (matchLength idx so tgt to)"
proof -
  let ?m = "min (length (src idx) - so) (length tgt - to)"
  have "matchLength idx so tgt to \<le> ?m \<and>
    (\<forall>k < matchLength idx so tgt to. src idx ! (so + k) = tgt ! (to + k))"
    unfolding matchLength_def by (rule match_loop_sound) (use assms in auto)
  then show ?thesis
    unfolding is_match_def using assms by (auto intro!: slice_nth_eqI)
qed

definition best_ok :: "deltaIndex \<Rightarrow> bytes \<Rightarrow> nat \<Rightarrow> int \<times> nat \<Rightarrow> bool" where
  "best_ok idx tgt to best \<longleftrightarrow> snd best = 0 \<or>
     (0 \<le> fst best \<and> nat (fst best) < length (src idx) \<and>
      is_match (src idx) tgt (nat (fst best)) to (snd best))"

lemma chain_walk_best_ok:
  assumes "idx_wf idx" "table idx \<noteq> []" "to \<le> length tgt"
    and "-1 \<le> so" "so < int (length (chain_next idx))"
    and "best_ok idx tgt to (bo, bl)"
  shows "best_ok idx tgt to (chain_walk idx tgt to so bo bl c)"
  using assms
proof (induction idx tgt to so bo bl c rule: chain_walk.induct)
  case (1 idx tgt to so bo bl c)
  show ?case
  proof (cases "0 \<le> so \<and> c < maxChainLength")
    case True
    define ml where "ml = matchLength idx (nat so) tgt to"
    define best where "best = (if ml > bl then (so, ml) else (bo, bl))"
    have so: "nat so < length (src idx)" "nat so < length (chain_next idx)"
      using "1.prems" True by (auto simp: idx_wf_def)
    have nxt: "-1 \<le> chain_next idx ! nat so" "chain_next idx ! nat so < int (length (chain_next idx))"
      using "1.prems"(1,2) so(2) by (auto simp: idx_wf_def block_offsets_def)
    have b: "best_ok idx tgt to best"
      using "1.prems" True so(1) matchLength_is_match [of "nat so" idx to tgt]
      by (auto simp: best_def best_ok_def ml_def)
    have step: "chain_walk idx tgt to so bo bl c =
        chain_walk idx tgt to (chain_next idx ! nat so) (fst best) (snd best) (Suc c)"
      using True by (subst chain_walk.simps) (simp add: Let_def best_def ml_def split: prod.splits)
    have "best_ok idx tgt to (chain_walk idx tgt to (chain_next idx ! nat so) (fst best) (snd best) (Suc c))"
      by (rule "1.IH" [OF True ml_def best_def prod.collapse "1.prems"(1-3) nxt]) (simp add: b)
    then show ?thesis by (simp add: step)
  next
    case False
    then have "chain_walk idx tgt to so bo bl c = (bo, bl)"
      by (subst chain_walk.simps) auto
    with "1.prems" show ?thesis by simp
  qed
qed

lemma findMatch_sound:
  assumes "idx_wf idx" "findMatch idx tgt to = (so, n)" "n \<ge> minMatchSize"
  shows "0 \<le> so \<and> nat so < length (src idx) \<and> is_match (src idx) tgt (nat so) to n"
proof -
  have g: "table idx \<noteq> []" "to + blockSize \<le> length tgt"
    using assms(2,3) by (auto simp: findMatch_def split: if_splits)
  define h where "h = hashBlock (drop to tgt) AND mask idx"
  have "h < length (table idx)"
    using assms(1) g and_le_mask [of _ "mask idx"] by (auto simp: h_def idx_wf_def intro: le_less_trans)
  then have e: "-1 \<le> table idx ! h" "table idx ! h < int (length (chain_next idx))"
    using assms(1) g by (auto simp: idx_wf_def block_offsets_def)
  define w where "w = chain_walk idx tgt to (table idx ! h) (-1) 0 0"
  have "best_ok idx tgt to w"
    unfolding w_def using g e assms(1) by (intro chain_walk_best_ok) (auto simp: best_ok_def)
  moreover have "(so, n) = w"
    using assms(2,3) g by (auto simp: findMatch_def Let_def h_def [symmetric] w_def [symmetric]
      split: prod.splits if_splits)
  ultimately show ?thesis using assms(3) by (auto simp: best_ok_def)
qed

section \<open>Round trip\<close>

text \<open>The three ways one iteration of the main loop can go.\<close>

lemma gen_loop_done: "length tgt \<le> to \<Longrightarrow> gen_loop idx tgt to delta buf = delta @ flush buf"
  by (subst gen_loop.simps) simp

lemma gen_loop_copy:
  "to < length tgt \<Longrightarrow> findMatch idx tgt to = (so, n) \<Longrightarrow> minMatchSize \<le> n \<Longrightarrow>
   gen_loop idx tgt to delta buf =
     gen_loop idx tgt (to + n) (delta @ flush buf @ encodeCopy (nat so) n) []"
  by (subst gen_loop.simps) simp

lemma gen_loop_insert:
  "to < length tgt \<Longrightarrow> findMatch idx tgt to = (so, n) \<Longrightarrow> n < minMatchSize \<Longrightarrow>
   gen_loop idx tgt to delta buf =
     (if length buf = 126
      then gen_loop idx tgt (Suc to) (delta @ encodeInsert (buf @ [tgt ! to])) []
      else gen_loop idx tgt (Suc to) delta (buf @ [tgt ! to]))"
  by (subst gen_loop.simps) (simp add: Let_def)

lemma gen_loop_induct [case_names finish copy insert]:
  assumes "\<And>to buf. length tgt \<le> to \<Longrightarrow> P to buf"
    and "\<And>to buf so n. to < length tgt \<Longrightarrow> findMatch idx tgt to = (so, n) \<Longrightarrow> minMatchSize \<le> n \<Longrightarrow>
      P (to + n) [] \<Longrightarrow> P to buf"
    and "\<And>to buf so n. to < length tgt \<Longrightarrow> findMatch idx tgt to = (so, n) \<Longrightarrow> n < minMatchSize \<Longrightarrow>
      P (Suc to) [] \<Longrightarrow> P (Suc to) (buf @ [tgt ! to]) \<Longrightarrow> P to buf"
  shows "P to buf"
proof (induction "length tgt - to" arbitrary: to buf rule: less_induct)
  case less
  obtain so n where m: "findMatch idx tgt to = (so, n)" by fastforce
  show ?case
  proof (cases "to < length tgt")
    case True
    show ?thesis
    proof (cases "minMatchSize \<le> n")
      case m4: True
      show ?thesis by (rule assms(2) [OF True m m4]) (use True m4 in \<open>intro less, simp\<close>)
    next
      case False
      then show ?thesis by (intro assms(3) [OF True m]) (use True in \<open>auto intro!: less\<close>)
    qed
  qed (simp add: assms(1))
qed

lemma gen_loop_prefix: "gen_loop idx tgt to delta buf = delta @ gen_loop idx tgt to [] buf"
proof (induction to buf arbitrary: delta rule: gen_loop_induct [where idx = idx and tgt = tgt])
  case (finish to buf)
  then show ?case by (simp add: gen_loop_done)
next
  case (copy to buf so n)
  have "gen_loop idx tgt to d buf = d @ flush buf @ encodeCopy (nat so) n @ gen_loop idx tgt (to + n) [] []"
    for d using copy(4) [of "d @ flush buf @ encodeCopy (nat so) n"]
    by (simp add: gen_loop_copy [OF copy(1-3)])
  then show ?case by simp
next
  case (insert to buf so n)
  have "gen_loop idx tgt to d buf = d @
      (if length buf = 126 then encodeInsert (buf @ [tgt ! to]) @ gen_loop idx tgt (Suc to) [] []
       else gen_loop idx tgt (Suc to) [] (buf @ [tgt ! to]))"
    for d using insert(4) [of "d @ encodeInsert (buf @ [tgt ! to])"] insert(5) [of d]
    by (simp add: gen_loop_insert [OF insert(1-3)])
  then show ?case by simp
qed

text \<open>The copies that the 32 offset bits and 24 size bits can express.\<close>

definition encodable :: "bytes \<Rightarrow> bytes \<Rightarrow> bool" where
  "encodable s tgt \<longleftrightarrow> length s \<le> 4294967296 \<and>
     (length s < 16777216 \<or> length tgt < 16777216) \<and> length tgt \<le> nat maxAlloc"

lemma apply_gen_loop:
  assumes "idx_wf idx" and "encodable (src idx) tgt"
  shows "apply_loop (src idx) (gen_loop idx tgt to [] buf) result = Ok (result @ buf @ drop to tgt)"
proof (induction to buf arbitrary: result rule: gen_loop_induct [where idx = idx and tgt = tgt])
  case (finish to buf)
  then show ?case using apply_loop_flush [of "src idx" buf "[]"] by (simp add: gen_loop_done)
next
  case (copy to buf so n)
  have m: "nat so < length (src idx)" "nat so + n \<le> length (src idx)" "to + n \<le> length tgt"
    "slice (nat so) (nat so + n) (src idx) = slice to (to + n) tgt"
    using findMatch_sound [OF assms(1) copy(2,3)] by (auto simp: is_match_def)
  have "n < 16777216" "nat so < 4294967296" using assms(2) m by (auto simp: encodable_def)
  then have c: "copy_size n = n" "nat so mod 4294967296 = nat so"
    using copy(3) by (auto simp: copy_size_def)
  have "gen_loop idx tgt to [] buf =
      flush buf @ encodeCopy (nat so) n @ gen_loop idx tgt (to + n) [] []"
    using gen_loop_prefix [of idx tgt "to + n" "flush buf @ encodeCopy (nat so) n" "[]"]
    by (simp add: gen_loop_copy [OF copy(1-3)])
  then have "apply_loop (src idx) (gen_loop idx tgt to [] buf) result =
      apply_loop (src idx) (gen_loop idx tgt (to + n) [] [])
        (result @ buf @ slice to (to + n) tgt)"
    using m by (simp add: apply_loop_flush apply_loop_copy c)
  then show ?case
    using m(3) slice_append_add [of to "to + n" "length tgt" tgt]
    by (simp add: copy(4)) (simp add: slice_def)
next
  case (insert to buf so n)
  have d: "[tgt ! to] @ drop (Suc to) tgt = drop to tgt"
    using insert(1) by (simp add: Cons_nth_drop_Suc)
  show ?case
  proof (cases "length buf = 126")
    case True
    have "gen_loop idx tgt to [] buf =
        encodeInsert (buf @ [tgt ! to]) @ gen_loop idx tgt (Suc to) [] []"
      using True gen_loop_prefix [of idx tgt "Suc to" "encodeInsert (buf @ [tgt ! to])" "[]"]
      by (simp add: gen_loop_insert [OF insert(1-3)])
    then show ?thesis using d by (simp add: apply_loop_insert insert(4))
  next
    case False
    then show ?thesis using d by (simp add: gen_loop_insert [OF insert(1-3)] insert(5))
  qed
qed

lemma GenerateDelta_Some:
  assumes "GenerateDelta s tgt = Some d"
  shows "d = deltaEncodeSize (length s) @ deltaEncodeSize (length tgt) @
      gen_loop (newDeltaIndex s) tgt 0 [] []" and "length d + 20 < length tgt" and "16 \<le> length tgt"
proof -
  have "d = gen_loop (newDeltaIndex s) tgt 0 (deltaEncodeSize (length s) @ deltaEncodeSize (length tgt)) []"
    using assms by (auto simp: GenerateDelta_def Let_def split: if_splits)
  then show "d = deltaEncodeSize (length s) @ deltaEncodeSize (length tgt) @
      gen_loop (newDeltaIndex s) tgt 0 [] []"
    by (subst (asm) gen_loop_prefix) simp
  show "length d + 20 < length tgt" "16 \<le> length tgt"
    using assms by (auto simp: GenerateDelta_def Let_def split: if_splits)
qed

lemma size_loop_nonempty [simp]: "size_loop c n \<noteq> []"
  by (subst size_loop.simps) simp

lemma deltaEncodeSize_nonempty: "0 < length (deltaEncodeSize n)"
  by (simp add: deltaEncodeSize_def)

lemma sint_word_of_nat: "n < 9223372036854775808 \<Longrightarrow> sint (word_of_nat n :: 64 word) = int n"
  by (simp add: signed_of_nat signed_take_bit_int_eq_self)

lemma apply_generated:
  assumes "GenerateDelta s tgt = Some d" and e: "encodable s tgt"
  shows "applyDelta s d = Ok tgt"
proof -
  note d = GenerateDelta_Some(1) [OF assms(1)]
  have "2 \<le> length d"
    using deltaEncodeSize_nonempty [of "length s"] deltaEncodeSize_nonempty [of "length tgt"]
    unfolding d length_append by linarith
  moreover have "length s < 9223372036854775808" "length tgt < 9223372036854775808"
    and "int (length tgt) \<le> maxAlloc"
    using e by (auto simp: encodable_def)
  moreover have "apply_loop s (gen_loop (newDeltaIndex s) tgt 0 [] []) [] = Ok tgt"
    using apply_gen_loop [OF newDeltaIndex_wf, of s tgt 0 "[]" "[]"] e by simp
  ultimately show ?thesis
    by (simp add: applyDelta_def d readDeltaSize_encode sint_word_of_nat)
qed


lemma example_index:
  "newDeltaIndex (replicate 16 7) =
     \<lparr>src = replicate 16 7, table = (replicate 256 (-1))[hashBlock (replicate 16 7) AND 255 := 0],
      chain_next = [-1], mask = 255\<rparr>"
proof -
  have "table_size 16 = 256"
    by (simp add: table_size_def Let_def grow_table.simps)
  moreover have "hashBlock (replicate 16 7) AND 255 < 256"
    using and_le_mask [of "hashBlock (replicate 16 7)" 255] by simp
  ultimately show ?thesis
    by (simp add: newDeltaIndex_def Let_def index_block_def)
qed

lemma example_match:
  assumes "to + 16 \<le> 40"
  shows "findMatch (newDeltaIndex (replicate 16 7)) (replicate 40 7) to = (0, 16)"
proof -
  let ?idx = "newDeltaIndex (replicate 16 (7 :: byte))"
  have "hashBlock (drop to (replicate 40 7)) = hashBlock (replicate 16 7)"
  proof -
    have "take 16 (drop to (replicate 40 (7 :: byte))) = replicate 16 7"
      using assms by (simp add: min_def)
    then show ?thesis by (simp add: hashBlock_def)
  qed
  moreover have "hashBlock (replicate 16 7) AND 255 < 256"
    using and_le_mask [of "hashBlock (replicate 16 7)" 255] by simp
  ultimately have h: "table ?idx ! (hashBlock (drop to (replicate 40 7)) AND mask ?idx) = 0"
    "table ?idx \<noteq> []"
    by (simp_all add: example_index)
  have "match_loop (replicate 16 (7 :: byte)) (replicate 40 7) 0 to 16 k = 16" if "k \<le> 16" for k
    using that
  proof (induction "16 - k" arbitrary: k)
    case 0
    then show ?case by (subst match_loop.simps) simp
  next
    case (Suc x)
    then have "k < 16" "x = 16 - Suc k" by simp_all
    with Suc assms show ?case by (subst match_loop.simps) simp
  qed
  then have "matchLength ?idx 0 (replicate 40 7) to = 16"
    using assms min_absorb1 [of 16 "40 - to"] by (simp add: matchLength_def example_index)
  then have "chain_walk ?idx (replicate 40 7) to 0 (-1) 0 0 = (0, 16)"
    by (subst chain_walk.simps) (simp add: example_index chain_walk.simps [of _ _ _ "-1"])
  then show ?thesis using assms h by (simp add: findMatch_def)
qed

lemma example_no_match:
  assumes "40 < to + 16"
  shows "findMatch (newDeltaIndex (replicate 16 7)) (replicate 40 7) to = (-1, 0)"
  using assms by (simp add: findMatch_def)

lemma example_delta:
  "gen_loop (newDeltaIndex (replicate 16 7)) (replicate 40 7) 0 [] [] =
     encodeCopy 0 16 @ encodeCopy 0 16 @ flush [7, 7, 7, 7, 7, 7, 7, 7]"
  by (simp add: gen_loop_copy example_match gen_loop_insert example_no_match gen_loop_done
    flush_def)

lemma example_length:
  "length (deltaEncodeSize 16) = 1" "length (deltaEncodeSize 40) = 1"
  "length (encodeCopy 0 16) = 2" "length (flush [7, 7, 7, 7, 7, 7, 7, 7]) = 9"
proof -
  show "length (deltaEncodeSize 16) = 1" "length (deltaEncodeSize 40) = 1"
    by (simp_all add: deltaEncodeSize_def size_loop.simps take_bit_eq_mod drop_bit_eq_div)
  have b: "byte_at k 0 = 0" for k by (simp add: byte_at_def)
  have b16: "byte_at 0 16 = 16" "byte_at 1 16 = 0" "byte_at 2 16 = 0" by (simp_all add: byte_at_def)
  have c: "copy_cmd 0 16 = 144" by (simp add: copy_cmd_def flag_def b b16 del: One_nat_def)
  show "length (encodeCopy 0 16) = 2"
    by (simp add: encodeCopy_def Let_def c opt_byte_def)
  show "length (flush [7, 7, 7, 7, 7, 7, 7, 7]) = 9"
    by (simp add: flush_def encodeInsert.simps)
qed


text \<open>C32: a copy of 16 MiB or more loses size bits: the instruction that \<open>encodeCopy\<close> writes for
  it makes the decoder copy strictly fewer bytes than were matched.\<close>

theorem encodeCopy_truncates:
  assumes "16777216 \<le> sz" and "off + sz \<le> length base" and "off < 4294967296"
  shows "\<exists>n < sz. apply_loop base (encodeCopy off sz @ rest) result =
    apply_loop base rest (result @ slice off (off + n) base)"
proof -
  have "copy_size sz < sz"
    using assms(1) mod_less_divisor [of 16777216 sz] unfolding copy_size_def by (auto split: if_splits)
  then show ?thesis
    using assms by (intro exI [of _ "copy_size sz"]) (simp add: apply_loop_copy Let_def)
qed

theorem encodeCopy_truncates_witness:
  "\<exists>n < 16777216. apply_loop (replicate 16777216 0) (encodeCopy 0 16777216 @ []) [] =
    apply_loop (replicate 16777216 0) [] ([] @ slice 0 (0 + n) (replicate 16777216 0))"
  by (rule encodeCopy_truncates) (simp_all add: length_replicate)

text \<open>A delta cut in front of a copy operand makes the decoder read past the slice and panic,
  instead of returning an error.\<close>

lemma applyDelta_truncated_panics:
  assumes "length base < 9223372036854775808" and "int r \<le> maxAlloc"
  shows "applyDelta base (deltaEncodeSize (length base) @ deltaEncodeSize r @ [0x81]) = Panic"
proof -
  have "2 \<le> length (deltaEncodeSize (length base) @ deltaEncodeSize r @ [0x81])"
    using deltaEncodeSize_nonempty [of "length base"] deltaEncodeSize_nonempty [of r]
    unfolding length_append by linarith
  moreover have "apply_loop base [0x81] [] = Panic"
    by (simp add: apply_loop.simps(2) read_copy_def read_opt_def)
  ultimately show ?thesis
    using assms unfolding applyDelta_def
    by (simp add: readDeltaSize_encode sint_word_of_nat not_less del: length_append)
qed

lemma applyDelta_truncated_panics_witness:
  "applyDelta [1, 2, 3] (deltaEncodeSize (length [1, 2, 3 :: byte]) @ deltaEncodeSize 3 @ [0x81]) = Panic"
  by (rule applyDelta_truncated_panics) simp_all

end
