(* ===== verification/GoText.thy ===== *)
theory GoText
  imports Prelude "HOL-Library.AList"
begin

text \<open>
  Text helpers: conversions between Go strings and byte slices, hexadecimal and decimal
  printing (\<open>encoding/hex\<close>, \<open>fmt\<close>), the functions of package \<open>strings\<close> the code uses, and
  Go maps as association lists with distinct keys (\<open>AList.update\<close>, \<open>map_of\<close>).
\<close>

section \<open>Strings and bytes\<close>

lemma byte_less: "unat (x :: byte) < 256"
  using unsigned_less [of x] by simp

definition to_bytes :: "string \<Rightarrow> bytes" where
  "to_bytes = map (\<lambda>c. word_of_nat (of_char c))"

definition of_bytes :: "bytes \<Rightarrow> string" where
  "of_bytes = map (\<lambda>b. char_of (unat b))"

lemma length_to_bytes [simp]: "length (to_bytes s) = length s"
  by (simp add: to_bytes_def)

lemma length_of_bytes [simp]: "length (of_bytes s) = length s"
  by (simp add: of_bytes_def)

lemma to_bytes_append [simp]: "to_bytes (a @ b) = to_bytes a @ to_bytes b"
  by (simp add: to_bytes_def)

lemma of_char_nat_less: "(of_char c :: nat) < 256"
  by (rule nat_of_char_less_256)

lemma of_bytes_to_bytes [simp]: "of_bytes (to_bytes s) = s"
  by (simp add: of_bytes_def to_bytes_def comp_def of_char_nat_less)

lemma to_bytes_of_bytes [simp]: "to_bytes (of_bytes b) = b"
proof -
  have "(word_of_nat (of_char (char_of (unat x) :: char)) :: byte) = x" for x
    using byte_less [of x] by simp
  then show ?thesis by (simp add: of_bytes_def to_bytes_def comp_def)
qed

lemma inj_to_bytes: "to_bytes a = to_bytes b \<longleftrightarrow> a = b"
  by (metis of_bytes_to_bytes)

section \<open>Hexadecimal and decimal\<close>

definition hex_digits :: string where
  "hex_digits = ''0123456789abcdef''"

definition hex_encode :: "bytes \<Rightarrow> string" where
  "hex_encode b = concat (map (\<lambda>x. [hex_digits ! (unat x div 16), hex_digits ! (unat x mod 16)]) b)"

text \<open>\<open>fromHexChar\<close> accepts both letter cases.\<close>

definition hex_val :: "char \<Rightarrow> nat option" where
  "hex_val c = (let n = of_char c :: nat in
     if 48 \<le> n \<and> n \<le> 57 then Some (n - 48)
     else if 97 \<le> n \<and> n \<le> 102 then Some (n - 87)
     else if 65 \<le> n \<and> n \<le> 70 then Some (n - 55)
     else None)"

fun hex_decode :: "string \<Rightarrow> bytes option" where
  "hex_decode [] = Some []"
| "hex_decode [_] = None"
| "hex_decode (a # b # s) =
     (case (hex_val a, hex_val b, hex_decode s) of
        (Some x, Some y, Some r) \<Rightarrow> Some (word_of_nat (16 * x + y) # r)
      | _ \<Rightarrow> None)"

lemma length_hex_encode [simp]: "length (hex_encode b) = 2 * length b"
  by (induction b) (simp_all add: hex_encode_def)

lemma hex_val_digit: "n < 16 \<Longrightarrow> hex_val (hex_digits ! n) = Some n"
proof -
  assume "n < 16"
  then have "n \<in> {0,1,2,3,4,5,6,7,8,9,10,11,12,13,14,15}"
    unfolding insert_iff empty_iff by presburger
  then show ?thesis by (elim insertE emptyE) (simp_all add: hex_digits_def hex_val_def)
qed

lemma hex_decode_encode [simp]: "hex_decode (hex_encode b) = Some b"
proof (induction b)
  case (Cons x b)
  have "unat x div 16 < 16" using byte_less [of x] by (simp add: div_less_iff_less_mult)
  with Cons show ?case by (simp add: hex_encode_def hex_val_digit)
qed (simp add: hex_encode_def)

lemma hex_encode_inj: "hex_encode a = hex_encode b \<longleftrightarrow> a = b"
  by (metis hex_decode_encode option.inject)

lemma hex_decode_length: "hex_decode s = Some b \<Longrightarrow> length s = 2 * length b"
  by (induction s arbitrary: b rule: hex_decode.induct) (auto split: option.splits)

fun show_nat :: "nat \<Rightarrow> string" where
  "show_nat n = (if n < 10 then [char_of (48 + n)]
     else show_nat (n div 10) @ [char_of (48 + n mod 10)])"

declare show_nat.simps [simp del]

definition show_int :: "int \<Rightarrow> string" where
  "show_int n = (if n < 0 then CHR ''-'' # show_nat (nat (- n)) else show_nat (nat n))"

definition is_digit :: "char \<Rightarrow> bool" where
  "is_digit ch \<longleftrightarrow> 48 \<le> (of_char ch :: nat) \<and> of_char ch \<le> (57 :: nat)"

definition digits_value :: "string \<Rightarrow> nat" where
  "digits_value = foldl (\<lambda>n ch. 10 * n + (of_char ch - 48)) 0"

lemma digit_of:
  fixes n :: nat
  shows "n < 10 \<Longrightarrow> is_digit (char_of (48 + n))" "n < 10 \<Longrightarrow> of_char (char_of (48 + n) :: char) = 48 + n"
  by (simp_all add: is_digit_def)

lemma show_nat_digits: "list_all is_digit (show_nat n) \<and> show_nat n \<noteq> []"
proof (induction n rule: show_nat.induct)
  case (1 n)
  then show ?case by (subst (1 2) show_nat.simps) (auto simp: digit_of)
qed

lemma digits_value_show: "digits_value (show_nat n) = n"
proof (induction n rule: show_nat.induct)
  case (1 n)
  have "digits_value (s @ [char_of (48 + d)]) = 10 * digits_value s + d" if "d < 10" for s and d :: nat
    using digit_of(2) [OF that] by (simp add: digits_value_def)
  with 1 show ?case by (subst show_nat.simps) (auto simp: digits_value_def)
qed

lemma show_int_inj: "show_int a = show_int b \<Longrightarrow> a = b"
proof -
  let ?f = "\<lambda>s. if hd s = CHR ''-'' then - int (digits_value (tl s)) else int (digits_value s)"
  have minus: "hd (show_nat n) \<noteq> CHR ''-''" for n
    using show_nat_digits [of n] by (cases "show_nat n") (auto simp: is_digit_def)
  have f: "?f (show_int n) = n" for n
    by (cases "n < 0") (simp_all add: show_int_def minus digits_value_show)
  assume "show_int a = show_int b"
  then have "?f (show_int a) = ?f (show_int b)" by (simp only:)
  then show "a = b" unfolding f .
qed

section \<open>Package \<open>strings\<close>\<close>

definition HasPrefix :: "'a list \<Rightarrow> 'a list \<Rightarrow> bool" where
  "HasPrefix s p \<longleftrightarrow> take (length p) s = p"

definition HasSuffix :: "'a list \<Rightarrow> 'a list \<Rightarrow> bool" where
  "HasSuffix s p \<longleftrightarrow> length p \<le> length s \<and> drop (length s - length p) s = p"

definition TrimPrefix :: "'a list \<Rightarrow> 'a list \<Rightarrow> 'a list" where
  "TrimPrefix s p = (if HasPrefix s p then drop (length p) s else s)"

definition TrimSuffix :: "'a list \<Rightarrow> 'a list \<Rightarrow> 'a list" where
  "TrimSuffix s p = (if HasSuffix s p then take (length s - length p) s else s)"

lemma HasPrefix_iff: "HasPrefix s p \<longleftrightarrow> (\<exists>t. s = p @ t)"
  unfolding HasPrefix_def by (metis append_eq_conv_conj append_take_drop_id)

lemma HasSuffix_iff: "HasSuffix s p \<longleftrightarrow> (\<exists>t. s = t @ p)"
proof
  assume "HasSuffix s p"
  then have "s = take (length s - length p) s @ p"
    unfolding HasSuffix_def by (metis append_take_drop_id)
  then show "\<exists>t. s = t @ p" ..
qed (auto simp: HasSuffix_def)

lemma HasPrefix_append [simp]: "HasPrefix (p @ t) p"
  by (simp add: HasPrefix_def)

lemma TrimPrefix_append [simp]: "TrimPrefix (p @ t) p = t"
  by (simp add: TrimPrefix_def)

text \<open>\<open>strings.Index\<close> and \<open>strings.Contains\<close>: the first occurrence of a substring.\<close>

fun str_index :: "'a list \<Rightarrow> 'a list \<Rightarrow> nat option" where
  "str_index [] p = (if p = [] then Some 0 else None)"
| "str_index (c # s) p = (if HasPrefix (c # s) p then Some 0 else map_option Suc (str_index s p))"

definition Contains :: "'a list \<Rightarrow> 'a list \<Rightarrow> bool" where
  "Contains s p \<longleftrightarrow> str_index s p \<noteq> None"

lemma str_index_Some:
  "str_index s p = Some i \<Longrightarrow> i + length p \<le> length s \<and> HasPrefix (drop i s) p"
proof (induction s p arbitrary: i rule: str_index.induct)
  case (2 c s p)
  then show ?case
    by (cases i) (auto simp: HasPrefix_iff split: if_splits dest!: arg_cong [where f = length])
qed (auto simp: HasPrefix_def split: if_splits)

lemma str_index_absent: "c \<notin> set s \<Longrightarrow> str_index s (c # t) = None"
  by (induction s) (auto simp: HasPrefix_def)

lemma str_index_char: "c \<notin> set a \<Longrightarrow> str_index (a @ c # b) [c] = Some (length a)"
  by (induction a) (auto simp: HasPrefix_def)

text \<open>\<open>bytes.Split(data, "\n")\<close> and \<open>strings.Split\<close> for a one-byte separator.\<close>

fun split_on :: "'a \<Rightarrow> 'a list \<Rightarrow> 'a list list" where
  "split_on x [] = [[]]"
| "split_on x (c # s) =
     (if c = x then [] # split_on x s
      else (case split_on x s of l # ls \<Rightarrow> (c # l) # ls | [] \<Rightarrow> [[c]]))"

lemma split_on_nonempty [simp]: "split_on x s \<noteq> []"
  by (induction s) (auto split: list.splits)

lemma split_on_line: "x \<notin> set l \<Longrightarrow> split_on x (l @ x # s) = l # split_on x s"
  by (induction l) auto

lemma split_on_none: "x \<notin> set l \<Longrightarrow> split_on x l = [l]"
  by (induction l) auto

section \<open>Maps\<close>

type_synonym ('k, 'v) gomap = "('k \<times> 'v) list"

lemma map_of_update [simp]: "map_of (AList.update k v m) = (map_of m)(k \<mapsto> v)"
  by (rule update_conv')

section \<open>Spaces and numbers\<close>

text \<open>\<open>strings.TrimSpace\<close> on ASCII.\<close>

definition is_space :: "char \<Rightarrow> bool" where
  "is_space c \<longleftrightarrow> (of_char c :: nat) \<in> {9, 10, 11, 12, 13, 32}"

definition TrimSpace :: "string \<Rightarrow> string" where
  "TrimSpace s = rev (dropWhile is_space (rev (dropWhile is_space s)))"

text \<open>\<open>strings.Fields\<close> on ASCII.\<close>

definition Fields :: "string \<Rightarrow> string list" where
  "Fields s = filter (\<lambda>f. f \<noteq> []) (split_on CHR '' '' (map (\<lambda>ch. if is_space ch then CHR '' '' else ch) s))"

text \<open>A Go \<open>int\<close> has 64 bits and its arithmetic wraps.\<close>

definition wrap64 :: "int \<Rightarrow> int" where
  "wrap64 n = (n + 2 ^ 63) mod 2 ^ 64 - 2 ^ 63"

lemma wrap64_small [simp]: "- (2 ^ 63) \<le> n \<Longrightarrow> n < 2 ^ 63 \<Longrightarrow> wrap64 n = n"
  by (simp add: wrap64_def)

definition Atoi :: "string \<Rightarrow> int option" where
  "Atoi s =
     (let signed = s \<noteq> [] \<and> hd s \<in> {CHR ''-'', CHR ''+''};
          digits = (if signed then tl s else s);
          v = (if signed \<and> hd s = CHR ''-'' then - int (digits_value digits) else int (digits_value digits))
      in if digits = [] \<or> \<not> list_all is_digit digits \<or> v < - (2 ^ 63) \<or> v \<ge> 2 ^ 63 then None else Some v)"

lemma Atoi_show_nat: "n < 2 ^ 63 \<Longrightarrow> Atoi (show_nat n) = Some (int n)"
proof -
  assume n: "n < 2 ^ 63"
  obtain ch t where s: "show_nat n = ch # t" using show_nat_digits [of n] by (cases "show_nat n") auto
  have "is_digit ch" using show_nat_digits [of n] by (simp add: s)
  then have "hd (show_nat n) \<notin> {CHR ''-'', CHR ''+''}" by (auto simp: s is_digit_def)
  moreover have "int n < 2 ^ 63" using n by simp
  ultimately show ?thesis using show_nat_digits [of n] by (simp add: Atoi_def Let_def digits_value_show)
qed

end
