(* ===== verification/GitPack.thy ===== *)
theory GitPack
  imports Delta GoText
begin

text \<open>
  Git pack files: object headers, \<open>writePack\<close>, \<open>writePackWithDeltas\<close> of
  \<open>src/kailab/sshserver/gitpack.go\<close> and the parser of
  \<open>src/kailab/sshserver/gitpack_parse.go\<close>. SHA-1 and zlib are parameters: \<open>sha\<close> is any
  function from bytes to bytes; \<open>z\<close> reads a stream (\<open>None\<close>: the header is refused; otherwise the
  bytes produced before the end or the first error, and whether the end was clean); \<open>c\<close>
  compresses. \<open>zlib_codec\<close> states the format's documented behaviour where a theorem needs it.
\<close>

type_synonym zlib = "bytes \<Rightarrow> (bytes \<times> bool) option"

record git_object =
  obj_type :: nat
  obj_data :: bytes
  obj_oid :: string

abbreviation (input) ObjectCommit :: nat where "ObjectCommit \<equiv> 1"
abbreviation (input) ObjectTree :: nat where "ObjectTree \<equiv> 2"
abbreviation (input) ObjectBlob :: nat where "ObjectBlob \<equiv> 3"
abbreviation (input) ObjectRefDelta :: nat where "ObjectRefDelta \<equiv> 7"

section \<open>Object identity\<close>

definition computeGitOID :: "(bytes \<Rightarrow> bytes) \<Rightarrow> string \<Rightarrow> bytes \<Rightarrow> string" where
  "computeGitOID sha kind data =
     hex_encode (sha (to_bytes (kind @ '' '' @ show_nat (length data)) @ [0] @ data))"

definition makeGitObject :: "(bytes \<Rightarrow> bytes) \<Rightarrow> nat \<Rightarrow> bytes \<Rightarrow> git_object" where
  "makeGitObject sha t data =
     (let typeName = (if t = ObjectCommit then ''commit'' else if t = ObjectTree then ''tree''
                      else if t = ObjectBlob then ''blob'' else [])
      in \<lparr>obj_type = t, obj_data = data, obj_oid = computeGitOID sha typeName data\<rparr>)"

section \<open>Object headers\<close>

text \<open>The bytes after the first: seven size bits each, the high bit when more follow.\<close>

function header_tail :: "nat \<Rightarrow> bytes" where
  "header_tail n =
     (if n > 0 then
        let b = take_bit 7 n; n' = drop_bit 7 n
        in word_of_nat (if n' > 0 then b OR 0x80 else b) # header_tail n'
      else [])"
  by pat_completeness auto
termination
  by (relation "measure id") (auto simp: drop_bit_eq_div)

declare header_tail.simps [simp del]

definition encodeObjectHeader :: "nat \<Rightarrow> nat \<Rightarrow> bytes" where
  "encodeObjectHeader objType sz =
     (let first = word_of_nat (push_bit 4 objType) OR word_of_nat (take_bit 4 sz) :: byte;
          sz' = drop_bit 4 sz;
          first = (if sz' > 0 then first OR 0x80 else first)
      in first # header_tail sz')"

fun header_cont :: "byte \<Rightarrow> bytes \<Rightarrow> 64 word \<Rightarrow> nat \<Rightarrow> nat \<Rightarrow> ('e, 64 word \<times> nat) go" where
  "header_cont b [] sz shift headerLen =
     (if b AND 0x80 \<noteq> 0 then Panic else Ok (sz, headerLen))"
| "header_cont b (b' # rest) sz shift headerLen =
     (if b AND 0x80 \<noteq> 0
      then header_cont b' rest (sz OR push_bit shift (ucast (b' AND 0x7f))) (shift + 7) (Suc headerLen)
      else Ok (sz, headerLen))"

fun parsePackObjectHeader :: "bytes \<Rightarrow> ('e, nat \<times> 64 word \<times> nat) go" where
  "parsePackObjectHeader [] = Panic"
| "parsePackObjectHeader (b # rest) =
     bind_go (header_cont b rest (ucast (b AND 0x0f)) 4 1) (\<lambda>(sz, headerLen).
       Ok (unat (drop_bit 4 b AND 0x07), sz, headerLen))"

section \<open>Zlib streams\<close>

datatype pack_error =
    PackTooShort
  | InvalidPackHeader
  | UnsupportedVersion nat
  | TruncatedPack nat
  | TruncatedOfsOffset
  | TruncatedRefBase
  | Decompress nat
  | UnsupportedObjectType nat
  | ApplyDelta delta_error
  | UnsupportedGitObjectType nat
  | InvalidBaseOID string

definition stream_clean :: "zlib \<Rightarrow> bytes \<Rightarrow> bool" where
  "stream_clean z data = (case z data of Some (_, True) \<Rightarrow> True | _ \<Rightarrow> False)"

definition findZlibEnd :: "zlib \<Rightarrow> bytes \<Rightarrow> nat" where
  "findZlibEnd z data =
     (if length data < 6 then length data
      else case z data of
        None \<Rightarrow> length data
      | Some _ \<Rightarrow>
          (case List.find (\<lambda>i. stream_clean z (take i data)) [6..<Suc (length data)] of
             Some i \<Rightarrow> i
           | None \<Rightarrow> length data))"

text \<open>\<open>io.ReadFull\<close> into a buffer of \<open>expectedSize\<close> bytes; only \<open>io.EOF\<close> (nothing read at a clean
  end) is forgiven.\<close>

definition zlibDecompress :: "zlib \<Rightarrow> bytes \<Rightarrow> 64 word \<Rightarrow> (unit, bytes \<times> nat) go" where
  "zlibDecompress z data expectedSize =
     (case z data of
        None \<Rightarrow> Err ()
      | Some (out, clean) \<Rightarrow>
          if sint expectedSize < 0 \<or> sint expectedSize > maxAlloc then Panic
          else
            let n = unat expectedSize in
            if n \<le> length out then Ok (take n out, findZlibEnd z data)
            else if out = [] \<and> clean then Ok ([], findZlibEnd z data)
            else Err ())"

definition zlib_codec :: "zlib \<Rightarrow> (bytes \<Rightarrow> bytes) \<Rightarrow> bool" where
  "zlib_codec z c \<longleftrightarrow>
     (\<forall>d. 6 \<le> length (c d) \<and> (\<forall>rest. z (c d @ rest) = Some (d, True)) \<and>
          (\<forall>i < length (c d). \<not> stream_clean z (take i (c d))))"

section \<open>The pack writer\<close>

definition pack_header :: "nat \<Rightarrow> bytes" where
  "pack_header n = to_bytes ''PACK'' @ [0, 0, 0, 2] @ be32 (n mod 4294967296)"

definition writePackObject :: "(bytes \<Rightarrow> bytes) \<Rightarrow> git_object \<Rightarrow> (pack_error, bytes) go" where
  "writePackObject c obj =
     (if obj_type obj \<noteq> ObjectCommit \<and> obj_type obj \<noteq> ObjectTree \<and> obj_type obj \<noteq> ObjectBlob
      then Err (UnsupportedGitObjectType (obj_type obj))
      else Ok (encodeObjectHeader (obj_type obj) (length (obj_data obj)) @ c (obj_data obj)))"

definition writePackRefDelta :: "(bytes \<Rightarrow> bytes) \<Rightarrow> string \<Rightarrow> bytes \<Rightarrow> (pack_error, bytes) go" where
  "writePackRefDelta c baseOID delta =
     (case hex_decode baseOID of
        None \<Rightarrow> Err (InvalidBaseOID baseOID)
      | Some baseBytes \<Rightarrow>
          if length baseBytes \<noteq> 20 then Err (InvalidBaseOID baseOID)
          else Ok (encodeObjectHeader ObjectRefDelta (length delta) @ baseBytes @ c delta))"

fun write_all :: "('a \<Rightarrow> (pack_error, bytes) go) \<Rightarrow> 'a list \<Rightarrow> (pack_error, bytes) go" where
  "write_all w [] = Ok []"
| "write_all w (x # xs) =
     bind_go (w x) (\<lambda>b. bind_go (write_all w xs) (\<lambda>bs. Ok (b @ bs)))"

definition seal :: "(bytes \<Rightarrow> bytes) \<Rightarrow> bytes \<Rightarrow> bytes" where
  "seal sha buf = buf @ sha buf"

definition writePack :: "(bytes \<Rightarrow> bytes) \<Rightarrow> (bytes \<Rightarrow> bytes) \<Rightarrow> git_object list \<Rightarrow> (pack_error, bytes) go" where
  "writePack sha c objects =
     bind_go (write_all (writePackObject c) objects) (\<lambda>body.
       Ok (seal sha (pack_header (length objects) @ body)))"

text \<open>A candidate is sent as a delta when it has both a delta and a base.\<close>

record delta_candidate =
  cand_object :: git_object
  cand_base :: string
  cand_delta :: "bytes option"

definition write_candidate :: "(bytes \<Rightarrow> bytes) \<Rightarrow> delta_candidate \<Rightarrow> (pack_error, bytes) go" where
  "write_candidate c cand =
     (case cand_delta cand of
        Some delta \<Rightarrow>
          if cand_base cand \<noteq> [] then writePackRefDelta c (cand_base cand) delta
          else writePackObject c (cand_object cand)
      | None \<Rightarrow> writePackObject c (cand_object cand))"

definition writePackWithDeltas ::
  "(bytes \<Rightarrow> bytes) \<Rightarrow> (bytes \<Rightarrow> bytes) \<Rightarrow> delta_candidate list \<Rightarrow> (pack_error, bytes) go" where
  "writePackWithDeltas sha c candidates =
     bind_go (write_all (write_candidate c) candidates) (\<lambda>body.
       Ok (seal sha (pack_header (length candidates) @ body)))"

definition writeEmptyPack :: "(bytes \<Rightarrow> bytes) \<Rightarrow> bytes" where
  "writeEmptyPack sha = seal sha (to_bytes ''PACK'' @ [0, 0, 0, 2, 0, 0, 0, 0])"

section \<open>The pack parser\<close>

record delta_object =
  deltaType :: nat
  baseOffset :: "64 word"
  baseOID :: string
  deltaData :: bytes
  startOffset :: nat

text \<open>The offset of an OFS_DELTA: least significant group first, one added per continuation.\<close>

fun ofs_offset :: "bytes \<Rightarrow> 64 word \<Rightarrow> nat \<Rightarrow> nat \<Rightarrow> (pack_error, 64 word \<times> nat) go" where
  "ofs_offset [] acc shift offset = Err TruncatedOfsOffset"
| "ofs_offset (b # rest) acc shift offset =
     (let acc = acc OR push_bit shift (ucast (b AND 0x7f)) in
      if b AND 0x80 = 0 then Ok (acc, Suc offset)
      else ofs_offset rest (acc + 1) (shift + 7) (Suc offset))"

type_synonym parse_state = "nat \<times> (string, git_object) gomap \<times> delta_object list"

text \<open>One iteration of the object loop; the state is (\<open>offset\<close>, \<open>objects\<close>, \<open>deltas\<close>).\<close>

definition parse_object ::
  "zlib \<Rightarrow> (bytes \<Rightarrow> bytes) \<Rightarrow> bytes \<Rightarrow> nat \<Rightarrow> parse_state \<Rightarrow> (pack_error, parse_state) go" where
  "parse_object z sha data i = (\<lambda>(offset, objects, deltas).
     if int offset \<ge> int (length data) - 20 then Err (TruncatedPack i)
     else
       bind_go (parsePackObjectHeader (drop offset data)) (\<lambda>(objType, sz, headerLen).
       let offset = offset + headerLen in
       if objType = 1 \<or> objType = 2 \<or> objType = 3 then
         bind_go (map_err (\<lambda>_. Decompress i) (zlibDecompress z (drop offset data) sz)) (\<lambda>(content, consumed).
           let obj = makeGitObject sha objType content
           in Ok (offset + consumed, AList.update (obj_oid obj) obj objects, deltas))
       else if objType = 6 then
         bind_go (ofs_offset (drop offset data) 0 0 offset) (\<lambda>(deltaOffset, offset).
         bind_go (map_err (\<lambda>_. Decompress i) (zlibDecompress z (drop offset data) sz)) (\<lambda>(content, consumed).
           Ok (offset + consumed, objects, deltas @
             [\<lparr>deltaType = 6, baseOffset = deltaOffset, baseOID = [], deltaData = content,
               startOffset = offset - headerLen\<rparr>])))
       else if objType = 7 then
         if offset + 20 > length data then Err TruncatedRefBase
         else
           let base = hex_encode (slice offset (offset + 20) data); offset = offset + 20 in
           bind_go (map_err (\<lambda>_. Decompress i) (zlibDecompress z (drop offset data) sz)) (\<lambda>(content, consumed).
             Ok (offset + consumed, objects, deltas @
               [\<lparr>deltaType = 7, baseOffset = 0, baseOID = base, deltaData = content,
                 startOffset = 0\<rparr>]))
       else Err (UnsupportedObjectType objType)))"

fun parse_objects ::
  "zlib \<Rightarrow> (bytes \<Rightarrow> bytes) \<Rightarrow> bytes \<Rightarrow> nat \<Rightarrow> nat \<Rightarrow> parse_state \<Rightarrow> (pack_error, parse_state) go" where
  "parse_objects z sha data i 0 st = Ok st"
| "parse_objects z sha data i (Suc n) st =
     bind_go (parse_object z sha data i st) (parse_objects z sha data (Suc i) n)"

text \<open>The delta pass: one pass in pack order; an unresolvable delta, and every OFS_DELTA, is skipped.\<close>

definition find_base ::
  "(string, git_object) gomap option \<Rightarrow> (string, git_object) gomap \<Rightarrow> delta_object \<Rightarrow> git_object option" where
  "find_base existing objects delta =
     (if deltaType delta = 7 then
        (case map_of objects (baseOID delta) of
           Some o' \<Rightarrow> Some o'
         | None \<Rightarrow> (case existing of Some m \<Rightarrow> map_of m (baseOID delta) | None \<Rightarrow> None))
      else None)"

fun resolve_deltas ::
  "(bytes \<Rightarrow> bytes) \<Rightarrow> (string, git_object) gomap option \<Rightarrow> delta_object list \<Rightarrow>
   (string, git_object) gomap \<Rightarrow> (pack_error, (string, git_object) gomap) go" where
  "resolve_deltas sha existing [] objects = Ok objects"
| "resolve_deltas sha existing (d # ds) objects =
     (case find_base existing objects d of
        None \<Rightarrow> resolve_deltas sha existing ds objects
      | Some base \<Rightarrow>
          bind_go (map_err ApplyDelta (applyDelta (obj_data base) (deltaData d))) (\<lambda>result.
            let obj = makeGitObject sha (obj_type base) result
            in resolve_deltas sha existing ds (AList.update (obj_oid obj) obj objects)))"

definition parseGitPackInternal ::
  "zlib \<Rightarrow> (bytes \<Rightarrow> bytes) \<Rightarrow> bytes \<Rightarrow> (string, git_object) gomap option \<Rightarrow>
   (pack_error, (string, git_object) gomap) go" where
  "parseGitPackInternal z sha data existing =
     (if length data < 12 then Err PackTooShort
      else if slice 0 4 data \<noteq> to_bytes ''PACK'' then Err InvalidPackHeader
      else
        let version = of_be32 (slice 4 8 data); numObjects = of_be32 (slice 8 12 data) in
        if version \<noteq> 2 then Err (UnsupportedVersion version)
        else
          bind_go (parse_objects z sha data 0 numObjects (12, [], [])) (\<lambda>(offset, objects, deltas).
            resolve_deltas sha existing deltas objects))"

definition parseGitPack where
  "parseGitPack z sha data = parseGitPackInternal z sha data None"

definition parseGitPackWithBases where
  "parseGitPackWithBases z sha data existing = parseGitPackInternal z sha data (Some existing)"

section \<open>Header round trip\<close>

lemma header_cont_tail:
  assumes "bit b 7 \<longleftrightarrow> n > 0"
  shows "header_cont b (header_tail n @ rest) sz k len =
    (Ok (sz OR push_bit k (word_of_nat n), len + length (header_tail n)) :: ('e, _) go)"
  using assms
proof (induction n arbitrary: b sz k len rule: header_tail.induct)
  case (1 n)
  show ?case
  proof (cases "n > 0")
    case False
    then have "header_tail n = []" by (subst header_tail.simps) simp
    with False "1.prems" show ?thesis by (cases rest) (simp_all add: and_128_byte)
  next
    case True
    define m where "m = take_bit 7 n"
    define n' where "n' = drop_bit 7 n"
    define b' where "b' = (word_of_nat (if n' > 0 then m OR 0x80 else m) :: byte)"
    have m: "m < 128" unfolding m_def by (rule take_bit7_less)
    have t: "header_tail n = b' # header_tail n'"
      using True by (subst header_tail.simps) (simp add: Let_def b'_def m_def n'_def)
    have low: "ucast (b' AND 0x7f) = (word_of_nat m :: 64 word)"
      unfolding b'_def using low7_of_cont [OF m] by simp
    have hi: "bit b' 7 \<longleftrightarrow> n' > 0"
      unfolding b'_def using low7_of_cont(2,4) [OF m] by (simp add: and_128_byte)
    have "(header_cont b (header_tail n @ rest) sz k len :: ('e, _) go) =
        header_cont b' (header_tail n' @ rest) (sz OR push_bit k (word_of_nat m)) (k + 7) (Suc len :: nat)"
      using True "1.prems" by (simp add: t low and_128_byte)
    also have "\<dots> = Ok ((sz OR push_bit k (word_of_nat m)) OR push_bit (k + 7) (word_of_nat n'),
        Suc len + length (header_tail n'))"
      using "1.IH" [OF True m_def n'_def hi] by simp
    also have "(sz OR push_bit k (word_of_nat m)) OR push_bit (k + 7) (word_of_nat n') =
        sz OR push_bit k (word_of_nat n)"
      by (simp add: word_of_nat_7bit [of n, folded m_def n'_def] push_bit_or_word push_bit_push_bit
        or.assoc add.commute)
    finally show ?thesis by (simp add: t)
  qed
qed

lemma first_byte:
  fixes t m :: nat and cont :: bool
  assumes "t < 8" "m < 16"
  defines "b \<equiv> (word_of_nat (push_bit 4 t) OR word_of_nat m) OR (if cont then 128 else 0) :: byte"
  shows "b AND 15 = word_of_nat m" and "drop_bit 4 b AND 7 = word_of_nat t" and "bit b 7 \<longleftrightarrow> cont"
proof -
  have t: "\<not> bit t k" if "3 \<le> k" for k
  proof -
    have "take_bit 3 t = t" using assms(1) by (simp add: take_bit_nat_eq_self)
    then show ?thesis using that by (metis bit_take_bit_iff not_le)
  qed
  have m: "\<not> bit m k" if "4 \<le> k" for k
  proof -
    have "take_bit 4 m = m" using assms(2) by (simp add: take_bit_nat_eq_self)
    then show ?thesis using that by (metis bit_take_bit_iff not_le)
  qed
  show "bit b 7 \<longleftrightarrow> cont"
    by (auto simp: b_def bit_or_iff bit_of_nat_iff bit_push_bit_iff t m bit_byte_masks)
  have "b AND 15 = take_bit 4 b" by (simp add: take_bit_eq_mask mask_eq_exp_minus_1)
  also have "\<dots> = word_of_nat m"
  proof (rule bit_eqI)
    fix k show "bit (take_bit 4 b) k = bit (word_of_nat m :: byte) k"
      using m [of k] by (auto simp: b_def bit_take_bit_iff bit_or_iff bit_of_nat_iff bit_push_bit_iff bit_byte_masks possible_bit_def)
  qed
  finally show "b AND 15 = word_of_nat m" .
  have "drop_bit 4 b AND 7 = take_bit 3 (drop_bit 4 b)" by (simp add: take_bit_eq_mask mask_eq_exp_minus_1)
  also have "\<dots> = word_of_nat t"
  proof (rule bit_eqI)
    fix k show "bit (take_bit 3 (drop_bit 4 b)) k = bit (word_of_nat t :: byte) k"
    proof (cases "k < 3")
      case True
      have "bit (128 :: byte) (4 + k) \<longleftrightarrow> k = 3" using bit_byte_exp [of 7 "4 + k"] by simp
      with True show ?thesis using m [of "4 + k"]
        by (auto simp: b_def bit_take_bit_iff bit_drop_bit_eq bit_or_iff bit_of_nat_iff bit_push_bit_iff possible_bit_def)
    qed (use t [of k] in \<open>auto simp: bit_take_bit_iff bit_of_nat_iff\<close>)
  qed
  finally show "drop_bit 4 b AND 7 = word_of_nat t" .
qed

lemma word_of_nat_4bit:
  "(word_of_nat n :: 64 word) = word_of_nat (take_bit 4 n) OR push_bit 4 (word_of_nat (drop_bit 4 n))"
proof -
  have "n = take_bit 4 n OR push_bit 4 (drop_bit 4 n)"
  proof (rule bit_eqI)
    fix k show "bit n k = bit (take_bit 4 n OR push_bit 4 (drop_bit 4 n)) k"
      by (cases "k < 4") (auto simp: bit_or_iff bit_take_bit_iff bit_push_bit_iff bit_drop_bit_eq)
  qed
  then have "(word_of_nat n :: 64 word) = word_of_nat (take_bit 4 n OR push_bit 4 (drop_bit 4 n))"
    by simp
  then show ?thesis by (simp add: of_nat_or_eq of_nat_push_bit)
qed

theorem parse_encodeObjectHeader:
  assumes "t < 8"
  shows "parsePackObjectHeader (encodeObjectHeader t n @ rest) =
    Ok (t, word_of_nat n, length (encodeObjectHeader t n))"
proof -
  define m where "m = take_bit 4 n"
  define n' where "n' = drop_bit 4 n"
  define b where "b = (word_of_nat (push_bit 4 t) OR word_of_nat m) OR (if n' > 0 then 128 else 0 :: byte)"
  have m: "m < 16" using take_bit_nat_less_exp [of 4 n] by (simp add: m_def)
  have e: "encodeObjectHeader t n = b # header_tail n'"
    by (simp add: encodeObjectHeader_def Let_def b_def m_def n'_def)
  note f = first_byte [OF assms m, of "n' > 0", folded b_def]
  have "ucast (b AND 15) = (word_of_nat m :: 64 word)"
    using m by (simp add: f(1) ucast_of_nat_byte)
  moreover have "unat (drop_bit 4 b AND 7) = t" using assms by (simp add: f(2))
  moreover have "(word_of_nat m :: 64 word) OR push_bit 4 (word_of_nat n') = word_of_nat n"
    using word_of_nat_4bit [of n] by (simp add: m_def n'_def)
  ultimately show ?thesis
    by (simp add: e header_cont_tail [OF f(3)])
qed

section \<open>Reading back what the writer wrote\<close>

lemma findZlibEnd_codec:
  assumes "zlib_codec z c"
  shows "findZlibEnd z (c d @ rest) = length (c d)"
proof -
  let ?n = "length (c d)"
  have c: "6 \<le> ?n" and zc: "z (c d @ r) = Some (d, True)"
    and nc: "i < ?n \<Longrightarrow> \<not> stream_clean z (take i (c d))" for i r
    using assms by (simp_all add: zlib_codec_def)
  have sc: "stream_clean z (c d)" using zc [of "[]"] by (simp add: stream_clean_def)
  have "List.find (\<lambda>i. stream_clean z (take i (c d @ rest))) [6..<Suc (?n + length rest)] = Some ?n"
    unfolding find_Some_iff
    by (rule exI [of _ "?n - 6"]) (use c nc sc in \<open>auto simp del: upt_Suc\<close>)
  then show ?thesis using c zc by (simp add: findZlibEnd_def)
qed

definition sizes_ok :: "bytes \<Rightarrow> bool" where
  "sizes_ok d \<longleftrightarrow> int (length d) \<le> maxAlloc"

lemma zlibDecompress_codec:
  assumes "zlib_codec z c" "sizes_ok d"
  shows "zlibDecompress z (c d @ rest) (word_of_nat (length d)) = Ok (d, length (c d))"
proof -
  have "length d < 18446744073709551616" "length d < 9223372036854775808"
    using assms(2) by (auto simp: sizes_ok_def)
  moreover have "z (c d @ rest) = Some (d, True)" using assms(1) by (simp add: zlib_codec_def)
  ultimately show ?thesis
    using assms by (simp add: zlibDecompress_def findZlibEnd_codec sint_word_of_nat sizes_ok_def
      unat_of_nat)
qed

definition is_delta :: "delta_candidate \<Rightarrow> bool" where
  "is_delta cand \<longleftrightarrow> cand_delta cand \<noteq> None \<and> cand_base cand \<noteq> []"

definition delta_of :: "delta_candidate \<Rightarrow> delta_object" where
  "delta_of cand = \<lparr>deltaType = 7, baseOffset = 0,
     baseOID = hex_encode (the (hex_decode (cand_base cand))),
     deltaData = the (cand_delta cand), startOffset = 0\<rparr>"

text \<open>What the object loop has collected after reading back these candidates.\<close>

definition read_back ::
  "(bytes \<Rightarrow> bytes) \<Rightarrow> delta_candidate \<Rightarrow> (string, git_object) gomap \<times> delta_object list
   \<Rightarrow> (string, git_object) gomap \<times> delta_object list" where
  "read_back sha cand = (\<lambda>(objects, deltas).
     if is_delta cand then (objects, deltas @ [delta_of cand])
     else let obj = makeGitObject sha (obj_type (cand_object cand)) (obj_data (cand_object cand))
          in (AList.update (obj_oid obj) obj objects, deltas))"

definition candidate_ok :: "delta_candidate \<Rightarrow> bool" where
  "candidate_ok cand \<longleftrightarrow> sizes_ok (obj_data (cand_object cand)) \<and>
     (case cand_delta cand of Some d \<Rightarrow> sizes_ok d | None \<Rightarrow> True)"

lemma encodeObjectHeader_nonempty [simp]: "encodeObjectHeader t n \<noteq> []"
  by (simp add: encodeObjectHeader_def Let_def)

lemma write_candidate_cases:
  assumes "write_candidate c cand = Ok b"
  obtains (whole) "\<not> is_delta cand" "obj_type (cand_object cand) \<in> {1, 2, 3}"
      "b = encodeObjectHeader (obj_type (cand_object cand)) (length (obj_data (cand_object cand)))
        @ c (obj_data (cand_object cand))"
    | (delta) base d where "is_delta cand" "cand_delta cand = Some d"
      "hex_decode (cand_base cand) = Some base" "length base = 20"
      "b = encodeObjectHeader 7 (length d) @ base @ c d"
  using assms
  by (cases "cand_delta cand"; cases "cand_base cand = []";
      cases "hex_decode (cand_base cand)")
    (auto simp: write_candidate_def writePackObject_def writePackRefDelta_def is_delta_def
      split: if_splits)

lemma parse_object_candidate:
  assumes z: "zlib_codec z c" and w: "write_candidate c cand = Ok b" and ok: "candidate_ok cand"
    and data: "data = pre @ b @ post" and post: "20 \<le> length post"
  shows "parse_object z sha data i (length pre, objects, deltas) =
    Ok (length pre + length b, read_back sha cand (objects, deltas))"
  using w
proof (cases rule: write_candidate_cases)
  case whole
  let ?o = "cand_object cand"
  let ?h = "encodeObjectHeader (obj_type ?o) (length (obj_data ?o))"
  have len: "\<not> int (length pre) \<ge> int (length data) - 20"
    using post whole(3) encodeObjectHeader_nonempty [of "obj_type ?o" "length (obj_data ?o)"]
    by (cases ?h) (auto simp: data)
  have hd: "parsePackObjectHeader (drop (length pre) data) =
      Ok (obj_type ?o, word_of_nat (length (obj_data ?o)), length ?h)"
    using parse_encodeObjectHeader [of "obj_type ?o" "length (obj_data ?o)" "c (obj_data ?o) @ post"] whole(2)
    by (auto simp: data whole(3))
  have "sizes_ok (obj_data ?o)" using ok by (simp add: candidate_ok_def)
  then have zd: "zlibDecompress z (drop (length pre + length ?h) data) (word_of_nat (length (obj_data ?o)))
      = Ok (obj_data ?o, length (c (obj_data ?o)))"
    using zlibDecompress_codec [OF z, of "obj_data ?o" post] by (simp add: data whole(3))
  show ?thesis
    using whole(1,2) by (auto simp: parse_object_def len hd zd Let_def read_back_def whole(3) add.assoc)
next
  case (delta base d)
  let ?h = "encodeObjectHeader 7 (length d)"
  have len: "\<not> int (length pre) \<ge> int (length data) - 20"
    using post delta(4) by (auto simp: data delta(5))
  have hd: "parsePackObjectHeader (drop (length pre) data) = Ok (7, word_of_nat (length d), length ?h)"
    using parse_encodeObjectHeader [of 7 "length d" "base @ c d @ post"] by (simp add: data delta(5))
  have sl: "slice (length pre + length ?h) (length pre + length ?h + 20) data = base"
    using delta(4) by (simp add: data delta(5) slice_def)
  have "sizes_ok d" using ok delta(2) by (simp add: candidate_ok_def)
  then have zd: "zlibDecompress z (drop (length pre + length ?h + 20) data) (word_of_nat (length d))
      = Ok (d, length (c d))"
    using zlibDecompress_codec [OF z, of d post] delta(4) by (simp add: data delta(5))
  have fits: "length pre + length ?h + 20 \<le> length data" using delta(4) by (simp add: data delta(5))
  show ?thesis
    using delta(1-4) fits
    by (auto simp: parse_object_def len hd zd sl Let_def read_back_def delta_of_def delta(5))
qed

lemma parse_objects_candidates:
  assumes z: "zlib_codec z c" and post: "20 \<le> length post"
  shows "write_all (write_candidate c) cands = Ok body \<Longrightarrow> \<forall>cand \<in> set cands. candidate_ok cand \<Longrightarrow>
    data = pre @ body @ post \<Longrightarrow>
    \<exists>off. parse_objects z sha data i (length cands) (length pre, st) =
      Ok (off, fold (read_back sha) cands st)"
proof (induction cands arbitrary: pre body i st)
  case Nil
  then show ?case by simp
next
  case (Cons cand cands)
  obtain b body' where b: "write_candidate c cand = Ok b"
    and body': "write_all (write_candidate c) cands = Ok body'" and body: "body = b @ body'"
    using Cons.prems(1) by (auto simp: bind_go_Ok_iff)
  obtain objects deltas where st: "st = (objects, deltas)" by fastforce
  have step: "parse_object z sha data i (length pre, objects, deltas) =
      Ok (length pre + length b, read_back sha cand (objects, deltas))"
    by (rule parse_object_candidate [OF z b, where post = "body' @ post"])
      (use Cons.prems post in \<open>auto simp: body\<close>)
  have "\<exists>off. parse_objects z sha data (Suc i) (length cands)
      (length (pre @ b), read_back sha cand (objects, deltas)) =
      Ok (off, fold (read_back sha) cands (read_back sha cand (objects, deltas)))"
    by (rule Cons.IH [OF body']) (use Cons.prems in \<open>auto simp: body\<close>)
  then show ?case by (simp add: st step)
qed

lemma parse_writePackWithDeltas:
  assumes z: "zlib_codec z c" and sha: "\<And>x. length (sha x) = 20"
    and n: "length cands < 4294967296" and ok: "\<forall>cand \<in> set cands. candidate_ok cand"
    and w: "writePackWithDeltas sha c cands = Ok p"
  shows "parseGitPackInternal z sha p existing =
    (case fold (read_back sha) cands ([], []) of (objects, deltas) \<Rightarrow>
      resolve_deltas sha existing deltas objects)"
proof -
  obtain body where body: "write_all (write_candidate c) cands = Ok body"
    and p: "p = seal sha (pack_header (length cands) @ body)"
    using w by (auto simp: writePackWithDeltas_def bind_go_Ok_iff)
  let ?h = "pack_header (length cands)"
  define post where "post = sha (?h @ body)"
  have p': "p = ?h @ body @ post" by (simp add: p seal_def post_def)
  have h: "length ?h = 12" by (simp add: pack_header_def)
  have "slice 0 4 p = to_bytes ''PACK''" "slice 4 8 p = [0, 0, 0, 2]"
    "slice 8 12 p = be32 (length cands)"
    using n by (simp_all add: p' pack_header_def slice_def to_bytes_def)
  then have hdr: "slice 0 4 p = to_bytes ''PACK''" "of_be32 (slice 4 8 p) = 2"
    "of_be32 (slice 8 12 p) = length cands"
    using n by (simp_all add: of_be32_be32)
  obtain off where "parse_objects z sha p 0 (length cands) (length ?h, [], []) =
      Ok (off, fold (read_back sha) cands ([], []))"
    using parse_objects_candidates [OF z _ body ok p', of sha 0 "([], [])"] sha by (auto simp: post_def)
  then show ?thesis
    using hdr h by (simp add: parseGitPackInternal_def Let_def p' split: prod.splits)
qed

section \<open>Pack round trips\<close>

definition whole :: "git_object \<Rightarrow> delta_candidate" where
  "whole o' = \<lparr>cand_object = o', cand_base = [], cand_delta = None\<rparr>"

lemma write_whole: "write_candidate c (whole o') = writePackObject c o'"
  by (simp add: write_candidate_def whole_def)

lemma write_all_whole:
  "write_all (write_candidate c) (map whole objs) = write_all (writePackObject c) objs"
  by (induction objs) (simp_all add: write_whole)

lemma writePack_whole: "writePack sha c objs = writePackWithDeltas sha c (map whole objs)"
  by (simp add: writePack_def writePackWithDeltas_def write_all_whole)

text \<open>A well-formed object: the identity of its content, of one of the three types.\<close>

definition wf_object :: "(bytes \<Rightarrow> bytes) \<Rightarrow> git_object \<Rightarrow> bool" where
  "wf_object sha o' \<longleftrightarrow> obj_type o' \<in> {1, 2, 3} \<and> sizes_ok (obj_data o') \<and>
     makeGitObject sha (obj_type o') (obj_data o') = o'"

definition index_objects :: "git_object list \<Rightarrow> (string, git_object) gomap" where
  "index_objects objs = fold (\<lambda>o'. AList.update (obj_oid o') o') objs []"

lemma write_all_total: "\<forall>x \<in> set xs. \<exists>b. w x = Ok b \<Longrightarrow> \<exists>b. write_all w xs = Ok b"
  by (induction xs) (auto simp: bind_go_Ok_iff)

lemma read_back_whole:
  "wf_object sha o' \<Longrightarrow>
   read_back sha (whole o') (objects, ds) = (AList.update (obj_oid o') o' objects, ds)"
  by (simp add: read_back_def whole_def is_delta_def wf_object_def Let_def)

lemma fold_read_back_whole:
  "\<forall>o' \<in> set objs. wf_object sha o' \<Longrightarrow>
   fold (read_back sha) (map whole objs) (objects, ds) =
     (fold (\<lambda>o'. AList.update (obj_oid o') o') objs objects, ds)"
  by (induction objs arbitrary: objects) (simp_all add: read_back_whole)

lemma writePack_parses:
  assumes "zlib_codec z c" and "\<And>x. length (sha x) = 20"
    and "length objs < 4294967296" and "\<forall>o' \<in> set objs. wf_object sha o'"
  shows "\<exists>p. writePack sha c objs = Ok p \<and> parseGitPack z sha p = Ok (index_objects objs)"
proof -
  have "\<forall>o' \<in> set objs. \<exists>b. writePackObject c o' = Ok b"
    using assms(4) by (auto simp: wf_object_def writePackObject_def)
  then obtain p where p: "writePack sha c objs = Ok p"
    using write_all_total [of objs "writePackObject c"] by (auto simp: writePack_def)
  have "\<forall>cand \<in> set (map whole objs). candidate_ok cand"
    using assms(4) by (auto simp: candidate_ok_def whole_def wf_object_def)
  from parse_writePackWithDeltas [OF assms(1,2) _ this, where p = p and existing = None]
  have "parseGitPack z sha p = Ok (index_objects objs)"
    using p assms(3,4)
    by (simp add: writePack_whole fold_read_back_whole parseGitPack_def index_objects_def)
  with p show ?thesis by blast
qed

text \<open>C2: writing a pack never fails on well-formed objects, and parsing the pack back yields
  exactly the written objects under their identities.\<close>

theorem writePack_roundtrip:
  assumes "zlib_codec z c" and "\<And>x. length (sha x) = 20"
    and "length objs < 4294967296" and "\<forall>o' \<in> set objs. wf_object sha o'"
  shows "\<exists>p. writePack sha c objs = Ok p \<and> parseGitPack z sha p = Ok (index_objects objs)"
  by (rule writePack_parses [OF assms])

text \<open>
  A concrete codec for the witnesses: seven bytes of framing with the length in unary would do; here a
  stream is its bytes, each preceded by a 1, between a six-byte header and a final 0.
\<close>

fun ex_body :: "bytes \<Rightarrow> bytes" where
  "ex_body [] = [0]"
| "ex_body (b # bs) = 1 # b # ex_body bs"

fun ex_read :: "bytes \<Rightarrow> bytes \<times> bool" where
  "ex_read (m # rest) =
     (if m = 0 then ([], True)
      else case rest of [] \<Rightarrow> ([], False) | b # bs \<Rightarrow> (let (out, ok) = ex_read bs in (b # out, ok)))"
| "ex_read [] = ([], False)"

definition ex_deflate :: "bytes \<Rightarrow> bytes" where
  "ex_deflate d = [0x78, 0x9c, 0, 0, 0, 0] @ ex_body d"

definition ex_inflate :: zlib where
  "ex_inflate s = (if take 6 s = [0x78, 0x9c, 0, 0, 0, 0] then Some (ex_read (drop 6 s)) else None)"

lemma ex_read_body: "ex_read (ex_body d @ rest) = (d, True)"
  by (induction d) simp_all

lemma ex_read_cut: "i < length (ex_body d) \<Longrightarrow> \<not> snd (ex_read (take i (ex_body d)))"
proof (induction d arbitrary: i)
  case (Cons b d)
  show ?case
  proof (cases "i < 2")
    case True
    then have "i = 0 \<or> i = 1" by auto
    then show ?thesis by auto
  next
    case False
    then obtain j where "i = Suc (Suc j)" by (metis One_nat_def Suc_1 Suc_diff_Suc less_2_cases_iff not0_implies_Suc less_Suc_eq_0_disj)
    with Cons show ?thesis by (simp split: prod.splits) (metis snd_conv)
  qed
qed simp

lemma ex_codec: "zlib_codec ex_inflate ex_deflate"
  unfolding zlib_codec_def
proof (intro allI conjI impI)
  fix d rest :: bytes
  show "6 \<le> length (ex_deflate d)" by (simp add: ex_deflate_def)
  show "ex_inflate (ex_deflate d @ rest) = Some (d, True)"
    by (simp add: ex_inflate_def ex_deflate_def ex_read_body)
next
  fix d :: bytes and i
  assume i: "i < length (ex_deflate d)"
  show "\<not> stream_clean ex_inflate (take i (ex_deflate d))"
  proof (cases "6 \<le> i")
    case True
    then have "take i (ex_deflate d) = [0x78, 0x9c, 0, 0, 0, 0] @ take (i - 6) (ex_body d)"
      by (simp add: ex_deflate_def take_Cons' numeral_eq_Suc)
    moreover have "\<not> snd (ex_read (take (i - 6) (ex_body d)))"
      using i True by (intro ex_read_cut) (auto simp: ex_deflate_def)
    ultimately show ?thesis
      by (auto simp: stream_clean_def ex_inflate_def split: bool.splits)
  next
    case False
    then have "take 6 (take i (ex_deflate d)) \<noteq> [0x78, 0x9c, 0, 0, 0, 0]"
      by (auto dest!: arg_cong [where f = length])
    then show ?thesis by (simp add: stream_clean_def ex_inflate_def)
  qed
qed

definition ex_sha :: "bytes \<Rightarrow> bytes" where
  "ex_sha x = take 20 (rev x @ replicate 20 0)"

lemma length_ex_sha: "length (ex_sha x) = 20"
  by (simp add: ex_sha_def)

lemma wf_object_make: "t \<in> {1, 2, 3} \<Longrightarrow> sizes_ok d \<Longrightarrow> wf_object sha (makeGitObject sha t d)"
  by (simp add: wf_object_def makeGitObject_def)

theorem writePack_roundtrip_witness:
  "\<exists>p. writePack ex_sha ex_deflate [makeGitObject ex_sha 3 [1, 2], makeGitObject ex_sha 2 []] = Ok p \<and>
     parseGitPack ex_inflate ex_sha p =
       Ok (index_objects [makeGitObject ex_sha 3 [1, 2], makeGitObject ex_sha 2 []])"
  by (rule writePack_roundtrip [OF ex_codec length_ex_sha])
    (auto intro!: wf_object_make simp: sizes_ok_def)

section \<open>Thin packs\<close>

text \<open>
  The delta pass on a universe of objects with distinct identities: it succeeds, keeps only
  objects of the universe, and rebuilds the target of every delta whose base is at hand.
\<close>

definition known :: "(string, git_object) gomap option \<Rightarrow> (string, git_object) gomap \<Rightarrow> git_object \<Rightarrow> bool" where
  "known existing objects o' \<longleftrightarrow> map_of objects (obj_oid o') = Some o' \<or>
     (map_of objects (obj_oid o') = None \<and>
      (case existing of Some m \<Rightarrow> map_of m (obj_oid o') = Some o' | None \<Rightarrow> False))"

definition rebuilds :: "(bytes \<Rightarrow> bytes) \<Rightarrow> git_object \<Rightarrow> delta_object \<Rightarrow> git_object \<Rightarrow> bool" where
  "rebuilds sha base d target \<longleftrightarrow> deltaType d = 7 \<and> baseOID d = obj_oid base \<and>
     applyDelta (obj_data base) (deltaData d) = Ok (obj_data target) \<and>
     obj_type base = obj_type target \<and> wf_object sha target"

lemma resolve_deltas_rebuilds:
  assumes "inj_on obj_oid U"
    and "list_all2 (\<lambda>d t. \<exists>b. b \<in> U \<and> known existing objects b \<and> rebuilds sha b d t) ds ts"
    and "set ts \<subseteq> U" and "\<forall>k o'. map_of objects k = Some o' \<longrightarrow> o' \<in> U \<and> obj_oid o' = k"
  shows "\<exists>res. resolve_deltas sha existing ds objects = Ok res \<and>
     (\<forall>t \<in> set ts. map_of res (obj_oid t) = Some t) \<and>
     (\<forall>k o'. map_of objects k = Some o' \<longrightarrow> map_of res k = Some o')"
  using assms(2-4)
proof (induction ds arbitrary: ts objects)
  case Nil
  then show ?case by simp
next
  case (Cons d ds)
  obtain t ts' b where ts: "ts = t # ts'"
    and b: "b \<in> U" "known existing objects b" "rebuilds sha b d t"
    and rest: "list_all2 (\<lambda>d t. \<exists>b. b \<in> U \<and> known existing objects b \<and> rebuilds sha b d t) ds ts'"
    using Cons.prems(1) by (auto simp: list_all2_Cons1)
  have base: "find_base existing objects d = Some b"
    using b(2,3) by (auto simp: find_base_def known_def rebuilds_def split: option.splits)
  have mk: "makeGitObject sha (obj_type t) (obj_data t) = t" "obj_type b = obj_type t"
    using b(3) by (simp_all add: rebuilds_def wf_object_def)
  let ?objects = "AList.update (obj_oid t) t objects"
  have tU: "t \<in> U" using Cons.prems(2) ts by simp
  have sub: "map_of ?objects k = Some o'" if "map_of objects k = Some o'" for k o'
    using that Cons.prems(3) tU inj_onD [OF assms(1)] by fastforce
  have "known existing ?objects b'" if "known existing objects b'" "b' \<in> U" for b'
    using that tU inj_onD [OF assms(1)] by (fastforce simp: known_def split: option.splits)
  then have "list_all2 (\<lambda>d t. \<exists>b. b \<in> U \<and> known existing ?objects b \<and> rebuilds sha b d t) ds ts'"
    using rest by (auto elim!: list_all2_mono)
  moreover have "\<forall>k o'. map_of ?objects k = Some o' \<longrightarrow> o' \<in> U \<and> obj_oid o' = k"
    using Cons.prems(3) tU by auto
  moreover have "set ts' \<subseteq> U" using Cons.prems(2) ts by simp
  ultimately have "\<exists>res. resolve_deltas sha existing ds ?objects = Ok res \<and>
      (\<forall>t \<in> set ts'. map_of res (obj_oid t) = Some t) \<and>
      (\<forall>k o'. map_of ?objects k = Some o' \<longrightarrow> map_of res k = Some o')"
    by (intro Cons.IH)
  then obtain res where res: "resolve_deltas sha existing ds ?objects = Ok res"
    "\<forall>t \<in> set ts'. map_of res (obj_oid t) = Some t"
    "\<forall>k o'. map_of ?objects k = Some o' \<longrightarrow> map_of res k = Some o'" by blast
  have "resolve_deltas sha existing (d # ds) objects = Ok res"
    using b(3) by (simp add: base mk res(1) rebuilds_def Let_def)
  moreover have "map_of res (obj_oid t) = Some t" using res(3) by simp
  ultimately show ?case using res(2,3) sub by (auto simp: ts)
qed

text \<open>The candidates split into whole objects and deltas.\<close>

lemma fold_read_back:
  "fold (read_back sha) cands (objects, ds) =
     (fold (\<lambda>cand m. let o' = makeGitObject sha (obj_type (cand_object cand)) (obj_data (cand_object cand))
        in AList.update (obj_oid o') o' m) (filter (\<lambda>cand. \<not> is_delta cand) cands) objects,
      ds @ map delta_of (filter is_delta cands))"
  by (induction cands arbitrary: objects ds) (auto simp: read_back_def Let_def)

definition thin_candidate_ok ::
  "(bytes \<Rightarrow> bytes) \<Rightarrow> git_object set \<Rightarrow> git_object set \<Rightarrow> delta_candidate \<Rightarrow> bool" where
  "thin_candidate_ok sha U B cand \<longleftrightarrow>
     candidate_ok cand \<and> cand_object cand \<in> U \<and> wf_object sha (cand_object cand) \<and>
     (is_delta cand \<longrightarrow> (\<exists>b \<in> B. b \<in> U \<and> wf_object sha b \<and> cand_base cand = obj_oid b \<and>
        obj_type b = obj_type (cand_object cand) \<and>
        applyDelta (obj_data b) (the (cand_delta cand)) = Ok (obj_data (cand_object cand))))"

lemma makeGitObject_oid_hex: "\<exists>h. obj_oid (makeGitObject sha t d) = hex_encode (sha h)"
  by (auto simp: makeGitObject_def computeGitOID_def Let_def)

lemma wf_object_oid: "wf_object sha o' \<Longrightarrow> \<exists>h. obj_oid o' = hex_encode (sha h)"
  by (metis makeGitObject_oid_hex wf_object_def)

lemma baseOID_delta_of:
  "cand_base cand = obj_oid b \<Longrightarrow> wf_object sha b \<Longrightarrow> baseOID (delta_of cand) = obj_oid b"
  using wf_object_oid [of sha b] by (auto simp: delta_of_def)

lemma delta_of_simps [simp]:
  "deltaType (delta_of cand) = 7" "deltaData (delta_of cand) = the (cand_delta cand)"
  by (simp_all add: delta_of_def)

lemma fold_update_lookup:
  assumes "inj_on obj_oid U" and "set os \<subseteq> U"
  shows "map_of (fold (\<lambda>o'. AList.update (obj_oid o') o') os m) k =
    (case List.find (\<lambda>o'. obj_oid o' = k) os of Some o' \<Rightarrow> Some o' | None \<Rightarrow> map_of m k)"
  using assms(2)
proof (induction os arbitrary: m)
  case (Cons o' os)
  have "x = o'" if "x \<in> set os" "obj_oid x = obj_oid o'" for x
    using that Cons.prems inj_onD [OF assms(1)] by auto
  then have "List.find (\<lambda>x. obj_oid x = obj_oid o') os = Some o' \<or>
      List.find (\<lambda>x. obj_oid x = obj_oid o') os = None"
    by (cases "List.find (\<lambda>x. obj_oid x = obj_oid o') os")
      (auto simp: find_Some_iff, metis nth_mem)
  with Cons show ?case by (auto split: option.splits)
qed simp

lemma thin_candidate_writes:
  assumes "thin_candidate_ok sha U B cand" and sha: "\<And>x. length (sha x) = 20"
  shows "\<exists>b. write_candidate c cand = Ok b"
proof (cases "is_delta cand")
  case False
  then show ?thesis
    using assms(1) by (cases "cand_delta cand")
      (auto simp: thin_candidate_ok_def wf_object_def write_candidate_def writePackObject_def is_delta_def)
next
  case True
  then obtain b d where b: "wf_object sha b" "cand_base cand = obj_oid b"
    and d: "cand_delta cand = Some d"
    using assms(1) by (auto simp: thin_candidate_ok_def is_delta_def)
  obtain h where "obj_oid b = hex_encode (sha h)" using wf_object_oid [OF b(1)] by blast
  then show ?thesis
    using b d True sha by (auto simp: write_candidate_def writePackRefDelta_def is_delta_def)
qed

text \<open>C3: a thin pack loses nothing: when every delta's base is sent whole or already present at the
  receiver, parsing rebuilds every object that was sent.\<close>

theorem thin_pack_complete:
  assumes z: "zlib_codec z c" and sha: "\<And>x. length (sha x) = 20" and n: "length cands < 4294967296"
    and U: "inj_on obj_oid U"
    and ok: "\<forall>cand \<in> set cands. thin_candidate_ok sha U B cand"
    and B: "\<forall>b \<in> B. (\<exists>cand \<in> set cands. \<not> is_delta cand \<and> b = cand_object cand) \<or>
      map_of existing (obj_oid b) = Some b"
  shows "\<exists>p res. writePackWithDeltas sha c cands = Ok p \<and>
    parseGitPackWithBases z sha p existing = Ok res \<and>
    (\<forall>cand \<in> set cands. map_of res (obj_oid (cand_object cand)) = Some (cand_object cand))"
proof -
  have "\<forall>cand \<in> set cands. \<exists>b. write_candidate c cand = Ok b"
    using ok thin_candidate_writes [of sha U B _ c, OF _ sha] by blast
  then obtain p where w: "writePackWithDeltas sha c cands = Ok p"
    using write_all_total [of cands "write_candidate c"] by (auto simp: writePackWithDeltas_def)
  define wholes where "wholes = map cand_object (filter (\<lambda>cand. \<not> is_delta cand) cands)"
  define objects where "objects = fold (\<lambda>o'. AList.update (obj_oid o') o') wholes []"
  let ?ds = "filter is_delta cands"
  have mk: "makeGitObject sha (obj_type (cand_object cand)) (obj_data (cand_object cand)) = cand_object cand"
    if "cand \<in> set cands" for cand
    using ok that by (auto simp: thin_candidate_ok_def wf_object_def)
  have "fold (read_back sha) cands ([], []) = (objects, map delta_of ?ds)"
    unfolding fold_read_back objects_def wholes_def fold_map comp_def
    by (auto intro!: fold_cong simp: mk Let_def)
  then have parse: "parseGitPackWithBases z sha p existing =
      resolve_deltas sha (Some existing) (map delta_of ?ds) objects"
    using parse_writePackWithDeltas [OF z sha n _ w] ok
    by (auto simp: parseGitPackWithBases_def thin_candidate_ok_def)
  have wU: "set wholes \<subseteq> U" using ok by (auto simp: wholes_def thin_candidate_ok_def)
  have lookup: "map_of objects k = List.find (\<lambda>o'. obj_oid o' = k) wholes" for k
    using fold_update_lookup [OF U wU, of "[]" k] by (simp add: objects_def split: option.splits)
  have inU: "\<forall>k o'. map_of objects k = Some o' \<longrightarrow> o' \<in> U \<and> obj_oid o' = k"
    using wU by (auto simp: lookup find_Some_iff)
  have here: "map_of objects (obj_oid o') = Some o'" if "o' \<in> set wholes" for o'
  proof -
    have "map_of objects (obj_oid o') \<noteq> None" using that by (auto simp: lookup find_None_iff)
    then obtain o'' where "map_of objects (obj_oid o') = Some o''" by blast
    then show ?thesis using inU that wU inj_onD [OF U] by fastforce
  qed
  have "known (Some existing) objects b" if "b \<in> B" "b \<in> U" for b
    using B that here inU inj_onD [OF U]
    by (cases "map_of objects (obj_oid b)") (fastforce simp: known_def wholes_def)+
  then have "list_all2 (\<lambda>d t. \<exists>b. b \<in> U \<and> known (Some existing) objects b \<and> rebuilds sha b d t)
      (map delta_of ?ds) (map cand_object ?ds)"
    using ok unfolding list.rel_map
    by (intro list.rel_refl_strong) (fastforce simp: thin_candidate_ok_def rebuilds_def
      baseOID_delta_of delta_of_simps)
  from resolve_deltas_rebuilds [OF U this _ inU]
  obtain res where res: "resolve_deltas sha (Some existing) (map delta_of ?ds) objects = Ok res"
    "\<forall>t \<in> set (map cand_object ?ds). map_of res (obj_oid t) = Some t"
    "\<forall>k o'. map_of objects k = Some o' \<longrightarrow> map_of res k = Some o'"
    using ok by (auto simp: thin_candidate_ok_def)
  have "map_of res (obj_oid (cand_object cand)) = Some (cand_object cand)" if "cand \<in> set cands" for cand
    using that res(2,3) here [of "cand_object cand"] by (cases "is_delta cand") (auto simp: wholes_def)
  then show ?thesis using w parse res(1) by auto
qed

definition ex_base :: git_object where "ex_base = makeGitObject ex_sha 3 [1, 2, 3]"
definition ex_target :: git_object where "ex_target = makeGitObject ex_sha 3 [9, 9, 9, 9]"

definition ex_cands :: "delta_candidate list" where
  "ex_cands = [whole ex_base,
     \<lparr>cand_object = ex_target, cand_base = obj_oid ex_base, cand_delta = Some [3, 4, 4, 9, 9, 9, 9]\<rparr>]"

lemma ex_apply: "applyDelta [1, 2, 3] [3, 4, 4, 9, 9, 9, 9] = Ok [9, 9, 9, 9]"
  by (simp add: applyDelta_def apply_loop.simps(2))

lemma ex_oid_neq: "obj_oid ex_base \<noteq> obj_oid ex_target"
  by (simp add: ex_base_def ex_target_def makeGitObject_def computeGitOID_def hex_encode_inj
    ex_sha_def to_bytes_def show_nat.simps)

theorem thin_pack_complete_witness:
  "\<exists>p res. writePackWithDeltas ex_sha ex_deflate ex_cands = Ok p \<and>
     parseGitPackWithBases ex_inflate ex_sha p [] = Ok res \<and>
     (\<forall>cand \<in> set ex_cands. map_of res (obj_oid (cand_object cand)) = Some (cand_object cand))"
proof (rule thin_pack_complete [where U = "{ex_base, ex_target}" and B = "{ex_base}", OF ex_codec length_ex_sha])
  show "inj_on obj_oid {ex_base, ex_target}" using ex_oid_neq by auto
  show "\<forall>cand \<in> set ex_cands. thin_candidate_ok ex_sha {ex_base, ex_target} {ex_base} cand"
      using ex_apply wf_object_make [of 3 "[1, 2, 3]" ex_sha] wf_object_make [of 3 "[9, 9, 9, 9]" ex_sha]
      by (auto simp: ex_cands_def thin_candidate_ok_def whole_def is_delta_def candidate_ok_def sizes_ok_def
        ex_base_def ex_target_def makeGitObject_def)
  show "\<forall>b \<in> {ex_base}. (\<exists>cand \<in> set ex_cands. \<not> is_delta cand \<and> b = cand_object cand) \<or>
      map_of [] (obj_oid b) = Some b"
      by (simp add: ex_cands_def whole_def is_delta_def)
qed (simp add: ex_cands_def)

end
