(* ===== verification/ObjectStore.thy ===== *)
theory ObjectStore
  imports GitPack
begin

text \<open>The object caches of \<open>object_store.go\<close>: the unbounded map, and the least-recently-used
cache, whose elements live in a linked list (\<open>container/list\<close>) and are found through a map from
OIDs to list elements. A list element is modelled by a number, unique in its list; \<open>obj = None\<close> is the
\<open>ok = false\<close> of the source. The locks serialise the operations, so each is one step.\<close>

section \<open>MemoryObjectStore\<close>

record memory_store =
  mem_objects :: "(string, git_object) gomap"

definition NewMemoryObjectStore :: memory_store where
  "NewMemoryObjectStore = \<lparr>mem_objects = []\<rparr>"

definition mem_get :: "memory_store \<Rightarrow> string \<Rightarrow> git_object option \<times> memory_store" where
  "mem_get s oid = (map_of (mem_objects s) oid, s)"

definition mem_has :: "memory_store \<Rightarrow> string \<Rightarrow> bool" where
  "mem_has s oid = (map_of (mem_objects s) oid \<noteq> None)"

definition mem_put :: "memory_store \<Rightarrow> git_object \<Rightarrow> memory_store" where
  "mem_put s obj = (if obj_oid obj = [] then s
     else s\<lparr>mem_objects := AList.update (obj_oid obj) obj (mem_objects s)\<rparr>)"

section \<open>LRUObjectStore\<close>

record lru_entry =
  lru_oid :: string
  lru_obj :: git_object

record lru_store =
  max_entries :: nat
  items :: "(string, nat) gomap"
  order :: "(nat \<times> lru_entry) list"
  next_elem :: nat

definition NewLRUObjectStore :: "int \<Rightarrow> lru_store" where
  "NewLRUObjectStore maxEntries =
     \<lparr>max_entries = nat (if maxEntries < 0 then 0 else maxEntries), items = [], order = [], next_elem = 0\<rparr>"

definition move_to_front :: "nat \<Rightarrow> (nat \<times> 'b) list \<Rightarrow> (nat \<times> 'b) list" where
  "move_to_front e l = (case map_of l e of None \<Rightarrow> l
     | Some v \<Rightarrow> (e, v) # filter (\<lambda>p. fst p \<noteq> e) l)"

definition lru_get :: "lru_store \<Rightarrow> string \<Rightarrow> git_object option \<times> lru_store" where
  "lru_get s oid = (case map_of (items s) oid of
     None \<Rightarrow> (None, s)
   | Some element \<Rightarrow> (let s' = s\<lparr>order := move_to_front element (order s)\<rparr> in
       (map_option lru_obj (map_of (order s) element), s')))"

definition lru_has :: "lru_store \<Rightarrow> string \<Rightarrow> bool" where
  "lru_has s oid = (map_of (items s) oid \<noteq> None)"

text \<open>The eviction loop removes the back of the list and its key until the list fits.\<close>

function evict :: "lru_store \<Rightarrow> lru_store" where
  "evict s = (if max_entries s > 0 \<and> length (order s) > max_entries s then
     (if order s = [] then s
      else let entry = snd (last (order s)) in
        evict (s\<lparr>items := AList.delete (lru_oid entry) (items s), order := butlast (order s)\<rparr>))
     else s)"
  by pat_completeness auto
termination by (relation "measure (\<lambda>s. length (order s))") auto

declare evict.simps [simp del]

definition lru_put :: "lru_store \<Rightarrow> git_object \<Rightarrow> lru_store" where
  "lru_put s obj = (if obj_oid obj = [] \<or> max_entries s = 0 then s
     else case map_of (items s) (obj_oid obj) of
       Some element \<Rightarrow>
         s\<lparr>order := move_to_front element
             (AList.update element \<lparr>lru_oid = obj_oid obj, lru_obj = obj\<rparr> (order s))\<rparr>
     | None \<Rightarrow> (let element = next_elem s in
         evict (s\<lparr>order := (element, \<lparr>lru_oid = obj_oid obj, lru_obj = obj\<rparr>) # order s,
                  items := AList.update (obj_oid obj) element (items s),
                  next_elem := Suc element\<rparr>)))"

section \<open>The cache the list implements\<close>

text \<open>What callers may rely on is a list of objects in order of recency: \<open>recent\<close> forgets the
elements and the index. \<open>lru_wf\<close> ties the index to the list.\<close>

definition recent :: "lru_store \<Rightarrow> git_object list" where
  "recent s = map (lru_obj \<circ> snd) (order s)"

definition lru_wf :: "lru_store \<Rightarrow> bool" where
  "lru_wf s \<longleftrightarrow> distinct (map fst (order s)) \<and> (\<forall>p \<in> set (order s). fst p < next_elem s)
     \<and> distinct (map (lru_oid \<circ> snd) (order s))
     \<and> (\<forall>p \<in> set (order s). lru_oid (snd p) = obj_oid (lru_obj (snd p)))
     \<and> (\<forall>k e. map_of (items s) k = Some e \<longleftrightarrow> (\<exists>v. (e, v) \<in> set (order s) \<and> lru_oid v = k))
     \<and> length (order s) \<le> max_entries s"

definition touch :: "git_object \<Rightarrow> git_object list \<Rightarrow> git_object list" where
  "touch obj l = obj # filter (\<lambda>x. obj_oid x \<noteq> obj_oid obj) l"

definition find_oid :: "string \<Rightarrow> git_object list \<Rightarrow> git_object option" where
  "find_oid oid l = find (\<lambda>x. obj_oid x = oid) l"

definition spec_get :: "git_object list \<Rightarrow> string \<Rightarrow> git_object option \<times> git_object list" where
  "spec_get l oid = (case find_oid oid l of None \<Rightarrow> (None, l) | Some x \<Rightarrow> (Some x, touch x l))"

definition spec_put :: "nat \<Rightarrow> git_object list \<Rightarrow> git_object \<Rightarrow> git_object list" where
  "spec_put m l obj = (if obj_oid obj = [] \<or> m = 0 then l else take m (touch obj l))"

lemma map_of_Some_iff: "distinct (map fst l) \<Longrightarrow> map_of l e = Some v \<longleftrightarrow> (e, v) \<in> set l"
  by simp

lemma lru_lookup:
  assumes wf: "lru_wf s"
  shows "map_of (items s) k = None \<longleftrightarrow> k \<notin> obj_oid ` set (recent s)"
    and "map_of (items s) k = Some e \<Longrightarrow> \<exists>v. map_of (order s) e = Some v \<and> (e, v) \<in> set (order s) \<and>
      lru_oid v = k \<and> obj_oid (lru_obj v) = k \<and> find_oid k (recent s) = Some (lru_obj v)"
proof -
  have idx: "\<And>e. map_of (items s) k = Some e \<longleftrightarrow> (\<exists>v. (e, v) \<in> set (order s) \<and> lru_oid v = k)"
    and oid: "\<And>p. p \<in> set (order s) \<Longrightarrow> lru_oid (snd p) = obj_oid (lru_obj (snd p))"
    and dist: "distinct (map fst (order s))" "distinct (map (lru_oid \<circ> snd) (order s))"
    using wf by (simp_all add: lru_wf_def)
  show "map_of (items s) k = None \<longleftrightarrow> k \<notin> obj_oid ` set (recent s)"
  proof -
    have "map_of (items s) k = None \<longleftrightarrow> (\<forall>p \<in> set (order s). lru_oid (snd p) \<noteq> k)"
      using idx by (metis not_None_eq prod.collapse snd_conv)
    also have "\<dots> \<longleftrightarrow> k \<notin> obj_oid ` set (recent s)"
      using oid by (auto simp: recent_def image_image)
    finally show ?thesis .
  qed
  assume "map_of (items s) k = Some e"
  then obtain v where v: "(e, v) \<in> set (order s)" "lru_oid v = k" using idx by blast
  have "find (\<lambda>x. obj_oid x = k) (map (lru_obj \<circ> snd) l) = Some (lru_obj v)"
    if "(e, v) \<in> set l" "set l \<subseteq> set (order s)" "distinct (map (lru_oid \<circ> snd) l)" for l
    using that
  proof (induction l)
    case (Cons p l)
    then show ?case using v oid [of p] by (cases p) (force simp: image_iff)
  qed simp
  from this [of "order s"] v dist oid [of "(e, v)"] show "\<exists>v. map_of (order s) e = Some v \<and> (e, v) \<in> set (order s) \<and>
      lru_oid v = k \<and> obj_oid (lru_obj v) = k \<and> find_oid k (recent s) = Some (lru_obj v)"
    by (intro exI [of _ v]) (simp add: find_oid_def recent_def)
qed

lemma filter_elem_recent:
  assumes "(e, v) \<in> set l" "distinct (map fst l)" "distinct (map (lru_oid \<circ> snd) l)"
    and "\<forall>p \<in> set l. lru_oid (snd p) = obj_oid (lru_obj (snd p))"
  shows "map (lru_obj \<circ> snd) (filter (\<lambda>p. fst p \<noteq> e) l) =
    filter (\<lambda>x. obj_oid x \<noteq> lru_oid v) (map (lru_obj \<circ> snd) l)"
proof -
  have "fst p \<noteq> e \<longleftrightarrow> obj_oid (lru_obj (snd p)) \<noteq> lru_oid v" if "p \<in> set l" for p
    using assms that by (metis (mono_tags, lifting) comp_apply distinct_map eq_fst_iff inj_on_eq_iff prod.sel(1) snd_conv)
  then have "filter (\<lambda>p. fst p \<noteq> e) l = filter (\<lambda>p. obj_oid (lru_obj (snd p)) \<noteq> lru_oid v) l"
    by (intro filter_cong) auto
  then show ?thesis by (simp add: filter_map comp_def)
qed

lemma find_oid_touch: "find_oid k l = Some x \<Longrightarrow> obj_oid x = k \<and> x \<in> set l"
  by (auto simp: find_oid_def find_Some_iff)

lemma move_to_front_set:
  assumes "(e, v) \<in> set l" "distinct (map fst l)"
  shows "set (move_to_front e l) = set l" "distinct (map fst (move_to_front e l))"
    "move_to_front e l = (e, v) # filter (\<lambda>p. fst p \<noteq> e) l"
    "length (move_to_front e l) = length l"
proof -
  show mtf: "move_to_front e l = (e, v) # filter (\<lambda>p. fst p \<noteq> e) l"
    using assms by (simp add: move_to_front_def)
  have "p = (e, v)" if "p \<in> set l" "fst p = e" for p
    using assms that by (metis eq_key_imp_eq_value prod.collapse)
  then have "set l = insert (e, v) {p \<in> set l. fst p \<noteq> e}" using assms(1) by blast
  then show "set (move_to_front e l) = set l" unfolding mtf by simp
  show d: "distinct (map fst (move_to_front e l))"
    unfolding mtf using distinct_map_filter [OF assms(2)] by auto
  have "distinct (move_to_front e l)" "distinct l" using d assms(2) by (simp_all add: distinct_map)
  then have "length (move_to_front e l) = card (set (move_to_front e l))" "length l = card (set l)"
    by (simp_all only: distinct_card)
  with \<open>set (move_to_front e l) = set l\<close> show "length (move_to_front e l) = length l" by simp
qed

lemma distinct_map_set_eq:
  "distinct (map f l) \<Longrightarrow> set l' = set l \<Longrightarrow> length l' = length l \<Longrightarrow> distinct (map f l')"
  by (metis card_distinct distinct_card length_map list.set_map)

lemma lru_wf_reorder:
  assumes "lru_wf s" "set l = set (order s)" "length l = length (order s)"
  shows "lru_wf (s\<lparr>order := l\<rparr>)"
  using assms distinct_map_set_eq [of fst "order s" l] distinct_map_set_eq [of "lru_oid \<circ> snd" "order s" l]
  by (simp add: lru_wf_def)

lemma lru_get_refines_lemma:
  assumes wf: "lru_wf s"
  shows "lru_wf (snd (lru_get s k)) \<and> fst (lru_get s k) = fst (spec_get (recent s) k) \<and>
    recent (snd (lru_get s k)) = snd (spec_get (recent s) k)"
proof (cases "map_of (items s) k")
  case None
  then have "find_oid k (recent s) = None"
    using lru_lookup(1) [OF wf, of k] by (auto simp: find_oid_def find_None_iff)
  with None wf show ?thesis by (simp add: lru_get_def spec_get_def)
next
  case (Some e)
  obtain v where v: "map_of (order s) e = Some v" "(e, v) \<in> set (order s)" "lru_oid v = k"
    "obj_oid (lru_obj v) = k" "find_oid k (recent s) = Some (lru_obj v)"
    using lru_lookup(2) [OF wf Some] by blast
  have d: "distinct (map fst (order s))" "distinct (map (lru_oid \<circ> snd) (order s))"
    "\<forall>p \<in> set (order s). lru_oid (snd p) = obj_oid (lru_obj (snd p))"
    using wf by (simp_all add: lru_wf_def)
  note mtf = move_to_front_set [OF v(2) d(1)]
  have get: "lru_get s k = (Some (lru_obj v), s\<lparr>order := move_to_front e (order s)\<rparr>)"
    using Some v(1) by (simp add: lru_get_def)
  have "recent (s\<lparr>order := move_to_front e (order s)\<rparr>) = touch (lru_obj v) (recent s)"
    using filter_elem_recent [OF v(2) d] v(3,4) by (simp add: recent_def mtf(3) touch_def)
  then show ?thesis
    using lru_wf_reorder [OF wf mtf(1) mtf(4)] v by (simp add: get spec_get_def)
qed

lemma lru_put_present:
  assumes wf: "lru_wf s" and it: "map_of (items s) (obj_oid obj) = Some e"
    and ne: "obj_oid obj \<noteq> []" "max_entries s \<noteq> 0"
  shows "lru_wf (lru_put s obj) \<and> recent (lru_put s obj) = touch obj (recent s)"
proof -
  let ?v' = "\<lparr>lru_oid = obj_oid obj, lru_obj = obj\<rparr>"
  obtain v where v: "(e, v) \<in> set (order s)" "lru_oid v = obj_oid obj"
    using lru_lookup(2) [OF wf it] by blast
  have d: "distinct (map fst (order s))" "distinct (map (lru_oid \<circ> snd) (order s))"
    "\<forall>p \<in> set (order s). lru_oid (snd p) = obj_oid (lru_obj (snd p))"
    using wf by (simp_all add: lru_wf_def)
  define l where "l = AList.update e ?v' (order s)"
  have upd: "l = map (\<lambda>p. if fst p = e then (e, ?v') else p) (order s)"
  proof -
    have "AList.update e ?v' l = map (\<lambda>p. if fst p = e then (e, ?v') else p) l"
      if "e \<in> fst ` set l" "distinct (map fst l)" for l :: "(nat \<times> lru_entry) list"
      using that
    proof (induction l)
      case (Cons p l)
      show ?case
      proof (cases "fst p = e")
        case True
        then have "map (\<lambda>p. if fst p = e then (e, ?v') else p) l = l"
          using Cons.prems by (intro map_idI) (metis distinct.simps(2) image_eqI list.set_map list.simps(9))
        with True show ?thesis by (cases p) simp
      qed (use Cons in \<open>cases p; simp\<close>)
    qed simp
    then show ?thesis using v(1) d(1) by (force simp: l_def)
  qed
  have kd: "map fst l = map fst (order s)" by (simp add: upd comp_def)
  have same: "lru_oid (snd p) = obj_oid obj" if "p \<in> set (order s)" "fst p = e" for p
    using that v d(1) by (metis eq_key_imp_eq_value prod.collapse)
  then have od: "map (lru_oid \<circ> snd) l = map (lru_oid \<circ> snd) (order s)" by (simp add: upd)
  have inl: "(e, ?v') \<in> set l" using v(1) by (force simp: upd)
  have dl: "distinct (map fst l)" "distinct (map (lru_oid \<circ> snd) l)"
    "\<forall>p \<in> set l. lru_oid (snd p) = obj_oid (lru_obj (snd p))"
    using d by (auto simp: kd od) (auto simp: upd)
  note mtf = move_to_front_set [OF inl dl(1)]
  have put: "lru_put s obj = s\<lparr>order := move_to_front e l\<rparr>" using it ne by (simp add: lru_put_def l_def)
  have keys: "(\<exists>v. (e', v) \<in> set l \<and> lru_oid v = k) \<longleftrightarrow> (\<exists>v. (e', v) \<in> set (order s) \<and> lru_oid v = k)" for e' k
  proof -
    have "(\<exists>v. (e', v) \<in> set m \<and> lru_oid v = k) \<longleftrightarrow> (e', k) \<in> (\<lambda>p. (fst p, lru_oid (snd p))) ` set m"
      for m :: "(nat \<times> lru_entry) list" by force
    moreover have "(\<lambda>p. (fst p, lru_oid (snd p))) ` set l = (\<lambda>p. (fst p, lru_oid (snd p))) ` set (order s)"
        unfolding upd list.set_map image_image using same by (intro image_cong) auto
    ultimately show ?thesis by simp
  qed
  have bound: "\<forall>p \<in> set l. fst p < next_elem s"
    using wf kd by (metis (no_types, lifting) image_iff list.set_map lru_wf_def)
  have len: "length l = length (order s)" by (simp add: upd)
  have "lru_wf (s\<lparr>order := l\<rparr>)"
    using wf dl bound keys len by (simp add: lru_wf_def)
  then have "lru_wf (s\<lparr>order := move_to_front e l\<rparr>)"
    using lru_wf_reorder [of "s\<lparr>order := l\<rparr>" "move_to_front e l"] mtf(1,4) by simp
  moreover have "recent (s\<lparr>order := move_to_front e l\<rparr>) = touch obj (recent s)"
  proof -
    have "filter (\<lambda>x. obj_oid x \<noteq> obj_oid obj) (map (lru_obj \<circ> snd) l) =
          filter (\<lambda>x. obj_oid x \<noteq> obj_oid obj) (map (lru_obj \<circ> snd) (order s))"
      using same d(3) by (auto simp: upd filter_map comp_def intro!: map_cong filter_cong)
    then show ?thesis
      using filter_elem_recent [OF inl dl] by (simp add: recent_def mtf(3) touch_def)
  qed
  ultimately show ?thesis by (simp add: put)
qed

lemma evict_fits: "length (order s) \<le> max_entries s \<Longrightarrow> evict s = s"
  by (subst evict.simps) simp

lemma recent_last: "length (order s) = Suc n \<Longrightarrow> recent (s\<lparr>order := butlast (order s), items := i\<rparr>) = take n (recent s)"
  "length (order s) = Suc n \<Longrightarrow> recent (s\<lparr>items := i, order := butlast (order s)\<rparr>) = take n (recent s)"
  by (simp_all add: recent_def butlast_conv_take take_map)

lemma lru_put_absent:
  assumes wf: "lru_wf s" and it: "map_of (items s) (obj_oid obj) = None"
    and ne: "obj_oid obj \<noteq> []" "max_entries s \<noteq> 0"
  shows "lru_wf (lru_put s obj) \<and> recent (lru_put s obj) = take (max_entries s) (touch obj (recent s))"
proof -
  let ?k = "obj_oid obj"
  let ?e = "(next_elem s, \<lparr>lru_oid = ?k, lru_obj = obj\<rparr>)"
  define s1 where "s1 = s\<lparr>order := ?e # order s, items := AList.update ?k (next_elem s) (items s),
    next_elem := Suc (next_elem s)\<rparr>"
  have put: "lru_put s obj = evict s1" using it ne by (simp add: lru_put_def s1_def Let_def)
  have new: "?k \<notin> obj_oid ` set (recent s)" using lru_lookup(1) [OF wf] it by blast
  have fresh: "?k \<noteq> lru_oid (snd p)" if "p \<in> set (order s)" for p
    using new that wf by (auto simp: recent_def lru_wf_def)
  have idx: "\<And>k e. map_of (items s) k = Some e \<longleftrightarrow> (\<exists>v. (e, v) \<in> set (order s) \<and> lru_oid v = k)"
    using wf by (simp add: lru_wf_def)
  have idx1: "map_of (items s1) k = Some e \<longleftrightarrow> (\<exists>v. (e, v) \<in> set (order s1) \<and> lru_oid v = k)" for k e
    using idx fresh by (force simp: s1_def)
  have d1: "distinct (map fst (order s1))" "\<forall>p \<in> set (order s1). fst p < next_elem s1"
    "distinct (map (lru_oid \<circ> snd) (order s1))"
    "\<forall>p \<in> set (order s1). lru_oid (snd p) = obj_oid (lru_obj (snd p))"
    using wf fresh by (auto simp: s1_def lru_wf_def)
  have t: "touch obj (recent s) = recent s1"
  proof -
    have "filter (\<lambda>x. obj_oid x \<noteq> ?k) (recent s) = recent s"
      using new by (intro filter_True) (metis image_eqI)
    then show ?thesis by (simp add: touch_def s1_def recent_def)
  qed
  have len: "length (order s1) = Suc (length (order s))" "max_entries s1 = max_entries s"
    by (simp_all add: s1_def)
  show ?thesis
  proof (cases "length (order s) < max_entries s")
    case True
    then have "length (order s1) \<le> max_entries s1" using len by simp
    moreover have "length (recent s1) \<le> max_entries s" using True len by (simp add: recent_def)
    ultimately show ?thesis
      using d1 idx1 t by (simp add: put evict_fits lru_wf_def)
  next
    case False
    then have full: "length (order s) = max_entries s" using wf by (simp add: lru_wf_def)
    let ?b = "last (order s1)"
    define s2 where "s2 = s1\<lparr>items := AList.delete (lru_oid (snd ?b)) (items s1), order := butlast (order s1)\<rparr>"
    have nonempty: "order s1 \<noteq> []" by (simp add: s1_def)
    have split: "order s1 = butlast (order s1) @ [?b]" using nonempty by simp
    have "evict s1 = evict s2"
      using full ne len nonempty by (subst evict.simps) (simp add: s2_def Let_def)
    also have "\<dots> = s2"
      using full len by (intro evict_fits) (simp add: s2_def)
    finally have ev: "evict s1 = s2" .
    have gone: "lru_oid (snd p) \<noteq> lru_oid (snd ?b)" if "p \<in> set (butlast (order s1))" for p
    proof -
      have "distinct (map (lru_oid \<circ> snd) (butlast (order s1) @ [?b]))" using d1(3) split by simp
      then have "lru_oid (snd ?b) \<notin> (\<lambda>x. lru_oid (snd x)) ` set (butlast (order s1))"
        by (simp add: comp_def)
      then show ?thesis using that by (metis (no_types, lifting) image_eqI)
    qed
    have old: "(e, v) \<in> set (order s1) \<longleftrightarrow> (e, v) \<in> set (butlast (order s1)) \<or> (e, v) = ?b" for e v
      by (subst split) auto
    have idx2: "map_of (items s2) k = Some e \<longleftrightarrow> (\<exists>v. (e, v) \<in> set (order s2) \<and> lru_oid v = k)" for k e
    proof (cases "k = lru_oid (snd ?b)")
      case True
      have "map_of (items s2) k = None" using True by (simp add: s2_def delete_conv')
      moreover have "\<not> (\<exists>v. (e, v) \<in> set (order s2) \<and> lru_oid v = k)"
        using gone True by (force simp: s2_def)
      ultimately show ?thesis by simp
    next
      case False
      then have "map_of (items s2) k = map_of (items s1) k" by (simp add: s2_def delete_conv')
      then show ?thesis using idx1 [of k e] old False by (simp add: s2_def) (metis snd_conv)
    qed
    have sub: "set (butlast (order s1)) \<subseteq> set (order s1)" by (auto dest: in_set_butlastD)
    have "lru_wf s2"
      using d1 idx2 sub len full
      by (auto simp: lru_wf_def s2_def map_butlast distinct_butlast dest: in_set_butlastD)
    moreover have "recent s2 = take (max_entries s) (recent s1)"
      using recent_last(2) [of s1 "max_entries s"] len full by (simp add: s2_def)
    ultimately show ?thesis using t by (simp add: put ev)
  qed
qed

lemma lru_put_refines:
  assumes wf: "lru_wf s"
  shows "lru_wf (lru_put s obj) \<and> recent (lru_put s obj) = spec_put (max_entries s) (recent s) obj"
proof -
  have "length (recent s) \<le> max_entries s" using wf by (simp add: recent_def lru_wf_def)
  moreover have "length (touch obj (recent s)) \<le> length (recent s)" if "obj_oid obj \<in> obj_oid ` set (recent s)"
  proof -
    have "length (filter (\<lambda>x. obj_oid x \<noteq> obj_oid obj) (recent s)) < length (recent s)"
      using that by (force intro: length_filter_less)
    then show ?thesis by (simp add: touch_def)
  qed
  ultimately show "lru_wf (lru_put s obj) \<and> recent (lru_put s obj) = spec_put (max_entries s) (recent s) obj"
    using lru_put_absent [OF wf, of obj] lru_put_present [OF wf, of obj] lru_lookup(1) [OF wf, of "obj_oid obj"] wf
    by (cases "obj_oid obj = [] \<or> max_entries s = 0"; cases "map_of (items s) (obj_oid obj)")
       (auto simp: spec_put_def lru_put_def)
qed

text \<open>C30: LRUObjectStore refines a list of objects in order of recency bounded by the maximal entry
  count. A new cache holds nothing; \<open>Get\<close> answers from the list and moves the hit to the front;
  \<open>Has\<close> answers without moving; \<open>Put\<close> puts the object in front, replaces an entry of the same OID
  and drops the least recently used entry when the cache is full; each keeps the index and the list
  consistent.\<close>

theorem lru_refines:
  "lru_wf (NewLRUObjectStore m) \<and> recent (NewLRUObjectStore m) = [] \<and>
   (lru_wf s \<longrightarrow>
     lru_wf (snd (lru_get s k)) \<and>
     (fst (lru_get s k), recent (snd (lru_get s k))) = spec_get (recent s) k \<and>
     lru_has s k = (find_oid k (recent s) \<noteq> None) \<and>
     lru_wf (lru_put s obj) \<and>
     recent (lru_put s obj) = spec_put (max_entries s) (recent s) obj \<and>
     max_entries (lru_put s obj) = max_entries s)"
proof (intro conjI impI)
  show "lru_wf (NewLRUObjectStore m)" "recent (NewLRUObjectStore m) = []"
    by (simp_all add: NewLRUObjectStore_def lru_wf_def recent_def)
  assume wf: "lru_wf s"
  show "lru_wf (snd (lru_get s k))" "(fst (lru_get s k), recent (snd (lru_get s k))) = spec_get (recent s) k"
    using lru_get_refines_lemma [OF wf, of k] by (simp_all add: prod_eq_iff)
  show "lru_has s k = (find_oid k (recent s) \<noteq> None)"
    using lru_lookup [OF wf, of k] by (force simp: lru_has_def find_oid_def find_None_iff)
  show "lru_wf (lru_put s obj)" "recent (lru_put s obj) = spec_put (max_entries s) (recent s) obj"
    using lru_put_refines [OF wf] by simp_all
  have ev: "max_entries (evict s) = max_entries s" for s
    by (induction s rule: evict.induct) (subst evict.simps, simp add: Let_def)
  show "max_entries (lru_put s obj) = max_entries s"
    by (simp add: lru_put_def ev Let_def split: option.split)
qed

theorem lru_refines_witness:
  "let a = \<lparr>obj_type = 3, obj_data = [1], obj_oid = ''a''\<rparr>; b = \<lparr>obj_type = 3, obj_data = [2], obj_oid = ''b''\<rparr>;
       s = lru_put (NewLRUObjectStore 1) a
   in recent (lru_put s b) = spec_put (max_entries s) (recent s) b"
proof -
  let ?a = "\<lparr>obj_type = 3, obj_data = [1], obj_oid = ''a''\<rparr>"
  have "lru_wf (lru_put (NewLRUObjectStore 1) ?a)"
    by (simp add: lru_put_def NewLRUObjectStore_def evict.simps lru_wf_def)
  then show ?thesis unfolding Let_def
    using lru_refines [of 1 "lru_put (NewLRUObjectStore 1) ?a" _ "\<lparr>obj_type = 3, obj_data = [2], obj_oid = ''b''\<rparr>"]
    by blast
qed

section \<open>The store's interface\<close>

text \<open>What the pack builder uses of an object store: \<open>Get\<close> and \<open>Put\<close>. A store answers only
  with objects that were put under the OID asked for.\<close>

primrec get_all :: "('s \<Rightarrow> string \<Rightarrow> git_object option \<times> 's) \<Rightarrow> string list \<Rightarrow> (string, git_object) gomap \<times> 's
    \<Rightarrow> (string, git_object) gomap \<times> 's" where
  "get_all get [] r = r"
| "get_all get (oid # oids) r = (case get (snd r) oid of
     (None, s') \<Rightarrow> get_all get oids (fst r, s')
   | (Some obj, s') \<Rightarrow> get_all get oids (AList.update oid obj (fst r), s'))"

locale object_cache =
  fixes get :: "'s \<Rightarrow> string \<Rightarrow> git_object option \<times> 's"
    and put :: "'s \<Rightarrow> git_object \<Rightarrow> 's"
    and wf :: "'s \<Rightarrow> bool"
    and contents :: "'s \<Rightarrow> git_object set"
  assumes get_sound: "wf s \<Longrightarrow> fst (get s k) = Some x \<Longrightarrow> x \<in> contents s \<and> obj_oid x = k"
    and get_keeps: "wf s \<Longrightarrow> wf (snd (get s k)) \<and> contents (snd (get s k)) = contents s"
    and put_wf: "wf s \<Longrightarrow> wf (put s x)"
    and put_contents: "wf s \<Longrightarrow> contents (put s x) \<subseteq> insert x (contents s)"
begin

lemma puts_contents:
  assumes "wf s"
  shows "wf (fold (\<lambda>x s. put s x) xs s) \<and> contents (fold (\<lambda>x s. put s x) xs s) \<subseteq> set xs \<union> contents s"
  using assms
proof (induction xs arbitrary: s)
  case (Cons x xs)
  have "wf (put s x)" "contents (put s x) \<subseteq> insert x (contents s)"
    using put_wf [OF Cons.prems] put_contents [OF Cons.prems] by blast+
  then show ?case using Cons.IH [of "put s x"] by auto
qed simp

text \<open>Looking up a list of OIDs in order, keeping what is found.\<close>

lemma gets_sound:
  assumes "wf s"
    and "get_all get ks (m, s) = (m', s')"
    and "map_of m' k = Some x"
  shows "map_of m k = Some x \<or> (k \<in> set ks \<and> x \<in> contents s \<and> obj_oid x = k)"
  using assms
proof (induction ks arbitrary: m s)
  case (Cons a ks)
  obtain r s1 where g: "get s a = (r, s1)" by fastforce
  have s1: "wf s1" "contents s1 = contents s" using get_keeps [OF Cons.prems(1), of a] by (simp_all add: g)
  show ?case
  proof (cases r)
    case None
    then show ?thesis using Cons.IH [OF s1(1), of m] Cons.prems g s1 by auto
  next
    case (Some y)
    have y: "y \<in> contents s" "obj_oid y = a" using get_sound [OF Cons.prems(1), of a y] by (simp_all add: g Some)
    have "map_of (AList.update a y m) k = Some x \<or> (k \<in> set ks \<and> x \<in> contents s1 \<and> obj_oid x = k)"
      by (rule Cons.IH [OF s1(1)]) (use Cons.prems g Some in simp_all)
    then show ?thesis using y s1 by (auto split: if_splits)
  qed
qed simp

end

definition mem_wf :: "memory_store \<Rightarrow> bool" where
  "mem_wf s \<longleftrightarrow> (\<forall>k x. map_of (mem_objects s) k = Some x \<longrightarrow> obj_oid x = k)"

definition mem_contents :: "memory_store \<Rightarrow> git_object set" where
  "mem_contents s = ran (map_of (mem_objects s))"

lemma NewMemoryObjectStore_wf: "mem_wf NewMemoryObjectStore"
  by (simp add: mem_wf_def NewMemoryObjectStore_def)

interpretation memory: object_cache mem_get mem_put mem_wf mem_contents
proof
  show "mem_wf s \<Longrightarrow> mem_contents (mem_put s x) \<subseteq> insert x (mem_contents s)" for s x
    by (auto simp: mem_contents_def mem_put_def ran_def split: if_splits)
qed (auto simp: mem_get_def mem_put_def mem_wf_def mem_contents_def ranI)

lemma find_oid_Some: "find_oid k l = Some x \<Longrightarrow> x \<in> set l \<and> obj_oid x = k"
  by (auto simp: find_oid_def find_Some_iff)

interpretation lru: object_cache lru_get lru_put lru_wf "\<lambda>s. set (recent s)"
proof
  fix s k x assume wf: "lru_wf s"
  note g = lru_get_refines_lemma [OF wf, of k]
  show "lru_wf (snd (lru_get s k)) \<and> set (recent (snd (lru_get s k))) = set (recent s)"
  proof (cases "find_oid k (recent s)")
    case (Some y)
    have "set (touch y (recent s)) = set (recent s)"
    proof -
      have "x = y" if "x \<in> set (recent s)" "obj_oid x = obj_oid y" for x
      proof -
        have "distinct (map obj_oid (recent s))"
        proof -
          have "map obj_oid (recent s) = map (lru_oid \<circ> snd) (order s)"
            using wf by (auto simp: recent_def lru_wf_def)
          then show ?thesis using wf by (simp add: lru_wf_def)
        qed
        then show ?thesis using that find_oid_Some [OF Some] by (metis distinct_map inj_onD)
      qed
      then show ?thesis using find_oid_Some [OF Some] by (auto simp: touch_def)
    qed
    then show ?thesis using g Some by (simp add: spec_get_def)
  qed (use g in \<open>simp add: spec_get_def\<close>)
  show "x \<in> set (recent s) \<and> obj_oid x = k" if "fst (lru_get s k) = Some x"
    using that g find_oid_Some by (auto simp: spec_get_def split: option.splits)
next
  fix s x assume wf: "lru_wf s"
  have put: "lru_wf (lru_put s x) \<and> recent (lru_put s x) = spec_put (max_entries s) (recent s) x"
    using lru_put_refines [OF wf] by blast
  then show "lru_wf (lru_put s x)" by simp
  show "set (recent (lru_put s x)) \<subseteq> insert x (set (recent s))"
    using put by (auto simp: spec_put_def touch_def dest: in_set_takeD)
qed

end
