(* ===== verification/GitTree.thy ===== *)
theory GitTree
  imports GitPack "HOL-Library.List_Lexorder" "HOL-Library.Char_ord"
begin

text \<open>
  Git trees and commits as bytes: \<open>parseTreeEntries\<close>, \<open>extractTreeOID\<close>, \<open>extractParentOIDs\<close> of
  \<open>src/kailab/sshserver/gitpack_parse.go\<close>, \<open>buildCommitObject\<close> of \<open>gitpack.go\<close>, and the trees that
  \<open>snapshot_adapter.go\<close> builds from a snapshot's paths. A Go map is the list of its entries in the
  order in which one iteration visits it; nothing here depends on that order.
\<close>

section \<open>Reading trees and commits\<close>

record tree_entry =
  entry_mode :: string
  entry_name :: string
  entry_oid :: string

text \<open>\<open>bytes.IndexByte\<close>: the bytes before the first occurrence and those after it.\<close>

fun cut_at :: "'a \<Rightarrow> 'a list \<Rightarrow> ('a list \<times> 'a list) option" where
  "cut_at x [] = None"
| "cut_at x (y # ys) = (if y = x then Some ([], ys)
     else map_option (\<lambda>(a, b). (y # a, b)) (cut_at x ys))"

lemma cut_at_length: "cut_at x l = Some (a, b) \<Longrightarrow> length l = Suc (length a + length b)"
  by (induction l arbitrary: a b) (auto split: if_splits)

lemma cut_at_append: "x \<notin> set a \<Longrightarrow> cut_at x (a @ x # b) = Some (a, b)"
  by (induction a) auto

function parse_entries :: "bytes \<Rightarrow> tree_entry list" where
  "parse_entries data = (if data = [] then [] else
     case cut_at 32 data of
       None \<Rightarrow> []
     | Some (mode, rest) \<Rightarrow>
       (case cut_at 0 rest of
          None \<Rightarrow> []
        | Some (name, rest') \<Rightarrow>
          if length rest' < 20 then []
          else \<lparr>entry_mode = of_bytes mode, entry_name = of_bytes name,
                 entry_oid = hex_encode (take 20 rest')\<rparr> # parse_entries (drop 20 rest')))"
  by pat_completeness auto
termination by (relation "measure length") (auto dest!: cut_at_length)

declare parse_entries.simps [simp del]

definition parseTreeEntries :: "bytes \<Rightarrow> tree_entry list" where
  "parseTreeEntries data = parse_entries data"

definition commit_lines :: "bytes \<Rightarrow> bytes list" where
  "commit_lines data = split_on 10 data"

text \<open>\<open>line[5:45]\<close> panics when the line is shorter.\<close>

definition extractTreeOID :: "bytes \<Rightarrow> ('e, string) go" where
  "extractTreeOID data =
     (case find (\<lambda>line. HasPrefix line (to_bytes ''tree '')) (commit_lines data) of
        Some line \<Rightarrow> bind_go (go_slice line 5 45) (\<lambda>h. Ok (of_bytes h))
      | None \<Rightarrow> Ok [])"

definition extractParentOIDs :: "bytes \<Rightarrow> string list" where
  "extractParentOIDs data =
     map (\<lambda>line. of_bytes (slice 7 47 line))
       (filter (\<lambda>line. HasPrefix line (to_bytes ''parent '') \<and> length line \<ge> 47) (commit_lines data))"

section \<open>Synthetic commits\<close>

definition emptyTreeOID :: string where
  "emptyTreeOID = ''4b825dc642cb6eb9a060e54bf8d69288fbee4904''"

definition buildEmptyTreeObject :: git_object where
  "buildEmptyTreeObject = \<lparr>obj_type = ObjectTree, obj_data = [], obj_oid = emptyTreeOID\<rparr>"

abbreviation newline :: string where "newline \<equiv> [char_of (10 :: nat)]"

definition commit_body :: "string \<Rightarrow> string \<Rightarrow> string \<Rightarrow> string" where
  "commit_body refName targetHex treeOID =
     ''tree '' @ treeOID @ newline @
     ''author Kai <kai@local> 0 +0000'' @ newline @
     ''committer Kai <kai@local> 0 +0000'' @ newline @ newline @
     ''Kai ref '' @ refName @ newline @
     (if targetHex \<noteq> [] then ''target '' @ targetHex @ newline else [])"

definition buildCommitObject :: "(bytes \<Rightarrow> bytes) \<Rightarrow> string \<Rightarrow> string \<Rightarrow> string \<Rightarrow> git_object" where
  "buildCommitObject sha refName targetHex treeOID =
     (let data = to_bytes (commit_body refName targetHex treeOID)
      in \<lparr>obj_type = ObjectCommit, obj_data = data, obj_oid = computeGitOID sha ''commit'' data\<rparr>)"

section \<open>Trees from paths\<close>

datatype treeNode = TreeNode (dirs: "(string \<times> treeNode) list") (blobs: "(string \<times> string) list")

definition empty_node :: treeNode where
  "empty_node = TreeNode [] []"

text \<open>\<open>insertPath\<close> walks the parts; the last one names the blob, an empty part in between is
  skipped, and an empty last part leaves the directory without a blob. The walk descends into a
  child that it creates when missing; the nodes form a tree, so updating a child in place is
  rebuilding the path to it.\<close>

fun insert_parts :: "treeNode \<Rightarrow> string list \<Rightarrow> string \<Rightarrow> treeNode" where
  "insert_parts node [] blobOID = node"
| "insert_parts node [name] blobOID =
     (if name \<noteq> [] then TreeNode (dirs node) (AList.update name blobOID (blobs node)) else node)"
| "insert_parts node (part # p # parts) blobOID =
     (if part = [] then insert_parts node (p # parts) blobOID
      else (let child = (case map_of (dirs node) part of Some c \<Rightarrow> c | None \<Rightarrow> empty_node)
            in TreeNode (AList.update part (insert_parts child (p # parts) blobOID) (dirs node)) (blobs node)))"

definition insertPath :: "treeNode \<Rightarrow> string \<Rightarrow> string \<Rightarrow> treeNode" where
  "insertPath root path blobOID = insert_parts root (split_on (CHR ''/'') path) blobOID"

definition encode_entry :: "tree_entry \<Rightarrow> (string, bytes) go" where
  "encode_entry e =
     (case hex_decode (entry_oid e) of
        Some b \<Rightarrow> if length b = 20
          then Ok (to_bytes (entry_mode e @ '' '' @ entry_name e) @ [0] @ b)
          else Err (entry_oid e)
      | None \<Rightarrow> Err (entry_oid e))"

fun encode_entries :: "tree_entry list \<Rightarrow> (string, bytes) go" where
  "encode_entries [] = Ok []"
| "encode_entries (e # es) =
     bind_go (encode_entry e) (\<lambda>a. bind_go (encode_entries es) (\<lambda>b. Ok (a @ b)))"

definition make_tree :: "(bytes \<Rightarrow> bytes) \<Rightarrow> tree_entry list \<Rightarrow> (string, git_object) go" where
  "make_tree sha entries =
     bind_go (encode_entries (sort_key entry_name entries)) (\<lambda>data.
       Ok \<lparr>obj_type = ObjectTree, obj_data = data, obj_oid = computeGitOID sha ''tree'' data\<rparr>)"

text \<open>\<open>sort.Slice\<close> orders by name only and is not stable; the model puts a directory before a file
  of the same name, one of the two orders the source may produce.\<close>

fun buildTreeObjects :: "(bytes \<Rightarrow> bytes) \<Rightarrow> treeNode \<Rightarrow> (string, string \<times> git_object list) go"
and build_dirs :: "(bytes \<Rightarrow> bytes) \<Rightarrow> (string \<times> treeNode) list \<Rightarrow>
    (string, tree_entry list \<times> git_object list) go" where
  "buildTreeObjects sha (TreeNode ds bs) =
     bind_go (build_dirs sha ds) (\<lambda>(entries, objs).
       bind_go (make_tree sha (entries @
           map (\<lambda>(name, oid). \<lparr>entry_mode = ''100644'', entry_name = name, entry_oid = oid\<rparr>) bs)) (\<lambda>tree.
         Ok (obj_oid tree, objs @ [tree])))"
| "build_dirs sha [] = Ok ([], [])"
| "build_dirs sha ((name, child) # ds) =
     bind_go (buildTreeObjects sha child) (\<lambda>(oid, objs).
       bind_go (build_dirs sha ds) (\<lambda>(entries, objs').
         Ok (\<lparr>entry_mode = ''40000'', entry_name = name, entry_oid = oid\<rparr> # entries, objs @ objs')))"

record snapshot_file =
  Path :: string
  ContentDigest :: string

text \<open>\<open>content\<close> is \<open>pack.ExtractObjectFromDB\<close>: the bytes stored under a digest, if any. Files that
  cannot be read are skipped. Paths use \<open>/\<close> (\<open>filepath.ToSlash\<close> is the identity off Windows).\<close>

definition add_file ::
  "(bytes \<Rightarrow> bytes) \<Rightarrow> (bytes \<Rightarrow> bytes option) \<Rightarrow> treeNode \<times> git_object list \<Rightarrow> snapshot_file \<Rightarrow> treeNode \<times> git_object list" where
  "add_file sha content st file =
     (if Path file = [] \<or> ContentDigest file = [] then st
      else case hex_decode (ContentDigest file) of
        None \<Rightarrow> st
      | Some d \<Rightarrow>
        (case content d of
           None \<Rightarrow> st
         | Some c \<Rightarrow> (let blobOID = computeGitOID sha ''blob'' c in
             (insertPath (fst st) (Path file) blobOID,
              snd st @ [\<lparr>obj_type = ObjectBlob, obj_data = c, obj_oid = blobOID\<rparr>]))))"

definition buildTreeFromFiles ::
  "(bytes \<Rightarrow> bytes) \<Rightarrow> (bytes \<Rightarrow> bytes option) \<Rightarrow> snapshot_file list \<Rightarrow>
   (string, (string \<times> git_object list) \<times> git_object list) go" where
  "buildTreeFromFiles sha content files =
     (let (root, bs) = foldl (add_file sha content) (empty_node, []) files
      in bind_go (buildTreeObjects sha root) (\<lambda>tree. Ok (tree, bs)))"

section \<open>A tree reads back as its entries\<close>

lemma to_bytes_Nil [simp]: "to_bytes [] = []"
  by (simp add: to_bytes_def)

lemma of_bytes_Nil [simp]: "of_bytes [] = []"
  by (simp add: of_bytes_def)

lemma byte_in_to_bytes: "n < 256 \<Longrightarrow> (word_of_nat n :: byte) \<in> set (to_bytes s) \<longleftrightarrow> char_of n \<in> set s"
proof -
  assume n: "n < 256"
  have "(word_of_nat (of_char c) :: byte) = word_of_nat n \<longleftrightarrow> c = char_of n" for c :: char
  proof
    assume "(word_of_nat (of_char c) :: byte) = word_of_nat n"
    then have "unat (word_of_nat (of_char c) :: byte) = unat (word_of_nat n :: byte)" by simp
    then have "of_char c = n" using n of_char_nat_less [of c] by simp
    then show "c = char_of n" by (metis char_of_char)
  next
    assume "c = char_of n"
    then show "(word_of_nat (of_char c) :: byte) = word_of_nat n" using n by (simp add: of_char_of)
  qed
  then show ?thesis by (auto simp: to_bytes_def image_iff) metis+
qed

definition entry_ok :: "tree_entry \<Rightarrow> bool" where
  "entry_ok e \<longleftrightarrow> CHR '' '' \<notin> set (entry_mode e) \<and> char_of (0 :: nat) \<notin> set (entry_name e) \<and>
     (\<exists>b. length b = 20 \<and> entry_oid e = hex_encode b)"

lemma encode_entry_ok:
  assumes "entry_ok e"
  shows "\<exists>b. length b = 20 \<and> entry_oid e = hex_encode b \<and>
    encode_entry e = Ok (to_bytes (entry_mode e) @ 32 # to_bytes (entry_name e) @ 0 # b)"
proof -
  obtain b where "length b = 20" "entry_oid e = hex_encode b" using assms by (auto simp: entry_ok_def)
  then show ?thesis by (intro exI [of _ b]) (simp add: encode_entry_def to_bytes_def)
qed

lemma char_of_space: "char_of (32 :: nat) = CHR '' ''"
  by code_simp

lemma parse_entries_Cons:
  assumes "entry_ok e" "length b = 20" "entry_oid e = hex_encode b"
  shows "parse_entries (to_bytes (entry_mode e) @ 32 # to_bytes (entry_name e) @ 0 # b @ rest) = e # parse_entries rest"
proof -
  have "(32 :: byte) \<notin> set (to_bytes (entry_mode e))" "(0 :: byte) \<notin> set (to_bytes (entry_name e))"
    using assms(1) byte_in_to_bytes [of 32 "entry_mode e"] byte_in_to_bytes [of 0 "entry_name e"]
    by (simp_all add: entry_ok_def char_of_space)
  then show ?thesis
    using assms by (subst parse_entries.simps) (simp add: cut_at_append)
qed

lemma encode_entries_ok:
  "\<forall>e \<in> set es. entry_ok e \<Longrightarrow> \<exists>data. encode_entries es = Ok data \<and> (\<forall>rest. parse_entries (data @ rest) = es @ parse_entries rest)"
proof (induction es)
  case (Cons e es)
  then obtain data where d: "encode_entries es = Ok data" "\<And>rest. parse_entries (data @ rest) = es @ parse_entries rest"
    by auto
  obtain b where b: "length b = 20" "entry_oid e = hex_encode b"
    "encode_entry e = Ok (to_bytes (entry_mode e) @ 32 # to_bytes (entry_name e) @ 0 # b)"
    using encode_entry_ok Cons.prems by (metis list.set_intros(1))
  have "entry_ok e" using Cons.prems by simp
  then show ?case
    using parse_entries_Cons [OF _ b(1,2)] d by (simp add: b(3))
qed simp

lemma make_tree_ok:
  assumes "\<forall>e \<in> set es. entry_ok e"
  shows "\<exists>t. make_tree sha es = Ok t \<and> obj_type t = ObjectTree \<and> parseTreeEntries (obj_data t) = sort_key entry_name es \<and>
    obj_oid t = computeGitOID sha ''tree'' (obj_data t)"
proof -
  have "\<forall>e \<in> set (sort_key entry_name es). entry_ok e" using assms by simp
  then obtain data where d: "encode_entries (sort_key entry_name es) = Ok data"
    "\<And>rest. parse_entries (data @ rest) = sort_key entry_name es @ parse_entries rest"
    using encode_entries_ok by blast
  have "parse_entries data = sort_key entry_name es" using d(2) [of "[]"] by (simp add: parse_entries.simps)
  then show ?thesis by (simp add: make_tree_def d(1) parseTreeEntries_def)
qed

section \<open>Commits\<close>

lemma split_on_no_sep: "line \<in> set (split_on x s) \<Longrightarrow> x \<notin> set line"
proof (induction x s arbitrary: line rule: split_on.induct)
qed (auto split: list.splits if_splits)

lemma extractTreeOID_first:
  assumes "length h = 40" "(10 :: byte) \<notin> set h"
  shows "extractTreeOID (to_bytes ''tree '' @ h @ 10 # rest) = Ok (of_bytes h)"
proof -
  have nl: "(10 :: byte) \<notin> set (to_bytes ''tree '' @ h)" using assms by (simp add: to_bytes_def)
  have len: "length (to_bytes ''tree '' @ h) = 45" using assms by simp
  have "commit_lines (to_bytes ''tree '' @ h @ 10 # rest) = (to_bytes ''tree '' @ h) # commit_lines rest"
    using split_on_line [OF nl, of rest] by (simp add: commit_lines_def)
  moreover have "slice 5 45 (to_bytes ''tree '' @ h) = h"
    using assms by (simp add: slice_def to_bytes_def)
  ultimately show ?thesis using len by (simp add: extractTreeOID_def go_slice_def)
qed

declare show_nat.simps [simp del]

lemma to_bytes_HasPrefix: "HasPrefix (to_bytes s) (to_bytes p) \<longleftrightarrow> HasPrefix s p"
proof -
  have "take n (to_bytes s) = to_bytes (take n s)" for n by (simp add: to_bytes_def take_map)
  then show ?thesis by (auto simp: HasPrefix_def inj_to_bytes)
qed

lemma no_newline: "newline ! 0 \<notin> set s \<Longrightarrow> (10 :: byte) \<notin> set (to_bytes s)"
  using byte_in_to_bytes [of 10 s] by simp

lemma split_on_lines:
  "(\<forall>l \<in> set ls. x \<notin> set l) \<Longrightarrow> x \<notin> set z \<Longrightarrow> split_on x (concat (map (\<lambda>l. l @ [x]) ls) @ z) = ls @ [z]"
  by (induction ls) (simp_all add: split_on_line split_on_none)

lemma to_bytes_lines:
  "to_bytes (concat (map (\<lambda>l. l @ newline) ls)) = concat (map (\<lambda>l. l @ [10]) (map to_bytes ls))"
  by (induction ls) (simp_all add: to_bytes_def of_char_of)

text \<open>The synthetic commit of a ref names the tree it was built for and has no parent: the
  readers \<open>extractTreeOID\<close> and \<open>extractParentOIDs\<close> recover this from its bytes, whatever the ref is
  called, as long as the name and the target hold no line break.\<close>

lemma buildCommitObject_reads_back:
  assumes "length treeOID = 40" "newline ! 0 \<notin> set treeOID"
    and "newline ! 0 \<notin> set refName" "newline ! 0 \<notin> set targetHex"
  shows "extractTreeOID (obj_data (buildCommitObject sha refName targetHex treeOID)) = Ok treeOID \<and>
    extractParentOIDs (obj_data (buildCommitObject sha refName targetHex treeOID)) = []"
proof
  let ?data = "obj_data (buildCommitObject sha refName targetHex treeOID)"
  have nl: "to_bytes newline = [10]" by (simp add: to_bytes_def of_char_of)
  have data: "?data = to_bytes (commit_body refName targetHex treeOID)"
    by (simp add: buildCommitObject_def Let_def)
  obtain rest where "commit_body refName targetHex treeOID = ''tree '' @ treeOID @ newline @ rest"
    unfolding commit_body_def by blast
  then show "extractTreeOID ?data = Ok treeOID"
    unfolding data using extractTreeOID_first [of "to_bytes treeOID" "to_bytes rest"] assms(1,2) no_newline [of treeOID]
    by (simp only: to_bytes_append nl) simp
  define ls where "ls = [''tree '' @ treeOID, ''author Kai <kai@local> 0 +0000'',
    ''committer Kai <kai@local> 0 +0000'', [], ''Kai ref '' @ refName] @
    (if targetHex \<noteq> [] then [''target '' @ targetHex] else [])"
  have split: "commit_lines ?data = map to_bytes ls @ [[]]"
  proof -
    have "?data = concat (map (\<lambda>l. l @ [10]) (map to_bytes ls)) @ []"
      unfolding data to_bytes_lines [symmetric] append_Nil2
      by (rule arg_cong [where f = to_bytes], cases "targetHex = []") (simp_all add: commit_body_def ls_def)
    moreover have "\<forall>l \<in> set (map to_bytes ls). (10 :: byte) \<notin> set l"
      using no_newline [OF assms(2)] no_newline [OF assms(3)] no_newline [OF assms(4)]
      by (simp add: ls_def) (simp add: to_bytes_def)
    ultimately show ?thesis using split_on_lines [of "map to_bytes ls" "10 :: byte" "[]"]
      by (simp add: commit_lines_def)
  qed
  have "\<not> HasPrefix l ''parent ''" if "l \<in> set ls" for l
    using that by (auto simp: ls_def HasPrefix_def split: if_splits)
  then show "extractParentOIDs ?data = []"
    by (auto simp: extractParentOIDs_def split to_bytes_HasPrefix filter_empty_conv)
qed

lemma buildCommitObject_reads_back_witness:
  "extractTreeOID (obj_data (buildCommitObject ex_sha ''refs/heads/main'' [] emptyTreeOID)) = Ok emptyTreeOID \<and>
   extractParentOIDs (obj_data (buildCommitObject ex_sha ''refs/heads/main'' [] emptyTreeOID)) = []"
  by (rule buildCommitObject_reads_back) (simp_all add: emptyTreeOID_def char_of_def)

section \<open>Looking a path up\<close>

text \<open>The specification of a lookup, on the paths and on the stored trees: the last part names a
  file, the ones before it name directories.\<close>

fun node_lookup :: "treeNode \<Rightarrow> string list \<Rightarrow> string option" where
  "node_lookup node [] = None"
| "node_lookup node [name] = map_of (blobs node) name"
| "node_lookup node (part # p # parts) =
     (case map_of (dirs node) part of None \<Rightarrow> None | Some c \<Rightarrow> node_lookup c (p # parts))"

definition find_entry :: "string \<Rightarrow> string \<Rightarrow> git_object \<Rightarrow> string option" where
  "find_entry mode name t = map_option entry_oid
     (find (\<lambda>e. entry_name e = name \<and> entry_mode e = mode) (parseTreeEntries (obj_data t)))"

fun tree_walk :: "(string \<Rightarrow> git_object option) \<Rightarrow> string \<Rightarrow> string list \<Rightarrow> string option" where
  "tree_walk M oid [] = None"
| "tree_walk M oid [name] = Option.bind (M oid) (find_entry ''100644'' name)"
| "tree_walk M oid (part # p # parts) =
     Option.bind (Option.bind (M oid) (find_entry ''40000'' part)) (\<lambda>o'. tree_walk M o' (p # parts))"

definition oid_ok :: "string \<Rightarrow> bool" where
  "oid_ok h \<longleftrightarrow> (\<exists>b. length b = 20 \<and> h = hex_encode b)"

definition name_ok :: "string \<Rightarrow> bool" where
  "name_ok s \<longleftrightarrow> char_of (0 :: nat) \<notin> set s"

primrec wf_node :: "treeNode \<Rightarrow> bool" where
  "wf_node (TreeNode ds bs) \<longleftrightarrow> distinct (map fst ds) \<and> distinct (map fst bs) \<and>
     (\<forall>d \<in> set ds. name_ok (fst d)) \<and> (\<forall>b \<in> set bs. name_ok (fst b) \<and> oid_ok (snd b)) \<and>
     (\<forall>d \<in> set (map (map_prod id wf_node) ds). snd d)"

lemma wf_node_child: "wf_node (TreeNode ds bs) \<Longrightarrow> (n, c) \<in> set ds \<Longrightarrow> wf_node c"
  by force

definition holds :: "(string \<Rightarrow> git_object option) \<Rightarrow> git_object list \<Rightarrow> bool" where
  "holds M objs \<longleftrightarrow> (\<forall>x \<in> set objs. M (obj_oid x) = Some x)"

lemma oid_ok_compute: "length (sha x) = 20 \<Longrightarrow> oid_ok (hex_encode (sha x))"
  by (auto simp: oid_ok_def)

lemma oid_ok_computeGitOID: "(\<And>x. length (sha x) = 20) \<Longrightarrow> oid_ok (computeGitOID sha kind data)"
  by (simp add: computeGitOID_def oid_ok_compute)

lemma find_unique: "e \<in> set l \<Longrightarrow> P e \<Longrightarrow> (\<And>x. x \<in> set l \<Longrightarrow> P x \<Longrightarrow> x = e) \<Longrightarrow> find P l = Some e"
  by (cases "find P l") (blast dest: find_None_iff [THEN iffD1], metis find_Some_iff nth_mem)

definition file_entry :: "string \<times> string \<Rightarrow> tree_entry" where
  "file_entry = (\<lambda>(name, oid). \<lparr>entry_mode = ''100644'', entry_name = name, entry_oid = oid\<rparr>)"

definition dir_entry_ok :: "(string \<Rightarrow> git_object option) \<Rightarrow> string \<times> treeNode \<Rightarrow> tree_entry \<Rightarrow> bool" where
  "dir_entry_ok M d e \<longleftrightarrow> entry_name e = fst d \<and> entry_mode e = ''40000'' \<and> entry_ok e \<and>
     (\<forall>ps. tree_walk M (entry_oid e) ps = node_lookup (snd d) ps)"

lemma dir_entries_names: "list_all2 (dir_entry_ok M) ds es \<Longrightarrow> map entry_name es = map fst ds"
  by (induction rule: list_all2_induct) (auto simp: dir_entry_ok_def)

lemma find_entry_tree:
  assumes es: "list_all2 (dir_entry_ok M) ds es" and wf: "wf_node (TreeNode ds bs)"
    and t: "parseTreeEntries (obj_data t) = sort_key entry_name (es @ map file_entry bs)"
  shows "find_entry ''100644'' name t = map_of bs name"
    and "map_of ds name = None \<Longrightarrow> find_entry ''40000'' name t = None"
    and "map_of ds name = Some c \<Longrightarrow> \<exists>o'. find_entry ''40000'' name t = Some o' \<and>
      (\<forall>ps. tree_walk M o' ps = node_lookup c ps)"
proof -
  have dmode: "entry_mode e = ''40000''" if "e \<in> set es" for e
    using es that by (auto simp: list_all2_conv_all_nth in_set_conv_nth dir_entry_ok_def)
  have d: "distinct (map fst bs)" "distinct (map entry_name es)"
    using wf dir_entries_names [OF es] by simp_all
  show "find_entry ''100644'' name t = map_of bs name"
  proof (cases "map_of bs name")
    case None
    then have "find (\<lambda>e. entry_name e = name \<and> entry_mode e = ''100644'') (sort_key entry_name (es @ map file_entry bs)) = None"
      unfolding find_None_iff using dmode by (force simp: file_entry_def map_of_eq_None_iff)
    then show ?thesis by (simp add: find_entry_def t None)
  next
    case (Some o')
    then have "(name, o') \<in> set bs" by (rule map_of_SomeD)
    then have "find (\<lambda>e. entry_name e = name \<and> entry_mode e = ''100644'') (sort_key entry_name (es @ map file_entry bs))
        = Some (file_entry (name, o'))"
      using dmode d(1) by (intro find_unique) (auto simp: file_entry_def dest: eq_key_imp_eq_value)
    then show ?thesis by (simp add: find_entry_def t Some file_entry_def)
  qed
  show "find_entry ''40000'' name t = None" if "map_of ds name = None"
  proof -
    have "name \<notin> set (map entry_name es)" using that dir_entries_names [OF es] by (simp add: map_of_eq_None_iff)
    then show ?thesis by (auto simp: find_entry_def t find_None_iff file_entry_def)
  qed
  show "\<exists>o'. find_entry ''40000'' name t = Some o' \<and> (\<forall>ps. tree_walk M o' ps = node_lookup c ps)" if "map_of ds name = Some c"
  proof -
    from that obtain i where i: "i < length ds" "ds ! i = (name, c)" by (metis in_set_conv_nth map_of_SomeD)
    have e: "dir_entry_ok M (name, c) (es ! i)" "es ! i \<in> set es"
      using list_all2_nthD [OF es i(1)] list_all2_lengthD [OF es] i by simp_all
    have "find (\<lambda>e. entry_name e = name \<and> entry_mode e = ''40000'') (sort_key entry_name (es @ map file_entry bs))
        = Some (es ! i)"
      using e d(2) by (intro find_unique) (auto simp: dir_entry_ok_def file_entry_def distinct_map dest: inj_onD)
    then show ?thesis using e(1) by (simp add: find_entry_def t dir_entry_ok_def)
  qed
qed

lemma buildTreeObjects_lookup:
  shows "\<lbrakk>\<And>x. length (sha x) = 20; wf_node node\<rbrakk> \<Longrightarrow> \<exists>oid objs. buildTreeObjects sha node = Ok (oid, objs) \<and> oid_ok oid \<and>
      (\<forall>M. holds M objs \<longrightarrow> (\<forall>ps. tree_walk M oid ps = node_lookup node ps))"
    and "\<lbrakk>\<And>x. length (sha x) = 20; \<And>n c. (n, c) \<in> set ds \<Longrightarrow> wf_node c \<and> name_ok n\<rbrakk> \<Longrightarrow>
      \<exists>es objs. build_dirs sha ds = Ok (es, objs) \<and> (\<forall>e \<in> set es. entry_ok e) \<and>
      (\<forall>M. holds M objs \<longrightarrow> list_all2 (dir_entry_ok M) ds es)"
proof (induction sha node and sha ds rule: buildTreeObjects_build_dirs.induct)
  case (1 sha ds bs)
  have "\<And>n c. (n, c) \<in> set ds \<Longrightarrow> wf_node c \<and> name_ok n"
    using "1.prems"(2) wf_node_child by fastforce
  then obtain es objs where es: "build_dirs sha ds = Ok (es, objs)" "\<forall>e \<in> set es. entry_ok e"
    "\<And>M. holds M objs \<Longrightarrow> list_all2 (dir_entry_ok M) ds es"
    using "1.IH" "1.prems"(1) by blast
  have "\<forall>e \<in> set (es @ map file_entry bs). entry_ok e"
    using es(2) "1.prems"(2) by (fastforce simp: file_entry_def entry_ok_def name_ok_def oid_ok_def)
  then obtain t where t: "make_tree sha (es @ map file_entry bs) = Ok t"
    "parseTreeEntries (obj_data t) = sort_key entry_name (es @ map file_entry bs)"
    "obj_oid t = computeGitOID sha ''tree'' (obj_data t)"
    using make_tree_ok by metis
  have build: "buildTreeObjects sha (TreeNode ds bs) = Ok (obj_oid t, objs @ [t])"
    using t(1) by (simp add: es(1) file_entry_def)
  have "tree_walk M (obj_oid t) ps = node_lookup (TreeNode ds bs) ps" if M: "holds M (objs @ [t])" for M ps
  proof -
    have Mt: "M (obj_oid t) = Some t" and l: "list_all2 (dir_entry_ok M) ds es"
      using M es(3) by (simp_all add: holds_def)
    note f = find_entry_tree [OF l "1.prems"(2) t(2)]
    show ?thesis
    proof (cases ps rule: remdups_adj.cases)
      case (3 part p parts)
      then show ?thesis using Mt f(2,3) [of part] by (cases "map_of ds part") auto
    qed (use Mt f(1) in auto)
  qed
  then show ?case using build t(3) oid_ok_computeGitOID [of sha, OF "1.prems"(1)] by auto
next
  case (3 sha name child ds)
  obtain oid objs where c: "buildTreeObjects sha child = Ok (oid, objs)" "oid_ok oid"
    "\<And>M ps. holds M objs \<Longrightarrow> tree_walk M oid ps = node_lookup child ps"
    using "3.IH"(1) [OF "3.prems"(1)] "3.prems"(2) [of name child] by auto
  obtain es objs' where r: "build_dirs sha ds = Ok (es, objs')" "\<forall>e \<in> set es. entry_ok e"
    "\<And>M. holds M objs' \<Longrightarrow> list_all2 (dir_entry_ok M) ds es"
    using "3.IH"(2) [OF c(1) refl "3.prems"(1)] "3.prems"(2) by auto
  let ?e = "\<lparr>entry_mode = ''40000'', entry_name = name, entry_oid = oid\<rparr>"
  have e: "entry_ok ?e"
    using c(2) "3.prems"(2) [of name child] by (simp add: entry_ok_def oid_ok_def name_ok_def)
  have "list_all2 (dir_entry_ok M) ((name, child) # ds) (?e # es)" if M: "holds M (objs @ objs')" for M
  proof -
    have "holds M objs" "holds M objs'" using M by (simp_all add: holds_def)
    then show ?thesis using c(3) r(3) e by (simp add: dir_entry_ok_def)
  qed
  then show ?case using c(1) r(1,2) e by auto
qed auto

lemma wf_node_empty: "wf_node empty_node"
  by (simp add: empty_node_def)

lemma dirs_wf: "wf_node node \<Longrightarrow> map_of (dirs node) part = Some c \<Longrightarrow> wf_node c"
  by (cases node) (force dest: map_of_SomeD)

lemma wf_node_update:
  "wf_node (TreeNode ds bs) \<Longrightarrow> name_ok n \<Longrightarrow> wf_node c \<Longrightarrow> wf_node (TreeNode (AList.update n c ds) bs)"
  "wf_node (TreeNode ds bs) \<Longrightarrow> name_ok n \<Longrightarrow> oid_ok h \<Longrightarrow> wf_node (TreeNode ds (AList.update n h bs))"
proof -
  have upd: "x = (n, v) \<or> x \<in> set l" if "x \<in> set (AList.update n v l)" for x n and v :: 'v and l :: "(string \<times> 'v) list"
    using that by (induction l) (auto split: if_splits)
  show "wf_node (TreeNode ds bs) \<Longrightarrow> name_ok n \<Longrightarrow> wf_node c \<Longrightarrow> wf_node (TreeNode (AList.update n c ds) bs)"
    by (auto simp: distinct_update dest!: upd)
  show "wf_node (TreeNode ds bs) \<Longrightarrow> name_ok n \<Longrightarrow> oid_ok h \<Longrightarrow> wf_node (TreeNode ds (AList.update n h bs))"
    by (auto simp: distinct_update dest!: upd)
qed

lemma wf_insert_parts:
  "wf_node node \<Longrightarrow> \<forall>p \<in> set parts. name_ok p \<Longrightarrow> oid_ok h \<Longrightarrow> wf_node (insert_parts node parts h)"
proof (induction node parts h rule: insert_parts.induct)
  case (2 node name h)
  then show ?case using wf_node_update(2) [of "dirs node" "blobs node" name h]
    by (simp del: wf_node.simps)
next
  case (3 node part p parts h)
  have "wf_node (case map_of (dirs node) part of Some c \<Rightarrow> c | None \<Rightarrow> empty_node)"
    using "3.prems"(1) by (auto split: option.split dest: dirs_wf intro: wf_node_empty)
  then show ?case
    using "3.IH" "3.prems" wf_node_update(1) [of "dirs node" "blobs node" part]
    by (simp add: Let_def del: wf_node.simps)
qed simp

lemma node_lookup_empty: "node_lookup empty_node ps = None"
  by (cases ps rule: remdups_adj.cases) (simp_all add: empty_node_def)


lemma node_lookup_insert:
  "ps \<noteq> [] \<Longrightarrow> parts \<noteq> [] \<Longrightarrow>
   node_lookup (insert_parts node parts h) ps =
     (if last parts \<noteq> [] \<and> ps = filter (\<lambda>p. p \<noteq> []) parts then Some h else node_lookup node ps)"
proof (induction node parts h arbitrary: ps rule: insert_parts.induct)
  case (2 node name h)
  then show ?case by (cases ps rule: remdups_adj.cases) auto
next
  case (3 node part p parts h)
  have ne: "last (p # parts) \<noteq> [] \<Longrightarrow> filter (\<lambda>p. p \<noteq> []) (p # parts) \<noteq> []"
    by (metis (mono_tags, lifting) empty_filter_conv last_in_set list.distinct(1))
  show ?case
  proof (cases "part = []")
    case True
    then show ?thesis using "3.IH"(1) "3.prems" by simp
  next
    case False
    let ?child = "case map_of (dirs node) part of Some c \<Rightarrow> c | None \<Rightarrow> empty_node"
    have IH: "qs \<noteq> [] \<Longrightarrow> node_lookup (insert_parts ?child (p # parts) h) qs =
        (if last (p # parts) \<noteq> [] \<and> qs = filter (\<lambda>p. p \<noteq> []) (p # parts) then Some h else node_lookup ?child qs)" for qs
      using "3.IH"(2) [OF False refl, of qs] "3.prems" by simp
    have ins: "insert_parts node (part # p # parts) h =
        TreeNode (AList.update part (insert_parts ?child (p # parts) h) (dirs node)) (blobs node)"
      using False by (simp add: Let_def)
    show ?thesis
    proof (cases ps rule: remdups_adj.cases)
      case (2 q)
      then show ?thesis using False ne unfolding ins by auto
    next
      case (3 q r qs)
      show ?thesis
      proof (cases "q = part")
        case True
        have "node_lookup (case map_of (dirs node) part of Some c \<Rightarrow> c | None \<Rightarrow> empty_node) (r # qs) = node_lookup node ps"
          using True 3 node_lookup_empty by (simp split: option.split)
        then show ?thesis
          using True 3 False IH [of "r # qs"] unfolding ins by simp
      qed (use 3 False in \<open>simp add: ins del: insert_parts.simps\<close>)
    qed (use "3.prems" in simp)
  qed
qed simp

text \<open>What the tree must say: the last readable file of a path wins. \<open>path_parts\<close> are the names
  on the way, empty ones skipped; a path that ends in a slash names no file.\<close>

definition path_parts :: "string \<Rightarrow> string list" where
  "path_parts path = filter (\<lambda>p. p \<noteq> []) (split_on (CHR ''/'') path)"

definition file_blob :: "(bytes \<Rightarrow> bytes) \<Rightarrow> (bytes \<Rightarrow> bytes option) \<Rightarrow> snapshot_file \<Rightarrow> git_object option" where
  "file_blob sha content f =
     (if Path f = [] \<or> ContentDigest f = [] then None
      else map_option (\<lambda>c. \<lparr>obj_type = ObjectBlob, obj_data = c, obj_oid = computeGitOID sha ''blob'' c\<rparr>)
        (Option.bind (hex_decode (ContentDigest f)) content))"

primrec snapshot_lookup ::
  "(bytes \<Rightarrow> bytes) \<Rightarrow> (bytes \<Rightarrow> bytes option) \<Rightarrow> snapshot_file list \<Rightarrow> string list \<Rightarrow> string option \<Rightarrow> string option" where
  "snapshot_lookup sha content [] ps r = r"
| "snapshot_lookup sha content (f # fs) ps r =
     snapshot_lookup sha content fs ps
       (case file_blob sha content f of
          Some b \<Rightarrow> if \<not> HasSuffix (Path f) ''/'' \<and> ps = path_parts (Path f) then Some (obj_oid b) else r
        | None \<Rightarrow> r)"

lemma add_file_blob:
  "add_file sha content st f = (case file_blob sha content f of None \<Rightarrow> st
     | Some b \<Rightarrow> (insertPath (fst st) (Path f) (obj_oid b), snd st @ [b]))"
  by (simp add: add_file_def file_blob_def Let_def split: option.split)

lemma split_on_single: "split_on x s = [l] \<Longrightarrow> s = l"
  by (induction x s arbitrary: l rule: split_on.induct) (auto split: list.splits if_splits)

lemma last_split_on: "last (split_on x s) = [] \<longleftrightarrow> s = [] \<or> last s = x"
  by (induction x s rule: split_on.induct) (auto split: list.splits dest: split_on_single)

lemma split_on_chars: "p \<in> set (split_on x s) \<Longrightarrow> set p \<subseteq> set s"
proof (induction x s arbitrary: p rule: split_on.induct)
  case (2 x c s)
  show ?case
  proof (cases "split_on x s")
    case (Cons l ls)
    have "set q \<subseteq> set s" if "q \<in> set (l # ls)" for q using "2.IH" [of q] that Cons by (cases "c = x") auto
    then show ?thesis using "2.prems" Cons by (auto split: if_splits) blast+
  qed simp
qed simp

lemma HasSuffix_single: "HasSuffix s [x] \<longleftrightarrow> s \<noteq> [] \<and> last s = x"
  by (cases s rule: rev_cases) (auto simp: HasSuffix_iff)

lemma add_files_lookup:
  assumes "wf_node node" "\<forall>f \<in> set files. name_ok (Path f)" "\<And>x. length (sha x) = 20"
  shows "wf_node (fst (foldl (add_file sha content) (node, bs) files)) \<and>
    (\<forall>ps. ps \<noteq> [] \<longrightarrow> node_lookup (fst (foldl (add_file sha content) (node, bs) files)) ps =
      snapshot_lookup sha content files ps (node_lookup node ps))"
  using assms
proof (induction files arbitrary: node bs)
  case (Cons f files)
  have fs: "\<forall>f \<in> set files. name_ok (Path f)" using Cons.prems(2) by simp
  show ?case
  proof (cases "file_blob sha content f")
    case None
    then have "add_file sha content (node, bs) f = (node, bs)" by (simp add: add_file_blob)
    then show ?thesis using Cons.IH [OF Cons.prems(1) fs Cons.prems(3), of bs] None by simp
  next
    case (Some b)
    have b: "oid_ok (obj_oid b)" "Path f \<noteq> []"
      using Some oid_ok_computeGitOID [of sha, OF Cons.prems(3)] by (auto simp: file_blob_def split: if_splits)
    define node' where "node' = insertPath node (Path f) (obj_oid b)"
    have add: "add_file sha content (node, bs) f = (node', bs @ [b])"
      by (simp add: add_file_blob Some node'_def)
    have "\<forall>p \<in> set (split_on (CHR ''/'') (Path f)). name_ok p"
      using Cons.prems(2) split_on_chars by (fastforce simp: name_ok_def)
    then have wf: "wf_node node'"
      unfolding node'_def insertPath_def using Cons.prems(1) b(1) by (intro wf_insert_parts)
    have look: "node_lookup node' ps = (if \<not> HasSuffix (Path f) ''/'' \<and> ps = path_parts (Path f)
        then Some (obj_oid b) else node_lookup node ps)" if "ps \<noteq> []" for ps
      using that b(2) unfolding node'_def insertPath_def
      by (simp add: node_lookup_insert last_split_on HasSuffix_single path_parts_def)
    show ?thesis
      using Cons.IH [OF wf fs Cons.prems(3), of "bs @ [b]"] by (simp add: add Some look)
  qed
qed simp

text \<open>C7: The trees built from a snapshot's files represent exactly the snapshot: the build
  succeeds, and in any object database that holds the built objects, walking a path from the root
  tree gives the blob of the last readable file with that path, and nothing for any other path.\<close>

theorem buildTreeFromFiles_lookup:
  assumes "\<And>x. length (sha x) = 20" "\<forall>f \<in> set files. name_ok (Path f)"
  shows "\<exists>oid objs bs. buildTreeFromFiles sha content files = Ok ((oid, objs), bs) \<and>
    (\<forall>M ps. holds M objs \<longrightarrow> ps \<noteq> [] \<longrightarrow>
      tree_walk M oid ps = snapshot_lookup sha content files ps None)"
proof -
  obtain root bs where f: "foldl (add_file sha content) (empty_node, []) files = (root, bs)" by fastforce
  then have root: "wf_node root"
    "\<And>ps. ps \<noteq> [] \<Longrightarrow> node_lookup root ps = snapshot_lookup sha content files ps None"
    using add_files_lookup [where node = empty_node and files = files and content = content and sha = sha and bs = "[]"]
      assms wf_node_empty by (simp_all add: node_lookup_empty)
  obtain oid objs where t: "buildTreeObjects sha root = Ok (oid, objs)"
    "\<And>M ps. holds M objs \<Longrightarrow> tree_walk M oid ps = node_lookup root ps"
    using buildTreeObjects_lookup(1) [of sha root, OF assms(1) root(1)] by blast
  show ?thesis
    by (intro exI [of _ oid] exI [of _ objs] exI [of _ bs])
       (simp add: buildTreeFromFiles_def f t root(2))
qed

theorem buildTreeFromFiles_lookup_witness:
  "\<exists>oid objs bs. buildTreeFromFiles ex_sha (\<lambda>d. Some d) [\<lparr>Path = ''a/b'', ContentDigest = ''07''\<rparr>] = Ok ((oid, objs), bs) \<and>
    (\<forall>M ps. holds M objs \<longrightarrow> ps \<noteq> [] \<longrightarrow>
      tree_walk M oid ps = snapshot_lookup ex_sha (\<lambda>d. Some d) [\<lparr>Path = ''a/b'', ContentDigest = ''07''\<rparr>] ps None)"
  by (rule buildTreeFromFiles_lookup [OF length_ex_sha]) (simp add: name_ok_def char_of_def)

section \<open>The order of tree entries\<close>

text \<open>Git compares tree entries by name with a slash appended to the names of directories.\<close>

definition git_name :: "tree_entry \<Rightarrow> string" where
  "git_name e = entry_name e @ (if entry_mode e = ''40000'' then ''/'' else [])"

text \<open>\<open>buildTreeObjects\<close> sorts by the bare name, so a snapshot with a directory \<open>a\<close> and a file
  \<open>a.txt\<close> yields a root tree whose entries are not in the order git requires of a tree object.\<close>

lemma buildTreeObjects_not_git_order:
  assumes "\<And>x. length (sha x) = 20" "oid_ok h"
  shows "\<exists>oid objs. buildTreeObjects sha (TreeNode [(''a'', TreeNode [] [(''b'', h)])] [(''a.txt'', h)]) = Ok (oid, objs) \<and>
    map git_name (parseTreeEntries (obj_data (last objs))) = [''a/'', ''a.txt''] \<and>
    \<not> sorted (map git_name (parseTreeEntries (obj_data (last objs))))"
proof -
  have n: "char_of (0 :: nat) \<notin> set s" if "set s \<subseteq> {CHR ''a'', CHR ''b'', CHR ''.'', CHR ''t'', CHR ''x''}" for s :: string
    using that by (auto simp: char_of_def)
  let ?b = "\<lparr>entry_mode = ''100644'', entry_name = ''b'', entry_oid = h\<rparr>"
  let ?f = "\<lparr>entry_mode = ''100644'', entry_name = ''a.txt'', entry_oid = h\<rparr>"
  have h: "\<exists>b. length b = 20 \<and> h = hex_encode b" using assms(2) by (simp add: oid_ok_def)
  then have "\<forall>e \<in> set [?b]. entry_ok e" using n [of "''b''"] by (simp add: entry_ok_def)
  then obtain t where t: "make_tree sha [?b] = Ok t" "obj_oid t = computeGitOID sha ''tree'' (obj_data t)"
    using make_tree_ok by metis
  let ?d = "\<lparr>entry_mode = ''40000'', entry_name = ''a'', entry_oid = obj_oid t\<rparr>"
  have "oid_ok (obj_oid t)" unfolding t(2) by (rule oid_ok_computeGitOID [OF assms(1)])
  then have "\<forall>e \<in> set [?d, ?f]. entry_ok e"
    using h n [of "''a''"] n [of "''a.txt''"] by (simp add: entry_ok_def oid_ok_def)
  then obtain r where r: "make_tree sha [?d, ?f] = Ok r" "parseTreeEntries (obj_data r) = sort_key entry_name [?d, ?f]"
    using make_tree_ok by metis
  have "\<not> ''a/'' \<le> ''a.txt''" "''a'' \<le> ''a.txt''"
    by (simp_all add: less_char_def)
  then show ?thesis using t r by (simp add: git_name_def)
qed

lemma buildTreeObjects_not_git_order_witness:
  "\<exists>oid objs. buildTreeObjects ex_sha (TreeNode [(''a'', TreeNode [] [(''b'', hex_encode (replicate 20 7))])] [(''a.txt'', hex_encode (replicate 20 7))]) = Ok (oid, objs) \<and>
    map git_name (parseTreeEntries (obj_data (last objs))) = [''a/'', ''a.txt''] \<and>
    \<not> sorted (map git_name (parseTreeEntries (obj_data (last objs))))"
  by (rule buildTreeObjects_not_git_order [OF length_ex_sha]) (auto simp: oid_ok_def intro!: exI [of _ "replicate 20 7"])

end
