(* ===== verification/GitWalk.thy ===== *)
theory GitWalk
  imports GitTree ObjectStore
begin

text \<open>
  The walk from a commit over the stored objects: \<open>collectCommitObjectsWithDepth\<close> of
  \<open>src/kailab/sshserver/gitpack_parse.go\<close>. The two recursive closures \<open>collectTree\<close> and
  \<open>collectCommit\<close> share the visited set and the results; their calls are the items of an explicit
  stack, pushed in call order, so that objects are visited in the order of the recursion.
\<close>

section \<open>The walk\<close>

datatype walk_item = TreeItem string | CommitItem string nat

record walk_state =
  visited :: "string list"
  result :: "git_object list"
  shallowCommits :: "string list"

definition unvisited :: "(string, git_object) gomap \<Rightarrow> string list \<Rightarrow> string set" where
  "unvisited objects vs = {k \<in> fst ` set objects. k \<notin> set vs}"

lemma unvisited_visit:
  "map_of objects k = Some x \<Longrightarrow> k \<notin> set vs \<Longrightarrow> card (unvisited objects (k # vs)) < card (unvisited objects vs)"
proof -
  assume a: "map_of objects k = Some x" "k \<notin> set vs"
  then have "k \<in> unvisited objects vs" by (auto simp: unvisited_def dest: map_of_SomeD intro: rev_image_eqI)
  moreover have "unvisited objects (k # vs) \<subset> unvisited objects vs"
    using calculation by (auto simp: unvisited_def)
  ultimately show ?thesis by (intro psubset_card_mono) (auto simp: unvisited_def)
qed

lemma unvisited_visit_le: "card (unvisited objects (k # vs)) \<le> card (unvisited objects vs)"
  by (intro card_mono) (auto simp: unvisited_def)

text \<open>The items a commit leads to: its tree, when it names one, then its parents, unless the depth
  limit is reached.\<close>

definition commit_items :: "nat \<Rightarrow> git_object \<Rightarrow> string \<Rightarrow> nat \<Rightarrow> walk_item list" where
  "commit_items maxDepth obj treeOID depth =
     (if treeOID \<noteq> [] then [TreeItem treeOID] else []) @
     (if maxDepth > 0 \<and> depth \<ge> maxDepth then []
      else map (\<lambda>p. CommitItem p (depth + 1)) (extractParentOIDs (obj_data obj)))"

definition is_boundary :: "nat \<Rightarrow> git_object \<Rightarrow> nat \<Rightarrow> bool" where
  "is_boundary maxDepth obj depth \<longleftrightarrow>
     extractParentOIDs (obj_data obj) \<noteq> [] \<and> maxDepth > 0 \<and> depth \<ge> maxDepth"

function walk ::
  "(string, git_object) gomap \<Rightarrow> nat \<Rightarrow> walk_item list \<Rightarrow> walk_state \<Rightarrow> (unit, walk_state) go" where
  "walk objects maxDepth [] st = Ok st"
| "walk objects maxDepth (TreeItem oid # stack) st =
     (if oid \<in> set (visited st) then walk objects maxDepth stack st
      else let st = st\<lparr>visited := oid # visited st\<rparr> in
        case map_of objects oid of
          None \<Rightarrow> walk objects maxDepth stack st
        | Some obj \<Rightarrow>
            walk objects maxDepth
              ((if obj_type obj = ObjectTree
                then map (\<lambda>e. TreeItem (entry_oid e)) (parseTreeEntries (obj_data obj)) else []) @ stack)
              (st\<lparr>result := result st @ [obj]\<rparr>))"
| "walk objects maxDepth (CommitItem oid depth # stack) st =
     (if oid \<in> set (visited st) then walk objects maxDepth stack st
      else let st = st\<lparr>visited := oid # visited st\<rparr> in
        case map_of objects oid of
          None \<Rightarrow> walk objects maxDepth stack st
        | Some obj \<Rightarrow>
            (let st = st\<lparr>result := result st @ [obj]\<rparr> in
             if obj_type obj \<noteq> ObjectCommit then walk objects maxDepth stack st
             else bind_go (extractTreeOID (obj_data obj)) (\<lambda>treeOID.
               walk objects maxDepth (commit_items maxDepth obj treeOID depth @ stack)
                 (if is_boundary maxDepth obj depth
                  then st\<lparr>shallowCommits := shallowCommits st @ [oid]\<rparr> else st))))"
  by pat_completeness auto
termination
  by (relation "measures [\<lambda>(objects, m, stack, st). card (unvisited objects (visited st)),
      \<lambda>(objects, m, stack, st). length stack]")
     (auto simp: unvisited_visit unvisited_visit_le less_le dest: unvisited_visit)

definition collectCommitObjectsWithDepth ::
  "(string, git_object) gomap \<Rightarrow> string \<Rightarrow> nat \<Rightarrow> (unit, git_object list \<times> string list) go" where
  "collectCommitObjectsWithDepth objects commitOID maxDepth =
     bind_go (walk objects maxDepth [CommitItem commitOID 1] \<lparr>visited = [], result = [], shallowCommits = []\<rparr>)
       (\<lambda>st. Ok (result st, shallowCommits st))"

definition collectCommitObjects :: "(string, git_object) gomap \<Rightarrow> string \<Rightarrow> (unit, git_object list) go" where
  "collectCommitObjects objects commitOID =
     bind_go (collectCommitObjectsWithDepth objects commitOID 0) (\<lambda>r. Ok (fst r))"

section \<open>What the walk must find\<close>

definition links :: "(string, git_object) gomap \<Rightarrow> string \<Rightarrow> string list" where
  "links objects k = (case map_of objects k of
     None \<Rightarrow> []
   | Some obj \<Rightarrow>
       if obj_type obj = ObjectCommit
       then (case extractTreeOID (obj_data obj) :: (unit, string) go of Ok t \<Rightarrow> if t \<noteq> [] then [t] else [] | _ \<Rightarrow> [])
              @ extractParentOIDs (obj_data obj)
       else if obj_type obj = ObjectTree then map entry_oid (parseTreeEntries (obj_data obj)) else [])"

inductive reaches :: "(string, git_object) gomap \<Rightarrow> string \<Rightarrow> string \<Rightarrow> bool" for objects c where
  start: "reaches objects c c"
| step: "reaches objects c a \<Longrightarrow> b \<in> set (links objects a) \<Longrightarrow> reaches objects c b"

text \<open>An object database: keyed by OID; commits name a tree that is no commit and parents that are
  commits; trees do not contain commits (no submodules). Missing objects are allowed.\<close>

definition is_kind :: "(string, git_object) gomap \<Rightarrow> (nat \<Rightarrow> bool) \<Rightarrow> string \<Rightarrow> bool" where
  "is_kind objects P k \<longleftrightarrow> (\<forall>x. map_of objects k = Some x \<longrightarrow> P (obj_type x))"

definition object_db :: "(string, git_object) gomap \<Rightarrow> bool" where
  "object_db objects \<longleftrightarrow> (\<forall>k obj. map_of objects k = Some obj \<longrightarrow> obj_oid obj = k \<and>
     (obj_type obj = ObjectCommit \<longrightarrow>
        (\<exists>t. extractTreeOID (obj_data obj) = (Ok t :: (unit, string) go) \<and> is_kind objects (\<lambda>t. t \<noteq> ObjectCommit) t) \<and>
        (\<forall>p \<in> set (extractParentOIDs (obj_data obj)). is_kind objects (\<lambda>t. t = ObjectCommit) p)) \<and>
     (obj_type obj = ObjectTree \<longrightarrow>
        (\<forall>e \<in> set (parseTreeEntries (obj_data obj)). is_kind objects (\<lambda>t. t \<noteq> ObjectCommit) (entry_oid e))))"

lemma object_db_commit:
  "object_db objects \<Longrightarrow> map_of objects k = Some obj \<Longrightarrow> obj_type obj = ObjectCommit \<Longrightarrow>
    \<exists>t. extractTreeOID (obj_data obj) = (Ok t :: (unit, string) go) \<and> is_kind objects (\<lambda>t. t \<noteq> ObjectCommit) t"
  by (simp add: object_db_def)

primrec item_oid :: "walk_item \<Rightarrow> string" where
  "item_oid (TreeItem k) = k"
| "item_oid (CommitItem k d) = k"

primrec item_ok :: "(string, git_object) gomap \<Rightarrow> walk_item \<Rightarrow> bool" where
  "item_ok objects (TreeItem k) = is_kind objects (\<lambda>t. t \<noteq> ObjectCommit) k"
| "item_ok objects (CommitItem k d) = is_kind objects (\<lambda>t. t = ObjectCommit) k"

definition cut_link :: "(string, git_object) gomap \<Rightarrow> string list \<Rightarrow> string \<Rightarrow> string \<Rightarrow> bool" where
  "cut_link objects sh v w \<longleftrightarrow> v \<in> set sh \<and>
     (\<exists>obj. map_of objects v = Some obj \<and> w \<in> set (extractParentOIDs (obj_data obj)))"

definition walk_inv :: "(string, git_object) gomap \<Rightarrow> string \<Rightarrow> nat \<Rightarrow> walk_item list \<Rightarrow> walk_state \<Rightarrow> bool" where
  "walk_inv objects c maxDepth stack st \<longleftrightarrow>
     distinct (visited st) \<and>
     (\<forall>v \<in> set (visited st). reaches objects c v) \<and>
     (\<forall>i \<in> set stack. reaches objects c (item_oid i) \<and> item_ok objects i) \<and>
     (\<forall>v \<in> set (visited st). \<forall>w \<in> set (links objects v).
        w \<in> set (visited st) \<or> w \<in> item_oid ` set stack \<or> cut_link objects (shallowCommits st) v w) \<and>
     result st = List.map_filter (map_of objects) (rev (visited st)) \<and>
     (maxDepth = 0 \<longrightarrow> shallowCommits st = [])"

lemma map_filter_snoc:
  "List.map_filter f (xs @ [x]) = List.map_filter f xs @ (case f x of None \<Rightarrow> [] | Some y \<Rightarrow> [y])"
  by (simp add: List.map_filter_def split: option.split)

text \<open>Visiting an item keeps the invariant when its links go onto the stack, the cut ones apart.\<close>

lemma walk_inv_visit:
  assumes inv: "walk_inv objects c m (i # stack) st" and new: "item_oid i \<notin> set (visited st)"
    and items: "\<forall>j \<in> set js. item_oid j \<in> set (links objects (item_oid i)) \<and> item_ok objects j"
    and cover: "\<forall>w \<in> set (links objects (item_oid i)). w \<in> item_oid ` set js \<or> cut_link objects (shallowCommits st @ sh) (item_oid i) w"
    and sh: "m = 0 \<longrightarrow> sh = []"
  shows "walk_inv objects c m (js @ stack)
    \<lparr>visited = item_oid i # visited st,
     result = result st @ (case map_of objects (item_oid i) of None \<Rightarrow> [] | Some x \<Rightarrow> [x]),
     shallowCommits = shallowCommits st @ sh\<rparr>"
proof -
  have r: "reaches objects c (item_oid i)" using inv by (simp add: walk_inv_def)
  have old: "w \<in> set (item_oid i # visited st) \<or> w \<in> item_oid ` set (js @ stack) \<or> cut_link objects (shallowCommits st @ sh) v w"
    if "v \<in> set (visited st)" "w \<in> set (links objects v)" for v w
    using inv that by (fastforce simp: walk_inv_def cut_link_def)
  show ?thesis
    unfolding walk_inv_def walk_state.simps
  proof (intro conjI ballI)
    show "distinct (item_oid i # visited st)" using inv new by (simp add: walk_inv_def)
    show "reaches objects c v" if "v \<in> set (item_oid i # visited st)" for v
      using that inv r by (auto simp: walk_inv_def)
    show "reaches objects c (item_oid j)" if "j \<in> set (js @ stack)" for j
      using that inv items reaches.step [OF r] by (auto simp: walk_inv_def)
    show "item_ok objects j" if "j \<in> set (js @ stack)" for j
      using that inv items by (auto simp: walk_inv_def)
    show "w \<in> set (item_oid i # visited st) \<or> w \<in> item_oid ` set (js @ stack) \<or> cut_link objects (shallowCommits st @ sh) v w"
      if "v \<in> set (item_oid i # visited st)" "w \<in> set (links objects v)" for v w
      using that old cover by (cases "v = item_oid i") auto
    show "result st @ (case map_of objects (item_oid i) of None \<Rightarrow> [] | Some x \<Rightarrow> [x]) =
        List.map_filter (map_of objects) (rev (item_oid i # visited st))"
      using inv by (simp add: walk_inv_def map_filter_snoc)
    show "m = 0 \<longrightarrow> shallowCommits st @ sh = []" using inv sh by (simp add: walk_inv_def)
  qed
qed

lemma walk_inv_skip: "walk_inv objects c m (i # stack) st \<Longrightarrow> item_oid i \<in> set (visited st) \<Longrightarrow> walk_inv objects c m stack st"
  by (auto simp: walk_inv_def)

lemma walk_inv_walk:
  assumes "object_db objects"
  shows "walk_inv objects c m stack st \<Longrightarrow> \<exists>st'. walk objects m stack st = Ok st' \<and> walk_inv objects c m [] st' \<and>
    set (visited st) \<union> item_oid ` set stack \<subseteq> set (visited st')"
  using assms
proof (induction objects m stack st rule: walk.induct)
  case (1 objects m st)
  then show ?case by simp
next
  case (2 objects m oid stack st)
  show ?case
  proof (cases "oid \<in> set (visited st)")
    case True
    then show ?thesis using 2 walk_inv_skip [OF 2(4)] by simp blast
  next
    case False
    let ?st = "st\<lparr>visited := oid # visited st\<rparr>"
    show ?thesis
    proof (cases "map_of objects oid")
      case None
      have "walk_inv objects c m stack ?st"
        using walk_inv_visit [OF 2(4), of "[]" "[]"] False None by (cases st) (simp add: links_def)
      then show ?thesis using 2(2) [OF False refl None] 2(5) False None by auto
    next
      case (Some obj)
      let ?js = "if obj_type obj = ObjectTree then map (\<lambda>e. TreeItem (entry_oid e)) (parseTreeEntries (obj_data obj)) else []"
      have nc: "obj_type obj \<noteq> ObjectCommit"
        using 2(4) Some by (simp add: walk_inv_def is_kind_def)
      have "\<forall>j \<in> set ?js. item_oid j \<in> set (links objects oid) \<and> item_ok objects j"
        using 2(5) Some nc by (auto simp: links_def object_db_def)
      moreover have "\<forall>w \<in> set (links objects oid). w \<in> item_oid ` set ?js"
        using Some nc by (auto simp: links_def image_image)
      ultimately have "walk_inv objects c m (?js @ stack) (?st\<lparr>result := result ?st @ [obj]\<rparr>)"
        using walk_inv_visit [OF 2(4), of ?js "[]"] False Some by (cases st) simp
      then show ?thesis using 2(3) [OF False refl Some] 2(5) False Some by (auto simp: image_Un)
    qed
  qed
next
  case (3 objects m oid d stack st)
  show ?case
  proof (cases "oid \<in> set (visited st)")
    case True
    then show ?thesis using 3 walk_inv_skip [OF 3(5)] by simp blast
  next
    case False
    let ?st = "st\<lparr>visited := oid # visited st\<rparr>"
    show ?thesis
    proof (cases "map_of objects oid")
      case None
      have "walk_inv objects c m stack ?st"
        using walk_inv_visit [OF 3(5), of "[]" "[]"] False None by (cases st) (simp add: links_def)
      then show ?thesis using 3(2) [OF False refl None] 3(6) False None by auto
    next
      case (Some obj)
      have cm: "obj_type obj = ObjectCommit" using 3(5) Some by (simp add: walk_inv_def is_kind_def)
      obtain t where t: "extractTreeOID (obj_data obj) = (Ok t :: (unit, string) go)"
        "is_kind objects (\<lambda>t. t \<noteq> ObjectCommit) t"
        using object_db_commit [OF 3(6) Some cm] by blast
      let ?js = "commit_items m obj t d"
      let ?sh = "if is_boundary m obj d then [oid] else []"
      let ?st' = "if is_boundary m obj d then ?st\<lparr>result := result st @ [obj], shallowCommits := shallowCommits st @ [oid]\<rparr>
        else ?st\<lparr>result := result st @ [obj]\<rparr>"
      have links: "links objects oid = (if t \<noteq> [] then [t] else []) @ extractParentOIDs (obj_data obj)"
        using Some cm t by (simp add: links_def)
      have "\<forall>j \<in> set ?js. item_oid j \<in> set (links objects oid) \<and> item_ok objects j"
        using 3(6) Some cm t(2) by (auto simp: links commit_items_def object_db_def)
      moreover have "\<forall>w \<in> set (links objects oid). w \<in> item_oid ` set ?js \<or> cut_link objects (shallowCommits st @ ?sh) oid w"
        using Some by (auto simp: links commit_items_def image_Un image_image is_boundary_def cut_link_def)
      moreover have "m = 0 \<longrightarrow> ?sh = []" by (simp add: is_boundary_def)
      ultimately have "walk_inv objects c m (?js @ stack) ?st'"
        using walk_inv_visit [OF 3(5), of ?js ?sh] False Some by (cases st; cases "is_boundary m obj d") simp_all
      then have "\<exists>st'. walk objects m (?js @ stack) ?st' = Ok st' \<and> walk_inv objects c m [] st' \<and>
          set (visited ?st') \<union> item_oid ` set (?js @ stack) \<subseteq> set (visited st')"
        using 3(4) [OF False refl Some refl, of t] 3(6) cm t(1)
        by (cases "is_boundary m obj d") (simp_all del: set_append)
      then show ?thesis
        using False Some cm t(1) by (cases "is_boundary m obj d") (auto simp: image_Un)
    qed
  qed
qed

section \<open>Reachability\<close>

lemma collect_inv:
  assumes "object_db objects" "is_kind objects (\<lambda>t. t = ObjectCommit) c"
  shows "\<exists>st. collectCommitObjectsWithDepth objects c m = Ok (result st, shallowCommits st) \<and>
    walk_inv objects c m [] st \<and> c \<in> set (visited st)"
proof -
  have "walk_inv objects c m [CommitItem c 1] \<lparr>visited = [], result = [], shallowCommits = []\<rparr>"
    using assms(2) by (simp add: walk_inv_def reaches.start List.map_filter_def)
  from walk_inv_walk [OF assms(1) this] show ?thesis
    by (auto simp: collectCommitObjectsWithDepth_def)
qed

lemma result_set: "walk_inv objects c m [] st \<Longrightarrow> set (result st) = {x. \<exists>v \<in> set (visited st). map_of objects v = Some x}"
  by (auto simp: walk_inv_def List.map_filter_def intro: rev_image_eqI)

lemma result_distinct:
  assumes "walk_inv objects c m [] st" "object_db objects"
  shows "distinct (map obj_oid (result st))"
proof -
  have "distinct (map obj_oid (List.map_filter (map_of objects) vs)) \<and>
      set (map obj_oid (List.map_filter (map_of objects) vs)) \<subseteq> set vs" if "distinct vs" for vs
    using that
  proof (induction vs)
    case (Cons v vs)
    show ?case
    proof (cases "map_of objects v")
      case (Some x)
      then have "obj_oid x = v" using assms(2) by (simp add: object_db_def)
      then show ?thesis using Cons Some by (auto simp: List.map_filter_simps)
    qed (use Cons in \<open>auto simp: List.map_filter_simps\<close>)
  qed (simp add: List.map_filter_simps)
  then show ?thesis using assms(1) by (simp add: walk_inv_def)
qed

lemma reachable_from:
  assumes "object_db objects" "is_kind objects (\<lambda>t. t = ObjectCommit) c"
  shows "\<exists>res. collectCommitObjects objects c = Ok res \<and> distinct (map obj_oid res) \<and>
    set res = {x. \<exists>k. reaches objects c k \<and> map_of objects k = Some x}"
proof -
  obtain st where st: "collectCommitObjectsWithDepth objects c 0 = Ok (result st, shallowCommits st)"
    "walk_inv objects c 0 [] st" "c \<in> set (visited st)"
    using collect_inv [OF assms] by blast
  have closed: "k \<in> set (visited st)" if "reaches objects c k" for k
    using that
  proof (induction rule: reaches.induct)
    case (step a b)
    then show ?case using st(2) by (auto simp: walk_inv_def cut_link_def)
  qed (rule st(3))
  moreover have "reaches objects c k" if "k \<in> set (visited st)" for k
    using st(2) that by (simp add: walk_inv_def)
  ultimately show ?thesis
    using st(1) result_set [OF st(2)] result_distinct [OF st(2) assms(1)]
    by (auto simp: collectCommitObjects_def)
qed

text \<open>C5: A full clone gets exactly what it needs: on a well-formed object database the walk from a
  commit ends without panic and returns every stored object that the commit reaches through trees
  and parents, nothing else, and each once.\<close>

theorem collectCommitObjects_reachable:
  assumes "object_db objects" "is_kind objects (\<lambda>t. t = ObjectCommit) c"
  shows "\<exists>res. collectCommitObjects objects c = Ok res \<and> distinct (map obj_oid res) \<and>
    set res = {x. \<exists>k. reaches objects c k \<and> map_of objects k = Some x}"
  by (rule reachable_from [OF assms])

text \<open>C6: A shallow clone is closed up to its boundary: for any depth limit the walk returns reachable
  objects, each once, and whatever a returned object links to is returned as well, when stored;
  only the parents of the commits it reports as shallow may be missing.\<close>

theorem collect_shallow_closed:
  assumes "object_db objects" "map_of objects c = Some tip" "obj_type tip = ObjectCommit"
  shows "\<exists>res sh. collectCommitObjectsWithDepth objects c maxDepth = Ok (res, sh) \<and>
    tip \<in> set res \<and> distinct (map obj_oid res) \<and>
    (\<forall>x \<in> set res. reaches objects c (obj_oid x) \<and> map_of objects (obj_oid x) = Some x) \<and>
    (\<forall>x \<in> set res. \<forall>k \<in> set (links objects (obj_oid x)). \<forall>y. map_of objects k = Some y \<longrightarrow>
       y \<in> set res \<or> (obj_oid x \<in> set sh \<and> k \<in> set (extractParentOIDs (obj_data x))))"
proof -
  have "is_kind objects (\<lambda>t. t = ObjectCommit) c" using assms by (simp add: is_kind_def)
  then obtain st where st: "collectCommitObjectsWithDepth objects c maxDepth = Ok (result st, shallowCommits st)"
    "walk_inv objects c maxDepth [] st" "c \<in> set (visited st)"
    using collect_inv [OF assms(1)] by blast
  have mem: "x \<in> set (result st) \<longleftrightarrow> obj_oid x \<in> set (visited st) \<and> map_of objects (obj_oid x) = Some x" for x
    using result_set [OF st(2)] assms(1) by (auto simp: object_db_def)
  have link: "y \<in> set (result st) \<or> (obj_oid x \<in> set (shallowCommits st) \<and> k \<in> set (extractParentOIDs (obj_data x)))"
    if "x \<in> set (result st)" "k \<in> set (links objects (obj_oid x))" "map_of objects k = Some y" for x k y
  proof -
    have "obj_oid y = k" using that(3) assms(1) by (simp add: object_db_def)
    moreover have "k \<in> set (visited st) \<or> cut_link objects (shallowCommits st) (obj_oid x) k"
      using st(2) that mem by (auto simp: walk_inv_def)
    ultimately show ?thesis using that mem by (auto simp: cut_link_def)
  qed
  have "tip \<in> set (result st)" using mem assms(1,2) st(3) by (simp add: object_db_def)
  moreover have "\<forall>x \<in> set (result st). reaches objects c (obj_oid x) \<and> map_of objects (obj_oid x) = Some x"
    using mem st(2) by (simp add: walk_inv_def)
  ultimately show ?thesis using st(1) result_distinct [OF st(2) assms(1)] link by blast
qed

section \<open>A concrete history\<close>

text \<open>Commits given by their tree and parents.\<close>

definition commit_data :: "string \<Rightarrow> string list \<Rightarrow> bytes" where
  "commit_data t ps = concat (map (\<lambda>l. l @ [10]) (to_bytes (''tree '' @ t) # map (\<lambda>p. to_bytes (''parent '' @ p)) ps))"

definition hash_ok :: "string \<Rightarrow> bool" where
  "hash_ok h \<longleftrightarrow> length h = 40 \<and> newline ! 0 \<notin> set h"

lemma commit_data_lines:
  assumes "hash_ok t" "\<forall>p \<in> set ps. hash_ok p"
  shows "commit_lines (commit_data t ps) =
    (to_bytes (''tree '' @ t) # map (\<lambda>p. to_bytes (''parent '' @ p)) ps) @ [[]]"
proof -
  have "(10 :: byte) \<notin> set (to_bytes (s @ h))" if "hash_ok h" "newline ! 0 \<notin> set s" for s h
    using no_newline [of h] no_newline [of s] that by (simp add: hash_ok_def)
  then have "\<forall>l \<in> set (to_bytes (''tree '' @ t) # map (\<lambda>p. to_bytes (''parent '' @ p)) ps). (10 :: byte) \<notin> set l"
    using assms by (auto simp del: to_bytes_append append.simps simp: char_of_def)
  then show ?thesis
    using split_on_lines [of "to_bytes (''tree '' @ t) # map (\<lambda>p. to_bytes (''parent '' @ p)) ps" "10 :: byte" "[]"]
    by (simp only: commit_lines_def commit_data_def) simp
qed

lemma commit_data_parse:
  assumes "hash_ok t" "\<forall>p \<in> set ps. hash_ok p"
  shows "extractTreeOID (commit_data t ps) = Ok t" "extractParentOIDs (commit_data t ps) = ps"
proof -
  have s: "slice n 47 (to_bytes (''parent '' @ p)) = to_bytes p" if "hash_ok p" "n = 7" for p n
    using that by (simp add: slice_def to_bytes_def hash_ok_def)
  have "slice 5 45 (to_bytes (''tree '' @ t)) = to_bytes t"
    using assms(1) by (simp add: slice_def to_bytes_def hash_ok_def)
  moreover have "HasPrefix (to_bytes (''tree '' @ t)) (to_bytes ''tree '')"
    unfolding to_bytes_HasPrefix by (rule HasPrefix_append)
  moreover define l where "l = to_bytes (''tree '' @ t)"
  moreover have "length l = 45" using assms(1) by (simp add: l_def hash_ok_def)
  ultimately show "extractTreeOID (commit_data t ps) = Ok t"
    unfolding extractTreeOID_def commit_data_lines [OF assms] l_def [symmetric] by (simp add: go_slice_def)
  have "\<not> HasPrefix (to_bytes (''tree '' @ t)) (to_bytes ''parent '')"
    unfolding to_bytes_HasPrefix by (simp add: HasPrefix_def)
  moreover have "HasPrefix (to_bytes (''parent '' @ p)) (to_bytes ''parent '')" for p
    unfolding to_bytes_HasPrefix by (rule HasPrefix_append)
  moreover have "map (of_bytes \<circ> (slice 7 47 \<circ> (\<lambda>p. to_bytes (''parent '' @ p)))) ps = ps"
    using assms(2) s by (intro map_idI) (simp del: to_bytes_append append.simps)
  ultimately show "extractParentOIDs (commit_data t ps) = ps"
    using assms(2)
    by (simp add: extractParentOIDs_def commit_data_lines [OF assms] filter_map comp_def hash_ok_def HasPrefix_def
      del: to_bytes_append append.simps)
qed

definition ex_hash :: "char \<Rightarrow> string" where
  "ex_hash x = replicate 40 x"

lemma ex_hash_eq [simp]: "ex_hash x = ex_hash y \<longleftrightarrow> x = y"
  by (auto simp: ex_hash_def replicate_eq_replicate)

definition ex_commit :: "char \<Rightarrow> char list \<Rightarrow> string \<times> git_object" where
  "ex_commit x ps = (ex_hash x, \<lparr>obj_type = ObjectCommit, obj_data = commit_data (ex_hash CHR ''9'') (map ex_hash ps),
     obj_oid = ex_hash x\<rparr>)"

text \<open>\<open>A\<close> has the parents \<open>B\<close> and \<open>D\<close>, \<open>B\<close> the parent \<open>D\<close>, \<open>D\<close> the parent \<open>E\<close>; all have the empty tree.\<close>

definition ex_table :: "(char \<times> char list) list" where
  "ex_table = [(CHR ''a'', ''bd''), (CHR ''b'', ''d''), (CHR ''d'', ''e''), (CHR ''e'', [])]"

definition ex_history :: "(string, git_object) gomap" where
  "ex_history = (ex_hash CHR ''9'', \<lparr>obj_type = ObjectTree, obj_data = [], obj_oid = ex_hash CHR ''9''\<rparr>) #
     map (\<lambda>(x, ps). ex_commit x ps) ex_table"

definition ex_obj :: "char \<Rightarrow> git_object" where
  "ex_obj x = the (map_of ex_history (ex_hash x))"

lemma ex_hash_nonempty [simp]: "ex_hash x \<noteq> []"
  by (simp add: ex_hash_def)

lemma ex_hash_ok [simp]: "x \<noteq> newline ! 0 \<Longrightarrow> hash_ok (ex_hash x)"
  by (simp add: hash_ok_def ex_hash_def)

lemma ex_commit_parse:
  assumes "x \<noteq> newline ! 0" "newline ! 0 \<notin> set ps"
  shows "extractTreeOID (obj_data (snd (ex_commit x ps))) = Ok (ex_hash CHR ''9'')"
    "extractParentOIDs (obj_data (snd (ex_commit x ps))) = map ex_hash ps"
proof -
  have "\<forall>p \<in> set (map ex_hash ps). hash_ok p" using assms(2) by auto (metis ex_hash_ok nth_Cons_0)
  then show "extractTreeOID (obj_data (snd (ex_commit x ps))) = Ok (ex_hash CHR ''9'')"
    "extractParentOIDs (obj_data (snd (ex_commit x ps))) = map ex_hash ps"
    using commit_data_parse [of "ex_hash CHR ''9''" "map ex_hash ps"] by (simp_all add: ex_commit_def char_of_def)
qed

lemma ex_history_lookup:
  "map_of ex_history (ex_hash CHR ''9'') = Some \<lparr>obj_type = ObjectTree, obj_data = [], obj_oid = ex_hash CHR ''9''\<rparr>"
  "map_of ex_history (ex_hash CHR ''a'') = Some (snd (ex_commit CHR ''a'' [CHR ''b'', CHR ''d'']))"
  "map_of ex_history (ex_hash CHR ''b'') = Some (snd (ex_commit CHR ''b'' [CHR ''d'']))"
  "map_of ex_history (ex_hash CHR ''d'') = Some (snd (ex_commit CHR ''d'' [CHR ''e'']))"
  "map_of ex_history (ex_hash CHR ''e'') = Some (snd (ex_commit CHR ''e'' []))"
  by (simp_all add: ex_history_def ex_table_def ex_commit_def)

lemma ex_history_kind:
  "x \<in> {CHR ''a'', CHR ''b'', CHR ''d'', CHR ''e''} \<Longrightarrow> is_kind ex_history (\<lambda>t. t = ObjectCommit) (ex_hash x)"
  "is_kind ex_history (\<lambda>t. t \<noteq> ObjectCommit) (ex_hash CHR ''9'')"
proof -
  have "obj_type (snd (ex_commit x ps)) = ObjectCommit" for x ps by (simp add: ex_commit_def)
  then show "x \<in> {CHR ''a'', CHR ''b'', CHR ''d'', CHR ''e''} \<Longrightarrow> is_kind ex_history (\<lambda>t. t = ObjectCommit) (ex_hash x)"
    by (elim insertE emptyE) (simp_all add: is_kind_def ex_history_lookup)
  show "is_kind ex_history (\<lambda>t. t \<noteq> ObjectCommit) (ex_hash CHR ''9'')"
    by (simp add: is_kind_def ex_history_lookup)
qed

lemma ex_table_ok:
  "\<forall>(x, ps) \<in> set ex_table. x \<noteq> newline ! 0 \<and> newline ! 0 \<notin> set ps \<and> set ps \<subseteq> {CHR ''a'', CHR ''b'', CHR ''d'', CHR ''e''}"
  by (simp add: ex_table_def char_of_def)

lemma ex_history_keys:
  assumes "map_of ex_history k = Some obj"
  shows "k = ex_hash CHR ''9'' \<or> (\<exists>x ps. x \<noteq> newline ! 0 \<and> newline ! 0 \<notin> set ps \<and> k = ex_hash x \<and> obj = snd (ex_commit x ps) \<and>
      set ps \<subseteq> {CHR ''a'', CHR ''b'', CHR ''d'', CHR ''e''})"
proof (cases "k = ex_hash CHR ''9''")
  case False
  have "(k, obj) \<in> set ex_history" by (rule map_of_SomeD [OF assms])
  then obtain x ps where t: "(x, ps) \<in> set ex_table" "(k, obj) = ex_commit x ps"
    using False by (auto simp: ex_history_def)
  have "k = ex_hash x" "obj = snd (ex_commit x ps)" using t(2) by (auto simp: ex_commit_def)
  then show ?thesis using t(1) ex_table_ok by blast
qed simp

lemma parseTreeEntries_Nil: "parseTreeEntries [] = []"
  by (simp add: parseTreeEntries_def parse_entries.simps)

lemma ex_history_db: "object_db ex_history"
  unfolding object_db_def
proof (intro allI impI)
  fix k obj assume m: "map_of ex_history k = Some obj"
  from ex_history_keys [OF m] show "obj_oid obj = k \<and>
     (obj_type obj = ObjectCommit \<longrightarrow>
        (\<exists>t. extractTreeOID (obj_data obj) = (Ok t :: (unit, string) go) \<and> is_kind ex_history (\<lambda>t. t \<noteq> ObjectCommit) t) \<and>
        (\<forall>p \<in> set (extractParentOIDs (obj_data obj)). is_kind ex_history (\<lambda>t. t = ObjectCommit) p)) \<and>
     (obj_type obj = ObjectTree \<longrightarrow>
        (\<forall>e \<in> set (parseTreeEntries (obj_data obj)). is_kind ex_history (\<lambda>t. t \<noteq> ObjectCommit) (entry_oid e)))"
  proof (elim disjE exE conjE)
    assume k: "k = ex_hash CHR ''9''"
    then have "obj = \<lparr>obj_type = ObjectTree, obj_data = [], obj_oid = ex_hash CHR ''9''\<rparr>"
      using m ex_history_lookup(1) by simp
    then show ?thesis using k by (simp add: parseTreeEntries_Nil)
  next
    fix x ps
    assume *: "x \<noteq> newline ! 0" "newline ! 0 \<notin> set ps" "k = ex_hash x" "obj = snd (ex_commit x ps)"
      "set ps \<subseteq> {CHR ''a'', CHR ''b'', CHR ''d'', CHR ''e''}"
    have "obj_type obj = ObjectCommit" "obj_oid obj = k" using * by (simp_all add: ex_commit_def)
    moreover have "\<forall>p \<in> set ps. is_kind ex_history (\<lambda>t. t = ObjectCommit) (ex_hash p)"
      using *(5) ex_history_kind(1) by blast
    ultimately show ?thesis
      using ex_history_kind(2) by (simp add: *(4) ex_commit_parse [OF *(1,2)])
  qed
qed

theorem collectCommitObjects_reachable_witness:
  "\<exists>res. collectCommitObjects ex_history (ex_hash CHR ''a'') = Ok res \<and> distinct (map obj_oid res) \<and>
    set res = {x. \<exists>k. reaches ex_history (ex_hash CHR ''a'') k \<and> map_of ex_history k = Some x}"
  by (rule collectCommitObjects_reachable [OF ex_history_db])
     (simp add: is_kind_def ex_history_lookup ex_commit_def)

theorem collect_shallow_closed_witness:
  "\<exists>res sh. collectCommitObjectsWithDepth ex_history (ex_hash CHR ''a'') 2 = Ok (res, sh) \<and>
    snd (ex_commit CHR ''a'' [CHR ''b'', CHR ''d'']) \<in> set res \<and> distinct (map obj_oid res) \<and>
    (\<forall>x \<in> set res. reaches ex_history (ex_hash CHR ''a'') (obj_oid x) \<and> map_of ex_history (obj_oid x) = Some x) \<and>
    (\<forall>x \<in> set res. \<forall>k \<in> set (links ex_history (obj_oid x)). \<forall>y. map_of ex_history k = Some y \<longrightarrow>
       y \<in> set res \<or> (obj_oid x \<in> set sh \<and> k \<in> set (extractParentOIDs (obj_data x))))"
  by (rule collect_shallow_closed [OF ex_history_db ex_history_lookup(2)]) (simp add: ex_commit_def)

text \<open>Depth is counted along the walk, not from the tip: in a history where \<open>A\<close> has the parents
  \<open>B\<close> and \<open>D\<close>, \<open>B\<close> the parent \<open>D\<close> and \<open>D\<close> the parent \<open>E\<close>, a clone of depth 3 cuts \<open>D\<close> off and omits
  \<open>E\<close>, although \<open>E\<close> is the third commit on the path over \<open>D\<close>: \<open>D\<close> is first met at depth 3, over \<open>B\<close>,
  and never looked at again.\<close>

lemma collect_depth_not_shortest:
  "\<exists>res. collectCommitObjectsWithDepth ex_history (ex_hash CHR ''a'') 3 = Ok (res, [ex_hash CHR ''d'']) \<and>
    ex_hash CHR ''d'' \<in> set (extractParentOIDs (obj_data (ex_obj CHR ''a''))) \<and>
    ex_hash CHR ''e'' \<in> set (extractParentOIDs (obj_data (ex_obj CHR ''d''))) \<and>
    map_of ex_history (ex_hash CHR ''e'') = Some (ex_obj CHR ''e'') \<and>
    ex_obj CHR ''e'' \<notin> set res"
proof -
  have nl: "x \<noteq> newline ! 0" if "x \<in> {CHR ''a'', CHR ''b'', CHR ''d'', CHR ''e''}" for x
    using that by (auto simp: char_of_def)
  note p = ex_commit_parse [OF nl, of "CHR ''a''" "[CHR ''b'', CHR ''d'']"]
    ex_commit_parse [OF nl, of "CHR ''b''" "[CHR ''d'']"] ex_commit_parse [OF nl, of "CHR ''d''" "[CHR ''e'']"]
    ex_commit_parse [OF nl, of "CHR ''e''" "[]"]
  have t: "obj_type (snd (ex_commit x ps)) = ObjectCommit" for x ps by (simp add: ex_commit_def)
  have e: "ex_obj x = snd (ex_commit x ps)" if "map_of ex_history (ex_hash x) = Some (snd (ex_commit x ps))" for x ps
    using that by (simp add: ex_obj_def)
  have o': "obj_oid (snd (ex_commit x ps)) = ex_hash x" for x ps by (simp add: ex_commit_def)
  define res where "res = [ex_obj CHR ''a'', \<lparr>obj_type = ObjectTree, obj_data = [], obj_oid = ex_hash CHR ''9''\<rparr>,
    ex_obj CHR ''b'', ex_obj CHR ''d'']"
  have "collectCommitObjectsWithDepth ex_history (ex_hash CHR ''a'') 3 = Ok (res, [ex_hash CHR ''d''])"
    by (simp add: p collectCommitObjectsWithDepth_def ex_history_lookup Let_def t commit_items_def is_boundary_def
      parseTreeEntries_Nil res_def ex_obj_def char_of_def)
  moreover have "ex_obj CHR ''e'' \<notin> set res"
    using o' by (auto simp: res_def e [OF ex_history_lookup(2)] e [OF ex_history_lookup(3)] e [OF ex_history_lookup(4)]
      e [OF ex_history_lookup(5)] dest!: arg_cong [where f = obj_oid])
  ultimately show ?thesis
    by (simp add: p ex_obj_def ex_history_lookup char_of_def)
qed

end
