(* ===== verification/PktLine.thy ===== *)
theory PktLine
  imports GitPack
begin

text \<open>
  The pkt-line framing of the git protocol (\<open>src/kailab/sshserver/protocol.go\<close>). A writer is what
  it has sent and the error it stopped with, if any: sending to the client itself does not fail. A reader takes
  the unread input and gives back the rest. \<open>io.EOF\<close> and \<open>io.ErrUnexpectedEOF\<close> are the errors of
  \<open>io.ReadFull\<close>.
\<close>

section \<open>Writing\<close>

type_synonym write_result = "bytes \<times> string option"

definition andThen :: "write_result \<Rightarrow> write_result \<Rightarrow> write_result" where
  "andThen a b = (case snd a of None \<Rightarrow> (fst a @ fst b, snd b) | Some e \<Rightarrow> a)"

definition send :: "bytes \<Rightarrow> write_result" where
  "send b = (b, None)"

definition abort :: "string \<Rightarrow> write_result" where
  "abort e = ([], Some e)"

lemma andThen_send [simp]: "andThen (send a) (b, e) = (a @ b, e)"
  by (simp add: andThen_def send_def)

text \<open>\<open>%04x\<close> of a number below 65536.\<close>

definition hex4 :: "nat \<Rightarrow> string" where
  "hex4 n = map (\<lambda>d. hex_digits ! d) [n div 4096 mod 16, n div 256 mod 16, n div 16 mod 16, n mod 16]"

definition writePktLineBytes :: "bytes \<Rightarrow> write_result" where
  "writePktLineBytes payload =
     (let sz = length payload + 4
      in if sz > 65535 then abort ''pkt-line too long''
         else send (to_bytes (hex4 sz) @ payload))"

definition writePktLine :: "string \<Rightarrow> write_result" where
  "writePktLine payload =
     (let sz = length payload + 4
      in if sz > 65535 then abort ''pkt-line too long''
         else send (to_bytes (hex4 sz) @ to_bytes payload))"

definition writeFlush :: write_result where
  "writeFlush = send (to_bytes ''0000'')"

definition writeDelim :: write_result where
  "writeDelim = send (to_bytes ''0001'')"

definition writeGitError :: "string \<Rightarrow> write_result" where
  "writeGitError msg = writePktLine (''ERR '' @ msg)"

section \<open>Reading\<close>

datatype PktType = PktData | PktFlush | PktDelim

datatype pkt_error = EOF | UnexpectedEOF | InvalidHeader string | InvalidLength int

definition read_full :: "nat \<Rightarrow> bytes \<Rightarrow> (pkt_error, bytes \<times> bytes) go" where
  "read_full n r = (if n \<le> length r then Ok (take n r, drop n r)
     else if r = [] then Err EOF else Err UnexpectedEOF)"

fun hex_digits_value :: "string \<Rightarrow> nat \<Rightarrow> nat option" where
  "hex_digits_value [] acc = Some acc"
| "hex_digits_value (c # s) acc =
     (case hex_val c of None \<Rightarrow> None | Some d \<Rightarrow> hex_digits_value s (16 * acc + d))"

text \<open>\<open>strconv.ParseInt(s, 16, 0)\<close> on at most four characters: an optional sign, then digits.\<close>

definition parse_hex_int :: "string \<Rightarrow> int option" where
  "parse_hex_int s =
     (let (neg, ds) = (case s of
          c # s' \<Rightarrow> if c = CHR ''-'' then (True, s') else if c = CHR ''+'' then (False, s') else (False, s)
        | [] \<Rightarrow> (False, s))
      in if ds = [] then None
         else map_option (\<lambda>n. if neg then - int n else int n) (hex_digits_value ds 0))"

definition readPktLineV2 :: "bytes \<Rightarrow> (pkt_error, (string \<times> PktType) \<times> bytes) go" where
  "readPktLineV2 r = bind_go (read_full 4 r) (\<lambda>(hd, r).
     let header = of_bytes hd in
     if header = ''0001'' then Ok (([], PktDelim), r)
     else case parse_hex_int header of
       None \<Rightarrow> Err (InvalidHeader header)
     | Some n \<Rightarrow>
         if n = 0 then Ok (([], PktFlush), r)
         else if n < 4 then Err (InvalidLength n)
         else bind_go (read_full (nat n - 4) r) (\<lambda>(payload, r). Ok ((of_bytes payload, PktData), r)))"

definition readPktLine :: "bytes \<Rightarrow> (pkt_error, (string \<times> bool) \<times> bytes) go" where
  "readPktLine r = bind_go (readPktLineV2 r) (\<lambda>((payload, pktType), r).
     Ok ((payload, pktType = PktFlush \<or> pktType = PktDelim), r))"

lemma readPktLineV2_consumes: "readPktLineV2 r = Ok (x, r') \<Longrightarrow> length r' < length r"
  by (auto simp: readPktLineV2_def read_full_def bind_go_Ok_iff Let_def split: if_splits option.splits)

lemma readPktLine_consumes: "readPktLine r = Ok (x, r') \<Longrightarrow> length r' < length r"
  by (auto simp: readPktLine_def bind_go_Ok_iff dest: readPktLineV2_consumes)

section \<open>The side band\<close>

text \<open>\<open>sideBandWriter.Write\<close>: chunks of at most \<open>maxData\<close> bytes, each after the channel byte. With
  \<open>maxData = 0\<close> the loop never ends, which is \<open>None\<close>. The result is what was sent, the count of
  bytes written and the error.\<close>

partial_function (option) sideband_loop ::
  "byte \<Rightarrow> nat \<Rightarrow> bytes \<Rightarrow> bytes \<Rightarrow> nat \<Rightarrow> (bytes \<times> nat \<times> string option) option" where
  "sideband_loop channelID maxData p out written =
     (if p = [] then Some (out, written, None)
      else let chunk = (if length p > maxData then maxData else length p);
               w = writePktLineBytes (channelID # take chunk p)
           in case snd w of
                Some e \<Rightarrow> Some (out, written, Some e)
              | None \<Rightarrow> sideband_loop channelID maxData (drop chunk p) (out @ fst w) (written + chunk))"

definition sideBandWrite :: "byte \<Rightarrow> nat \<Rightarrow> bytes \<Rightarrow> (bytes \<times> nat \<times> string option) option" where
  "sideBandWrite channelID maxData p = sideband_loop channelID maxData p [] 0"

section \<open>Round trips\<close>

lemma length_hex4 [simp]: "length (hex4 n) = 4"
  by (simp add: hex4_def)

lemma hex_digit_value: "d < 16 \<Longrightarrow> hex_val (hex_digits ! d) = Some d \<and>
    hex_digits ! d \<noteq> CHR ''-'' \<and> hex_digits ! d \<noteq> CHR ''+''"
proof -
  have "\<forall>d \<in> set [0 ..< 16]. hex_digits ! d \<noteq> CHR ''-'' \<and> hex_digits ! d \<noteq> CHR ''+''"
    by (simp add: hex_digits_def upt_rec numeral_nat)
  then show "d < 16 \<Longrightarrow> ?thesis" using hex_val_digit by auto
qed

lemma parse_hex4:
  assumes "n < 65536"
  shows "parse_hex_int (hex4 n) = Some (int n)"
proof -
  have "16 * (16 * (16 * (n div 4096 mod 16) + n div 256 mod 16) + n div 16 mod 16) + n mod 16 = n"
  proof -
    have "n div 4096 mod 16 = n div 4096" using assms by (intro mod_less) (simp add: less_mult_imp_div_less)
    moreover have "16 * (n div 4096) + n div 256 mod 16 = n div 256"
      using mult_div_mod_eq [of 16 "n div 256"] by (simp add: div_mult2_eq [symmetric] mult.commute)
    moreover have "16 * (n div 256) + n div 16 mod 16 = n div 16"
      using mult_div_mod_eq [of 16 "n div 16"] by (simp add: div_mult2_eq [symmetric] mult.commute)
    moreover have "16 * (n div 16) + n mod 16 = n" by (rule mult_div_mod_eq)
    ultimately show ?thesis by simp
  qed
  moreover define v w x y where "v = n div 4096 mod 16" "w = n div 256 mod 16" "x = n div 16 mod 16" "y = n mod 16"
  moreover have "parse_hex_int (map (\<lambda>d. hex_digits ! d) [v, w, x, y]) = Some (int (16 * (16 * (16 * v + w) + x) + y))"
    using hex_digit_value [of v] hex_digit_value [of w] hex_digit_value [of x] hex_digit_value [of y]
    by (simp add: parse_hex_int_def v_w_x_y_def)
  ultimately show ?thesis by (simp add: hex4_def del: of_nat_add of_nat_mult)
qed

lemma hex4_one: "hex4 1 = ''0001''"
  by (simp add: hex4_def hex_digits_def)

lemma read_bytes_pkt:
  assumes "length p + 4 \<le> 65535"
  shows "readPktLineV2 (to_bytes (hex4 (length p + 4)) @ p @ rest) = Ok ((of_bytes p, PktData), rest)"
proof -
  have h: "parse_hex_int (hex4 (length p + 4)) = Some (int (length p + 4))"
    using assms by (intro parse_hex4) simp
  have "parse_hex_int ''0001'' = Some 1" using parse_hex4 [of 1] hex4_one by simp
  then have "hex4 (length p + 4) \<noteq> ''0001''" using h by auto
  moreover have "nat (int (length p) + 4) - 4 = length p" by simp
  ultimately show ?thesis using h by (simp add: readPktLineV2_def read_full_def del: nat_add_distrib)
qed

lemma pktline_flush: "readPktLineV2 (fst writeFlush @ rest) = Ok (([], PktFlush), rest)"
proof -
  have "hex4 0 = ''0000''" by (simp add: hex4_def hex_digits_def)
  then have "parse_hex_int ''0000'' = Some 0" using parse_hex4 [of 0] by simp
  then show ?thesis by (simp add: writeFlush_def send_def readPktLineV2_def read_full_def)
qed

text \<open>What is written as a pkt-line is read back: a payload of at most 65531 bytes comes back
  unchanged as data with the rest of the stream untouched, a longer one is refused before anything
  is sent, and the flush and delimiter packets are recognised as such.\<close>

lemma pktline_roundtrip:
  "(if length payload \<le> 65531
    then snd (writePktLine payload) = None \<and>
      readPktLineV2 (fst (writePktLine payload) @ rest) = Ok ((payload, PktData), rest)
    else fst (writePktLine payload) = [] \<and> snd (writePktLine payload) \<noteq> None) \<and>
   readPktLineV2 (fst writeFlush @ rest) = Ok (([], PktFlush), rest) \<and>
   readPktLineV2 (fst writeDelim @ rest) = Ok (([], PktDelim), rest)"
proof (intro conjI)
  show "readPktLineV2 (fst writeFlush @ rest) = Ok (([], PktFlush), rest)" by (rule pktline_flush)
  show "readPktLineV2 (fst writeDelim @ rest) = Ok (([], PktDelim), rest)"
    by (simp add: writeDelim_def send_def readPktLineV2_def read_full_def)
  show "if length payload \<le> 65531
    then snd (writePktLine payload) = None \<and>
      readPktLineV2 (fst (writePktLine payload) @ rest) = Ok ((payload, PktData), rest)
    else fst (writePktLine payload) = [] \<and> snd (writePktLine payload) \<noteq> None"
    using read_bytes_pkt [of "to_bytes payload" rest]
    by (simp add: writePktLine_def Let_def send_def abort_def)
qed

section \<open>Reassembling the side band\<close>

text \<open>A client's view: packets up to the flush, the payloads of one channel joined.\<close>

function demux :: "byte \<Rightarrow> bytes \<Rightarrow> (pkt_error, bytes \<times> bytes) go" where
  "demux ch r = bind_go (readPktLineV2 r) (\<lambda>((payload, t), r').
     if t \<noteq> PktData then Ok ([], r')
     else if length r' < length r then bind_go (demux ch r') (\<lambda>(d, r''). Ok
       ((case to_bytes payload of [] \<Rightarrow> [] | c # b \<Rightarrow> if c = ch then b else []) @ d, r''))
     else Ok ([], r'))"
  by pat_completeness auto
termination by (relation "measure (\<lambda>(ch, r). length r)") auto

declare demux.simps [simp del]

lemma demux_packet:
  assumes "length b + 5 \<le> 65535"
  shows "demux ch (to_bytes (hex4 (length b + 5)) @ (ch # b) @ rest) = bind_go (demux ch rest) (\<lambda>(d, r). Ok (b @ d, r))"
proof -
  have "readPktLineV2 (to_bytes (hex4 (length b + 5)) @ (ch # b) @ rest) = Ok ((of_bytes (ch # b), PktData), rest)"
    using read_bytes_pkt [of "ch # b" rest] assms by (simp add: add.commute)
  then show ?thesis by (subst demux.simps) simp
qed

lemma demux_flush: "demux ch (fst writeFlush @ rest) = Ok ([], rest)"
  using pktline_flush [of rest] by (subst demux.simps) simp

lemma sideband_loop_ok:
  assumes "0 < maxData" "maxData + 5 \<le> 65535"
  shows "\<exists>bs. sideband_loop ch maxData p out written = Some (out @ bs, written + length p, None) \<and>
    (\<forall>tail. demux ch (bs @ tail) = bind_go (demux ch tail) (\<lambda>(d, r). Ok (p @ d, r)))"
proof (induction p arbitrary: out written rule: length_induct)
  case (1 p)
  show ?case
  proof (cases "p = []")
    case True
    have "bind_go (demux ch tail) (\<lambda>(d, r). Ok (d, r)) = demux ch tail" for tail
      by (cases "demux ch tail") auto
    then show ?thesis using True by (subst sideband_loop.simps) simp
  next
    case False
    define chunk where "chunk = (if length p > maxData then maxData else length p)"
    have c: "0 < chunk" "chunk \<le> length p" "chunk + 5 \<le> 65535"
      using False assms by (auto simp: chunk_def)
    let ?pkt = "to_bytes (hex4 (chunk + 5)) @ ch # take chunk p"
    have w: "writePktLineBytes (ch # take chunk p) = (?pkt, None)"
      using c by (simp add: writePktLineBytes_def send_def add.commute)
    have "length (drop chunk p) < length p" using c by simp
    then obtain bs where bs: "sideband_loop ch maxData (drop chunk p) (out @ ?pkt) (written + chunk) =
        Some ((out @ ?pkt) @ bs, written + chunk + length (drop chunk p), None)"
      "\<And>tail. demux ch (bs @ tail) = bind_go (demux ch tail) (\<lambda>(d, r). Ok (drop chunk p @ d, r))"
      using "1.IH" by blast
    have "sideband_loop ch maxData p out written = Some (out @ ?pkt @ bs, written + length p, None)"
      using False bs(1) c by (subst sideband_loop.simps) (simp add: chunk_def [symmetric] w)
    moreover have "demux ch ((?pkt @ bs) @ tail) = bind_go (demux ch tail) (\<lambda>(d, r). Ok (p @ d, r))" for tail
    proof -
      have "demux ch ((?pkt @ bs) @ tail) = bind_go (demux ch (bs @ tail)) (\<lambda>(d, r). Ok (take chunk p @ d, r))"
        using demux_packet [of "take chunk p" ch "bs @ tail"] c by simp
      then show ?thesis by (simp add: bs(2) bind_go_assoc split_def) (cases "demux ch tail"; simp add: append_assoc [symmetric] del: append_assoc)
    qed
    ultimately show ?thesis by blast
  qed
qed

text \<open>The side band loses nothing: for a chunk size between 1 and 65530 the writer ends, reports
  all bytes as written, and a client that joins the packets of the channel up to the flush gets the
  pack data back.\<close>

lemma sideband_roundtrip:
  assumes "0 < maxData" "maxData \<le> 65530"
  shows "\<exists>bs. sideBandWrite ch maxData p = Some (bs, length p, None) \<and>
    demux ch (bs @ fst writeFlush @ rest) = Ok (p, rest)"
  using sideband_loop_ok [of maxData ch p "[]" 0] assms
  by (auto simp: sideBandWrite_def demux_flush)

lemma sideband_roundtrip_witness:
  "\<exists>bs. sideBandWrite 1 2 [7, 8, 9] = Some (bs, 3, None) \<and>
    demux 1 (bs @ fst writeFlush @ []) = Ok ([7, 8, 9], [])"
  using sideband_roundtrip [of 2 1 "[7, 8, 9]" "[]"] by (simp add: numeral_3_eq_3)

end
