(* ===== verification/PackBuild.thy ===== *)
theory PackBuild
  imports GitWalk ObjectStore "HOL-Library.Multiset"
begin

text \<open>
  Building a pack for a client: the selection of objects (\<open>buildPackObjectsWithDepth\<close> of
  \<open>src/kailab/sshserver/gitpack.go\<close>), the choice of delta bases and \<open>BuildPack\<close>
  (\<open>pack_builder.go\<close>), the order of advertised refs (\<open>ref_adapter.go\<close>) and the mapping of ref names
  (\<open>handler.go\<close>). The refs and their commits, which the adapter reads from the database, are an
  argument; so is the order in which an iteration over a Go map visits its values.
\<close>

section \<open>Refs\<close>

record git_ref =
  ref_name :: string
  ref_oid :: string

definition MapRefName :: "string \<Rightarrow> string" where
  "MapRefName name =
     (if HasPrefix name ''snap.'' then ''refs/heads/'' @ TrimPrefix name ''snap.''
      else if HasPrefix name ''ws.'' then ''refs/heads/'' @ TrimPrefix name ''ws.''
      else if HasPrefix name ''cs.'' then ''refs/kai/cs/'' @ TrimPrefix name ''cs.''
      else if HasPrefix name ''tag.'' then ''refs/tags/'' @ TrimPrefix name ''tag.''
      else ''refs/kai/'' @ name)"

definition MapGitRefName :: "string \<Rightarrow> string option" where
  "MapGitRefName name =
     (if HasPrefix name ''refs/heads/'' then
        let trimmed = TrimPrefix name ''refs/heads/'' in if trimmed = [] then None else Some (''snap.'' @ trimmed)
      else if HasPrefix name ''refs/tags/'' then
        let trimmed = TrimPrefix name ''refs/tags/'' in if trimmed = [] then None else Some (''tag.'' @ trimmed)
      else if HasPrefix name ''refs/kai/cs/'' then
        let trimmed = TrimPrefix name ''refs/kai/cs/'' in if trimmed = [] then None else Some (''cs.'' @ trimmed)
      else if HasPrefix name ''refs/kai/'' then
        let trimmed = TrimPrefix name ''refs/kai/'' in if trimmed = [] then None else Some trimmed
      else None)"

definition refPriority :: "string \<Rightarrow> nat" where
  "refPriority name =
     (if name = ''refs/heads/main'' then 0
      else if name = ''refs/heads/master'' then 1
      else if length name > 11 \<and> take 11 name = ''refs/heads/'' then 2
      else if length name > 10 \<and> take 10 name = ''refs/tags/'' then 3
      else 4)"

text \<open>\<open>sortRefs\<close>: for each \<open>i\<close>, every later \<open>j\<close> with a smaller priority is swapped to \<open>i\<close>.\<close>

definition swap_at :: "nat \<Rightarrow> nat \<Rightarrow> 'a list \<Rightarrow> 'a list" where
  "swap_at i j xs = xs[i := xs ! j, j := xs ! i]"

definition sort_inner :: "(git_ref \<Rightarrow> nat) \<Rightarrow> nat \<Rightarrow> git_ref list \<Rightarrow> git_ref list" where
  "sort_inner pri i refs =
     foldl (\<lambda>rs j. if pri (rs ! j) < pri (rs ! i) then swap_at i j rs else rs) refs [Suc i ..< length refs]"

definition sortRefs :: "git_ref list \<Rightarrow> git_ref list" where
  "sortRefs refs = foldl (\<lambda>rs i. sort_inner (\<lambda>r. refPriority (ref_name r)) i rs) refs [0 ..< length refs]"

fun selectHeadRef :: "string list \<Rightarrow> string" where
  "selectHeadRef names =
     (case find (\<lambda>n. HasPrefix n ''refs/heads/'') names of
        Some n \<Rightarrow> n
      | None \<Rightarrow> (case names of n # _ \<Rightarrow> n | [] \<Rightarrow> []))"

text \<open>\<open>ListRefs\<close> on the stored ref names and the OID each git name resolves to; \<open>None\<close> is the error
  for refs of which none resolves.\<close>

definition ListRefs :: "string list \<Rightarrow> (string, string) gomap \<Rightarrow> (git_ref list \<times> string) option" where
  "ListRefs names refToOID =
     (if names = [] then Some ([], [])
      else let mapped = filter (\<lambda>n. map_of refToOID n \<noteq> None) (map MapRefName names);
               gitRefs = map (\<lambda>n. \<lparr>ref_name = n, ref_oid = the (map_of refToOID n)\<rparr>) mapped
           in if gitRefs = [] then None
              else let gitRefs = sortRefs gitRefs;
                       headRef = selectHeadRef mapped
                   in Some (if headRef = [] then gitRefs
                            else (case find (\<lambda>r. ref_name r = headRef) gitRefs of
                               Some r \<Rightarrow> \<lparr>ref_name = ''HEAD'', ref_oid = ref_oid r\<rparr> # gitRefs
                             | None \<Rightarrow> gitRefs), headRef))"

section \<open>Selecting the objects\<close>

record ref_commit_info =
  commit :: git_object
  commit_objects :: "git_object list"

datatype build_error =
    UnknownWant string
  | NoRefAdapter
  | AdapterError string
  | WritePack pack_error
  | WalkError unit

definition add_unseen :: "git_object list \<Rightarrow> string list \<times> git_object list \<Rightarrow> string list \<times> git_object list" where
  "add_unseen objs st = foldl (\<lambda>(seen, out) obj.
     if obj_oid obj \<in> set seen then (seen, out) else (obj_oid obj # seen, out @ [obj])) st objs"

fun collect_wants ::
  "(string, ref_commit_info) gomap \<Rightarrow> string list \<Rightarrow> nat \<Rightarrow> string list \<Rightarrow> (string list \<times> git_object list) \<times> string list \<Rightarrow>
   (build_error, (string list \<times> git_object list) \<times> string list) go" where
  "collect_wants refCommits haves depth [] st = Ok st"
| "collect_wants refCommits haves depth (want # wants) (st, shallow) =
     (if want \<in> set haves then collect_wants refCommits haves depth wants (st, shallow)
      else case map_of refCommits want of
        None \<Rightarrow> Err (UnknownWant want)
      | Some info \<Rightarrow>
          if depth > 0 then
            let allObjects = foldl (\<lambda>m obj. AList.update (obj_oid obj) obj m)
                  [(obj_oid (commit info), commit info)] (commit_objects info)
            in bind_go (map_err WalkError (collectCommitObjectsWithDepth allObjects (obj_oid (commit info)) depth))
                 (\<lambda>(collected, sh).
                    collect_wants refCommits haves depth wants (add_unseen collected st, shallow @ sh))
          else collect_wants refCommits haves depth wants
                 (add_unseen (commit info # commit_objects info) st, shallow))"

definition buildPackObjectsWithDepth ::
  "(string, ref_commit_info) gomap \<Rightarrow> string list \<Rightarrow> string list \<Rightarrow> nat \<Rightarrow> (build_error, git_object list \<times> string list) go" where
  "buildPackObjectsWithDepth refCommits wants haves depth =
     bind_go (collect_wants refCommits haves depth wants (([], []), [])) (\<lambda>((seen, objects), shallow).
       Ok (if objects = [] then [buildEmptyTreeObject] else objects, shallow))"

definition buildPackObjects ::
  "(string, ref_commit_info) gomap \<Rightarrow> string list \<Rightarrow> string list \<Rightarrow> (build_error, git_object list) go" where
  "buildPackObjects refCommits wants haves =
     bind_go (buildPackObjectsWithDepth refCommits wants haves 0) (\<lambda>r. Ok (fst r))"

section \<open>Choosing delta bases\<close>

definition pick_base :: "git_object \<Rightarrow> (git_object \<times> bytes) option \<Rightarrow> git_object \<Rightarrow> (git_object \<times> bytes) option" where
  "pick_base obj best base =
     (if obj_oid base = obj_oid obj \<or> obj_type base \<noteq> obj_type obj then best
      else case GenerateDelta (obj_data base) (obj_data obj) of
        None \<Rightarrow> best
      | Some delta \<Rightarrow>
          (case best of
             None \<Rightarrow> Some (base, delta)
           | Some (b, d) \<Rightarrow> if length delta < length d then Some (base, delta) else best))"

definition make_candidate :: "git_object list \<Rightarrow> git_object \<Rightarrow> delta_candidate" where
  "make_candidate bases obj =
     (if obj_type obj \<noteq> ObjectBlob \<and> obj_type obj \<noteq> ObjectTree then whole obj
      else case foldl (pick_base obj) None bases of
        None \<Rightarrow> whole obj
      | Some (b, d) \<Rightarrow> \<lparr>cand_object = obj, cand_base = obj_oid b, cand_delta = Some d\<rparr>)"

text \<open>\<open>visit i m\<close> is the order in which the \<open>i\<close>-th loop visits the values of the map \<open>m\<close>.\<close>

definition base_objects :: "('s \<Rightarrow> string \<Rightarrow> git_object option \<times> 's) \<Rightarrow> git_object list \<Rightarrow> string list \<Rightarrow> 's
    \<Rightarrow> (string, git_object) gomap \<times> 's" where
  "base_objects get objects haves s =
     (let (m, s') = get_all get haves ([], s)
      in (foldl (\<lambda>m obj. AList.update (obj_oid obj) obj m) m objects, s'))"

definition buildDeltaCandidates ::
  "('s \<Rightarrow> string \<Rightarrow> git_object option \<times> 's) \<Rightarrow> (nat \<Rightarrow> (string, git_object) gomap \<Rightarrow> git_object list) \<Rightarrow>
   git_object list \<Rightarrow> string list \<Rightarrow> 's \<Rightarrow> delta_candidate list \<times> 's" where
  "buildDeltaCandidates get visit objects haves s =
     (let (baseObjects, s') = base_objects get objects haves s
      in (map (\<lambda>(i, obj). make_candidate (visit i baseObjects) obj) (enumerate 0 objects), s'))"

section \<open>Building the pack\<close>

record pack_request =
  Wants :: "string list"
  Haves :: "string list"
  ThinPack :: bool
  Depth :: nat

text \<open>The adapter is \<open>None\<close> when it is missing, otherwise what \<open>BuildRefCommits\<close> returns; the store
  is \<open>None\<close> when there is none. The result is the pack, with its shallow commits, and the store
  afterwards.\<close>

definition BuildPack ::
  "(bytes \<Rightarrow> bytes) \<Rightarrow> (bytes \<Rightarrow> bytes) \<Rightarrow>
   ('s \<Rightarrow> string \<Rightarrow> git_object option \<times> 's) \<Rightarrow> ('s \<Rightarrow> git_object \<Rightarrow> 's) \<Rightarrow>
   (nat \<Rightarrow> (string, git_object) gomap \<Rightarrow> git_object list) \<Rightarrow>
   (build_error, (string, ref_commit_info) gomap) go option \<Rightarrow> 's option \<Rightarrow> pack_request \<Rightarrow>
   (build_error, (bytes \<times> string list) \<times> 's option) go" where
  "BuildPack sha c get put visit refAdapter store req =
     (if Wants req = [] then Ok ((writeEmptyPack sha, []), store)
      else case refAdapter of
        None \<Rightarrow> Err NoRefAdapter
      | Some refs \<Rightarrow>
          bind_go refs (\<lambda>refCommits.
          bind_go (buildPackObjectsWithDepth refCommits (Wants req) (filter (\<lambda>h. h \<noteq> []) (Haves req)) (Depth req))
            (\<lambda>(objects, shallow).
              let shallow = (if Depth req > 0 then shallow else []) in
              case store of
                None \<Rightarrow> bind_go (map_err WritePack (writePack sha c objects)) (\<lambda>p. Ok ((p, shallow), None))
              | Some s \<Rightarrow>
                  let s = fold (\<lambda>x s. put s x) objects s in
                  if ThinPack req \<and> Haves req \<noteq> [] then
                    let (candidates, s') = buildDeltaCandidates get visit objects (Haves req) s
                    in bind_go (map_err WritePack (writePackWithDeltas sha c candidates)) (\<lambda>p. Ok ((p, shallow), Some s'))
                  else bind_go (map_err WritePack (writePack sha c objects)) (\<lambda>p. Ok ((p, shallow), Some s)))))"

section \<open>The order of refs\<close>

lemma swap_drop:
  assumes "i < j" "j < length rs"
  shows "take i (swap_at i j rs) = take i rs" "mset (drop i (swap_at i j rs)) = mset (drop i rs)"
    "length (swap_at i j rs) = length rs"
proof -
  show "take i (swap_at i j rs) = take i rs" "length (swap_at i j rs) = length rs"
    using assms by (simp_all add: swap_at_def)
  have "drop i (swap_at i j rs) = (drop i rs)[0 := drop i rs ! (j - i), j - i := drop i rs ! 0]"
    using assms by (simp add: swap_at_def drop_update_swap)
  then show "mset (drop i (swap_at i j rs)) = mset (drop i rs)"
    using assms mset_swap [of "j - i" "drop i rs" 0] by simp
qed

lemma sort_inner_loop:
  assumes "i < m" "m \<le> length refs"
  shows "let rs = foldl (\<lambda>rs j. if pri (rs ! j) < pri (rs ! i) then swap_at i j rs else rs) refs [Suc i ..< m] in
    length rs = length refs \<and> take i rs = take i refs \<and> mset (drop i rs) = mset (drop i refs) \<and>
    (\<forall>k. i \<le> k \<longrightarrow> k < m \<longrightarrow> (pri (rs ! i) :: nat) \<le> pri (rs ! k))"
  using assms
proof (induction m)
  case (Suc m)
  show ?case
  proof (cases "i < m")
    case False
    then have "m = i" using Suc.prems by simp
    then show ?thesis by (simp add: Let_def le_antisym less_Suc_eq_le)
  next
    case True
    define rs where "rs = foldl (\<lambda>rs j. if pri (rs ! j) < pri (rs ! i) then swap_at i j rs else rs) refs [Suc i ..< m]"
    have IH: "length rs = length refs" "take i rs = take i refs" "mset (drop i rs) = mset (drop i refs)"
      "\<And>k. i \<le> k \<Longrightarrow> k < m \<Longrightarrow> pri (rs ! i) \<le> pri (rs ! k)"
      using Suc.IH [OF True] Suc.prems by (simp_all add: Let_def rs_def)
    have step: "foldl (\<lambda>rs j. if pri (rs ! j) < pri (rs ! i) then swap_at i j rs else rs) refs [Suc i ..< Suc m] =
        (if pri (rs ! m) < pri (rs ! i) then swap_at i m rs else rs)"
      using True by (simp add: rs_def upt_Suc_append)
    have sw: "swap_at i m rs ! k = (if k = m then rs ! i else if k = i then rs ! m else rs ! k)" if "k < length rs" for k
      using that True Suc.prems IH(1) by (simp add: swap_at_def nth_list_update)
    show ?thesis
      unfolding Let_def step using IH swap_drop [OF True, of rs] Suc.prems sw
      by (auto simp: less_Suc_eq) (meson less_le_trans nat_less_le order.trans)+
  qed
qed simp

definition sorted_prefix :: "nat \<Rightarrow> git_ref list \<Rightarrow> bool" where
  "sorted_prefix i rs \<longleftrightarrow> sorted (map (\<lambda>r. refPriority (ref_name r)) (take i rs)) \<and>
     (\<forall>x \<in> set (take i rs). \<forall>y \<in> set (drop i rs). refPriority (ref_name x) \<le> refPriority (ref_name y))"

lemma sort_inner_step:
  assumes "i < length rs" "sorted_prefix i rs"
  shows "sorted_prefix (Suc i) (sort_inner (\<lambda>r. refPriority (ref_name r)) i rs) \<and>
    mset (sort_inner (\<lambda>r. refPriority (ref_name r)) i rs) = mset rs"
proof -
  define rs' where "rs' = sort_inner (\<lambda>r. refPriority (ref_name r)) i rs"
  have r: "length rs' = length rs" "take i rs' = take i rs" "mset (drop i rs') = mset (drop i rs)"
    "\<And>k. i \<le> k \<Longrightarrow> k < length rs \<Longrightarrow> refPriority (ref_name (rs' ! i)) \<le> refPriority (ref_name (rs' ! k))"
    using sort_inner_loop [of i "length rs" rs "\<lambda>r. refPriority (ref_name r)"] assms(1)
    by (simp_all add: Let_def rs'_def sort_inner_def)
  have m: "mset rs' = mset rs"
    by (metis append_take_drop_id mset_append r(2,3))
  have d: "drop i rs' = rs' ! i # drop (Suc i) rs'" using assms(1) r(1) by (simp add: Cons_nth_drop_Suc)
  have sd: "set (drop i rs') = set (drop i rs)" using r(3) by (rule mset_eq_setD)
  have t: "take (Suc i) rs' = take i rs @ [rs' ! i]" using assms(1) r(1,2) by (simp add: take_Suc_conv_app_nth)
  have "rs' ! i \<in> set (drop i rs)" using sd d by (metis list.set_intros(1))
  then have "sorted (map (\<lambda>r. refPriority (ref_name r)) (take (Suc i) rs'))"
    using assms(2) by (simp add: t sorted_append sorted_prefix_def)
  moreover have "refPriority (ref_name x) \<le> refPriority (ref_name y)"
    if x: "x \<in> set (take (Suc i) rs')" and y: "y \<in> set (drop (Suc i) rs')" for x y
  proof (cases "x \<in> set (take i rs)")
    case True
    have "y \<in> set (drop i rs)" using y d sd by auto
    then show ?thesis using True assms(2) by (simp add: sorted_prefix_def)
  next
    case False
    then have "x = rs' ! i" using x by (simp add: t)
    moreover obtain k where "y = rs' ! (Suc i + k)" "Suc i + k < length rs"
      using y r(1) by (auto simp: in_set_conv_nth)
    ultimately show ?thesis using r(4) [of "Suc i + k"] by simp
  qed
  ultimately show ?thesis using m by (simp add: sorted_prefix_def rs'_def)
qed

text \<open>Advertised refs are the given refs, ordered by priority: main, master, other branches, tags,
  the rest.\<close>

lemma sortRefs_sorted:
  "sorted (map (\<lambda>r. refPriority (ref_name r)) (sortRefs refs)) \<and> mset (sortRefs refs) = mset refs"
proof -
  have "sorted_prefix n (foldl (\<lambda>rs i. sort_inner (\<lambda>r. refPriority (ref_name r)) i rs) refs [0 ..< n]) \<and>
      mset (foldl (\<lambda>rs i. sort_inner (\<lambda>r. refPriority (ref_name r)) i rs) refs [0 ..< n]) = mset refs"
    if "n \<le> length refs" for n
    using that
  proof (induction n)
    case (Suc n)
    define rs where "rs = foldl (\<lambda>rs i. sort_inner (\<lambda>r. refPriority (ref_name r)) i rs) refs [0 ..< n]"
    have rs: "sorted_prefix n rs" "mset rs = mset refs" using Suc by (simp_all add: rs_def)
    have "length rs = length refs" using mset_eq_length [OF rs(2)] .
    then have "n < length rs" using Suc.prems by simp
    from sort_inner_step [OF this rs(1)] show ?case using rs(2) by (simp add: rs_def)
  qed (simp add: sorted_prefix_def)
  from this [of "length refs"] have s: "sorted_prefix (length refs) (sortRefs refs)" "mset (sortRefs refs) = mset refs"
    by (simp_all add: sortRefs_def)
  then have "length (sortRefs refs) = length refs" by (metis mset_eq_length)
  then show ?thesis using s by (simp add: sorted_prefix_def)
qed

text \<open>The ref name a client pushes to is mapped back to the Kai ref it was advertised for, except
  for workspaces, which share the branch namespace with snapshots, for other names that start with
  \<open>cs/\<close>, and for names with nothing after their kind.\<close>

lemma MapRefName_roundtrip:
  "MapGitRefName (MapRefName name) = Some name \<longleftrightarrow>
     name \<notin> {[], ''snap.'', ''cs.'', ''tag.''} \<and> \<not> HasPrefix name ''ws.'' \<and> \<not> HasPrefix name ''cs/''"
proof (cases "HasPrefix name ''snap.'' \<or> HasPrefix name ''ws.'' \<or> HasPrefix name ''cs.'' \<or> HasPrefix name ''tag.''")
  case True
  then show ?thesis
    by (elim disjE) (auto simp: MapRefName_def MapGitRefName_def HasPrefix_iff TrimPrefix_def Let_def)
next
  case False
  then show ?thesis
    by (auto simp: MapRefName_def MapGitRefName_def HasPrefix_iff TrimPrefix_def Let_def)
qed

section \<open>Deltas are correct\<close>

text \<open>An iteration visits the values of the map, each key once.\<close>

definition visits :: "(nat \<Rightarrow> (string, git_object) gomap \<Rightarrow> git_object list) \<Rightarrow> bool" where
  "visits visit \<longleftrightarrow> (\<forall>i m. set (visit i m) = ran (map_of m))"

definition good_base :: "git_object \<Rightarrow> git_object set \<Rightarrow> (git_object \<times> bytes) option \<Rightarrow> bool" where
  "good_base obj B r \<longleftrightarrow> (case r of None \<Rightarrow> True
     | Some (b, d) \<Rightarrow> b \<in> B \<and> obj_oid b \<noteq> obj_oid obj \<and> obj_type b = obj_type obj \<and>
         GenerateDelta (obj_data b) (obj_data obj) = Some d)"

lemma pick_base_good: "b \<in> B \<Longrightarrow> good_base obj B r \<Longrightarrow> good_base obj B (pick_base obj r b)"
  by (auto simp: pick_base_def good_base_def split: option.splits prod.splits)

lemma fold_pick_base_good: "set bs \<subseteq> B \<Longrightarrow> good_base obj B r \<Longrightarrow> good_base obj B (foldl (pick_base obj) r bs)"
  by (induction bs arbitrary: r) (simp_all add: pick_base_good)

lemma make_candidate_object [simp]: "cand_object (make_candidate bs obj) = obj"
  by (simp add: make_candidate_def whole_def split: option.split prod.split)

lemma make_candidate_delta:
  assumes "is_delta (make_candidate bs obj)"
  shows "\<exists>b d. b \<in> set bs \<and> make_candidate bs obj = \<lparr>cand_object = obj, cand_base = obj_oid b, cand_delta = Some d\<rparr> \<and>
    obj_oid b \<noteq> obj_oid obj \<and> obj_type b = obj_type obj \<and> obj_type obj \<noteq> ObjectCommit \<and>
    GenerateDelta (obj_data b) (obj_data obj) = Some d"
proof -
  have "\<not> is_delta (whole obj)" by (simp add: is_delta_def whole_def)
  then obtain b d where f: "foldl (pick_base obj) None bs = Some (b, d)"
      "make_candidate bs obj = \<lparr>cand_object = obj, cand_base = obj_oid b, cand_delta = Some d\<rparr>"
      "obj_type obj = ObjectBlob \<or> obj_type obj = ObjectTree"
    using assms by (auto simp: make_candidate_def split: option.splits if_splits)
  have "good_base obj (set bs) (foldl (pick_base obj) None bs)"
    by (rule fold_pick_base_good) (simp_all add: good_base_def)
  then show ?thesis using f by (auto simp: good_base_def)
qed

lemma foldl_update_ran:
  "ran (map_of (foldl (\<lambda>m obj. AList.update (obj_oid obj) obj m) m objs)) \<subseteq> set objs \<union> ran (map_of m)"
proof (induction objs arbitrary: m)
  case (Cons x objs)
  have "ran (map_of (AList.update (obj_oid x) x m)) \<subseteq> insert x (ran (map_of m))" by (auto simp: ran_def)
  then show ?case using Cons [of "AList.update (obj_oid x) x m"] by (simp del: map_of_update) blast
qed simp

definition delta_sound :: "git_object set \<Rightarrow> delta_candidate \<Rightarrow> bool" where
  "delta_sound B cand \<longleftrightarrow> (\<exists>b d. cand_delta cand = Some d \<and> cand_base cand = obj_oid b \<and> b \<in> B \<and>
     obj_oid b \<noteq> obj_oid (cand_object cand) \<and>
     obj_type b = obj_type (cand_object cand) \<and> obj_type b \<noteq> ObjectCommit \<and>
     applyDelta (obj_data b) d = Ok (obj_data (cand_object cand)))"

context object_cache
begin

lemma base_objects_ran:
  assumes "wf s" "base_objects get objects haves s = (m, s')"
  shows "ran (map_of m) \<subseteq> set objects \<union> {b \<in> contents s. obj_oid b \<in> set haves}"
proof -
  obtain m0 s0 where g: "get_all get haves ([], s) = (m0, s0)" by fastforce
  then have m: "m = foldl (\<lambda>m obj. AList.update (obj_oid obj) obj m) m0 objects"
    using assms(2) by (simp add: base_objects_def)
  have "ran (map_of m0) \<subseteq> {b \<in> contents s. obj_oid b \<in> set haves}"
    using gets_sound [OF assms(1) g] by (fastforce simp: ran_def)
  then show ?thesis using foldl_update_ran [of m0 objects] unfolding m by blast
qed

lemma candidates_sound:
  assumes s: "wf s" and visit: "visits visit" and b: "buildDeltaCandidates get visit objects haves s = (cands, s')"
    and small: "\<forall>x \<in> set objects \<union> contents s. length (obj_data x) < 16777216"
  shows "map cand_object cands = objects \<and>
    (\<forall>cand \<in> set cands. is_delta cand \<longrightarrow>
      delta_sound (set objects \<union> {b \<in> contents s. obj_oid b \<in> set haves}) cand)"
proof -
  obtain m s0 where m: "base_objects get objects haves s = (m, s0)" by fastforce
  then have cands: "cands = map (\<lambda>(i, obj). make_candidate (visit i m) obj) (enumerate 0 objects)"
    using b by (simp add: buildDeltaCandidates_def)
  let ?B = "set objects \<union> {b \<in> contents s. obj_oid b \<in> set haves}"
  have vis: "set (visit i m) \<subseteq> ?B" for i
    using base_objects_ran [OF s m] visit by (simp add: visits_def)
  have "delta_sound ?B cand" if "cand \<in> set cands" "is_delta cand" for cand
  proof -
    obtain i obj where c: "(i, obj) \<in> set (enumerate 0 objects)" "cand = make_candidate (visit i m) obj"
      using \<open>cand \<in> set cands\<close> unfolding cands by (auto)
    then have obj: "obj \<in> set objects" by (auto simp: in_set_enumerate_eq)
    obtain b d where bd: "b \<in> set (visit i m)" "cand = \<lparr>cand_object = obj, cand_base = obj_oid b, cand_delta = Some d\<rparr>"
      "obj_oid b \<noteq> obj_oid obj" "obj_type b = obj_type obj" "obj_type obj \<noteq> ObjectCommit"
      "GenerateDelta (obj_data b) (obj_data obj) = Some d"
      using make_candidate_delta [of "visit i m" obj] \<open>is_delta cand\<close> c(2) by auto
    have bB: "b \<in> ?B" using bd(1) vis by blast
    have "length (obj_data b) < 16777216" "length (obj_data obj) < 16777216"
      using small bB obj by blast+
    then have "encodable (obj_data b) (obj_data obj)" by (simp add: encodable_def)
    then have "applyDelta (obj_data b) d = Ok (obj_data obj)" by (rule apply_generated [OF bd(6)])
    then show ?thesis using bB bd by (auto simp: delta_sound_def)
  qed
  moreover have "map cand_object cands = objects"
    unfolding cands by (simp add: comp_def split_def)
  ultimately show ?thesis by blast
qed

end

text \<open>Every delta the builder chooses over the daemon's LRU cache can be applied: each candidate
  stands for its object, in order, and a delta's base is another object of the same kind, sent along
  or cached under an OID the client has, from which the decoder rebuilds the object exactly; commits
  are sent whole. Objects are below 16 MiB, where copies encode exactly.\<close>

lemma buildDeltaCandidates_sound:
  assumes "lru_wf s" "visits visit" "buildDeltaCandidates lru_get visit objects haves s = (cands, s')"
    and "\<forall>x \<in> set objects \<union> set (recent s). length (obj_data x) < 16777216"
  shows "map cand_object cands = objects \<and>
    (\<forall>cand \<in> set cands. is_delta cand \<longrightarrow>
      delta_sound (set objects \<union> {b \<in> set (recent s). obj_oid b \<in> set haves}) cand)"
  using lru.candidates_sound [OF assms] .

definition ex_visit :: "nat \<Rightarrow> (string, git_object) gomap \<Rightarrow> git_object list" where
  "ex_visit i m = map (\<lambda>k. the (map_of m k)) (map fst m)"

lemma ex_visits: "visits ex_visit"
proof -
  have "ran f = (\<lambda>k. the (f k)) ` dom f" for f :: "string \<Rightarrow> git_object option"
    by (force simp: ran_def image_iff)
  then show ?thesis by (simp add: visits_def ex_visit_def dom_map_of_conv_image_fst image_image)
qed

lemma buildDeltaCandidates_sound_witness:
  "let (cands, s') = buildDeltaCandidates lru_get ex_visit [ex_base, ex_target] [''00''] (NewLRUObjectStore 8) in
   map cand_object cands = [ex_base, ex_target] \<and>
    (\<forall>cand \<in> set cands. is_delta cand \<longrightarrow>
      delta_sound (set [ex_base, ex_target] \<union> {b \<in> set (recent (NewLRUObjectStore 8)). obj_oid b \<in> set [''00'']}) cand)"
proof -
  obtain cands s' where b: "buildDeltaCandidates lru_get ex_visit [ex_base, ex_target] [''00''] (NewLRUObjectStore 8) = (cands, s')"
    by fastforce
  have "lru_wf (NewLRUObjectStore 8)" "recent (NewLRUObjectStore 8) = []"
    by (simp_all add: lru_wf_def recent_def NewLRUObjectStore_def)
  then show ?thesis
    unfolding b Let_def prod.case
    by (intro buildDeltaCandidates_sound [OF _ ex_visits b])
       (simp_all add: ex_base_def ex_target_def makeGitObject_def)
qed

section \<open>Two similar objects\<close>

lemma base_objects_both:
  assumes "lru_wf s" "recent s = []" "obj_oid a \<noteq> obj_oid b"
  shows "\<exists>m s'. base_objects lru_get [a, b] haves s = (m, s') \<and> ran (map_of m) = {a, b}"
proof -
  obtain m s' where m: "base_objects lru_get [a, b] haves s = (m, s')" by fastforce
  have "ran (map_of m) \<subseteq> {a, b}"
    using lru.base_objects_ran [OF assms(1) m] assms(2) by simp
  moreover have "map_of m (obj_oid a) = Some a" "map_of m (obj_oid b) = Some b"
    using m assms(3) by (auto simp: base_objects_def split: prod.splits)
  ultimately show ?thesis using m by (auto intro: ranI)
qed

lemma pick_other:
  assumes "set bs \<subseteq> {a, b}" "r \<in> {None, Some (b, d)}"
    and "obj_oid a \<noteq> obj_oid b" "obj_type b = obj_type a" "GenerateDelta (obj_data b) (obj_data a) = Some d"
  shows "foldl (pick_base a) r bs = (if b \<in> set bs then Some (b, d) else r)"
  using assms(1,2)
proof (induction bs arbitrary: r)
  case (Cons x bs)
  have "pick_base a r x = (if x = b then Some (b, d) else r)"
    using Cons.prems assms(3-5) by (auto simp: pick_base_def)
  then show ?case using Cons.IH [of "pick_base a r x"] Cons.prems by auto
qed simp

lemma mutual_candidates:
  assumes "lru_wf s" "recent s = []" "visits visit"
    and "obj_oid a \<noteq> obj_oid b" "obj_type a = ObjectBlob" "obj_type b = ObjectBlob"
    and "GenerateDelta (obj_data b) (obj_data a) = Some da" "GenerateDelta (obj_data a) (obj_data b) = Some db"
  shows "fst (buildDeltaCandidates lru_get visit [a, b] haves s) =
    [\<lparr>cand_object = a, cand_base = obj_oid b, cand_delta = Some da\<rparr>,
     \<lparr>cand_object = b, cand_base = obj_oid a, cand_delta = Some db\<rparr>]"
proof -
  obtain m s' where m: "base_objects lru_get [a, b] haves s = (m, s')" "ran (map_of m) = {a, b}"
    using base_objects_both [OF assms(1,2,4)] by blast
  have v: "set (visit i m) = {a, b}" for i using assms(3) m(2) by (simp add: visits_def)
  have "foldl (pick_base a) None (visit i m) = Some (b, da)" for i
    using pick_other [of "visit i m" a b None da] v assms by simp
  moreover have "foldl (pick_base b) None (visit i m) = Some (a, db)" for i
    using pick_other [of "visit i m" b a None db] v assms by auto
  ultimately show ?thesis
    using assms(5,6) by (simp add: buildDeltaCandidates_def m(1) make_candidate_def)
qed

text \<open>A thin pack can lose objects. When two blobs are sent together and each can be encoded against the
  other, the builder sends both as deltas of one another, although the bases were meant for later
  objects only; a receiver that has neither cannot rebuild either of them, and the parser drops both
  without an error.\<close>

lemma mutual_deltas_lost:
  assumes "zlib_codec z c" "\<And>x. length (sha x) = 20" "lru_wf s" "recent s = []" "visits visit"
    and "wf_object sha a" "wf_object sha b" "obj_oid a \<noteq> obj_oid b"
    and "obj_type a = ObjectBlob" "obj_type b = ObjectBlob"
    and "GenerateDelta (obj_data b) (obj_data a) = Some da" "GenerateDelta (obj_data a) (obj_data b) = Some db"
  shows "\<exists>p. writePackWithDeltas sha c (fst (buildDeltaCandidates lru_get visit [a, b] haves s)) = Ok p \<and>
    (\<forall>existing. map_of existing (obj_oid a) = None \<longrightarrow> map_of existing (obj_oid b) = None \<longrightarrow>
      parseGitPackWithBases z sha p existing = Ok [])"
proof -
  let ?ca = "\<lparr>cand_object = a, cand_base = obj_oid b, cand_delta = Some da\<rparr>"
  let ?cb = "\<lparr>cand_object = b, cand_base = obj_oid a, cand_delta = Some db\<rparr>"
  note cands = mutual_candidates [OF assms(3-5,8-12)]
  obtain ha hb where h: "obj_oid a = hex_encode (sha ha)" "obj_oid b = hex_encode (sha hb)"
    using wf_object_oid assms(6,7) by meson
  have ne: "obj_oid a \<noteq> []" "obj_oid b \<noteq> []"
    using assms(2) length_hex_encode [of "sha ha"] length_hex_encode [of "sha hb"] unfolding h
    by (metis list.size(3) mult_eq_0_iff zero_neq_numeral)+
  then have w: "\<exists>x. write_candidate c ?ca = Ok x" "\<exists>x. write_candidate c ?cb = Ok x"
    using assms(2) by (simp_all add: write_candidate_def writePackRefDelta_def h)
  then obtain p where p: "writePackWithDeltas sha c [?ca, ?cb] = Ok p"
    by (auto simp: writePackWithDeltas_def)
  have "sizes_ok (obj_data a)" "sizes_ok (obj_data b)" using assms(6,7) by (simp_all add: wf_object_def)
  moreover have "sizes_ok da" "sizes_ok db"
    using GenerateDelta_Some(2) [OF assms(11)] GenerateDelta_Some(2) [OF assms(12)] calculation
    by (simp_all add: sizes_ok_def)
  ultimately have ok: "\<forall>cand \<in> set [?ca, ?cb]. candidate_ok cand" by (simp add: candidate_ok_def)
  have "parseGitPackWithBases z sha p existing = Ok []"
    if "map_of existing (obj_oid a) = None" "map_of existing (obj_oid b) = None" for existing
  proof -
    have "fold (read_back sha) [?ca, ?cb] ([], []) = ([], [delta_of ?ca, delta_of ?cb])"
      using ne by (simp add: read_back_def is_delta_def)
    moreover have "baseOID (delta_of ?ca) = obj_oid b" "baseOID (delta_of ?cb) = obj_oid a"
      using baseOID_delta_of [OF _ assms(7), of ?ca] baseOID_delta_of [OF _ assms(6), of ?cb] by simp_all
    ultimately show ?thesis
      using parse_writePackWithDeltas [OF assms(1,2) _ ok p, of "Some existing"] that
      by (simp add: parseGitPackWithBases_def find_base_def)
  qed
  then show ?thesis using p by (auto simp: cands)
qed

text \<open>Runs of one byte: the index chains every block offset in one bucket, so that a position with
  sixteen bytes left always matches at least sixteen.\<close>

lemma hash_run: "hashBlock (replicate 16 v) = hashBlock (drop to (replicate m v))" if "to + 16 \<le> m"
proof -
  have "take 16 (drop to (replicate m v)) = replicate 16 v" using that by (simp add: min_def)
  then show ?thesis by (simp add: hashBlock_def)
qed

lemma index_run:
  assumes "16 \<le> n"
  shows "table (newDeltaIndex (replicate n v)) ! (hashBlock (replicate 16 v) AND mask (newDeltaIndex (replicate n v))) = int (n - 16)"
    and "src (newDeltaIndex (replicate n v)) = replicate n v" "table (newDeltaIndex (replicate n v)) \<noteq> []"
proof -
  let ?s = "replicate n v"
  define m where "m = table_size n - 1"
  define st where "st = (\<lambda>k. foldl (\<lambda>st i. index_block ?s m i st) (replicate (Suc m) (-1 :: int), replicate (Suc (n - 16)) (-1 :: int)) [0..<k])"
  have m: "table_size n = Suc m" using table_size_pos [of n] by (simp add: m_def)
  have idx: "newDeltaIndex ?s = \<lparr>src = ?s, table = fst (st (Suc (n - 16))), chain_next = snd (st (Suc (n - 16))), mask = m\<rparr>"
    using assms by (simp add: newDeltaIndex_def Let_def st_def m split_def)
  have len: "length (fst (st k)) = Suc m" for k
    by (induction k) (simp_all add: st_def index_block_def split_def Let_def)
  have h: "hashBlock (drop (n - 16) ?s) = hashBlock (replicate 16 v)" using hash_run [of "n - 16" n v] assms by simp
  have lt: "hashBlock (replicate 16 v) AND m < Suc m" using and_le_mask by (simp add: less_Suc_eq_le)
  have "fst (st (Suc (n - 16))) = (fst (st (n - 16)))[hashBlock (replicate 16 v) AND m := int (n - 16)]"
    by (simp add: st_def index_block_def split_def Let_def h del: drop_replicate)
  then show "table (newDeltaIndex ?s) ! (hashBlock (replicate 16 v) AND mask (newDeltaIndex ?s)) = int (n - 16)"
    using lt len by (simp add: idx)
  show "src (newDeltaIndex ?s) = ?s" by (simp add: idx)
  show "table (newDeltaIndex ?s) \<noteq> []" using len [of "Suc (n - 16)"] by (auto simp: idx)
qed

lemma chain_walk_mono: "bl \<le> snd (chain_walk idx tgt to so bo bl c)"
proof (induction idx tgt to so bo bl c rule: chain_walk.induct)
  case (1 idx tgt to so bo bl c)
  show ?case
  proof (cases "0 \<le> so \<and> c < maxChainLength")
    case True
    define ml where "ml = matchLength idx (nat so) tgt to"
    define best where "best = (if ml > bl then (so, ml) else (bo, bl))"
    have "snd best \<le> snd (chain_walk idx tgt to (chain_next idx ! nat so) (fst best) (snd best) (Suc c))"
      using "1.IH" [OF True refl refl, folded ml_def, folded best_def, of "fst best" "snd best"]
      by (simp add: best_def)
    moreover have "bl \<le> snd best" by (simp add: best_def)
    moreover have "chain_walk idx tgt to so bo bl c =
        chain_walk idx tgt to (chain_next idx ! nat so) (fst best) (snd best) (Suc c)"
      using True by (subst chain_walk.simps) (simp add: Let_def ml_def best_def split_def)
    ultimately show ?thesis by simp
  next
    case False
    then have "chain_walk idx tgt to so bo bl c = (bo, bl)" by (subst chain_walk.simps) auto
    then show ?thesis by simp
  qed
qed

lemma match_loop_run: "k \<le> x \<Longrightarrow> so + x \<le> n \<Longrightarrow> to + x \<le> m \<Longrightarrow>
    match_loop (replicate n v) (replicate m v) so to x k = x"
proof (induction "x - k" arbitrary: k)
  case 0
  then show ?case by (subst match_loop.simps) simp
next
  case (Suc y)
  then show ?case by (subst match_loop.simps) simp
qed

lemma findMatch_run:
  assumes "16 \<le> n" "to + 16 \<le> m"
  shows "16 \<le> snd (findMatch (newDeltaIndex (replicate n v)) (replicate m v) to)"
proof -
  let ?idx = "newDeltaIndex (replicate n v)"
  have t: "table ?idx ! (hashBlock (drop to (replicate m v)) AND mask ?idx) = int (n - 16)"
    using index_run(1) [OF assms(1), of v] hash_run [OF assms(2), of v] by (simp del: drop_replicate)
  have "matchLength ?idx (n - 16) (replicate m v) to = 16"
    using assms match_loop_run [of 0 16 "n - 16" n to m v] min_absorb1 [of 16 "m - to"]
    by (simp add: matchLength_def index_run(2) [OF assms(1)])
  then have "chain_walk ?idx (replicate m v) to (int (n - 16)) (-1) 0 0 =
      chain_walk ?idx (replicate m v) to (chain_next ?idx ! (n - 16)) (int (n - 16)) 16 1"
    by (subst chain_walk.simps) (simp add: Let_def)
  then have "16 \<le> snd (chain_walk ?idx (replicate m v) to (int (n - 16)) (-1) 0 0)"
    using chain_walk_mono [of 16] by simp
  then show ?thesis
    using assms index_run(3) [OF assms(1), of v] t by (auto simp: findMatch_def Let_def split_def simp del: drop_replicate)
qed

lemma length_encodeCopy: "length (encodeCopy off sz) \<le> 8"
  by (simp add: encodeCopy_def Let_def opt_byte_def)

lemma gen_loop_tail:
  "m - to < 16 \<Longrightarrow> to \<le> m \<Longrightarrow> length buf + (m - to) < 127 \<Longrightarrow>
   length (gen_loop idx (replicate m v) to [] buf) \<le> length buf + (m - to) + 1"
proof (induction "m - to" arbitrary: to buf)
  case 0
  then show ?case
    by (simp add: gen_loop_done flush_def encodeInsert.simps [of buf] encodeInsert.simps [of "[]"] Let_def)
next
  case (Suc x)
  have "m < to + 16" using Suc.prems by simp
  then have "findMatch idx (replicate m v) to = (-1, 0)" by (simp add: findMatch_def)
  then have "gen_loop idx (replicate m v) to [] buf = gen_loop idx (replicate m v) (Suc to) [] (buf @ [v])"
  proof -
    have "to < m" "length buf \<noteq> 126" using Suc.hyps(2) Suc.prems by linarith+
    then show ?thesis using gen_loop_insert [of to "replicate m v" idx "-1" 0 "[]" buf] \<open>findMatch _ _ _ = _\<close> by simp
  qed
  moreover have "length (gen_loop idx (replicate m v) (Suc to) [] (buf @ [v])) \<le> length (buf @ [v]) + (m - Suc to) + 1"
    using Suc.hyps(2) Suc.prems by (intro Suc.hyps(1)) auto
  moreover have "m - to = Suc (m - Suc to)" using Suc.hyps(2) by simp
  ultimately show ?case by simp
qed

lemma gen_loop_run:
  assumes "16 \<le> n"
  shows "to \<le> m \<Longrightarrow> length (gen_loop (newDeltaIndex (replicate n v)) (replicate m v) to [] []) \<le> (m - to) div 2 + 9"
proof (induction "m - to" arbitrary: to rule: less_induct)
  case less
  show ?case
  proof (cases "to + 16 \<le> m")
    case True
    obtain so k where f: "findMatch (newDeltaIndex (replicate n v)) (replicate m v) to = (so, k)" by fastforce
    have k: "16 \<le> k" using findMatch_run [OF assms True, of v] f by simp
    have g: "gen_loop (newDeltaIndex (replicate n v)) (replicate m v) to [] [] =
        encodeCopy (nat so) k @ gen_loop (newDeltaIndex (replicate n v)) (replicate m v) (to + k) [] []"
      using gen_loop_copy [OF _ f, of "[]" "[]"] True k
      by (simp add: flush_def gen_loop_prefix [of _ _ _ "encodeCopy _ _"])
    show ?thesis
    proof (cases "to + k \<le> m")
      case True
      have "(m - (to + k) + 16) div 2 \<le> (m - to) div 2" using True k by (intro div_le_mono) simp
      then have "(m - (to + k)) div 2 + 8 \<le> (m - to) div 2" by simp
      moreover have "length (gen_loop (newDeltaIndex (replicate n v)) (replicate m v) (to + k) [] []) \<le> (m - (to + k)) div 2 + 9"
        using less.hyps [of "to + k"] True k by simp
      ultimately show ?thesis using length_encodeCopy [of "nat so" k] unfolding g length_append by linarith
    next
      case False
      then show ?thesis using length_encodeCopy [of "nat so" k] g by (simp add: gen_loop_done flush_def)
    qed
  next
    case False
    then have "m - to < 16" by simp
    then have "length (gen_loop (newDeltaIndex (replicate n v)) (replicate m v) to [] []) \<le> (m - to) + 1" "m - to + 1 \<le> (m - to) div 2 + 9"
      using gen_loop_tail [of m to "[]"] less.prems by (simp, linarith)
    then show ?thesis by linarith
  qed
qed

lemma GenerateDelta_run:
  assumes "16 \<le> n" "n < 128" "62 < m" "m < 128"
  shows "\<exists>d. GenerateDelta (replicate n v) (replicate m v) = Some d"
proof -
  have e: "length (deltaEncodeSize k) = 1" if "k < 128" for k
  proof -
    have "drop_bit 7 k = 0" using that by (simp add: drop_bit_eq_div)
    then show ?thesis by (simp add: deltaEncodeSize_def size_loop.simps)
  qed
  have "length (gen_loop (newDeltaIndex (replicate n v)) (replicate m v) 0 [] []) \<le> m div 2 + 9"
    using gen_loop_run [OF assms(1), of 0 m v] by simp
  then have "22 + length (gen_loop (newDeltaIndex (replicate n v)) (replicate m v) 0 [] []) < m"
    using assms by linarith
  moreover have "n div 16 < m" using assms by linarith
  ultimately show ?thesis
    using assms e index_run(3) [OF assms(1), of v]
    by (simp add: GenerateDelta_def Let_def gen_loop_prefix [of _ _ _ "_ @ _"])
qed

definition ex_len_sha :: "bytes \<Rightarrow> bytes" where
  "ex_len_sha x = word_of_nat (length x) # replicate 19 0"

lemma length_ex_len_sha: "length (ex_len_sha x) = 20"
  by (simp add: ex_len_sha_def)

lemma mutual_deltas_lost_witness:
  "let a = makeGitObject ex_len_sha 3 (replicate 64 7); b = makeGitObject ex_len_sha 3 (replicate 65 7) in
   \<exists>p. writePackWithDeltas ex_len_sha ex_deflate (fst (buildDeltaCandidates lru_get ex_visit [a, b] [''00''] (NewLRUObjectStore 8))) = Ok p \<and>
    (\<forall>existing. map_of existing (obj_oid a) = None \<longrightarrow> map_of existing (obj_oid b) = None \<longrightarrow>
      parseGitPackWithBases ex_inflate ex_len_sha p existing = Ok [])"
proof -
  let ?a = "makeGitObject ex_len_sha 3 (replicate 64 7)" and ?b = "makeGitObject ex_len_sha 3 (replicate 65 7)"
  obtain da db where "GenerateDelta (replicate 65 7) (replicate 64 7) = Some da"
    "GenerateDelta (replicate 64 7) (replicate 65 7) = Some db"
    using GenerateDelta_run [of 65 64 7] GenerateDelta_run [of 64 65 7] by auto
  then have d: "GenerateDelta (obj_data ?b) (obj_data ?a) = Some da" "GenerateDelta (obj_data ?a) (obj_data ?b) = Some db"
    by (simp_all add: makeGitObject_def Let_def)
  have s: "lru_wf (NewLRUObjectStore 8)" "recent (NewLRUObjectStore 8) = []"
    by (simp_all add: lru_wf_def recent_def NewLRUObjectStore_def)
  have w: "wf_object ex_len_sha ?a" "wf_object ex_len_sha ?b" by (auto intro!: wf_object_make simp: sizes_ok_def)
  have t: "obj_type ?a = ObjectBlob" "obj_type ?b = ObjectBlob" by (simp_all add: makeGitObject_def Let_def)
  have ne: "obj_oid ?a \<noteq> obj_oid ?b"
    by (simp add: makeGitObject_def computeGitOID_def hex_encode_inj ex_len_sha_def show_nat.simps)
  show ?thesis
    unfolding Let_def by (rule mutual_deltas_lost [OF ex_codec length_ex_len_sha s ex_visits w ne t d])
qed

section \<open>A clone, end to end\<close>

definition info_objects :: "ref_commit_info \<Rightarrow> git_object list" where
  "info_objects info = commit info # commit_objects info"

definition seen_inv :: "string list \<times> git_object list \<Rightarrow> bool" where
  "seen_inv st \<longleftrightarrow> set (fst st) = obj_oid ` set (snd st) \<and> distinct (map obj_oid (snd st))"

lemma add_unseen_inv:
  "seen_inv st \<Longrightarrow> seen_inv (add_unseen objs st) \<and> set (snd st) \<subseteq> set (snd (add_unseen objs st)) \<and>
     set (snd (add_unseen objs st)) \<subseteq> set (snd st) \<union> set objs \<and>
     obj_oid ` set objs \<subseteq> set (fst (add_unseen objs st))"
proof (induction objs arbitrary: st)
  case (Cons x objs)
  define st' where "st' = (if obj_oid x \<in> set (fst st) then st else (obj_oid x # fst st, snd st @ [x]))"
  have s: "seen_inv st'" "set (snd st) \<subseteq> set (snd st')" "set (snd st') \<subseteq> insert x (set (snd st))" "obj_oid x \<in> set (fst st')"
    using Cons.prems by (auto simp: st'_def seen_inv_def)
  have "add_unseen (x # objs) st = add_unseen objs st'"
    by (simp add: add_unseen_def st'_def split_def)
  moreover have "set (fst st') \<subseteq> set (fst (add_unseen objs st'))"
    using Cons.IH [OF s(1)] s(1) by (auto simp: seen_inv_def)
  ultimately show ?case using Cons.IH [OF s(1)] s(2-4) by auto
qed (simp add: add_unseen_def)

lemma collect_wants_full:
  assumes "\<forall>w \<in> set wants. map_of refCommits w \<noteq> None" "seen_inv st"
  shows "\<exists>st'. collect_wants refCommits [] 0 wants (st, sh) = Ok (st', sh) \<and> seen_inv st' \<and>
    set (snd st) \<subseteq> set (snd st') \<and>
    set (snd st') \<subseteq> set (snd st) \<union> (\<Union>w \<in> set wants. set (info_objects (the (map_of refCommits w)))) \<and>
    (\<forall>w \<in> set wants. obj_oid ` set (info_objects (the (map_of refCommits w))) \<subseteq> set (fst st'))"
  using assms
proof (induction wants arbitrary: st)
  case (Cons w wants)
  obtain info where info: "map_of refCommits w = Some info" using Cons.prems(1) by auto
  define st1 where "st1 = add_unseen (info_objects info) st"
  have s1: "seen_inv st1" "set (snd st) \<subseteq> set (snd st1)" "set (snd st1) \<subseteq> set (snd st) \<union> set (info_objects info)"
    "obj_oid ` set (info_objects info) \<subseteq> set (fst st1)"
    using add_unseen_inv [OF Cons.prems(2), of "info_objects info"] by (simp_all add: st1_def)
  have step: "collect_wants refCommits [] 0 (w # wants) (st, sh) = collect_wants refCommits [] 0 wants (st1, sh)"
    by (simp add: info st1_def info_objects_def)
  obtain st' where st': "collect_wants refCommits [] 0 wants (st1, sh) = Ok (st', sh)" "seen_inv st'"
    "set (snd st1) \<subseteq> set (snd st')"
    "set (snd st') \<subseteq> set (snd st1) \<union> (\<Union>w \<in> set wants. set (info_objects (the (map_of refCommits w))))"
    "\<forall>w \<in> set wants. obj_oid ` set (info_objects (the (map_of refCommits w))) \<subseteq> set (fst st')"
    using Cons.IH [OF _ s1(1)] Cons.prems(1) by auto
  have "set (fst st1) \<subseteq> set (fst st')" using s1(1) st'(2,3) by (auto simp: seen_inv_def)
  then show ?case
    unfolding step using st' s1 info by (intro exI [of _ st']) auto
qed simp

lemma clone_complete:
  assumes "zlib_codec z c" "\<And>x. length (sha x) = 20"
    and "Wants req \<noteq> []" "Haves req = []" "Depth req = 0"
    and "\<forall>w \<in> set (Wants req). map_of refCommits w \<noteq> None"
    and U: "U = (\<Union>w \<in> set (Wants req). set (info_objects (the (map_of refCommits w))))"
    and "\<forall>x \<in> U. wf_object sha x" "inj_on obj_oid U" "card U < 4294967296"
  shows "\<exists>p store' res.
    BuildPack sha c lru_get lru_put visit (Some (Ok refCommits)) (Some s) req = Ok ((p, []), store') \<and>
    parseGitPack z sha p = Ok res \<and>
    (\<forall>x \<in> U. map_of res (obj_oid x) = Some x) \<and> ran (map_of res) \<subseteq> U"
proof -
  have inv0: "seen_inv ([], [])" by (simp add: seen_inv_def)
  obtain st' where st': "collect_wants refCommits [] 0 (Wants req) (([], []), []) = Ok (st', [])" "seen_inv st'"
    "set (snd st') \<subseteq> U" "\<forall>x \<in> U. obj_oid x \<in> set (fst st')"
    using collect_wants_full [OF assms(6) inv0, of "[]"] by (fastforce simp: U)
  define objs where "objs = snd st'"
  have set_objs: "set objs = U"
  proof -
    have "x \<in> set objs" if x: "x \<in> U" for x
    proof -
      obtain y where "y \<in> set objs" "obj_oid y = obj_oid x"
        using st'(2,4) x by (fastforce simp: seen_inv_def objs_def)
      then show ?thesis using assms(9) st'(3) x by (metis inj_onD objs_def subsetD)
    qed
    then show ?thesis using st'(3) by (auto simp: objs_def)
  qed
  have "U \<noteq> {}" using assms(3) by (cases "Wants req") (auto simp: U info_objects_def)
  then have ne: "objs \<noteq> []" using set_objs by auto
  have "distinct objs" using st'(2) by (simp add: seen_inv_def objs_def distinct_map)
  then have len: "length objs < 4294967296" using assms(10) set_objs distinct_card by metis
  obtain seen where "st' = (seen, objs)" by (cases st') (simp add: objs_def)
  then have "buildPackObjectsWithDepth refCommits (Wants req) (filter (\<lambda>h. h \<noteq> []) (Haves req)) (Depth req) = Ok (objs, [])"
    using st'(1) ne assms(4,5) by (simp add: buildPackObjectsWithDepth_def)
  moreover obtain p where p: "writePack sha c objs = Ok p" "parseGitPack z sha p = Ok (index_objects objs)"
    using writePack_parses [where sha = sha, OF assms(1,2) len] assms(8) set_objs by blast
  ultimately have build: "\<exists>store'. BuildPack sha c lru_get lru_put visit (Some (Ok refCommits)) (Some s) req = Ok ((p, []), store')"
    using assms(3,4,5) by (simp add: BuildPack_def)
  have look: "map_of (index_objects objs) k = List.find (\<lambda>x. obj_oid x = k) objs" for k
    using fold_update_lookup [OF assms(9), of objs "[]" k] set_objs by (simp add: index_objects_def split: option.splits)
  have "map_of (index_objects objs) (obj_oid x) = Some x" if "x \<in> U" for x
  proof -
    have "List.find (\<lambda>y. obj_oid y = obj_oid x) objs = Some x"
      using that assms(9) set_objs by (intro find_unique) (auto dest: inj_onD)
    then show ?thesis by (simp add: look)
  qed
  moreover have "ran (map_of (index_objects objs)) \<subseteq> U"
    using set_objs by (auto simp: ran_def look find_Some_iff)
  ultimately show ?thesis using build p(2) by blast
qed


definition ex_request :: pack_request where
  "ex_request = \<lparr>Wants = [''x''], Haves = [], ThinPack = True, Depth = 0\<rparr>"

definition ex_refs :: "(string, ref_commit_info) gomap" where
  "ex_refs = [(''x'', \<lparr>commit = makeGitObject ex_len_sha 1 [1], commit_objects = [makeGitObject ex_len_sha 3 [1]]\<rparr>)]"


end
