(* ===== verification/Extract.thy ===== *)
theory Extract
  imports GoText
begin

text \<open>
  The units of a source file (\<open>src/kai-core/merge/extract.go\<close>, \<open>types.go\<close>). The concrete syntax tree
  comes from tree-sitter, which is not part of this code: a node is what the extractor reads of it,
  its type, its source text, its range and its children. SHA-256 is the parameter \<open>sha\<close>. The index
  of a file maps a key to its unit; a later unit with the same key replaces an earlier one. A unit's
  \<open>Modifiers\<close>, \<open>Children\<close> and \<open>RawNode\<close> are left out: nothing in the merge reads them. Symbol
  paths are values here; in the source deep paths of nested Rust modules share their backing array
  after the key string has been computed.
\<close>

section \<open>Syntax trees\<close>

type_synonym pos = "int \<times> int"

record range =
  range_start :: pos
  range_end :: pos

datatype node = Node (node_type: string) (node_text: string) (node_range: range) (node_children: "node list")

text \<open>The loops over children: the first non-empty text of the given types, the text of the last
  child of some type, the last such child, and the first child of a type.\<close>

definition first_text :: "string list \<Rightarrow> node list \<Rightarrow> string" where
  "first_text ts cs = foldl (\<lambda>nm c. if node_type c \<in> set ts \<and> nm = [] then node_text c else nm) [] cs"

definition last_text :: "string list \<Rightarrow> node list \<Rightarrow> string" where
  "last_text ts cs = foldl (\<lambda>t c. if node_type c \<in> set ts then node_text c else t) [] cs"

definition last_child :: "string \<Rightarrow> node list \<Rightarrow> node option" where
  "last_child t cs = foldl (\<lambda>r c. if node_type c = t then Some c else r) None cs"

definition text_of_first :: "string \<Rightarrow> node list \<Rightarrow> string" where
  "text_of_first t cs = (case find (\<lambda>c. node_type c = t) cs of Some c \<Rightarrow> node_text c | None \<Rightarrow> [])"

section \<open>Units\<close>

datatype unit_kind = UnitFunction | UnitClass | UnitMethod | UnitConst | UnitVariable | UnitImport
  | UnitExport | UnitType | UnitModule

record unit_key =
  key_file :: string
  key_path :: "string list"
  key_kind :: unit_kind

record merge_unit =
  unit_key :: unit_key
  unit_kind :: unit_kind
  unit_name :: string
  unit_sig :: string
  BodyHash :: bytes
  unit_range :: range
  unit_content :: string

text \<open>\<open>UnitKey.String\<close>: the kind is not part of it.\<close>

fun join_dots :: "string list \<Rightarrow> string" where
  "join_dots [] = []"
| "join_dots [p] = p"
| "join_dots (p # q # ps) = p @ ''.'' @ join_dots (q # ps)"

definition key_string :: "unit_key \<Rightarrow> string" where
  "key_string k = key_file k @ ''::'' @ join_dots (key_path k)"

type_synonym file_units = "(string, merge_unit) gomap"

definition add_unit :: "merge_unit option \<Rightarrow> file_units \<Rightarrow> file_units" where
  "add_unit u fu = (case u of None \<Rightarrow> fu | Some u \<Rightarrow> AList.update (key_string (unit_key u)) u fu)"

definition make_unit ::
  "(string \<Rightarrow> bytes) \<Rightarrow> string \<Rightarrow> string list \<Rightarrow> unit_kind \<Rightarrow> string \<Rightarrow> string \<Rightarrow> node \<Rightarrow> merge_unit" where
  "make_unit sha path symbolPath k name sig n =
     \<lparr>unit_key = \<lparr>key_file = path, key_path = symbolPath, key_kind = k\<rparr>, unit_kind = k, unit_name = name,
      unit_sig = sig, BodyHash = sha (node_text n), unit_range = node_range n, unit_content = node_text n\<rparr>"

text \<open>Most extractors return no unit when they find no name.\<close>

definition named_unit ::
  "(string \<Rightarrow> bytes) \<Rightarrow> string \<Rightarrow> string list \<Rightarrow> unit_kind \<Rightarrow> string \<Rightarrow> string \<Rightarrow> node \<Rightarrow> merge_unit option" where
  "named_unit sha path parentPath k name sig n =
     (if name = [] then None else Some (make_unit sha path (parentPath @ [name]) k name sig n))"

definition as_method :: "merge_unit \<Rightarrow> merge_unit" where
  "as_method u = u\<lparr>unit_kind := UnitMethod, unit_key := (unit_key u)\<lparr>key_kind := UnitMethod\<rparr>\<rparr>"

definition EquivalentUnits :: "merge_unit option \<Rightarrow> merge_unit option \<Rightarrow> bool" where
  "EquivalentUnits a b = (case (a, b) of
     (None, None) \<Rightarrow> True
   | (Some a, Some b) \<Rightarrow> BodyHash a = BodyHash b
   | _ \<Rightarrow> False)"

definition Changed :: "merge_unit option \<Rightarrow> merge_unit option \<Rightarrow> bool" where
  "Changed u base \<longleftrightarrow> \<not> EquivalentUnits u base"

section \<open>JavaScript and TypeScript\<close>

definition extractJSFunction :: "(string \<Rightarrow> bytes) \<Rightarrow> string \<Rightarrow> string list \<Rightarrow> node \<Rightarrow> merge_unit option" where
  "extractJSFunction sha path parentPath n =
     (let cs = node_children n; name = first_text [''identifier''] cs; params = last_text [''formal_parameters''] cs
      in named_unit sha path parentPath UnitFunction name (''function '' @ name @ params) n)"

definition declarator_child :: "string \<times> unit_kind \<times> string \<Rightarrow> node \<Rightarrow> string \<times> unit_kind \<times> string" where
  "declarator_child = (\<lambda>(name, kind, sig) c.
     if node_type c = ''identifier'' then (if name = [] then node_text c else name, kind, sig)
     else if node_type c = ''arrow_function'' \<or> node_type c = ''function'' then
       (name, UnitFunction,
        case find (\<lambda>p. node_type p = ''formal_parameters'') (node_children c) of
          Some p \<Rightarrow> ''const '' @ name @ '' = '' @ node_text p @ '' => ...''
        | None \<Rightarrow> sig)
     else (name, kind, sig))"

definition extractJSVariableDeclarator ::
  "(string \<Rightarrow> bytes) \<Rightarrow> string \<Rightarrow> string list \<Rightarrow> string \<Rightarrow> node \<Rightarrow> merge_unit option" where
  "extractJSVariableDeclarator sha path parentPath declKind n =
     (let (name, kind, sig) = foldl declarator_child ([], UnitVariable, []) (node_children n);
          kind = (if declKind = ''const'' \<and> kind = UnitVariable then UnitConst else kind);
          sig = (if sig = [] then declKind @ '' '' @ name else sig)
      in named_unit sha path parentPath kind name sig n)"

definition extractJSVariables :: "(string \<Rightarrow> bytes) \<Rightarrow> string \<Rightarrow> string list \<Rightarrow> node \<Rightarrow> merge_unit list" where
  "extractJSVariables sha path parentPath n =
     (let declKind = (case find (\<lambda>c. node_type c \<in> {''const'', ''let'', ''var''}) (node_children n) of
                        Some c \<Rightarrow> node_type c | None \<Rightarrow> [])
      in List.map_filter (extractJSVariableDeclarator sha path parentPath declKind)
           (filter (\<lambda>c. node_type c = ''variable_declarator'') (node_children n)))"

definition extractJSMethod :: "(string \<Rightarrow> bytes) \<Rightarrow> string \<Rightarrow> string list \<Rightarrow> node \<Rightarrow> merge_unit option" where
  "extractJSMethod sha path parentPath n =
     (let cs = node_children n; name = last_text [''property_identifier''] cs; params = last_text [''formal_parameters''] cs
      in named_unit sha path parentPath UnitMethod name (name @ params) n)"

definition extractJSClass ::
  "(string \<Rightarrow> bytes) \<Rightarrow> string \<Rightarrow> string list \<Rightarrow> node \<Rightarrow> file_units \<Rightarrow> merge_unit option \<times> file_units" where
  "extractJSClass sha path parentPath n fu =
     (let cs = node_children n; name = first_text [''identifier''] cs
      in if name = [] then (None, fu)
         else (named_unit sha path parentPath UnitClass name (''class '' @ name) n,
           case last_child ''class_body'' cs of
             None \<Rightarrow> fu
           | Some body \<Rightarrow> foldl (\<lambda>fu c. add_unit (extractJSMethod sha path (parentPath @ [name]) c) fu) fu
               (filter (\<lambda>c. node_type c = ''method_definition'') (node_children body))))"

definition extractImport :: "(string \<Rightarrow> bytes) \<Rightarrow> string \<Rightarrow> node \<Rightarrow> merge_unit" where
  "extractImport sha path n =
     make_unit sha path [''import:'' @ node_text n] UnitImport (node_text n) [] n"

fun walkJSNode :: "(string \<Rightarrow> bytes) \<Rightarrow> string \<Rightarrow> string list \<Rightarrow> node \<Rightarrow> file_units \<Rightarrow> file_units"
and walkJSNodes :: "(string \<Rightarrow> bytes) \<Rightarrow> string \<Rightarrow> string list \<Rightarrow> node list \<Rightarrow> file_units \<Rightarrow> file_units" where
  "walkJSNode sha path parentPath (Node ty tx rg cs) fu =
     (let n = Node ty tx rg cs in
      if ty = ''function_declaration'' then add_unit (extractJSFunction sha path parentPath n) fu
      else if ty = ''lexical_declaration'' \<or> ty = ''variable_declaration'' then
        foldl (\<lambda>fu u. add_unit (Some u) fu) fu (extractJSVariables sha path parentPath n)
      else if ty = ''class_declaration'' then
        (let (u, fu) = extractJSClass sha path parentPath n fu in add_unit u fu)
      else if ty = ''export_statement'' then walkJSNodes sha path parentPath cs fu
      else if ty = ''import_statement'' then add_unit (Some (extractImport sha path n)) fu
      else if ty = ''program'' then walkJSNodes sha path parentPath cs fu
      else fu)"
| "walkJSNodes sha path parentPath [] fu = fu"
| "walkJSNodes sha path parentPath (c # cs) fu =
     walkJSNodes sha path parentPath cs (walkJSNode sha path parentPath c fu)"

section \<open>Python\<close>

definition extractPyFunction :: "(string \<Rightarrow> bytes) \<Rightarrow> string \<Rightarrow> string list \<Rightarrow> node \<Rightarrow> merge_unit option" where
  "extractPyFunction sha path parentPath n =
     (let cs = node_children n; name = first_text [''identifier''] cs; params = last_text [''parameters''] cs
      in named_unit sha path parentPath UnitFunction name (''def '' @ name @ params) n)"

definition extractPyClass ::
  "(string \<Rightarrow> bytes) \<Rightarrow> string \<Rightarrow> string list \<Rightarrow> node \<Rightarrow> file_units \<Rightarrow> merge_unit option \<times> file_units" where
  "extractPyClass sha path parentPath n fu =
     (let cs = node_children n; name = first_text [''identifier''] cs
      in if name = [] then (None, fu)
         else (named_unit sha path parentPath UnitClass name (''class '' @ name) n,
           case last_child ''block'' cs of
             None \<Rightarrow> fu
           | Some body \<Rightarrow> foldl (\<lambda>fu c. add_unit (map_option as_method (extractPyFunction sha path (parentPath @ [name]) c)) fu) fu
               (filter (\<lambda>c. node_type c = ''function_definition'') (node_children body))))"

fun walkPyNode :: "(string \<Rightarrow> bytes) \<Rightarrow> string \<Rightarrow> string list \<Rightarrow> node \<Rightarrow> file_units \<Rightarrow> file_units"
and walkPyNodes :: "(string \<Rightarrow> bytes) \<Rightarrow> string \<Rightarrow> string list \<Rightarrow> node list \<Rightarrow> file_units \<Rightarrow> file_units" where
  "walkPyNode sha path parentPath (Node ty tx rg cs) fu =
     (let n = Node ty tx rg cs in
      if ty = ''function_definition'' then add_unit (extractPyFunction sha path parentPath n) fu
      else if ty = ''class_definition'' then
        (let (u, fu) = extractPyClass sha path parentPath n fu in add_unit u fu)
      else if ty = ''import_statement'' \<or> ty = ''import_from_statement'' then add_unit (Some (extractImport sha path n)) fu
      else if ty = ''module'' then walkPyNodes sha path parentPath cs fu
      else fu)"
| "walkPyNodes sha path parentPath [] fu = fu"
| "walkPyNodes sha path parentPath (c # cs) fu =
     walkPyNodes sha path parentPath cs (walkPyNode sha path parentPath c fu)"

section \<open>Ruby\<close>

definition extractRbMethod :: "(string \<Rightarrow> bytes) \<Rightarrow> string \<Rightarrow> string list \<Rightarrow> node \<Rightarrow> merge_unit option" where
  "extractRbMethod sha path parentPath n =
     (let cs = node_children n; name = first_text [''identifier''] cs; params = last_text [''method_parameters''] cs
      in named_unit sha path parentPath UnitFunction name (''def '' @ name @ params) n)"

definition singleton_child :: "string \<times> string \<times> string \<Rightarrow> node \<Rightarrow> string \<times> string \<times> string" where
  "singleton_child = (\<lambda>(object, name, params) c.
     if node_type c = ''identifier'' then
       (if object = [] then (node_text c, name, params)
        else if name = [] then (object, node_text c, params) else (object, name, params))
     else if node_type c = ''self'' then (''self'', name, params)
     else if node_type c = ''method_parameters'' then (object, name, node_text c)
     else (object, name, params))"

definition extractRbSingletonMethod :: "(string \<Rightarrow> bytes) \<Rightarrow> string \<Rightarrow> string list \<Rightarrow> node \<Rightarrow> merge_unit option" where
  "extractRbSingletonMethod sha path parentPath n =
     (let (object, name, params) = foldl singleton_child ([], [], []) (node_children n)
      in named_unit sha path parentPath UnitFunction name (''def '' @ object @ ''.'' @ name @ params) n)"

definition extractRbScope ::
  "unit_kind \<Rightarrow> string \<Rightarrow> (string \<Rightarrow> bytes) \<Rightarrow> string \<Rightarrow> string list \<Rightarrow> node \<Rightarrow> file_units \<Rightarrow> merge_unit option \<times> file_units" where
  "extractRbScope k keyword sha path parentPath n fu =
     (let cs = node_children n; name = first_text [''constant'', ''scope_resolution''] cs; sp = parentPath @ [name]
      in if name = [] then (None, fu)
         else (named_unit sha path parentPath k name (keyword @ '' '' @ name) n,
           case last_child ''body_statement'' cs of
             None \<Rightarrow> fu
           | Some body \<Rightarrow> foldl (\<lambda>fu c.
               if node_type c = ''method'' then add_unit (map_option as_method (extractRbMethod sha path sp c)) fu
               else if node_type c = ''singleton_method''
                 then add_unit (map_option as_method (extractRbSingletonMethod sha path sp c)) fu
               else fu) fu (node_children body)))"

definition extractRbClass where "extractRbClass = extractRbScope UnitClass ''class''"
definition extractRbModule where "extractRbModule = extractRbScope UnitModule ''module''"

definition extractRbRequire :: "(string \<Rightarrow> bytes) \<Rightarrow> string \<Rightarrow> node \<Rightarrow> merge_unit option" where
  "extractRbRequire sha path n =
     (if text_of_first ''identifier'' (node_children n) \<in> {''require'', ''require_relative'', ''load''}
      then Some (extractImport sha path n) else None)"

fun walkRbNode :: "(string \<Rightarrow> bytes) \<Rightarrow> string \<Rightarrow> string list \<Rightarrow> node \<Rightarrow> file_units \<Rightarrow> file_units"
and walkRbNodes :: "(string \<Rightarrow> bytes) \<Rightarrow> string \<Rightarrow> string list \<Rightarrow> node list \<Rightarrow> file_units \<Rightarrow> file_units" where
  "walkRbNode sha path parentPath (Node ty tx rg cs) fu =
     (let n = Node ty tx rg cs in
      if ty = ''method'' then add_unit (extractRbMethod sha path parentPath n) fu
      else if ty = ''singleton_method'' then add_unit (extractRbSingletonMethod sha path parentPath n) fu
      else if ty = ''class'' then (let (u, fu) = extractRbClass sha path parentPath n fu in add_unit u fu)
      else if ty = ''module'' then (let (u, fu) = extractRbModule sha path parentPath n fu in add_unit u fu)
      else if ty = ''call'' then add_unit (extractRbRequire sha path n) fu
      else if ty = ''program'' then walkRbNodes sha path parentPath cs fu
      else fu)"
| "walkRbNodes sha path parentPath [] fu = fu"
| "walkRbNodes sha path parentPath (c # cs) fu =
     walkRbNodes sha path parentPath cs (walkRbNode sha path parentPath c fu)"

section \<open>Rust\<close>

definition extractRsFunction :: "(string \<Rightarrow> bytes) \<Rightarrow> string \<Rightarrow> string list \<Rightarrow> node \<Rightarrow> merge_unit option" where
  "extractRsFunction sha path parentPath n =
     (let cs = node_children n; name = first_text [''identifier''] cs; params = last_text [''parameters''] cs;
          returnType = last_text [''type_identifier'', ''generic_type'', ''reference_type'', ''pointer_type''] cs
      in named_unit sha path parentPath UnitFunction name
           (''fn '' @ name @ params @ (if returnType \<noteq> [] then '' -> '' @ returnType else [])) n)"

definition extractRsStruct :: "(string \<Rightarrow> bytes) \<Rightarrow> string \<Rightarrow> string list \<Rightarrow> node \<Rightarrow> merge_unit option" where
  "extractRsStruct sha path parentPath n =
     (let name = text_of_first ''type_identifier'' (node_children n)
      in named_unit sha path parentPath UnitClass name (''struct '' @ name) n)"

definition extractRsEnum :: "(string \<Rightarrow> bytes) \<Rightarrow> string \<Rightarrow> string list \<Rightarrow> node \<Rightarrow> merge_unit option" where
  "extractRsEnum sha path parentPath n =
     (let name = text_of_first ''type_identifier'' (node_children n)
      in named_unit sha path parentPath UnitClass name (''enum '' @ name) n)"

definition add_items ::
  "(string \<Rightarrow> bytes) \<Rightarrow> string \<Rightarrow> string list \<Rightarrow> string list \<Rightarrow> node \<Rightarrow> file_units \<Rightarrow> file_units" where
  "add_items sha path sp types n fu =
     foldl (\<lambda>fu c. foldl (\<lambda>fu item. add_unit (extractRsFunction sha path sp item) fu) fu
         (filter (\<lambda>item. node_type item \<in> set types) (node_children c)))
       fu (filter (\<lambda>c. node_type c = ''declaration_list'') (node_children n))"

definition extractRsTrait ::
  "(string \<Rightarrow> bytes) \<Rightarrow> string \<Rightarrow> string list \<Rightarrow> node \<Rightarrow> file_units \<Rightarrow> merge_unit option \<times> file_units" where
  "extractRsTrait sha path parentPath n fu =
     (let name = text_of_first ''type_identifier'' (node_children n)
      in if name = [] then (None, fu)
         else (named_unit sha path parentPath UnitClass name (''trait '' @ name) n,
               add_items sha path (parentPath @ [name]) [''function_item'', ''function_signature_item''] n fu))"

definition extractRsImpl :: "(string \<Rightarrow> bytes) \<Rightarrow> string \<Rightarrow> string list \<Rightarrow> node \<Rightarrow> file_units \<Rightarrow> file_units" where
  "extractRsImpl sha path parentPath n fu =
     (let implType = first_text [''type_identifier'', ''generic_type''] (node_children n);
          implPath = (if implType \<noteq> [] then parentPath @ [implType] else parentPath)
      in add_items sha path implPath [''function_item''] n fu)"

text \<open>The items of a module's inline body: the children of its first declaration list.\<close>

definition mod_items :: "node list \<Rightarrow> node list" where
  "mod_items cs = (case find (\<lambda>c. node_type c = ''declaration_list'') cs of
     Some c \<Rightarrow> node_children c | None \<Rightarrow> [])"

lemma size_children: "c \<in> set cs \<Longrightarrow> size_list size (node_children c) < size_list size cs"
proof (induction cs)
  case (Cons a cs)
  then show ?case by (cases a) (auto intro: less_SucI trans_less_add2)
qed simp

lemma size_mod_items: "size_list size (mod_items cs) \<le> size_list size cs"
  using size_children by (auto simp: mod_items_def find_Some_iff less_imp_le split: option.split)

function walkRsNode :: "(string \<Rightarrow> bytes) \<Rightarrow> string \<Rightarrow> string list \<Rightarrow> node \<Rightarrow> file_units \<Rightarrow> file_units"
and walkRsNodes :: "(string \<Rightarrow> bytes) \<Rightarrow> string \<Rightarrow> string list \<Rightarrow> node list \<Rightarrow> file_units \<Rightarrow> file_units" where
  "walkRsNode sha path parentPath n fu =
     (let ty = node_type n; cs = node_children n in
      if ty = ''function_item'' then add_unit (extractRsFunction sha path parentPath n) fu
      else if ty = ''struct_item'' then add_unit (extractRsStruct sha path parentPath n) fu
      else if ty = ''enum_item'' then add_unit (extractRsEnum sha path parentPath n) fu
      else if ty = ''trait_item'' then (let (u, fu) = extractRsTrait sha path parentPath n fu in add_unit u fu)
      else if ty = ''impl_item'' then extractRsImpl sha path parentPath n fu
      else if ty = ''mod_item'' then
        (let name = text_of_first ''identifier'' cs
         in if name = [] then fu
            else add_unit (named_unit sha path parentPath UnitModule name (''mod '' @ name) n)
                   (walkRsNodes sha path (parentPath @ [name]) (mod_items cs) fu))
      else if ty = ''use_declaration'' then add_unit (Some (extractImport sha path n)) fu
      else if ty = ''source_file'' then walkRsNodes sha path parentPath cs fu
      else fu)"
| "walkRsNodes sha path parentPath [] fu = fu"
| "walkRsNodes sha path parentPath (c # cs) fu =
     walkRsNodes sha path parentPath cs (walkRsNode sha path parentPath c fu)"
  by pat_completeness auto
termination
proof (relation "measure (\<lambda>x. case x of Inl (_, _, _, n, _) \<Rightarrow> Suc (size_list size (node_children n))
    | Inr (_, _, _, ns, _) \<Rightarrow> size_list size ns)", goal_cases)
  case (4 sha path parentPath c cs fu)
  show ?case by (cases c) simp
next
  case (5 sha path parentPath c cs fu)
  show ?case by simp
qed (use size_mod_items in \<open>auto simp: less_Suc_eq_le\<close>)

declare walkRsNode.simps [simp del]

section \<open>By language\<close>

text \<open>\<open>parse\<close> is the tree-sitter parser: the root of the tree, or its error.\<close>

definition ExtractUnits ::
  "(string \<Rightarrow> bytes) \<Rightarrow> (string \<Rightarrow> string \<Rightarrow> ('e, node) go) \<Rightarrow> string \<Rightarrow> string \<Rightarrow> string \<Rightarrow> ('e, file_units) go" where
  "ExtractUnits sha parse path content lang =
     bind_go (parse content lang) (\<lambda>root. Ok (
       if lang \<in> {''js'', ''ts'', ''javascript'', ''typescript''} then walkJSNode sha path [] root []
       else if lang \<in> {''py'', ''python''} then walkPyNode sha path [] root []
       else if lang \<in> {''rb'', ''ruby''} then walkRbNode sha path [] root []
       else if lang \<in> {''rs'', ''rust''} then walkRsNode sha path [] root []
       else walkJSNode sha path [] root []))"

end
