(* ===== verification/Merge.thy ===== *)
theory Merge
  imports Extract Prelude "HOL-Library.Product_Lexorder"
begin

text \<open>
  The three-way merge of \<open>src/kai-core/merge/merge.go\<close>: per file, then per unit of a file that both
  sides changed. A nil byte slice is \<open>None\<close>; a present file may be empty. \<open>extract\<close> is
  \<open>Extractor.ExtractUnits\<close> for the file's path. The iteration over paths and over unit keys has no
  fixed order in Go; the model visits the keys in the order in which they first occur in the
  operands, and no property depends on it. Of \<open>MergeStats\<close> only \<open>FilesModified\<close> is ever written.
\<close>

section \<open>Results\<close>

datatype conflict_kind = ConflictAPISignatureDiverged | ConflictConstValueConflict | ConflictDeleteVsModify
  | ConflictModifyVsDelete | ConflictConcurrentCreate | ConflictImportAlias | ConflictBodyDiverged

record conflict =
  conflict_kind :: conflict_kind
  conflict_key :: unit_key
  Message :: string
  conflict_base :: "merge_unit option"
  conflict_left :: "merge_unit option"
  conflict_right :: "merge_unit option"
  LeftDiff :: string
  RightDiff :: string

record merge_result =
  Success :: bool
  Files :: "(string, string) gomap"
  Conflicts :: "conflict list"
  FilesModified :: nat

definition unit_conflict ::
  "conflict_kind \<Rightarrow> unit_key \<Rightarrow> string \<Rightarrow> merge_unit option \<Rightarrow> merge_unit option \<Rightarrow> merge_unit option \<Rightarrow> conflict" where
  "unit_conflict k ky m b l r = \<lparr>conflict_kind = k, conflict_key = ky, Message = m,
     conflict_base = b, conflict_left = l, conflict_right = r, LeftDiff = [], RightDiff = []\<rparr>"

text \<open>A conflict about a whole file names it with an empty symbol path. Its kind field is the empty string in
  the source; here it takes a kind that \<open>key_string\<close> ignores.\<close>

definition file_conflict :: "conflict_kind \<Rightarrow> string \<Rightarrow> string \<Rightarrow> conflict" where
  "file_conflict k path m =
     unit_conflict k \<lparr>key_file = path, key_path = [], key_kind = UnitFunction\<rparr> m None None None"

section \<open>Units that changed on both sides\<close>

definition mergeFunctionUnit :: "merge_unit \<Rightarrow> merge_unit \<Rightarrow> merge_unit \<Rightarrow> merge_unit option \<times> conflict option" where
  "mergeFunctionUnit base left right =
     (let sigLeftChanged = unit_sig left \<noteq> unit_sig base;
          sigRightChanged = unit_sig right \<noteq> unit_sig base
      in if sigLeftChanged \<and> sigRightChanged \<and> unit_sig left \<noteq> unit_sig right then
           (None, Some ((unit_conflict ConflictAPISignatureDiverged (unit_key base)
              (''Function '' @ unit_name base @ '' signature changed on both sides'') (Some base) (Some left) (Some right))
              \<lparr>LeftDiff := unit_sig base @ '' -> '' @ unit_sig left,
               RightDiff := unit_sig base @ '' -> '' @ unit_sig right\<rparr>))
         else if sigLeftChanged \<and> \<not> sigRightChanged then (Some left, None)
         else if sigRightChanged \<and> \<not> sigLeftChanged then (Some right, None)
         else if BodyHash left \<noteq> BodyHash right then
           (None, Some (unit_conflict ConflictBodyDiverged (unit_key base)
              (''Function '' @ unit_name base @ '' body modified on both sides'') (Some base) (Some left) (Some right)))
         else (Some left, None))"

definition mergeBody ::
  "conflict_kind \<Rightarrow> string \<Rightarrow> string \<Rightarrow> merge_unit \<Rightarrow> merge_unit \<Rightarrow> merge_unit \<Rightarrow> merge_unit option \<times> conflict option" where
  "mergeBody k what how base left right =
     (if BodyHash left \<noteq> BodyHash right then
        (None, Some (unit_conflict k (unit_key base) (what @ '' '' @ unit_name base @ how) (Some base) (Some left) (Some right)))
      else (Some left, None))"

definition mergeClassUnit where
  "mergeClassUnit = mergeBody ConflictBodyDiverged ''Class'' '' modified on both sides''"

definition mergeConstUnit where
  "mergeConstUnit = mergeBody ConflictConstValueConflict ''Constant'' '' value changed on both sides''"

definition mergeImportUnit where
  "mergeImportUnit = mergeBody ConflictImportAlias ''Import'' '' changed on both sides''"

fun mergeChangedUnit :: "merge_unit \<Rightarrow> merge_unit \<Rightarrow> merge_unit \<Rightarrow> merge_unit option \<times> conflict option" where
  "mergeChangedUnit base left right =
     (case unit_kind base of
        UnitFunction \<Rightarrow> mergeFunctionUnit base left right
      | UnitMethod \<Rightarrow> mergeFunctionUnit base left right
      | UnitClass \<Rightarrow> mergeClassUnit base left right
      | UnitConst \<Rightarrow> mergeConstUnit base left right
      | UnitVariable \<Rightarrow> mergeConstUnit base left right
      | UnitImport \<Rightarrow> mergeImportUnit base left right
      | _ \<Rightarrow> mergeBody ConflictBodyDiverged ''Unit'' '' modified on both sides'' base left right)"

definition mergeCreatedUnit :: "merge_unit option \<Rightarrow> merge_unit option \<Rightarrow> merge_unit option \<times> conflict option" where
  "mergeCreatedUnit left right =
     (case (left, right) of
        (Some l, None) \<Rightarrow> (Some l, None)
      | (None, Some r) \<Rightarrow> (Some r, None)
      | (Some l, Some r) \<Rightarrow>
          if EquivalentUnits left right then (Some l, None)
          else (None, Some (unit_conflict ConflictConcurrentCreate (unit_key l)
             (''Unit '' @ unit_name l @ '' created on both sides with different content'') None (Some l) (Some r)))
      | (None, None) \<Rightarrow> (None, None))"

definition mergeUnit ::
  "merge_unit option \<Rightarrow> merge_unit option \<Rightarrow> merge_unit option \<Rightarrow> merge_unit option \<times> conflict option" where
  "mergeUnit base left right =
     (if EquivalentUnits base left \<and> EquivalentUnits base right then (base, None)
      else case base of
        None \<Rightarrow> mergeCreatedUnit left right
      | Some b \<Rightarrow>
          (case (left, right) of
             (None, Some r) \<Rightarrow>
               if EquivalentUnits right base then (None, None)
               else (None, Some (unit_conflict ConflictDeleteVsModify (unit_key b)
                  (''Unit '' @ unit_name b @ '' deleted on left but modified on right'') base None right))
           | (Some l, None) \<Rightarrow>
               if EquivalentUnits left base then (None, None)
               else (None, Some (unit_conflict ConflictModifyVsDelete (unit_key b)
                  (''Unit '' @ unit_name b @ '' modified on left but deleted on right'') base left None))
           | (None, None) \<Rightarrow> (None, None)
           | (Some l, Some r) \<Rightarrow>
               if EquivalentUnits base right \<and> Changed left base then (left, None)
               else if EquivalentUnits base left \<and> Changed right base then (right, None)
               else mergeChangedUnit b l r))"

section \<open>Files\<close>

definition all_keys :: "('k, 'v) gomap \<Rightarrow> ('k, 'v) gomap \<Rightarrow> ('k, 'v) gomap \<Rightarrow> 'k list" where
  "all_keys b l r = remdups (map fst b @ map fst l @ map fst r)"

fun join_units :: "merge_unit list \<Rightarrow> string" where
  "join_units [] = []"
| "join_units [u] = unit_content u"
| "join_units (u # v # us) = unit_content u @ [char_of (10 :: nat), char_of (10 :: nat)] @ join_units (v # us)"

text \<open>\<open>sort.Slice\<close> is not stable; units with equal positions may come in either order.\<close>

definition reconstructFile :: "merge_unit list \<Rightarrow> string" where
  "reconstructFile merged = join_units (sort_key (\<lambda>u. range_start (unit_range u)) merged) @ [char_of (10 :: nat)]"

definition merge_file_units :: "file_units \<Rightarrow> file_units \<Rightarrow> file_units \<Rightarrow> (string \<times> merge_unit) list \<times> conflict list" where
  "merge_file_units bu lu ru =
     (let rs = map (\<lambda>k. (k, mergeUnit (map_of bu k) (map_of lu k) (map_of ru k))) (all_keys bu lu ru)
      in (List.map_filter (\<lambda>(k, m, c). map_option (Pair k) m) rs, List.map_filter (\<lambda>(k, m, c). c) rs))"

definition mergeUnits ::
  "(string \<Rightarrow> ('e, file_units) go) \<Rightarrow> string \<Rightarrow> string \<Rightarrow> string \<Rightarrow> ('e, string option \<times> conflict list) go" where
  "mergeUnits extract base left right =
     bind_go (extract base) (\<lambda>bu. bind_go (extract left) (\<lambda>lu. bind_go (extract right) (\<lambda>ru.
       let (merged, conflicts) = merge_file_units bu lu ru
       in if conflicts \<noteq> [] then Ok (None, conflicts)
          else Ok (Some (reconstructFile (map snd merged)), []))))"

definition mergeCreated :: "string \<Rightarrow> string option \<Rightarrow> string option \<Rightarrow> string option \<times> conflict list" where
  "mergeCreated path left right =
     (case (left, right) of
        (Some l, None) \<Rightarrow> (Some l, [])
      | (None, Some r) \<Rightarrow> (Some r, [])
      | (Some l, Some r) \<Rightarrow> if l = r then (Some l, [])
          else (None, [file_conflict ConflictConcurrentCreate path ''File created on both sides with different content''])
      | (None, None) \<Rightarrow> (None, []))"

definition mergeFile ::
  "(string \<Rightarrow> string \<Rightarrow> ('e, file_units) go) \<Rightarrow> string \<Rightarrow> string option \<Rightarrow> string option \<Rightarrow> string option \<Rightarrow>
   ('e, string option \<times> conflict list) go" where
  "mergeFile extract path base left right =
     (case base of
        None \<Rightarrow> Ok (mergeCreated path left right)
      | Some b \<Rightarrow>
          (case (left, right) of
             (None, None) \<Rightarrow> Ok (None, [])
           | (None, Some r) \<Rightarrow> if b = r then Ok (None, [])
               else Ok (None, [file_conflict ConflictDeleteVsModify path ''File deleted on left but modified on right''])
           | (Some l, None) \<Rightarrow> if b = l then Ok (None, [])
               else Ok (None, [file_conflict ConflictModifyVsDelete path ''File modified on left but deleted on right''])
           | (Some l, Some r) \<Rightarrow>
               if l = r then Ok (Some l, [])
               else if b = l then Ok (Some r, [])
               else if b = r then Ok (Some l, [])
               else mergeUnits (extract path) b l r))"

definition add_file :: "string \<Rightarrow> string option \<times> conflict list \<Rightarrow> merge_result \<Rightarrow> merge_result" where
  "add_file path mc result =
     (let result = (if snd mc \<noteq> [] then result\<lparr>Success := False, Conflicts := Conflicts result @ snd mc\<rparr> else result)
      in case fst mc of
           None \<Rightarrow> result
         | Some m \<Rightarrow> result\<lparr>Files := AList.update path m (Files result), FilesModified := FilesModified result + 1\<rparr>)"

fun merge_paths ::
  "(string \<Rightarrow> string \<Rightarrow> ('e, file_units) go) \<Rightarrow> (string, string) gomap \<Rightarrow> (string, string) gomap \<Rightarrow> (string, string) gomap \<Rightarrow>
   string list \<Rightarrow> merge_result \<Rightarrow> (string \<times> 'e, merge_result) go" where
  "merge_paths extract base left right [] result = Ok result"
| "merge_paths extract base left right (path # paths) result =
     bind_go (map_err (Pair path) (mergeFile extract path (map_of base path) (map_of left path) (map_of right path)))
       (\<lambda>mc. merge_paths extract base left right paths (add_file path mc result))"

definition MergeFiles ::
  "(string \<Rightarrow> string \<Rightarrow> ('e, file_units) go) \<Rightarrow> (string, string) gomap \<Rightarrow> (string, string) gomap \<Rightarrow> (string, string) gomap \<Rightarrow>
   (string \<times> 'e, merge_result) go" where
  "MergeFiles extract base left right =
     merge_paths extract base left right (all_keys base left right)
       \<lparr>Success = True, Files = [], Conflicts = [], FilesModified = 0\<rparr>"

section \<open>Units\<close>

declare mergeChangedUnit.simps [simp del]

lemma EquivalentUnits_simps [simp]:
  "EquivalentUnits None None" "\<not> EquivalentUnits None (Some a)" "\<not> EquivalentUnits (Some a) None"
  "EquivalentUnits (Some a) (Some b) \<longleftrightarrow> BodyHash a = BodyHash b"
  by (simp_all add: EquivalentUnits_def)

lemma EquivalentUnits_refl [simp]: "EquivalentUnits a a"
  by (cases a) simp_all

lemma EquivalentUnits_sym: "EquivalentUnits a b \<Longrightarrow> EquivalentUnits b a"
  by (cases a; cases b) simp_all

lemma mergeUnit_simps:
  "mergeUnit None None None = (None, None)"
  "mergeUnit None (Some l) None = (Some l, None)"
  "mergeUnit None None (Some r) = (Some r, None)"
  "mergeUnit (Some b) None None = (None, None)"
  "BodyHash b = BodyHash r \<Longrightarrow> mergeUnit (Some b) None (Some r) = (None, None)"
  "BodyHash b = BodyHash l \<Longrightarrow> mergeUnit (Some b) (Some l) None = (None, None)"
  "BodyHash l = BodyHash r \<Longrightarrow> mergeUnit None (Some l) (Some r) = (Some l, None)"
  "BodyHash b = BodyHash l \<Longrightarrow> BodyHash b = BodyHash r \<Longrightarrow> mergeUnit (Some b) (Some l) (Some r) = (Some b, None)"
  "BodyHash b \<noteq> BodyHash l \<Longrightarrow> BodyHash b = BodyHash r \<Longrightarrow> mergeUnit (Some b) (Some l) (Some r) = (Some l, None)"
  "BodyHash b = BodyHash l \<Longrightarrow> BodyHash b \<noteq> BodyHash r \<Longrightarrow> mergeUnit (Some b) (Some l) (Some r) = (Some r, None)"
  "BodyHash b \<noteq> BodyHash l \<Longrightarrow> BodyHash b \<noteq> BodyHash r \<Longrightarrow> mergeUnit (Some b) (Some l) (Some r) = mergeChangedUnit b l r"
  by (auto simp: mergeUnit_def mergeCreatedUnit_def Changed_def)

lemma mergeUnit_conflict_simps:
  "BodyHash l \<noteq> BodyHash r \<Longrightarrow> \<exists>c. mergeUnit None (Some l) (Some r) = (None, Some c) \<and> conflict_kind c = ConflictConcurrentCreate"
  "BodyHash b \<noteq> BodyHash r \<Longrightarrow> \<exists>c. mergeUnit (Some b) None (Some r) = (None, Some c) \<and> conflict_kind c = ConflictDeleteVsModify"
  "BodyHash b \<noteq> BodyHash l \<Longrightarrow> \<exists>c. mergeUnit (Some b) (Some l) None = (None, Some c) \<and> conflict_kind c = ConflictModifyVsDelete"
  by (auto simp: mergeUnit_def mergeCreatedUnit_def unit_conflict_def)

text \<open>Both sides changed a unit: the outcome is a conflict, the side that alone changed the signature, or the left one.\<close>

definition keeps_left :: "merge_unit \<Rightarrow> merge_unit \<Rightarrow> merge_unit \<Rightarrow> bool" where
  "keeps_left b l r \<longleftrightarrow> unit_kind b \<in> {UnitFunction, UnitMethod} \<and> unit_sig l \<noteq> unit_sig b \<and> unit_sig r = unit_sig b"

definition diverged :: "merge_unit \<Rightarrow> merge_unit \<Rightarrow> merge_unit \<Rightarrow> bool" where
  "diverged b l r \<longleftrightarrow>
     (if unit_kind b \<in> {UnitFunction, UnitMethod} then
        (if unit_sig l \<noteq> unit_sig b \<and> unit_sig r \<noteq> unit_sig b \<and> unit_sig l \<noteq> unit_sig r then True
         else unit_sig l = unit_sig r \<and> BodyHash l \<noteq> BodyHash r)
      else BodyHash l \<noteq> BodyHash r)"

definition diverged_kind :: "merge_unit \<Rightarrow> merge_unit \<Rightarrow> merge_unit \<Rightarrow> conflict_kind" where
  "diverged_kind b l r =
     (if unit_kind b \<in> {UnitFunction, UnitMethod} \<and> unit_sig l \<noteq> unit_sig r then ConflictAPISignatureDiverged
      else if unit_kind b \<in> {UnitConst, UnitVariable} then ConflictConstValueConflict
      else if unit_kind b = UnitImport then ConflictImportAlias else ConflictBodyDiverged)"

lemma mergeBody_cases:
  "BodyHash l \<noteq> BodyHash r \<Longrightarrow> \<exists>c. mergeBody k what how b l r = (None, Some c) \<and> conflict_kind c = k"
  "BodyHash l = BodyHash r \<Longrightarrow> mergeBody k what how b l r = (Some l, None)"
  by (auto simp: mergeBody_def unit_conflict_def)

lemma mergeFunctionUnit_cases:
  "unit_sig l \<noteq> unit_sig b \<Longrightarrow> unit_sig r \<noteq> unit_sig b \<Longrightarrow> unit_sig l \<noteq> unit_sig r \<Longrightarrow>
    \<exists>c. mergeFunctionUnit b l r = (None, Some c) \<and> conflict_kind c = ConflictAPISignatureDiverged"
  "unit_sig l \<noteq> unit_sig b \<Longrightarrow> unit_sig r = unit_sig b \<Longrightarrow> mergeFunctionUnit b l r = (Some l, None)"
  "unit_sig l = unit_sig b \<Longrightarrow> unit_sig r \<noteq> unit_sig b \<Longrightarrow> mergeFunctionUnit b l r = (Some r, None)"
  "unit_sig l = unit_sig r \<Longrightarrow> BodyHash l = BodyHash r \<Longrightarrow> mergeFunctionUnit b l r = (Some l, None)"
  "unit_sig l = unit_sig r \<Longrightarrow> BodyHash l \<noteq> BodyHash r \<Longrightarrow>
    \<exists>c. mergeFunctionUnit b l r = (None, Some c) \<and> conflict_kind c = ConflictBodyDiverged"
  by (auto simp: mergeFunctionUnit_def unit_conflict_def Let_def)

lemma mergeChangedUnit_cases:
  "diverged b l r \<Longrightarrow> \<exists>c. mergeChangedUnit b l r = (None, Some c) \<and> conflict_kind c = diverged_kind b l r"
  "\<not> diverged b l r \<Longrightarrow> keeps_left b r l \<Longrightarrow> mergeChangedUnit b l r = (Some r, None)"
  "\<not> diverged b l r \<Longrightarrow> \<not> keeps_left b r l \<Longrightarrow> mergeChangedUnit b l r = (Some l, None)"
proof -
  note f = mergeFunctionUnit_cases and g = mergeBody_cases
  show "diverged b l r \<Longrightarrow> \<exists>c. mergeChangedUnit b l r = (None, Some c) \<and> conflict_kind c = diverged_kind b l r"
    by (cases "unit_kind b"; cases "unit_sig l = unit_sig r"; cases "unit_sig l = unit_sig b"; cases "unit_sig r = unit_sig b")
       (simp_all add: mergeChangedUnit.simps diverged_def diverged_kind_def mergeClassUnit_def mergeConstUnit_def
         mergeImportUnit_def f g)
  show "\<not> diverged b l r \<Longrightarrow> keeps_left b r l \<Longrightarrow> mergeChangedUnit b l r = (Some r, None)"
    by (auto simp: mergeChangedUnit.simps keeps_left_def f)
  show "\<not> diverged b l r \<Longrightarrow> \<not> keeps_left b r l \<Longrightarrow> mergeChangedUnit b l r = (Some l, None)"
    by (cases "unit_kind b"; cases "unit_sig l = unit_sig r"; cases "unit_sig l = unit_sig b"; cases "unit_sig r = unit_sig b")
       (simp_all add: mergeChangedUnit.simps diverged_def keeps_left_def mergeClassUnit_def mergeConstUnit_def
         mergeImportUnit_def f g)
qed

text \<open>C28: A one-sided change of a unit is taken over without a conflict: when one side leaves a unit as
  it was, the merge gives the other side's version, be it edited, created or deleted, and when both
  sides are equal it gives their version.\<close>

theorem mergeUnit_one_sided:
  assumes "EquivalentUnits base left \<or> EquivalentUnits base right \<or> left = right"
  shows "snd (mergeUnit base left right) = None \<and>
    EquivalentUnits (fst (mergeUnit base left right)) (if EquivalentUnits base left then right else left)"
proof -
  have same: "mergeChangedUnit b l l = (Some l, None)" for b l
    using mergeChangedUnit_cases(3) [of b l l] by (simp add: diverged_def keeps_left_def)
  show ?thesis
  proof (cases base; cases left; cases right)
    fix b l r assume [simp]: "base = Some b" "left = Some l" "right = Some r"
    show ?thesis
      using assms same by (cases "BodyHash b = BodyHash l"; cases "BodyHash b = BodyHash r") (auto simp: mergeUnit_simps)
  qed (use assms in \<open>auto simp: mergeUnit_simps\<close>)
qed


fun mirror :: "conflict_kind \<Rightarrow> conflict_kind" where
  "mirror ConflictDeleteVsModify = ConflictModifyVsDelete"
| "mirror ConflictModifyVsDelete = ConflictDeleteVsModify"
| "mirror k = k"

text \<open>The merge of a unit does not depend on which side is called left: swapping the sides gives an
  equivalent unit, and a conflict exactly when there was one, of the same kind with deletion and
  modification swapped.\<close>

lemma mergeUnit_mirror:
  "EquivalentUnits (fst (mergeUnit base right left)) (fst (mergeUnit base left right)) \<and>
   map_option conflict_kind (snd (mergeUnit base right left)) =
     map_option (mirror \<circ> conflict_kind) (snd (mergeUnit base left right))"
proof (cases base; cases left; cases right)
  fix l r assume [simp]: "base = None" "left = Some l" "right = Some r"
  show ?thesis
    using mergeUnit_conflict_simps(1) [of l r] mergeUnit_conflict_simps(1) [of r l]
    by (cases "BodyHash l = BodyHash r") (auto simp: mergeUnit_simps)
next
  fix b r assume [simp]: "base = Some b" "left = None" "right = Some r"
  show ?thesis
    using mergeUnit_conflict_simps(2,3) [of b r]
    by (cases "BodyHash b = BodyHash r") (auto simp: mergeUnit_simps)
next
  fix b l assume [simp]: "base = Some b" "left = Some l" "right = None"
  show ?thesis
    using mergeUnit_conflict_simps(2,3) [of b l]
    by (cases "BodyHash b = BodyHash l") (auto simp: mergeUnit_simps)
next
  fix b l r assume [simp]: "base = Some b" "left = Some l" "right = Some r"
  show ?thesis
  proof (cases "BodyHash b = BodyHash l \<or> BodyHash b = BodyHash r")
    case True
    then show ?thesis by (cases "BodyHash b = BodyHash l"; cases "BodyHash b = BodyHash r") (auto simp: mergeUnit_simps)
  next
    case False
    then have m: "mergeUnit base left right = mergeChangedUnit b l r" "mergeUnit base right left = mergeChangedUnit b r l"
      by (simp_all add: mergeUnit_simps)
    have d: "diverged b r l = diverged b l r" "diverged_kind b r l = diverged_kind b l r"
      by (auto simp: diverged_def diverged_kind_def)
    have mk: "mirror (diverged_kind b l r) = diverged_kind b l r" by (simp add: diverged_kind_def)
    show ?thesis
    proof (cases "diverged b l r")
      case True
      then show ?thesis
        using mergeChangedUnit_cases(1) [of b l r] mergeChangedUnit_cases(1) [of b r l] d mk unfolding m by auto
    next
      case False
      have "keeps_left b l r \<or> keeps_left b r l \<or> BodyHash l = BodyHash r"
        using False by (auto simp: diverged_def keeps_left_def split: if_splits)
      moreover have "\<not> (keeps_left b l r \<and> keeps_left b r l)" by (auto simp: keeps_left_def)
      ultimately show ?thesis
        using False d mergeChangedUnit_cases(2,3) [of b l r] mergeChangedUnit_cases(2,3) [of b r l] unfolding m
        by (cases "keeps_left b l r"; cases "keeps_left b r l") auto
    qed
  qed
qed (auto simp: mergeUnit_simps)

definition ex_unit :: "unit_kind \<Rightarrow> string \<Rightarrow> byte \<Rightarrow> merge_unit" where
  "ex_unit k sig h = \<lparr>unit_key = \<lparr>key_file = ''a.js'', key_path = [''f''], key_kind = k\<rparr>, unit_kind = k,
     unit_name = ''f'', unit_sig = sig, BodyHash = [h],
     unit_range = \<lparr>range_start = (0, 0), range_end = (0, 1)\<rparr>, unit_content = ''x''\<rparr>"

theorem mergeUnit_one_sided_witness:
  "snd (mergeUnit (Some (ex_unit UnitFunction ''f()'' 1)) (Some (ex_unit UnitFunction ''f()'' 1)) None) = None \<and>
    EquivalentUnits (fst (mergeUnit (Some (ex_unit UnitFunction ''f()'' 1)) (Some (ex_unit UnitFunction ''f()'' 1)) None))
      (if EquivalentUnits (Some (ex_unit UnitFunction ''f()'' 1)) (Some (ex_unit UnitFunction ''f()'' 1)) then None
       else Some (ex_unit UnitFunction ''f()'' 1))"
  by (rule mergeUnit_one_sided) simp


section \<open>Files\<close>

lemma mergeFile_laws:
  assumes "mergeFile extract path b l r = Ok mc"
  shows "(b = l \<longrightarrow> mc = (r, [])) \<and> (b = r \<longrightarrow> mc = (l, [])) \<and> (l = r \<longrightarrow> mc = (l, []))"
  using assms by (cases b; cases l; cases r) (auto simp: mergeFile_def mergeCreated_def split: if_splits)

lemma add_file_simps:
  "map_of (Files (add_file path mc result)) p =
     (if p = path \<and> fst mc \<noteq> None then fst mc else map_of (Files result) p)"
  "Success (add_file path mc result) \<longleftrightarrow> Success result \<and> snd mc = []"
  "Conflicts (add_file path mc result) = Conflicts result @ snd mc"
  by (auto simp: add_file_def Let_def split: option.splits)

lemma merge_paths_spec:
  assumes "merge_paths extract b l r paths result = Ok res" "distinct paths"
    and "\<And>p. p \<in> set paths \<Longrightarrow> map_of (Files result) p = None"
    and "Success result \<longleftrightarrow> Conflicts result = []"
  shows "(Success res \<longleftrightarrow> Conflicts res = []) \<and>
    (\<forall>p. if p \<in> set paths
       then \<exists>mc. mergeFile extract p (map_of b p) (map_of l p) (map_of r p) = Ok mc \<and> map_of (Files res) p = fst mc \<and>
         set (snd mc) \<subseteq> set (Conflicts res)
       else map_of (Files res) p = map_of (Files result) p) \<and>
    set (Conflicts result) \<subseteq> set (Conflicts res) \<and>
    (\<forall>c \<in> set (Conflicts res). c \<in> set (Conflicts result) \<or>
       (\<exists>p \<in> set paths. \<exists>mc. mergeFile extract p (map_of b p) (map_of l p) (map_of r p) = Ok mc \<and> c \<in> set (snd mc)))"
  using assms
proof (induction paths arbitrary: result)
  case (Cons path paths)
  obtain mc where mc: "mergeFile extract path (map_of b path) (map_of l path) (map_of r path) = Ok mc"
    "merge_paths extract b l r paths (add_file path mc result) = Ok res"
    using Cons.prems(1)
    by (cases "mergeFile extract path (map_of b path) (map_of l path) (map_of r path)") auto
  have none: "map_of (Files (add_file path mc result)) p = None" if "p \<in> set paths" for p
    using Cons.prems(2,3) that by (auto simp: add_file_simps)
  have IH: "(Success res \<longleftrightarrow> Conflicts res = []) \<and>
    (\<forall>p. if p \<in> set paths
       then \<exists>mc. mergeFile extract p (map_of b p) (map_of l p) (map_of r p) = Ok mc \<and> map_of (Files res) p = fst mc \<and>
         set (snd mc) \<subseteq> set (Conflicts res)
       else map_of (Files res) p = map_of (Files (add_file path mc result)) p) \<and>
    set (Conflicts (add_file path mc result)) \<subseteq> set (Conflicts res) \<and>
    (\<forall>c \<in> set (Conflicts res). c \<in> set (Conflicts (add_file path mc result)) \<or>
       (\<exists>p \<in> set paths. \<exists>mc. mergeFile extract p (map_of b p) (map_of l p) (map_of r p) = Ok mc \<and> c \<in> set (snd mc)))"
    using Cons.prems(2,4) none by (intro Cons.IH [OF mc(2)]) (auto simp: add_file_simps)
  have "path \<notin> set paths" "map_of (Files result) path = None" using Cons.prems(2,3) by auto
  then have here: "map_of (Files res) path = fst mc"
    using IH by (simp add: add_file_simps)
  have cs: "set (snd mc) \<subseteq> set (Conflicts res)" "set (Conflicts result) \<subseteq> set (Conflicts res)"
    using IH by (simp_all add: add_file_simps)
  show ?case
  proof (intro conjI allI ballI)
    show "Success res \<longleftrightarrow> Conflicts res = []" using IH by blast
    show "set (Conflicts result) \<subseteq> set (Conflicts res)" by (rule cs)
    show "if p \<in> set (path # paths)
       then \<exists>mc. mergeFile extract p (map_of b p) (map_of l p) (map_of r p) = Ok mc \<and> map_of (Files res) p = fst mc \<and>
         set (snd mc) \<subseteq> set (Conflicts res)
       else map_of (Files res) p = map_of (Files result) p" for p
    proof (cases "p = path")
      case True
      then show ?thesis using mc(1) here cs(1) by simp
    next
      case False
      then show ?thesis using IH [THEN conjunct2, THEN conjunct1, THEN spec [of _ p]]
        by (cases "p \<in> set paths") (auto simp: add_file_simps)
    qed
    show "c \<in> set (Conflicts result) \<or>
       (\<exists>p \<in> set (path # paths). \<exists>mc. mergeFile extract p (map_of b p) (map_of l p) (map_of r p) = Ok mc \<and> c \<in> set (snd mc))"
      if "c \<in> set (Conflicts res)" for c
      using IH [THEN conjunct2, THEN conjunct2, THEN conjunct2, THEN bspec [OF _ that]] mc(1)
      unfolding add_file_simps by (cases mc) auto
  qed
qed auto

text \<open>C27: The three-way laws hold for whole trees: whenever the merge returns, a path that one side left
  as it was, created and deleted files included, ends as the other side has it, and a path on which
  both sides agree ends as they have it; paths of no operand do not appear; the result is a success
  exactly when there is no conflict, and each conflict belongs to a path that both sides changed
  differently.\<close>

theorem MergeFiles_three_way:
  assumes "MergeFiles extract base left right = Ok res"
  shows "(Success res \<longleftrightarrow> Conflicts res = []) \<and>
    (\<forall>p. (map_of base p = map_of left p \<longrightarrow> map_of (Files res) p = map_of right p) \<and>
         (map_of base p = map_of right p \<longrightarrow> map_of (Files res) p = map_of left p) \<and>
         (map_of left p = map_of right p \<longrightarrow> map_of (Files res) p = map_of left p)) \<and>
    (\<forall>c \<in> set (Conflicts res). \<exists>p. map_of base p \<noteq> map_of left p \<and> map_of base p \<noteq> map_of right p \<and>
       map_of left p \<noteq> map_of right p \<and>
       (\<exists>mc. mergeFile extract p (map_of base p) (map_of left p) (map_of right p) = Ok mc \<and> c \<in> set (snd mc)))"
proof -
  have s: "(Success res \<longleftrightarrow> Conflicts res = [])"
    "\<And>p. if p \<in> set (all_keys base left right)
       then \<exists>mc. mergeFile extract p (map_of base p) (map_of left p) (map_of right p) = Ok mc \<and> map_of (Files res) p = fst mc
       else map_of (Files res) p = None"
    "\<And>c. c \<in> set (Conflicts res) \<Longrightarrow> \<exists>p. \<exists>mc. mergeFile extract p (map_of base p) (map_of left p) (map_of right p) = Ok mc \<and> c \<in> set (snd mc)"
    using merge_paths_spec [OF assms [unfolded MergeFiles_def]] by (fastforce simp: all_keys_def split: if_splits)+
  have laws: "(map_of base p = map_of left p \<longrightarrow> map_of (Files res) p = map_of right p) \<and>
         (map_of base p = map_of right p \<longrightarrow> map_of (Files res) p = map_of left p) \<and>
         (map_of left p = map_of right p \<longrightarrow> map_of (Files res) p = map_of left p)" for p
  proof (cases "p \<in> set (all_keys base left right)")
    case True
    then show ?thesis using s(2) [of p] mergeFile_laws by fastforce
  next
    case False
    then have "map_of base p = None" "map_of left p = None" "map_of right p = None"
      by (auto simp: all_keys_def map_of_eq_None_iff)
    then show ?thesis using s(2) [of p] False by simp
  qed
  have "\<exists>p. map_of base p \<noteq> map_of left p \<and> map_of base p \<noteq> map_of right p \<and> map_of left p \<noteq> map_of right p \<and>
       (\<exists>mc. mergeFile extract p (map_of base p) (map_of left p) (map_of right p) = Ok mc \<and> c \<in> set (snd mc))"
    if "c \<in> set (Conflicts res)" for c
    using s(3) [OF that] mergeFile_laws by fastforce
  then show ?thesis using s(1) laws by blast
qed

theorem MergeFiles_three_way_witness:
  "\<exists>res. MergeFiles (\<lambda>p c. Err ()) [(''a'', ''1''), (''b'', ''1'')] [(''a'', ''2''), (''b'', ''1'')] [(''a'', ''1'')] = Ok res \<and>
    map_of (Files res) ''a'' = Some ''2'' \<and> map_of (Files res) ''b'' = None"
proof -
  obtain res where r: "MergeFiles (\<lambda>p c. Err ()) [(''a'', ''1''), (''b'', ''1'')] [(''a'', ''2''), (''b'', ''1'')] [(''a'', ''1'')] = Ok res"
    by (simp add: MergeFiles_def all_keys_def mergeFile_def)
  show ?thesis using MergeFiles_three_way [OF r] r by fastforce
qed

section \<open>Rebuilding a file\<close>

text \<open>A JavaScript file with a class of one method and a function, by the bodies of the two.\<close>

definition at :: "int \<Rightarrow> int \<Rightarrow> range" where
  "at r c = \<lparr>range_start = (r, c), range_end = (r, c)\<rparr>"

definition ex_program :: "string \<Rightarrow> string \<Rightarrow> node" where
  "ex_program a b =
     Node ''program'' (''class A { m() {'' @ a @ ''} }'' @ [char_of (10 :: nat)] @ ''function f() {'' @ b @ ''}'') (at 0 0)
      [Node ''class_declaration'' (''class A { m() {'' @ a @ ''} }'') (at 0 0)
         [Node ''identifier'' ''A'' (at 0 6) [],
          Node ''class_body'' (''{ m() {'' @ a @ ''} }'') (at 0 8)
            [Node ''method_definition'' (''m() {'' @ a @ ''}'') (at 0 10)
               [Node ''property_identifier'' ''m'' (at 0 10) [], Node ''formal_parameters'' ''()'' (at 0 11) []]]],
       Node ''function_declaration'' (''function f() {'' @ b @ ''}'') (at 1 0)
         [Node ''identifier'' ''f'' (at 1 9) [], Node ''formal_parameters'' ''()'' (at 1 10) []]]"

definition ex_parse :: "string \<Rightarrow> string \<Rightarrow> (unit, node) go" where
  "ex_parse content lang = (case find (\<lambda>n. node_text n = content)
      [ex_program ''1'' ''1'', ex_program ''2'' ''1'', ex_program ''1'' ''2''] of Some n \<Rightarrow> Ok n | None \<Rightarrow> Err ())"

text \<open>A file whose two sides edit different units is rebuilt from the units alone, and a method is a
  unit besides its class: when one side edits a method and the other a function, the merge succeeds and its
  file contains the method twice, the second time outside its class.\<close>

lemma merge_duplicates_methods:
  "\<exists>res. MergeFiles (\<lambda>p c. ExtractUnits to_bytes ex_parse p c ''js'')
      [(''a.js'', node_text (ex_program ''1'' ''1''))] [(''a.js'', node_text (ex_program ''2'' ''1''))]
      [(''a.js'', node_text (ex_program ''1'' ''2''))] = Ok res \<and> Success res \<and>
    map_of (Files res) ''a.js'' = Some (''class A { m() {2} }'' @ [char_of (10 :: nat), char_of (10 :: nat)] @
      ''m() {2}'' @ [char_of (10 :: nat), char_of (10 :: nat)] @ ''function f() {2}'' @ [char_of (10 :: nat)])"
proof -
  let ?res = "\<lparr>Success = True, Files = [(''a.js'', ''class A { m() {2} }'' @ [char_of (10 :: nat), char_of (10 :: nat)] @
      ''m() {2}'' @ [char_of (10 :: nat), char_of (10 :: nat)] @ ''function f() {2}'' @ [char_of (10 :: nat)])],
    Conflicts = [], FilesModified = 1\<rparr>"
  have "MergeFiles (\<lambda>p c. ExtractUnits to_bytes ex_parse p c ''js'')
      [(''a.js'', node_text (ex_program ''1'' ''1''))] [(''a.js'', node_text (ex_program ''2'' ''1''))]
      [(''a.js'', node_text (ex_program ''1'' ''2''))] = Ok ?res"
    by code_simp
  then show ?thesis by simp
qed

end
