(* ===== verification/RefStore.thy ===== *)
theory RefStore
  imports GoText Prelude "HOL-Library.List_Lexorder" "HOL-Library.Char_ord"
begin

text \<open>
  The repository database of \<open>src/kailab/store/sqlite.go\<close>: segments, objects, refs with their
  append-only history, announcements, the enrichment queue, edges and authorship. A table is the
  list of its rows in insertion order, which is the order of its AUTOINCREMENT keys; the tables and their
  constraints are those of \<open>schema.sql\<close> (foreign keys are off). An operation gets the time that
  \<open>cas.NowMs\<close> returns and gives the new tables, or the error; a statement that fails leaves a transaction that its
  caller rolls back, so an error carries no tables. \<open>blake3\<close> is a parameter. The functions of the
  section "Standalone functions" in the file repeat the methods; where they differ, both are here.
\<close>

section \<open>JSON of flat maps\<close>

datatype jval = JStr string | JInt int | JBool bool

text \<open>\<open>encoding/json\<close> on valid UTF-8: quotes, backslashes, control characters and the HTML
  characters are escaped (the two line separators U+2028 and U+2029, which it also escapes, are not
  expected in names).\<close>

definition hex2 :: "nat \<Rightarrow> string" where
  "hex2 n = [hex_digits ! (n div 16), hex_digits ! (n mod 16)]"

definition json_char :: "char \<Rightarrow> string" where
  "json_char c = (let n = of_char c :: nat in
     if c = CHR 0x22 then [CHR 0x5C, CHR 0x22]
     else if c = CHR 0x5C then [CHR 0x5C, CHR 0x5C]
     else if n = 8 then [CHR 0x5C, CHR ''b'']
     else if n = 12 then [CHR 0x5C, CHR ''f'']
     else if n = 10 then [CHR 0x5C, CHR ''n'']
     else if n = 13 then [CHR 0x5C, CHR ''r'']
     else if n = 9 then [CHR 0x5C, CHR ''t'']
     else if n < 32 \<or> c \<in> {CHR ''<'', CHR ''>'', CHR ''&''} then [CHR 0x5C] @ ''u00'' @ hex2 n
     else [c])"

definition json_string :: "string \<Rightarrow> string" where
  "json_string s = [CHR 0x22] @ concat (map json_char s) @ [CHR 0x22]"

fun json_value :: "jval \<Rightarrow> string" where
  "json_value (JStr s) = json_string s"
| "json_value (JInt i) = show_int i"
| "json_value (JBool b) = (if b then ''true'' else ''false'')"

fun json_fields :: "(string \<times> jval) list \<Rightarrow> string" where
  "json_fields [] = []"
| "json_fields [(k, v)] = json_string k @ '':'' @ json_value v"
| "json_fields ((k, v) # f # fs) = json_string k @ '':'' @ json_value v @ '','' @ json_fields (f # fs)"

text \<open>The keys of a marshalled map are sorted.\<close>

definition marshal_map :: "(string \<times> jval) list \<Rightarrow> string" where
  "marshal_map m = ''{'' @ json_fields (sort_key fst m) @ ''}''"

section \<open>Tables\<close>

record segment_row =
  seg_id :: int
  seg_ts :: int
  seg_checksum :: bytes
  seg_size :: int
  seg_blob :: bytes

record object_info =
  Digest :: bytes
  SegmentID :: int
  Off :: "64 word"
  Len :: "64 word"
  ObjKind :: string
  CreatedAt :: int

record ref_row =
  RefName :: string
  Target :: bytes
  UpdatedAt :: int
  RefActor :: string
  PushID :: string

record history_row =
  h_seq :: int
  h_id :: bytes
  h_parent :: "bytes option"
  h_time :: int
  h_actor :: string
  h_ref :: string
  h_old :: "bytes option"
  h_new :: bytes
  h_meta :: string

record publish_row =
  p_seq :: int
  p_id :: bytes
  p_parent :: "bytes option"
  p_time :: int
  p_actor :: string
  p_node :: bytes
  p_kind :: string

datatype enrich_status = Pending | Processing | Done | Failed

record enrich_row =
  e_id :: int
  e_node :: bytes
  e_kind :: string
  e_status :: enrich_status
  e_created :: int
  e_started :: "int option"
  e_finished :: "int option"
  e_error :: "string option"

record edge =
  Src :: bytes
  EdgeType :: string
  Dst :: bytes
  At :: "bytes option"

record authorship_range =
  SnapshotID :: bytes
  FilePath :: string
  StartLine :: int
  EndLine :: int
  AuthorType :: string
  Agent :: string
  Model :: string
  SessionID :: string

record repo_db =
  segments :: "segment_row list"
  next_segment :: int
  object_rows :: "object_info list"
  refs :: "ref_row list"
  ref_history :: "history_row list"
  next_history :: int
  node_publish :: "publish_row list"
  next_publish :: int
  enrich_queue :: "enrich_row list"
  next_enrich :: int
  edges :: "edge list"
  authorship :: "authorship_range list"

definition empty_db :: repo_db where
  "empty_db = \<lparr>segments = [], next_segment = 1, object_rows = [], refs = [], ref_history = [], next_history = 1,
     node_publish = [], next_publish = 1, enrich_queue = [], next_enrich = 1, edges = [], authorship = []\<rparr>"

datatype store_error = ErrRefNotFound | ErrRefMismatch | ErrObjectNotFound | ErrSegmentNotFound
  | BeyondSegment | UniqueConstraint | NotNullConstraint

section \<open>Segments and objects\<close>

definition InsertSegment :: "int \<Rightarrow> bytes \<Rightarrow> bytes \<Rightarrow> repo_db \<Rightarrow> int \<times> repo_db" where
  "InsertSegment ts checksum blob db =
     (next_segment db,
      db\<lparr>segments := segments db @ [\<lparr>seg_id = next_segment db, seg_ts = ts, seg_checksum = checksum,
           seg_size = int (length blob), seg_blob = blob\<rparr>],
         next_segment := next_segment db + 1\<rparr>)"

definition GetSegmentBlob :: "repo_db \<Rightarrow> int \<Rightarrow> (store_error, bytes) go" where
  "GetSegmentBlob db segmentID = (case find (\<lambda>r. seg_id r = segmentID) (segments db) of
     Some r \<Rightarrow> Ok (seg_blob r) | None \<Rightarrow> Err ErrSegmentNotFound)"

text \<open>\<open>INSERT OR IGNORE\<close>: the first row of a digest stays.\<close>

definition InsertObject :: "int \<Rightarrow> bytes \<Rightarrow> int \<Rightarrow> 64 word \<Rightarrow> 64 word \<Rightarrow> string \<Rightarrow> repo_db \<Rightarrow> repo_db" where
  "InsertObject ts digest segmentID off len kind db =
     (if (\<exists>r \<in> set (object_rows db). Digest r = digest) then db
      else db\<lparr>object_rows := object_rows db @ [\<lparr>Digest = digest, SegmentID = segmentID, Off = off, Len = len,
        ObjKind = kind, CreatedAt = ts\<rparr>]\<rparr>)"

definition GetObject :: "repo_db \<Rightarrow> bytes \<Rightarrow> (store_error, object_info) go" where
  "GetObject db digest = (case find (\<lambda>r. Digest r = digest) (object_rows db) of
     Some r \<Rightarrow> Ok r | None \<Rightarrow> Err ErrObjectNotFound)"

definition HasObject :: "repo_db \<Rightarrow> bytes \<Rightarrow> bool" where
  "HasObject db digest \<longleftrightarrow> (\<exists>r \<in> set (object_rows db). Digest r = digest)"

text \<open>\<open>HasObjects\<close> asks in batches of 500 and collects the hex digests that exist.\<close>

definition has_batch :: "repo_db \<Rightarrow> bytes list \<Rightarrow> string list" where
  "has_batch db batch = map (\<lambda>r. hex_encode (Digest r)) (filter (\<lambda>r. Digest r \<in> set batch) (object_rows db))"

function has_batches :: "repo_db \<Rightarrow> bytes list \<Rightarrow> string list \<Rightarrow> string list" where
  "has_batches db digests res = (if digests = [] then res
     else has_batches db (drop 500 digests) (has_batch db (take 500 digests) @ res))"
  by pat_completeness auto
termination by (relation "measure (\<lambda>(db, ds, r). length ds)") auto

declare has_batches.simps [simp del]

definition HasObjects :: "repo_db \<Rightarrow> bytes list \<Rightarrow> string list" where
  "HasObjects db digests = has_batches db digests []"

text \<open>The bounds check adds in 64 bits; slicing panics on a negative or decreasing range.\<close>

definition slice64 :: "bytes \<Rightarrow> 64 word \<Rightarrow> 64 word \<Rightarrow> (store_error, bytes) go" where
  "slice64 blob off len =
     (if sint (off + len) > int (length blob) then Err BeyondSegment
      else if sint off < 0 \<or> sint (off + len) < sint off then Panic
      else Ok (slice (nat (sint off)) (nat (sint (off + len))) blob))"

definition ReadObjectContent :: "repo_db \<Rightarrow> bytes \<Rightarrow> (store_error, bytes) go" where
  "ReadObjectContent db digest =
     bind_go (GetObject db digest) (\<lambda>info.
     bind_go (GetSegmentBlob db (SegmentID info)) (\<lambda>blob. slice64 blob (Off info) (Len info)))"

section \<open>Refs\<close>

definition GetRef :: "repo_db \<Rightarrow> string \<Rightarrow> (store_error, ref_row) go" where
  "GetRef db name = (case find (\<lambda>r. RefName r = name) (refs db) of
     Some r \<Rightarrow> Ok r | None \<Rightarrow> Err ErrRefNotFound)"

definition current_target :: "repo_db \<Rightarrow> string \<Rightarrow> bytes option" where
  "current_target db name = map_option Target (find (\<lambda>r. RefName r = name) (refs db))"

text \<open>SQLite's \<open>LIKE\<close>: \<open>%\<close> matches any text, \<open>_\<close> one character, letters match in either case.\<close>

definition to_lower :: "char \<Rightarrow> char" where
  "to_lower c = (let n = of_char c :: nat in if 65 \<le> n \<and> n \<le> 90 then char_of (n + 32) else c)"

fun like :: "string \<Rightarrow> string \<Rightarrow> bool" where
  "like [] s = (s = [])"
| "like (p # ps) s =
     (if p = CHR ''%'' then (case s of [] \<Rightarrow> like ps [] | c # cs \<Rightarrow> like ps s \<or> like (p # ps) cs)
      else (case s of [] \<Rightarrow> False
        | c # cs \<Rightarrow> (p = CHR ''_'' \<or> to_lower p = to_lower c) \<and> like ps cs))"

definition ListRefs :: "repo_db \<Rightarrow> string \<Rightarrow> ref_row list" where
  "ListRefs db prefix = sort_key RefName
     (if prefix = [] then refs db else filter (\<lambda>r. like (prefix @ ''%'') (RefName r)) (refs db))"

definition last_history :: "repo_db \<Rightarrow> string \<Rightarrow> history_row option" where
  "last_history db name = (case filter (\<lambda>r. h_ref r = name) (ref_history db) of
     [] \<Rightarrow> None | l \<Rightarrow> Some (last l))"

definition upsert_ref :: "string \<Rightarrow> bytes \<Rightarrow> int \<Rightarrow> string \<Rightarrow> string \<Rightarrow> repo_db \<Rightarrow> repo_db" where
  "upsert_ref name new ts actor pushID db =
     (let row = \<lparr>RefName = name, Target = new, UpdatedAt = ts, RefActor = actor, PushID = pushID\<rparr> in
      if (\<exists>r \<in> set (refs db). RefName r = name)
      then db\<lparr>refs := map (\<lambda>r. if RefName r = name then row else r) (refs db)\<rparr>
      else db\<lparr>refs := refs db @ [row]\<rparr>)"

definition hex_opt :: "bytes option \<Rightarrow> string" where
  "hex_opt b = hex_encode (case b of None \<Rightarrow> [] | Some b \<Rightarrow> b)"

definition history_json ::
  "int \<Rightarrow> string \<Rightarrow> string \<Rightarrow> bytes option \<Rightarrow> bytes \<Rightarrow> string \<Rightarrow> (string \<times> jval) list \<Rightarrow> bytes option \<Rightarrow> string" where
  "history_json ts actor name old new pushID extra parent = marshal_map
     ([(''time'', JInt ts), (''actor'', JStr actor), (''ref'', JStr name), (''old'', JStr (hex_opt old)),
       (''new'', JStr (hex_encode new)), (''pushId'', JStr pushID)] @ extra @
      (case parent of None \<Rightarrow> [] | Some p \<Rightarrow> [(''parent'', JStr (hex_encode p))]))"

text \<open>Appending to the history: the entry is chained to the last one of its ref, and its id is the
  hash of its JSON, which must be new.\<close>

definition append_history ::
  "(bytes \<Rightarrow> bytes) \<Rightarrow> int \<Rightarrow> string \<Rightarrow> string \<Rightarrow> bytes option \<Rightarrow> bytes \<Rightarrow> string \<Rightarrow> (string \<times> jval) list \<Rightarrow>
   bytes option \<Rightarrow> repo_db \<Rightarrow> (store_error, repo_db) go" where
  "append_history blake3 ts actor name old new pushID extra parent db =
     (let entryJSON = history_json ts actor name old new pushID extra parent;
          entryID = blake3 (to_bytes entryJSON)
      in if (\<exists>r \<in> set (ref_history db). h_id r = entryID) then Err UniqueConstraint
         else Ok (db\<lparr>ref_history := ref_history db @ [\<lparr>h_seq = next_history db, h_id = entryID, h_parent = parent,
                h_time = ts, h_actor = actor, h_ref = name, h_old = old, h_new = new, h_meta = entryJSON\<rparr>],
              next_history := next_history db + 1\<rparr>))"

definition ff_check :: "bytes option \<Rightarrow> bytes option \<Rightarrow> bool" where
  "ff_check old current = (case old of None \<Rightarrow> current = None | Some x \<Rightarrow> current = Some x)"

text \<open>\<open>SetRefFF\<close> first reads the ref and its last history entry, then writes. The two halves are named
  because a Postgres transaction can be interrupted between them.\<close>

definition ff_read :: "string \<Rightarrow> bytes option \<Rightarrow> repo_db \<Rightarrow> (store_error, bytes option) go" where
  "ff_read name old db =
     (if \<not> ff_check old (current_target db name) then Err ErrRefMismatch
      else Ok (map_option h_id (last_history db name)))"

definition ff_write ::
  "(bytes \<Rightarrow> bytes) \<Rightarrow> int \<Rightarrow> string \<Rightarrow> bytes option \<Rightarrow> bytes \<Rightarrow> string \<Rightarrow> string \<Rightarrow> bytes option \<Rightarrow> repo_db \<Rightarrow>
   (store_error, repo_db) go" where
  "ff_write blake3 ts name old new actor pushID parentID db =
     append_history blake3 ts actor name old new pushID [] parentID (upsert_ref name new ts actor pushID db)"

definition SetRefFF ::
  "(bytes \<Rightarrow> bytes) \<Rightarrow> int \<Rightarrow> string \<Rightarrow> bytes option \<Rightarrow> bytes \<Rightarrow> string \<Rightarrow> string \<Rightarrow> repo_db \<Rightarrow> (store_error, repo_db) go" where
  "SetRefFF blake3 ts name old new actor pushID db =
     bind_go (ff_read name old db) (\<lambda>parentID. ff_write blake3 ts name old new actor pushID parentID db)"

definition ForceSetRef ::
  "(bytes \<Rightarrow> bytes) \<Rightarrow> int \<Rightarrow> string \<Rightarrow> bytes \<Rightarrow> string \<Rightarrow> string \<Rightarrow> repo_db \<Rightarrow> (store_error, repo_db) go" where
  "ForceSetRef blake3 ts name new actor pushID db =
     (let current = current_target db name; parentID = map_option h_id (last_history db name);
          db = upsert_ref name new ts actor pushID db
      in append_history blake3 ts actor name current new pushID [(''force'', JBool True)] parentID db)"

definition DeleteRef ::
  "(bytes \<Rightarrow> bytes) \<Rightarrow> int \<Rightarrow> string \<Rightarrow> bytes option \<Rightarrow> string \<Rightarrow> string \<Rightarrow> repo_db \<Rightarrow> (store_error, repo_db) go" where
  "DeleteRef blake3 ts name old actor pushID db =
     (case current_target db name of
        None \<Rightarrow> Err ErrRefNotFound
      | Some current \<Rightarrow>
          if old \<noteq> None \<and> old \<noteq> Some current then Err ErrRefMismatch
          else let parentID = map_option h_id (last_history db name);
                   db = db\<lparr>refs := filter (\<lambda>r. RefName r \<noteq> name) (refs db)\<rparr>
               in append_history blake3 ts actor name (Some current) [] pushID [(''delete'', JBool True)] parentID db)"

text \<open>The method lists the history upwards from \<open>afterSeq\<close>, the standalone function downwards.\<close>

definition history_limit :: "int \<Rightarrow> nat" where
  "history_limit limit = nat (if limit \<le> 0 then 100 else limit)"

definition history_after :: "repo_db \<Rightarrow> string \<Rightarrow> int \<Rightarrow> history_row list" where
  "history_after db refFilter afterSeq =
     filter (\<lambda>r. (refFilter = [] \<or> h_ref r = refFilter) \<and> h_seq r > afterSeq) (ref_history db)"

definition DB_GetRefHistory :: "repo_db \<Rightarrow> string \<Rightarrow> int \<Rightarrow> int \<Rightarrow> history_row list" where
  "DB_GetRefHistory db refFilter afterSeq limit = take (history_limit limit) (history_after db refFilter afterSeq)"

definition GetRefHistory :: "repo_db \<Rightarrow> string \<Rightarrow> int \<Rightarrow> int \<Rightarrow> history_row list" where
  "GetRefHistory db refFilter afterSeq limit =
     take (history_limit limit) (rev (history_after db refFilter afterSeq))"

definition GetLogHead :: "repo_db \<Rightarrow> bytes option" where
  "GetLogHead db = (case ref_history db of [] \<Rightarrow> None | l \<Rightarrow> Some (h_id (last l)))"

section \<open>Announcements and enrichment\<close>

definition RecordNodePublish ::
  "(bytes \<Rightarrow> bytes) \<Rightarrow> int \<Rightarrow> bytes \<Rightarrow> string \<Rightarrow> string \<Rightarrow> repo_db \<Rightarrow> repo_db" where
  "RecordNodePublish blake3 ts nodeID kind actor db =
     (let parentID = (case node_publish db of [] \<Rightarrow> None | l \<Rightarrow> Some (p_id (last l)));
          entryJSON = marshal_map ([(''time'', JInt ts), (''actor'', JStr actor),
            (''nodeId'', JStr (hex_encode nodeID)), (''kind'', JStr kind)] @
            (case parentID of None \<Rightarrow> [] | Some p \<Rightarrow> [(''parent'', JStr (hex_encode p))]));
          entryID = blake3 (to_bytes entryJSON)
      in if (\<exists>r \<in> set (node_publish db). p_id r = entryID) then db
         else db\<lparr>node_publish := node_publish db @ [\<lparr>p_seq = next_publish db, p_id = entryID, p_parent = parentID,
                p_time = ts, p_actor = actor, p_node = nodeID, p_kind = kind\<rparr>],
              next_publish := next_publish db + 1\<rparr>)"

definition EnqueueForEnrichment :: "int \<Rightarrow> bytes \<Rightarrow> string \<Rightarrow> repo_db \<Rightarrow> repo_db" where
  "EnqueueForEnrichment ts nodeID kind db =
     db\<lparr>enrich_queue := enrich_queue db @ [\<lparr>e_id = next_enrich db, e_node = nodeID, e_kind = kind, e_status = Pending,
          e_created = ts, e_started = None, e_finished = None, e_error = None\<rparr>],
        next_enrich := next_enrich db + 1\<rparr>"

definition ClaimEnrichmentItem :: "int \<Rightarrow> repo_db \<Rightarrow> enrich_row option \<times> repo_db" where
  "ClaimEnrichmentItem ts db =
     (case find (\<lambda>r. e_status r = Pending) (enrich_queue db) of
        None \<Rightarrow> (None, db)
      | Some item \<Rightarrow>
          (Some (item\<lparr>e_status := Processing, e_started := Some ts\<rparr>),
           db\<lparr>enrich_queue := map (\<lambda>r. if e_id r = e_id item then r\<lparr>e_status := Processing, e_started := Some ts\<rparr> else r)
                (enrich_queue db)\<rparr>))"

definition CompleteEnrichmentItem :: "int \<Rightarrow> int \<Rightarrow> string \<Rightarrow> repo_db \<Rightarrow> repo_db" where
  "CompleteEnrichmentItem ts i errMsg db =
     db\<lparr>enrich_queue := map (\<lambda>r. if e_id r = i
          then r\<lparr>e_status := (if errMsg \<noteq> [] then Failed else Done), e_finished := Some ts,
                 e_error := (if errMsg \<noteq> [] then Some errMsg else None)\<rparr> else r) (enrich_queue db)\<rparr>"

section \<open>Edges and authorship\<close>

text \<open>The primary key of an edge is (src, type, dst, at); SQL holds two rows with a null \<open>at\<close> for
  different, so only edges in a snapshot are deduplicated.\<close>

definition InsertEdge :: "edge \<Rightarrow> repo_db \<Rightarrow> repo_db" where
  "InsertEdge e db =
     (if At e \<noteq> None \<and> e \<in> set (edges db) then db else db\<lparr>edges := edges db @ [e]\<rparr>)"

definition InsertEdgesBatch :: "edge list \<Rightarrow> repo_db \<Rightarrow> repo_db" where
  "InsertEdgesBatch es db = foldl (\<lambda>db e. InsertEdge e db) db es"

definition GetEdgesFrom :: "repo_db \<Rightarrow> bytes \<Rightarrow> string \<Rightarrow> edge list" where
  "GetEdgesFrom db s ty = filter (\<lambda>e. Src e = s \<and> (ty = [] \<or> EdgeType e = ty)) (edges db)"

definition GetEdgesTo :: "repo_db \<Rightarrow> bytes \<Rightarrow> string \<Rightarrow> edge list" where
  "GetEdgesTo db d ty = filter (\<lambda>e. Dst e = d \<and> (ty = [] \<or> EdgeType e = ty)) (edges db)"

definition GetEdgesBySnapshot :: "repo_db \<Rightarrow> bytes \<Rightarrow> string \<Rightarrow> edge list" where
  "GetEdgesBySnapshot db a ty = filter (\<lambda>e. At e = Some a \<and> (ty = [] \<or> EdgeType e = ty)) (edges db)"

text \<open>\<open>INSERT OR REPLACE\<close> under the key (snapshot, file, start line).\<close>

definition insert_authorship :: "authorship_range \<Rightarrow> authorship_range list \<Rightarrow> authorship_range list" where
  "insert_authorship r rows = filter (\<lambda>x. \<not> (SnapshotID x = SnapshotID r \<and> FilePath x = FilePath r \<and> StartLine x = StartLine r)) rows @ [r]"

definition InsertAuthorshipRanges :: "authorship_range list \<Rightarrow> repo_db \<Rightarrow> repo_db" where
  "InsertAuthorshipRanges rs db = db\<lparr>authorship := foldl (\<lambda>rows r. insert_authorship r rows) (authorship db) rs\<rparr>"

definition GetAuthorshipRanges :: "repo_db \<Rightarrow> bytes \<Rightarrow> string \<Rightarrow> authorship_range list" where
  "GetAuthorshipRanges db s f = sort_key StartLine (filter (\<lambda>r. SnapshotID r = s \<and> FilePath r = f) (authorship db))"

definition GetAllAuthorshipRanges :: "repo_db \<Rightarrow> bytes \<Rightarrow> authorship_range list" where
  "GetAllAuthorshipRanges db s = sort_key FilePath (sort_key StartLine (filter (\<lambda>r. SnapshotID r = s) (authorship db)))"

section \<open>The standalone functions\<close>

text \<open>The functions that get the database or transaction as an argument run the same statements on the same tables as
  the methods; those that differ are above.\<close>

definition InsertSegmentTx ::
  "int \<Rightarrow> bytes \<Rightarrow> bytes \<Rightarrow> repo_db \<Rightarrow> int \<times> repo_db" where
  "InsertSegmentTx = InsertSegment"

definition InsertObjectTx ::
  "int \<Rightarrow> bytes \<Rightarrow> int \<Rightarrow> 64 word \<Rightarrow> 64 word \<Rightarrow> string \<Rightarrow> repo_db \<Rightarrow> repo_db" where
  "InsertObjectTx = InsertObject"

definition GetObjectInfo ::
  "repo_db \<Rightarrow> bytes \<Rightarrow> (store_error, object_info) go" where
  "GetObjectInfo = GetObject"

definition GetSegmentBlobByID ::
  "repo_db \<Rightarrow> int \<Rightarrow> (store_error, bytes) go" where
  "GetSegmentBlobByID = GetSegmentBlob"

definition ReadObjectContentDB ::
  "repo_db \<Rightarrow> bytes \<Rightarrow> (store_error, bytes) go" where
  "ReadObjectContentDB = ReadObjectContent"

definition EnqueueForEnrichmentTx ::
  "int \<Rightarrow> bytes \<Rightarrow> string \<Rightarrow> repo_db \<Rightarrow> repo_db" where
  "EnqueueForEnrichmentTx = EnqueueForEnrichment"

definition InsertEdgesTx ::
  "edge list \<Rightarrow> repo_db \<Rightarrow> repo_db" where
  "InsertEdgesTx = InsertEdgesBatch"

definition GetEdgesFromDB ::
  "repo_db \<Rightarrow> bytes \<Rightarrow> string \<Rightarrow> edge list" where
  "GetEdgesFromDB = GetEdgesFrom"

definition GetEdgesToDB ::
  "repo_db \<Rightarrow> bytes \<Rightarrow> string \<Rightarrow> edge list" where
  "GetEdgesToDB = GetEdgesTo"

definition GetEdgesBySnapshotDB ::
  "repo_db \<Rightarrow> bytes \<Rightarrow> string \<Rightarrow> edge list" where
  "GetEdgesBySnapshotDB = GetEdgesBySnapshot"

definition Sql_HasObjects ::
  "repo_db \<Rightarrow> bytes list \<Rightarrow> string list" where
  "Sql_HasObjects = HasObjects"

definition Sql_ListRefs ::
  "repo_db \<Rightarrow> string \<Rightarrow> ref_row list" where
  "Sql_ListRefs = ListRefs"

definition Sql_GetRef ::
  "repo_db \<Rightarrow> string \<Rightarrow> (store_error, ref_row) go" where
  "Sql_GetRef = GetRef"

definition Sql_SetRefFF ::
  "(bytes \<Rightarrow> bytes) \<Rightarrow> int \<Rightarrow> string \<Rightarrow> bytes option \<Rightarrow> bytes \<Rightarrow> string \<Rightarrow> string \<Rightarrow> repo_db \<Rightarrow> (store_error, repo_db) go" where
  "Sql_SetRefFF = SetRefFF"

definition Sql_ForceSetRef ::
  "(bytes \<Rightarrow> bytes) \<Rightarrow> int \<Rightarrow> string \<Rightarrow> bytes \<Rightarrow> string \<Rightarrow> string \<Rightarrow> repo_db \<Rightarrow> (store_error, repo_db) go" where
  "Sql_ForceSetRef = ForceSetRef"

definition Sql_DeleteRef ::
  "(bytes \<Rightarrow> bytes) \<Rightarrow> int \<Rightarrow> string \<Rightarrow> bytes option \<Rightarrow> string \<Rightarrow> string \<Rightarrow> repo_db \<Rightarrow> (store_error, repo_db) go" where
  "Sql_DeleteRef = DeleteRef"

definition Sql_GetLogHead ::
  "repo_db \<Rightarrow> bytes option" where
  "Sql_GetLogHead = GetLogHead"

section \<open>The refs and their history\<close>

text \<open>What a history says the refs are: an entry with an empty new target is a deletion.\<close>

definition replay_row :: "(string \<Rightarrow> bytes option) \<Rightarrow> history_row \<Rightarrow> (string \<Rightarrow> bytes option)" where
  "replay_row m r = m(h_ref r := (if h_new r = [] then None else Some (h_new r)))"

definition replay :: "history_row list \<Rightarrow> string \<Rightarrow> bytes option" where
  "replay rs = foldl replay_row (\<lambda>_. None) rs"

definition last_row :: "history_row list \<Rightarrow> string \<Rightarrow> history_row option" where
  "last_row rs name = (case filter (\<lambda>r. h_ref r = name) rs of [] \<Rightarrow> None | l \<Rightarrow> Some (last l))"

text \<open>An entry fits behind the entries before it: it is chained to the last entry of its ref,
  records the target it replaces, and its id is the hash of its JSON.\<close>

definition row_fits :: "(bytes \<Rightarrow> bytes) \<Rightarrow> history_row list \<Rightarrow> history_row \<Rightarrow> bool" where
  "row_fits blake3 before r \<longleftrightarrow>
     h_parent r = map_option h_id (last_row before (h_ref r)) \<and> h_old r = replay before (h_ref r) \<and>
     h_id r = blake3 (to_bytes (h_meta r)) \<and> h_id r \<notin> set (map h_id before) \<and>
     (\<forall>q \<in> set before. h_seq q < h_seq r)"

definition history_ok :: "(bytes \<Rightarrow> bytes) \<Rightarrow> history_row list \<Rightarrow> bool" where
  "history_ok blake3 rs \<longleftrightarrow> (\<forall>i < length rs. row_fits blake3 (take i rs) (rs ! i))"

lemma history_ok_Nil [simp]: "history_ok blake3 []"
  by (simp add: history_ok_def)

lemma history_ok_snoc: "history_ok blake3 (rs @ [r]) \<longleftrightarrow> history_ok blake3 rs \<and> row_fits blake3 rs r"
  by (auto simp: history_ok_def nth_append less_Suc_eq)

lemma replay_snoc: "replay (rs @ [r]) = replay_row (replay rs) r"
  by (simp add: replay_def)

lemma last_history_row: "last_history db name = last_row (ref_history db) name"
  by (simp add: last_history_def last_row_def)

text \<open>The operations on refs that a handler performs, and the other operations on the database.
  A handler refuses a push with an empty target.\<close>

inductive db_step :: "(bytes \<Rightarrow> bytes) \<Rightarrow> repo_db \<Rightarrow> repo_db \<Rightarrow> bool" for blake3 where
  push: "new \<noteq> [] \<Longrightarrow> SetRefFF blake3 ts name old new actor pushID db = Ok db' \<Longrightarrow> db_step blake3 db db'"
| force: "new \<noteq> [] \<Longrightarrow> ForceSetRef blake3 ts name new actor pushID db = Ok db' \<Longrightarrow> db_step blake3 db db'"
| delete: "DeleteRef blake3 ts name old actor pushID db = Ok db' \<Longrightarrow> db_step blake3 db db'"
| segment: "db_step blake3 db (snd (InsertSegment ts checksum blob db))"
| object: "db_step blake3 db (InsertObject ts digest segmentID off len kind db)"
| publish: "db_step blake3 db (RecordNodePublish blake3 ts nodeID kind actor db)"
| enqueue: "db_step blake3 db (EnqueueForEnrichment ts nodeID kind db)"
| claim: "db_step blake3 db (snd (ClaimEnrichmentItem ts db))"
| complete: "db_step blake3 db (CompleteEnrichmentItem ts i errMsg db)"
| edge: "db_step blake3 db (InsertEdgesBatch es db)"
| authors: "db_step blake3 db (InsertAuthorshipRanges rs db)"

inductive db_reach :: "(bytes \<Rightarrow> bytes) \<Rightarrow> repo_db \<Rightarrow> bool" for blake3 where
  start: "db_reach blake3 empty_db"
| step: "db_reach blake3 db \<Longrightarrow> db_step blake3 db db' \<Longrightarrow> db_reach blake3 db'"

inductive_cases db_stepE: "db_step blake3 db db'"

text \<open>What every operation on the refs does to them and to the history.\<close>

definition ref_row_ok :: "(bytes \<Rightarrow> bytes) \<Rightarrow> repo_db \<Rightarrow> history_row \<Rightarrow> bool" where
  "ref_row_ok blake3 db r \<longleftrightarrow> h_seq r = next_history db \<and> h_parent r = map_option h_id (last_history db (h_ref r)) \<and>
     h_old r = current_target db (h_ref r) \<and> h_id r = blake3 (to_bytes (h_meta r)) \<and>
     h_id r \<notin> set (map h_id (ref_history db))"

definition moved :: "(bytes \<Rightarrow> bytes) \<Rightarrow> repo_db \<Rightarrow> string \<Rightarrow> bytes \<Rightarrow> repo_db \<Rightarrow> bool" where
  "moved blake3 db name new db' \<longleftrightarrow>
     (\<exists>r. ref_history db' = ref_history db @ [r] \<and> h_ref r = name \<and> h_new r = new \<and> ref_row_ok blake3 db r) \<and>
     next_history db' = next_history db + 1 \<and>
     distinct (map RefName (refs db')) = distinct (map RefName (refs db)) \<and>
     (\<forall>n. current_target db' n = (if n \<noteq> name then current_target db n else if new = [] then None else Some new))"

lemma append_history_Ok:
  assumes "append_history blake3 ts actor name old new pushID extra parent db = Ok db'"
  obtains r where "db' = db\<lparr>ref_history := ref_history db @ [r], next_history := next_history db + 1\<rparr>"
    and "h_seq r = next_history db" "h_parent r = parent" "h_ref r = name" "h_old r = old" "h_new r = new"
    and "h_id r = blake3 (to_bytes (h_meta r))" "h_id r \<notin> set (map h_id (ref_history db))"
proof -
  define r where "r = \<lparr>h_seq = next_history db, h_id = blake3 (to_bytes (history_json ts actor name old new pushID extra parent)),
    h_parent = parent, h_time = ts, h_actor = actor, h_ref = name, h_old = old, h_new = new,
    h_meta = history_json ts actor name old new pushID extra parent\<rparr>"
  show thesis
    by (rule that [of r]) (use assms in \<open>auto simp: append_history_def r_def Let_def split: if_splits\<close>)
qed

lemma find_append: "find P (xs @ ys) = (case find P xs of None \<Rightarrow> find P ys | Some y \<Rightarrow> Some y)"
  by (induction xs) auto

lemma find_replace:
  "RefName row = name \<Longrightarrow> find (\<lambda>r. RefName r = n) (map (\<lambda>r. if RefName r = name then row else r) xs) =
    (if n = name then (if name \<in> RefName ` set xs then Some row else None) else find (\<lambda>r. RefName r = n) xs)"
  by (induction xs) auto

lemma find_absent: "name \<notin> RefName ` set xs \<Longrightarrow> find (\<lambda>r. RefName r = name) xs = None"
  by (auto simp: find_None_iff)

lemma upsert_ref_cases:
  obtains row where "RefName row = name" "Target row = new"
    and "refs (upsert_ref name new ts actor pushID db) =
      (if name \<in> RefName ` set (refs db) then map (\<lambda>r. if RefName r = name then row else r) (refs db) else refs db @ [row])"
proof
  let ?row = "\<lparr>RefName = name, Target = new, UpdatedAt = ts, RefActor = actor, PushID = pushID\<rparr>"
  show "RefName ?row = name" "Target ?row = new" by simp_all
  show "refs (upsert_ref name new ts actor pushID db) =
      (if name \<in> RefName ` set (refs db) then map (\<lambda>r. if RefName r = name then ?row else r) (refs db) else refs db @ [?row])"
    by (auto simp: upsert_ref_def Let_def image_iff)
qed

lemma current_target_upsert:
  "current_target (upsert_ref name new ts actor pushID db) n = (if n = name then Some new else current_target db n)"
proof -
  obtain row where row: "RefName row = name" "Target row = new"
    and r: "refs (upsert_ref name new ts actor pushID db) =
      (if name \<in> RefName ` set (refs db) then map (\<lambda>r. if RefName r = name then row else r) (refs db) else refs db @ [row])"
    by (rule upsert_ref_cases)
  show ?thesis
  proof (cases "name \<in> RefName ` set (refs db)")
    case True
    with row show ?thesis by (simp add: current_target_def r find_replace)
  next
    case False
    with row find_absent [OF False] show ?thesis
      by (auto simp: current_target_def r find_append split: option.split)
  qed
qed

lemma upsert_ref_frame [simp]:
  "ref_history (upsert_ref name new ts actor pushID db) = ref_history db"
  "next_history (upsert_ref name new ts actor pushID db) = next_history db"
  by (simp_all add: upsert_ref_def Let_def)

lemma distinct_upsert:
  "distinct (map RefName (refs (upsert_ref name new ts actor pushID db))) = distinct (map RefName (refs db))"
proof -
  obtain row where row: "RefName row = name"
    and r: "refs (upsert_ref name new ts actor pushID db) =
      (if name \<in> RefName ` set (refs db) then map (\<lambda>r. if RefName r = name then row else r) (refs db) else refs db @ [row])"
    by (rule upsert_ref_cases)
  have "map RefName (map (\<lambda>r. if RefName r = name then row else r) (refs db)) = map RefName (refs db)"
    using row by simp
  then show ?thesis using row by (simp only: r split: if_split) auto
qed

lemma current_target_history [simp]:
  "current_target (db\<lparr>ref_history := h, next_history := k\<rparr>) n = current_target db n"
  by (simp add: current_target_def)

lemma ff_check_iff [simp]: "ff_check old current \<longleftrightarrow> old = current"
  by (cases old; cases current) (auto simp: ff_check_def)

lemma SetRefFF_moved:
  assumes "SetRefFF blake3 ts name old new actor pushID db = Ok db'" and "new \<noteq> []"
  shows "moved blake3 db name new db'"
  using assms unfolding SetRefFF_def ff_read_def ff_write_def
  by (auto simp: bind_go_Ok_iff moved_def ref_row_ok_def current_target_upsert distinct_upsert
      split: if_splits elim!: append_history_Ok)

lemma ForceSetRef_moved:
  assumes "ForceSetRef blake3 ts name new actor pushID db = Ok db'" and "new \<noteq> []"
  shows "moved blake3 db name new db'"
  using assms unfolding ForceSetRef_def Let_def
  by (auto simp: moved_def ref_row_ok_def current_target_upsert distinct_upsert elim!: append_history_Ok)

lemma DeleteRef_moved:
  assumes "DeleteRef blake3 ts name old actor pushID db = Ok db'" and "distinct (map RefName (refs db))"
  shows "moved blake3 db name [] db'"
proof -
  define db1 where "db1 = db\<lparr>refs := filter (\<lambda>r. RefName r \<noteq> name) (refs db)\<rparr>"
  have filt: "find (\<lambda>r. RefName r = n) (filter (\<lambda>r. RefName r \<noteq> name) xs) =
      (if n = name then None else find (\<lambda>r. RefName r = n) xs)" for n xs
    by (induction xs) auto
  have ct: "current_target db1 n = (if n = name then None else current_target db n)" for n
    by (simp add: current_target_def db1_def filt)
  have fr: "ref_history db1 = ref_history db" "next_history db1 = next_history db" by (simp_all add: db1_def)
  have d: "distinct (map RefName (refs db1))" using assms(2) by (simp add: db1_def distinct_map_filter)
  obtain current where cur: "current_target db name = Some current"
    and app: "append_history blake3 ts actor name (Some current) [] pushID [(''delete'', JBool True)]
       (map_option h_id (last_history db name)) db1 = Ok db'"
    using assms(1) by (auto simp: DeleteRef_def Let_def db1_def split: option.splits if_splits)
  show ?thesis
    using cur d assms(2) by (auto simp: moved_def ref_row_ok_def ct fr intro: append_history_Ok [OF app])
qed

definition db_inv :: "(bytes \<Rightarrow> bytes) \<Rightarrow> repo_db \<Rightarrow> bool" where
  "db_inv blake3 db \<longleftrightarrow> distinct (map RefName (refs db)) \<and>
     (\<forall>n. current_target db n = replay (ref_history db) n) \<and> history_ok blake3 (ref_history db) \<and>
     (\<forall>r \<in> set (ref_history db). h_seq r < next_history db)"

definition same_refs :: "repo_db \<Rightarrow> repo_db \<Rightarrow> bool" where
  "same_refs db db' \<longleftrightarrow> refs db' = refs db \<and> ref_history db' = ref_history db \<and> next_history db' = next_history db"

lemma moved_inv:
  assumes m: "moved blake3 db name new db'" and i: "db_inv blake3 db"
  shows "db_inv blake3 db'"
proof -
  obtain r where h: "ref_history db' = ref_history db @ [r]" and r: "h_ref r = name" "h_new r = new"
    and ok: "ref_row_ok blake3 db r"
    using m by (auto simp: moved_def)
  have fits: "row_fits blake3 (ref_history db) r"
    using ok i by (auto simp: row_fits_def ref_row_ok_def db_inv_def last_history_row)
  have ct: "current_target db' n = replay (ref_history db @ [r]) n" for n
    using m i r by (simp add: moved_def db_inv_def replay_snoc replay_row_def)
  have "h_seq r = next_history db" using ok by (simp add: ref_row_ok_def)
  moreover have "next_history db' = next_history db + 1" "distinct (map RefName (refs db'))"
    using m i by (simp_all add: moved_def db_inv_def)
  ultimately show ?thesis
    using i fits ct by (auto simp: db_inv_def h history_ok_snoc)
qed

lemma same_refs_inv: "same_refs db db' \<Longrightarrow> db_inv blake3 db \<Longrightarrow> db_inv blake3 db'"
  by (simp add: same_refs_def db_inv_def current_target_def)

lemma same_refs_refl: "same_refs db db"
  by (simp add: same_refs_def)

lemma same_refs_edges: "same_refs db0 db \<Longrightarrow> same_refs db0 (foldl (\<lambda>db e. InsertEdge e db) db es)"
  by (induction es arbitrary: db) (simp_all add: same_refs_def InsertEdge_def)

lemma same_refs_others:
  "same_refs db (snd (InsertSegment ts checksum blob db))"
  "same_refs db (InsertObject ts digest segmentID off len kind db)"
  "same_refs db (RecordNodePublish blake3 ts nodeID kind actor db)"
  "same_refs db (EnqueueForEnrichment ts nodeID kind db)"
  "same_refs db (snd (ClaimEnrichmentItem ts db))"
  "same_refs db (CompleteEnrichmentItem ts i errMsg db)"
  "same_refs db (InsertEdgesBatch es db)"
  "same_refs db (InsertAuthorshipRanges rs db)"
  by (simp_all add: same_refs_def InsertSegment_def InsertObject_def RecordNodePublish_def EnqueueForEnrichment_def
      ClaimEnrichmentItem_def CompleteEnrichmentItem_def InsertAuthorshipRanges_def Let_def split: option.split)
    (use same_refs_edges [OF same_refs_refl] in \<open>simp_all add: same_refs_def InsertEdgesBatch_def\<close>)

lemma db_step_inv:
  assumes "db_step blake3 db db'" and i: "db_inv blake3 db"
  shows "db_inv blake3 db'"
  using assms(1)
proof (cases rule: db_step.cases)
  case (push new ts name old actor pushID)
  then show ?thesis using i by (blast intro: moved_inv SetRefFF_moved)
next
  case (force new ts name actor pushID)
  then show ?thesis using i by (blast intro: moved_inv ForceSetRef_moved)
next
  case (delete ts name old actor pushID)
  then show ?thesis using i by (blast intro: moved_inv DeleteRef_moved dest: db_inv_def [THEN iffD1])
qed (simp_all add: same_refs_others [THEN same_refs_inv, OF i])

lemma db_reach_inv: "db_reach blake3 db \<Longrightarrow> db_inv blake3 db"
proof (induction rule: db_reach.induct)
  case start
  show ?case by (simp add: db_inv_def empty_db_def current_target_def replay_def)
qed (blast intro: db_step_inv)

text \<open>C8: whatever operations a repository has seen, its ref table is what its history says: every
  ref points to the new target of its last entry (or is absent after a deletion); and the history is
  a hash chain: each entry names the entry before it of the same ref, records the target it replaced,
  has the hash of its JSON as a fresh id, and has a larger sequence number than the entries before.\<close>

theorem refs_replay_history:
  assumes "db_reach blake3 db"
  shows "current_target db name = replay (ref_history db) name \<and> history_ok blake3 (ref_history db)"
  using db_reach_inv [OF assms] by (simp add: db_inv_def)

text \<open>A hash for the witnesses: the length and the sum of the bytes.\<close>

definition toy_hash :: "bytes \<Rightarrow> bytes" where
  "toy_hash b = [word_of_nat (length b), sum_list b]"

definition toy_db :: repo_db where
  "toy_db = (case SetRefFF toy_hash 5 ''snap.main'' None [1] ''al'' ''p'' empty_db of Ok db \<Rightarrow> db | _ \<Rightarrow> empty_db)"

lemma toy_push: "SetRefFF toy_hash 5 ''snap.main'' None [1] ''al'' ''p'' empty_db = Ok toy_db"
  by (simp add: toy_db_def SetRefFF_def ff_read_def ff_write_def append_history_def current_target_def upsert_ref_def
      empty_db_def Let_def last_history_def)

lemma toy_reach: "db_reach toy_hash toy_db"
  by (rule db_reach.step [OF db_reach.start db_step.push [OF _ toy_push]]) simp

theorem refs_replay_history_witness:
  "current_target toy_db ''snap.main'' = replay (ref_history toy_db) ''snap.main'' \<and>
   history_ok toy_hash (ref_history toy_db) \<and> current_target toy_db ''snap.main'' = Some [1]"
proof -
  have "current_target toy_db ''snap.main'' = Some [1]"
    using SetRefFF_moved [OF toy_push] by (simp add: moved_def)
  then show ?thesis using refs_replay_history [OF toy_reach, of "''snap.main''"] by simp
qed

text \<open>C9: a push is a compare-and-swap: with the wrong old target it fails and says so; otherwise it moves this
  ref and no other (the only other failure being an entry whose hash the history already has). \<close>

theorem SetRefFF_compare_and_swap:
  assumes "new \<noteq> []"
  shows "case SetRefFF blake3 ts name old new actor pushID db of
      Ok db' \<Rightarrow> current_target db name = old \<and> current_target db' = (current_target db)(name \<mapsto> new) \<and>
        (\<exists>r. ref_history db' = ref_history db @ [r] \<and> h_ref r = name \<and> h_old r = old \<and> h_new r = new)
    | Err ErrRefMismatch \<Rightarrow> current_target db name \<noteq> old
    | Err e \<Rightarrow> e = UniqueConstraint \<and> current_target db name = old
    | Panic \<Rightarrow> False"
proof (cases "current_target db name = old")
  case False
  then show ?thesis by (auto simp: SetRefFF_def ff_read_def go_simps)
next
  case True
  show ?thesis
  proof (cases "SetRefFF blake3 ts name old new actor pushID db")
    case (Ok db')
    with SetRefFF_moved [OF Ok assms] True show ?thesis
      by (auto simp: moved_def ref_row_ok_def fun_eq_iff assms)
  qed (use True in \<open>auto simp: SetRefFF_def ff_read_def ff_write_def append_history_def Let_def go_simps split: if_splits\<close>)
qed

theorem SetRefFF_compare_and_swap_witness:
  "(SetRefFF toy_hash 6 ''snap.main'' (Some [1]) [2] ''bo'' ''q'' toy_db \<noteq> Err ErrRefMismatch) \<and>
   (SetRefFF toy_hash 6 ''snap.main'' None [2] ''bo'' ''q'' toy_db = Err ErrRefMismatch)"
proof -
  have t: "current_target toy_db ''snap.main'' = Some [1]"
    using SetRefFF_moved [OF toy_push] by (simp add: moved_def)
  show ?thesis
    using SetRefFF_compare_and_swap [where new = "[2]" and ?blake3.0 = toy_hash and ts = 6 and name = "''snap.main''" and old = "Some [1]" and actor = "''bo''" and pushID = "''q''" and db = toy_db] t
    by (auto simp: SetRefFF_def ff_read_def go_simps)
qed

lemma last_row_snoc: "last_row (rs @ [r]) name = (if h_ref r = name then Some r else last_row rs name)"
proof (cases "filter (\<lambda>r. h_ref r = name) rs")
  case (Cons x xs)
  then show ?thesis by (simp add: last_row_def)
qed (simp add: last_row_def)

lemma last_row_in: "last_row rs name = Some q \<Longrightarrow> q \<in> set rs"
proof (induction rs rule: rev_induct)
  case (snoc x xs)
  then show ?case by (auto simp: last_row_snoc split: if_splits)
qed (simp add: last_row_def)

lemma last_take_nth: "0 < k \<Longrightarrow> k \<le> length l \<Longrightarrow> last (take k l) = l ! (k - 1)"
  by (subst last_conv_nth) (auto simp: min_def)

text \<open>C31: two pushes to a Postgres repository race: transactions run at READ COMMITTED, so both can read
  the ref before either writes. If they do, the second push succeeds although the ref has moved away from the
  target it expects (run after the first commit it would have been refused), the first push is lost, and the two
  history entries claim the same parent, so the history is no longer a chain.\<close>

theorem concurrent_pushes_lose_an_update:
  assumes "ff_read name old db = Ok parent"
    and w1: "ff_write blake3 t1 name old new1 a1 p1 parent db = Ok db1"
    and w2: "ff_write blake3 t2 name old new2 a2 p2 parent db1 = Ok db2"
    and "new1 \<noteq> []" and "new2 \<noteq> []" and "old \<noteq> Some new1"
  shows "current_target db2 name = Some new2 \<and>
    SetRefFF blake3 t2 name old new2 a2 p2 db1 = Err ErrRefMismatch \<and> \<not> history_ok blake3 (ref_history db2)"
proof -
  have s1: "SetRefFF blake3 t1 name old new1 a1 p1 db = Ok db1"
    using assms(1) w1 by (simp add: SetRefFF_def go_simps)
  have m1: "moved blake3 db name new1 db1" by (rule SetRefFF_moved [OF s1 assms(4)])
  then obtain r where r: "ref_history db1 = ref_history db @ [r]" "h_ref r = name" "h_id r \<notin> set (map h_id (ref_history db))"
    by (auto simp: moved_def ref_row_ok_def)
  from m1 have c1: "current_target db1 name = Some new1" using assms(4) by (simp add: moved_def)
  have parent: "parent = map_option h_id (last_row (ref_history db) name)"
    using assms(1) by (auto simp: ff_read_def last_history_row split: if_splits)
  obtain q where q: "ref_history db2 = ref_history db1 @ [q]" "h_parent q = parent" "h_ref q = name"
    and c2: "current_target db2 name = Some new2"
    using w2 unfolding ff_write_def by (auto simp: current_target_upsert elim!: append_history_Ok)
  have "last_row (ref_history db1) name = Some r" using r by (simp add: last_row_snoc)
  moreover have "parent \<noteq> Some (h_id r)"
  proof
    assume "parent = Some (h_id r)"
    then obtain z where "last_row (ref_history db) name = Some z" "h_id z = h_id r" by (auto simp: parent)
    with last_row_in have "h_id r \<in> h_id ` set (ref_history db)" by (metis image_eqI)
    with r(3) show False by simp
  qed
  ultimately have "\<not> row_fits blake3 (ref_history db1) q" using q by (simp add: row_fits_def)
  then have "\<not> history_ok blake3 (ref_history db2)" by (simp add: q history_ok_snoc)
  moreover have "SetRefFF blake3 t2 name old new2 a2 p2 db1 = Err ErrRefMismatch"
    using c1 assms(6) by (auto simp: SetRefFF_def ff_read_def go_simps)
  ultimately show ?thesis using c2 by blast
qed

theorem concurrent_pushes_lose_an_update_witness:
  "\<exists>db1 db2. ff_write toy_hash 6 ''m'' None [1] ''al'' ''p'' None empty_db = Ok db1 \<and>
     ff_write toy_hash 70 ''m'' None [2] ''bo'' ''qq'' None db1 = Ok db2 \<and>
     current_target db2 ''m'' = Some [2] \<and> \<not> history_ok toy_hash (ref_history db2)"
proof -
  define db1 where "db1 = (case ff_write toy_hash 6 ''m'' None [1] ''al'' ''p'' None empty_db of Ok db \<Rightarrow> db | _ \<Rightarrow> empty_db)"
  define db2 where "db2 = (case ff_write toy_hash 70 ''m'' None [2] ''bo'' ''qq'' None db1 of Ok db \<Rightarrow> db | _ \<Rightarrow> empty_db)"
  have r: "ff_read ''m'' None empty_db = Ok None" by code_simp
  have w1: "ff_write toy_hash 6 ''m'' None [1] ''al'' ''p'' None empty_db = Ok db1"
    unfolding db1_def by code_simp
  have w2: "ff_write toy_hash 70 ''m'' None [2] ''bo'' ''qq'' None db1 = Ok db2"
    unfolding db2_def db1_def by code_simp
  show ?thesis
    using w1 w2 concurrent_pushes_lose_an_update [OF r w1 w2] by auto
qed

text \<open>Paging through the history with the last sequence number seen.\<close>

lemma history_ok_sorted: "history_ok blake3 rs \<Longrightarrow> sorted_wrt (\<lambda>a b. h_seq a < h_seq b) rs"
  by (induction rs rule: rev_induct) (auto simp: history_ok_snoc row_fits_def sorted_wrt_append)

lemma filter_drop_sorted:
  assumes "sorted_wrt (\<lambda>a b. h_seq a < h_seq b) l" and "k \<le> length l" and "0 < k"
  shows "filter (\<lambda>r. h_seq (last (take k l)) < h_seq r) l = drop k l"
proof -
  have last: "last (take k l) = l ! (k - 1)" using assms by (simp add: last_take_nth)
  have s: "sorted_wrt (\<lambda>a b. h_seq a < h_seq b) (take k l @ drop k l)" using assms(1) by simp
  have m: "l ! (k - 1) \<in> set (take k l)" using assms(2,3) by (auto simp: in_set_conv_nth intro!: exI [of _ "k - 1"])
  have "filter (\<lambda>r. h_seq (l ! (k - 1)) < h_seq r) (drop k l) = drop k l"
    using s [unfolded sorted_wrt_append] m by (intro filter_True) blast
  moreover have "filter (\<lambda>r. h_seq (l ! (k - 1)) < h_seq r) (take k l) = []"
  proof (rule filter_False, rule ballI)
    fix r assume "r \<in> set (take k l)"
    then obtain i where i: "i < k" "i < length l" "r = l ! i" by (auto simp: in_set_conv_nth)
    show "\<not> h_seq (l ! (k - 1)) < h_seq r"
    proof (cases "i = k - 1")
      case False
      then have "h_seq (l ! i) < h_seq (l ! (k - 1))"
        using assms i by (intro sorted_wrt_nth_less [OF assms(1)]) auto
      then show ?thesis using i(3) by simp
    qed (use i in simp)
  qed
  ultimately have "filter (\<lambda>r. h_seq (l ! (k - 1)) < h_seq r) (take k l @ drop k l) = drop k l"
    by (simp only: filter_append append_Nil)
  then show ?thesis by (simp add: last)
qed

lemma history_after_after:
  "seq \<ge> a \<Longrightarrow> history_after db f seq = filter (\<lambda>r. seq < h_seq r) (history_after db f a)"
  by (auto simp: history_after_def intro: filter_cong)

text \<open>The history can be read in pages through the methods: the page after the last entry of a page
  continues it, so that the two are the longer page. The standalone functions, which the HTTP log endpoint
  uses, page downwards but filter upwards: the page after the last entry of a page has only entries
  that this page has already shown, so that older entries are never reached.\<close>

lemma history_pages:
  assumes "db_reach blake3 db" and "n > 0" and "m > 0"
    and "length (history_after db f a) > nat n"
  shows "DB_GetRefHistory db f a n @ DB_GetRefHistory db f (h_seq (last (DB_GetRefHistory db f a n))) m =
           DB_GetRefHistory db f a (n + m) \<and>
         set (GetRefHistory db f (h_seq (last (GetRefHistory db f a n))) m) \<subseteq> set (GetRefHistory db f a n)"
proof -
  let ?l = "history_after db f a"
  have s: "sorted_wrt (\<lambda>a b. h_seq a < h_seq b) ?l"
    using history_ok_sorted db_reach_inv [OF assms(1)] by (auto simp: history_after_def db_inv_def sorted_wrt_filter)
  have k: "0 < nat n" "nat n \<le> length ?l" using assms by auto
  have ge: "\<And>r. r \<in> set ?l \<Longrightarrow> a \<le> h_seq r" by (auto simp: history_after_def)
  have in1: "last (take (nat n) ?l) \<in> set ?l" and in2: "last (take (nat n) (rev ?l)) \<in> set ?l"
    using k by (metis in_set_takeD last_in_set length_greater_0_conv not_gr_zero take_eq_Nil less_le_trans,
        metis in_set_takeD last_in_set length_greater_0_conv not_gr_zero take_eq_Nil less_le_trans set_rev rev_is_Nil_conv)
  have "history_after db f (h_seq (last (take (nat n) ?l))) = drop (nat n) ?l"
    using filter_drop_sorted [OF s k(2,1)] history_after_after [OF ge [OF in1], of db f] by simp
  then have up: "DB_GetRefHistory db f a n @ DB_GetRefHistory db f (h_seq (last (DB_GetRefHistory db f a n))) m =
      DB_GetRefHistory db f a (n + m)"
    using assms(2,3) by (simp add: DB_GetRefHistory_def history_limit_def nat_add_distrib take_add)
  let ?j = "length ?l - nat n"
  have last: "last (take (nat n) (rev ?l)) = ?l ! ?j"
    using k by (simp add: last_take_nth rev_nth)
  have "last (take (Suc ?j) ?l) = ?l ! ?j" using k by (simp add: last_take_nth)
  moreover have "filter (\<lambda>r. h_seq (last (take (Suc ?j) ?l)) < h_seq r) ?l = drop (Suc ?j) ?l"
    using k by (intro filter_drop_sorted [OF s]) auto
  ultimately have d: "history_after db f (h_seq (?l ! ?j)) = drop (Suc ?j) ?l"
    using history_after_after [OF ge [OF in2], of db f] by (simp add: last)
  have "set (drop (Suc ?j) ?l) \<subseteq> set (drop ?j ?l)" by (simp add: set_drop_subset_set_drop)
  also have "\<dots> = set (take (nat n) (rev ?l))" using k by (simp add: take_rev)
  finally show ?thesis
    using up assms(2,3) set_take_subset [of "nat m" "rev (drop (Suc ?j) ?l)"]
    by (auto simp: GetRefHistory_def history_limit_def last d)
qed

definition toy_db2 :: repo_db where
  "toy_db2 = (case SetRefFF toy_hash 70 ''snap.main'' (Some [1]) [2] ''bo'' ''qq'' toy_db of Ok db \<Rightarrow> db | _ \<Rightarrow> empty_db)"

lemma toy_push2: "SetRefFF toy_hash 70 ''snap.main'' (Some [1]) [2] ''bo'' ''qq'' toy_db = Ok toy_db2"
  unfolding toy_db2_def by code_simp

lemma history_pages_witness:
  "DB_GetRefHistory toy_db2 [] 0 1 @ DB_GetRefHistory toy_db2 [] (h_seq (last (DB_GetRefHistory toy_db2 [] 0 1))) 1 =
     DB_GetRefHistory toy_db2 [] 0 (1 + 1) \<and>
   map h_seq (DB_GetRefHistory toy_db2 [] 0 2) = [1, 2] \<and>
   map h_seq (GetRefHistory toy_db2 [] 0 1) = [2] \<and> GetRefHistory toy_db2 [] 2 1 = []"
proof -
  have r: "db_reach toy_hash toy_db2"
    by (rule db_reach.step [OF toy_reach db_step.push [OF _ toy_push2]]) simp
  have l: "length (history_after toy_db2 [] 0) > nat 1" by code_simp
  have v: "map h_seq (DB_GetRefHistory toy_db2 [] 0 2) = [1, 2]"
    "map h_seq (GetRefHistory toy_db2 [] 0 1) = [2]" "GetRefHistory toy_db2 [] 2 1 = []" by code_simp+
  show ?thesis using history_pages [OF r _ _ l, of 1] v by simp
qed

end
