(* ===== verification/PgStore.thy ===== *)
theory PgStore
  imports RefStore
begin

text \<open>
  The shared Postgres database of the data plane (\<open>src/kailab/store/postgres.go\<close>, \<open>schema_pg.sql\<close>): all
  repositories in the same tables, every row with the id of its repository. A table is the list of its rows,
  each paired with that id, in insertion order; the sequences behind the serial keys are shared too. The blobs of segments
  are also put into an external store when one is configured (\<open>src/kailab/blobstore/blobstore.go\<close>); the cloud
  store behind it is a parameter. Names are compared in byte order (collation C).

  What a repository sees of these tables is a repository database in the sense of \<open>RefStore\<close>; the section
  at the end shows that every operation acts on that view as the SQLite operation does, and leaves the views of the other
  repositories alone.
\<close>

section \<open>Tables\<close>

type_synonym 'r table = "(string \<times> 'r) list"

record pg_db =
  t_segments :: "segment_row table"
  t_next_segment :: int
  t_objects :: "object_info table"
  t_refs :: "ref_row table"
  t_history :: "history_row table"
  t_next_history :: int
  t_publish :: "publish_row table"
  t_next_publish :: int
  t_enrich :: "enrich_row table"
  t_next_enrich :: int
  t_edges :: "edge table"
  t_authorship :: "authorship_range table"

text \<open>\<open>WHERE repo_id = r AND P\<close>.\<close>

definition at_repo :: "string \<Rightarrow> ('r \<Rightarrow> bool) \<Rightarrow> string \<times> 'r \<Rightarrow> bool" where
  "at_repo repo P = (\<lambda>(r, row). r = repo \<and> P row)"

definition pg_find :: "string \<Rightarrow> ('r \<Rightarrow> bool) \<Rightarrow> 'r table \<Rightarrow> 'r option" where
  "pg_find repo P t = map_option snd (find (at_repo repo P) t)"

definition pg_select :: "string \<Rightarrow> ('r \<Rightarrow> bool) \<Rightarrow> 'r table \<Rightarrow> 'r list" where
  "pg_select repo P t = map snd (filter (at_repo repo P) t)"

definition pg_update :: "string \<Rightarrow> ('r \<Rightarrow> bool) \<Rightarrow> ('r \<Rightarrow> 'r) \<Rightarrow> 'r table \<Rightarrow> 'r table" where
  "pg_update repo P f t = map (\<lambda>x. if at_repo repo P x then (fst x, f (snd x)) else x) t"

section \<open>The external blob store\<close>

record blob_api =
  IsExternal :: bool
  bs_Get :: "string \<Rightarrow> string \<Rightarrow> bytes option"
  bs_GetRange :: "string \<Rightarrow> string \<Rightarrow> 64 word \<Rightarrow> 64 word \<Rightarrow> bytes option"

definition InlineStore :: blob_api where
  "InlineStore = \<lparr>IsExternal = False, bs_Get = (\<lambda>_ _. None), bs_GetRange = (\<lambda>_ _ _ _. None)\<rparr>"

definition SegmentKey :: "int \<Rightarrow> string" where
  "SegmentKey segmentID = ''segments/'' @ show_int segmentID @ ''.zst''"

section \<open>Segments and objects\<close>

text \<open>The new id, what is put into the external store, and the tables. A failed put is only logged.\<close>

definition PgInsertSegmentTx ::
  "blob_api \<Rightarrow> int \<Rightarrow> string \<Rightarrow> bytes \<Rightarrow> bytes \<Rightarrow> pg_db \<Rightarrow> int \<times> (string \<times> bytes) option \<times> pg_db" where
  "PgInsertSegmentTx bs ts repo checksum blob db =
     (let sid = t_next_segment db in
      (sid, if IsExternal bs then Some (SegmentKey sid, blob) else None,
       db\<lparr>t_segments := t_segments db @ [(repo, \<lparr>seg_id = sid, seg_ts = ts, seg_checksum = checksum,
            seg_size = int (length blob), seg_blob = blob\<rparr>)],
          t_next_segment := sid + 1\<rparr>))"

definition PgInsertObjectTx ::
  "int \<Rightarrow> string \<Rightarrow> bytes \<Rightarrow> int \<Rightarrow> 64 word \<Rightarrow> 64 word \<Rightarrow> string \<Rightarrow> pg_db \<Rightarrow> pg_db" where
  "PgInsertObjectTx ts repo digest segmentID off len kind db =
     (if pg_find repo (\<lambda>r. Digest r = digest) (t_objects db) \<noteq> None then db
      else db\<lparr>t_objects := t_objects db @ [(repo, \<lparr>Digest = digest, SegmentID = segmentID, Off = off, Len = len,
        ObjKind = kind, CreatedAt = ts\<rparr>)]\<rparr>)"

definition PgGetObjectInfo :: "pg_db \<Rightarrow> string \<Rightarrow> bytes \<Rightarrow> (store_error, object_info) go" where
  "PgGetObjectInfo db repo digest = (case pg_find repo (\<lambda>r. Digest r = digest) (t_objects db) of
     Some r \<Rightarrow> Ok r | None \<Rightarrow> Err ErrObjectNotFound)"

definition PgGetSegmentBlobByID :: "blob_api \<Rightarrow> pg_db \<Rightarrow> string \<Rightarrow> int \<Rightarrow> (store_error, bytes) go" where
  "PgGetSegmentBlobByID bs db repo segmentID =
     (case (if IsExternal bs then bs_Get bs repo (SegmentKey segmentID) else None) of
        Some (b # data) \<Rightarrow> Ok (b # data)
      | _ \<Rightarrow> (case pg_find repo (\<lambda>r. seg_id r = segmentID) (t_segments db) of
           Some r \<Rightarrow> Ok (seg_blob r) | None \<Rightarrow> Err ErrSegmentNotFound))"

definition PgReadObjectContentDB :: "blob_api \<Rightarrow> pg_db \<Rightarrow> string \<Rightarrow> bytes \<Rightarrow> (store_error, bytes) go" where
  "PgReadObjectContentDB bs db repo digest =
     bind_go (PgGetObjectInfo db repo digest) (\<lambda>info.
       case (if IsExternal bs then bs_GetRange bs repo (SegmentKey (SegmentID info)) (Off info) (Len info) else None) of
         Some (b # data) \<Rightarrow> Ok (b # data)
       | _ \<Rightarrow> bind_go (PgGetSegmentBlobByID bs db repo (SegmentID info)) (\<lambda>blob. slice64 blob (Off info) (Len info)))"

function pg_has_batches :: "pg_db \<Rightarrow> string \<Rightarrow> bytes list \<Rightarrow> string list \<Rightarrow> string list" where
  "pg_has_batches db repo digests res = (if digests = [] then res
     else pg_has_batches db repo (drop 500 digests)
            (map (\<lambda>r. hex_encode (Digest r)) (pg_select repo (\<lambda>r. Digest r \<in> set (take 500 digests)) (t_objects db)) @ res))"
  by pat_completeness auto
termination by (relation "measure (\<lambda>(db, repo, ds, r). length ds)") auto

declare pg_has_batches.simps [simp del]

definition PgHasObjects :: "pg_db \<Rightarrow> string \<Rightarrow> bytes list \<Rightarrow> string list" where
  "PgHasObjects db repo digests = pg_has_batches db repo digests []"

section \<open>Reading many objects\<close>

text \<open>The rows are grouped by segment; a segment that the external store cannot serve completely is read
  whole. The order in which the segments are visited does not matter.\<close>

definition group_segments :: "object_info list \<Rightarrow> (int, object_info list) gomap" where
  "group_segments rows =
     foldl (\<lambda>m r. AList.map_default (SegmentID r) [r] (\<lambda>rs. rs @ [r]) m) [] rows"

fun range_reads :: "blob_api \<Rightarrow> string \<Rightarrow> object_info list \<Rightarrow> (string, bytes \<times> string) gomap \<Rightarrow>
    bool \<times> (string, bytes \<times> string) gomap" where
  "range_reads bs repo [] res = (True, res)"
| "range_reads bs repo (r # rs) res =
     (case bs_GetRange bs repo (SegmentKey (SegmentID r)) (Off r) (Len r) of
        Some (b # data) \<Rightarrow> range_reads bs repo rs (AList.update (hex_encode (Digest r)) (b # data, ObjKind r) res)
      | _ \<Rightarrow> (False, res))"

fun inline_reads :: "bytes \<Rightarrow> object_info list \<Rightarrow> (string, bytes \<times> string) gomap \<Rightarrow>
    (store_error, (string, bytes \<times> string) gomap) go" where
  "inline_reads blob [] res = Ok res"
| "inline_reads blob (r # rs) res =
     (if sint (Off r + Len r) > int (length blob) then inline_reads blob rs res
      else if sint (Len r) < 0 \<or> sint (Off r) < 0 \<or> sint (Off r + Len r) < sint (Off r) then Panic
      else inline_reads blob rs (AList.update (hex_encode (Digest r))
             (slice (nat (sint (Off r))) (nat (sint (Off r + Len r))) blob, ObjKind r) res))"

fun read_segments :: "blob_api \<Rightarrow> pg_db \<Rightarrow> string \<Rightarrow> (int, object_info list) gomap \<Rightarrow> (string, bytes \<times> string) gomap \<Rightarrow>
    (store_error, (string, bytes \<times> string) gomap) go" where
  "read_segments bs db repo [] res = Ok res"
| "read_segments bs db repo ((segmentID, rows) # segs) res =
     (case (if IsExternal bs then range_reads bs repo rows res else (False, res)) of
        (True, res) \<Rightarrow> read_segments bs db repo segs res
      | (False, res) \<Rightarrow>
          (case PgGetSegmentBlobByID bs db repo segmentID of
             Ok blob \<Rightarrow> bind_go (inline_reads blob rows res) (read_segments bs db repo segs)
           | _ \<Rightarrow> read_segments bs db repo segs res))"

definition PgBatchGetObjects ::
  "blob_api \<Rightarrow> pg_db \<Rightarrow> string \<Rightarrow> bytes list \<Rightarrow> (store_error, (string, bytes \<times> string) gomap) go" where
  "PgBatchGetObjects bs db repo digests =
     (if digests = [] then Ok []
      else read_segments bs db repo (group_segments (pg_select repo (\<lambda>r. Digest r \<in> set digests) (t_objects db))) [])"

section \<open>Refs\<close>

definition PgGetRef :: "pg_db \<Rightarrow> string \<Rightarrow> string \<Rightarrow> (store_error, ref_row) go" where
  "PgGetRef db repo name = (case pg_find repo (\<lambda>r. RefName r = name) (t_refs db) of
     Some r \<Rightarrow> Ok r | None \<Rightarrow> Err ErrRefNotFound)"

text \<open>Postgres' \<open>LIKE\<close> distinguishes case, and a backslash quotes the next character.\<close>

fun pg_like :: "string \<Rightarrow> string \<Rightarrow> bool" where
  "pg_like [] s = (s = [])"
| "pg_like (p # ps) s =
     (if p = CHR ''%'' then (case s of [] \<Rightarrow> pg_like ps [] | c # cs \<Rightarrow> pg_like ps s \<or> pg_like (p # ps) cs)
      else if p = CHR 0x5C then
        (case ps of [] \<Rightarrow> False
         | q # qs \<Rightarrow> (case s of [] \<Rightarrow> False | c # cs \<Rightarrow> q = c \<and> pg_like qs cs))
      else (case s of [] \<Rightarrow> False | c # cs \<Rightarrow> (p = CHR ''_'' \<or> p = c) \<and> pg_like ps cs))"

definition PgListRefs :: "pg_db \<Rightarrow> string \<Rightarrow> string \<Rightarrow> ref_row list" where
  "PgListRefs db repo prefix = sort_key RefName
     (if prefix = [] then pg_select repo (\<lambda>r. True) (t_refs db)
      else pg_select repo (\<lambda>r. pg_like (prefix @ ''%'') (RefName r)) (t_refs db))"

definition pg_target :: "pg_db \<Rightarrow> string \<Rightarrow> string \<Rightarrow> bytes option" where
  "pg_target db repo name = map_option Target (pg_find repo (\<lambda>r. RefName r = name) (t_refs db))"

definition pg_last_history :: "pg_db \<Rightarrow> string \<Rightarrow> string \<Rightarrow> bytes option" where
  "pg_last_history db repo name =
     (case pg_select repo (\<lambda>r. h_ref r = name) (t_history db) of [] \<Rightarrow> None | l \<Rightarrow> Some (h_id (last l)))"

definition pg_upsert_ref :: "string \<Rightarrow> string \<Rightarrow> bytes \<Rightarrow> int \<Rightarrow> string \<Rightarrow> string \<Rightarrow> pg_db \<Rightarrow> pg_db" where
  "pg_upsert_ref repo name new ts actor pushID db =
     (let row = \<lparr>RefName = name, Target = new, UpdatedAt = ts, RefActor = actor, PushID = pushID\<rparr> in
      if pg_find repo (\<lambda>r. RefName r = name) (t_refs db) \<noteq> None
      then db\<lparr>t_refs := pg_update repo (\<lambda>r. RefName r = name) (\<lambda>r. row) (t_refs db)\<rparr>
      else db\<lparr>t_refs := t_refs db @ [(repo, row)]\<rparr>)"

definition pg_append_history ::
  "(bytes \<Rightarrow> bytes) \<Rightarrow> int \<Rightarrow> string \<Rightarrow> string \<Rightarrow> string \<Rightarrow> bytes option \<Rightarrow> bytes \<Rightarrow> string \<Rightarrow> (string \<times> jval) list \<Rightarrow>
   bytes option \<Rightarrow> pg_db \<Rightarrow> (store_error, pg_db) go" where
  "pg_append_history blake3 ts repo actor name old new pushID extra parent db =
     (let entryJSON = history_json ts actor name old new pushID extra parent;
          entryID = blake3 (to_bytes entryJSON)
      in if pg_find repo (\<lambda>r. h_id r = entryID) (t_history db) \<noteq> None then Err UniqueConstraint
         else Ok (db\<lparr>t_history := t_history db @ [(repo, \<lparr>h_seq = t_next_history db, h_id = entryID, h_parent = parent,
                h_time = ts, h_actor = actor, h_ref = name, h_old = old, h_new = new, h_meta = entryJSON\<rparr>)],
              t_next_history := t_next_history db + 1\<rparr>))"

definition PgSetRefFF ::
  "(bytes \<Rightarrow> bytes) \<Rightarrow> int \<Rightarrow> string \<Rightarrow> string \<Rightarrow> bytes option \<Rightarrow> bytes \<Rightarrow> string \<Rightarrow> string \<Rightarrow> pg_db \<Rightarrow> (store_error, pg_db) go" where
  "PgSetRefFF blake3 ts repo name old new actor pushID db =
     (let currentTarget = pg_target db repo name in
      if old = None \<and> currentTarget \<noteq> None then Err ErrRefMismatch
      else if old \<noteq> None \<and> (currentTarget = None \<or> old \<noteq> currentTarget) then Err ErrRefMismatch
      else let parentID = pg_last_history db repo name;
               db = pg_upsert_ref repo name new ts actor pushID db
           in pg_append_history blake3 ts repo actor name old new pushID [] parentID db)"

definition PgForceSetRef ::
  "(bytes \<Rightarrow> bytes) \<Rightarrow> int \<Rightarrow> string \<Rightarrow> string \<Rightarrow> bytes \<Rightarrow> string \<Rightarrow> string \<Rightarrow> pg_db \<Rightarrow> (store_error, pg_db) go" where
  "PgForceSetRef blake3 ts repo name new actor pushID db =
     (let currentTarget = pg_target db repo name; parentID = pg_last_history db repo name;
          db = pg_upsert_ref repo name new ts actor pushID db
      in pg_append_history blake3 ts repo actor name currentTarget new pushID [(''force'', JBool True)] parentID db)"

definition PgDeleteRef ::
  "(bytes \<Rightarrow> bytes) \<Rightarrow> int \<Rightarrow> string \<Rightarrow> string \<Rightarrow> bytes option \<Rightarrow> string \<Rightarrow> string \<Rightarrow> pg_db \<Rightarrow> (store_error, pg_db) go" where
  "PgDeleteRef blake3 ts repo name old actor pushID db =
     (case pg_target db repo name of
        None \<Rightarrow> Err ErrRefNotFound
      | Some currentTarget \<Rightarrow>
          if old \<noteq> None \<and> old \<noteq> Some currentTarget then Err ErrRefMismatch
          else let parentID = pg_last_history db repo name;
                   db = db\<lparr>t_refs := filter (\<lambda>x. \<not> at_repo repo (\<lambda>r. RefName r = name) x) (t_refs db)\<rparr>
               in pg_append_history blake3 ts repo actor name (Some currentTarget) [] pushID [(''delete'', JBool True)] parentID db)"

definition pg_history_after :: "pg_db \<Rightarrow> string \<Rightarrow> string \<Rightarrow> int \<Rightarrow> history_row list" where
  "pg_history_after db repo refFilter afterSeq =
     pg_select repo (\<lambda>r. (refFilter = [] \<or> h_ref r = refFilter) \<and> h_seq r > afterSeq) (t_history db)"

definition PgDB_GetRefHistory :: "pg_db \<Rightarrow> string \<Rightarrow> string \<Rightarrow> int \<Rightarrow> int \<Rightarrow> history_row list" where
  "PgDB_GetRefHistory db repo refFilter afterSeq limit = take (history_limit limit) (pg_history_after db repo refFilter afterSeq)"

definition PgGetRefHistory :: "pg_db \<Rightarrow> string \<Rightarrow> string \<Rightarrow> int \<Rightarrow> int \<Rightarrow> history_row list" where
  "PgGetRefHistory db repo refFilter afterSeq limit =
     take (history_limit limit) (rev (pg_history_after db repo refFilter afterSeq))"

definition PgGetLogHead :: "pg_db \<Rightarrow> string \<Rightarrow> bytes option" where
  "PgGetLogHead db repo = (case pg_select repo (\<lambda>r. True) (t_history db) of [] \<Rightarrow> None | l \<Rightarrow> Some (h_id (last l)))"

section \<open>Announcements and enrichment\<close>

text \<open>The sequence gives a number even when the insert then meets a conflict.\<close>

definition PgRecordNodePublish ::
  "(bytes \<Rightarrow> bytes) \<Rightarrow> int \<Rightarrow> string \<Rightarrow> bytes \<Rightarrow> string \<Rightarrow> string \<Rightarrow> pg_db \<Rightarrow> pg_db" where
  "PgRecordNodePublish blake3 ts repo nodeID kind actor db =
     (let parentID = (case pg_select repo (\<lambda>r. True) (t_publish db) of [] \<Rightarrow> None | l \<Rightarrow> Some (p_id (last l)));
          entryJSON = marshal_map ([(''time'', JInt ts), (''actor'', JStr actor),
            (''nodeId'', JStr (hex_encode nodeID)), (''kind'', JStr kind)] @
            (case parentID of None \<Rightarrow> [] | Some p \<Rightarrow> [(''parent'', JStr (hex_encode p))]));
          entryID = blake3 (to_bytes entryJSON);
          row = \<lparr>p_seq = t_next_publish db, p_id = entryID, p_parent = parentID, p_time = ts, p_actor = actor,
                 p_node = nodeID, p_kind = kind\<rparr>;
          db = db\<lparr>t_next_publish := t_next_publish db + 1\<rparr>
      in if pg_find repo (\<lambda>r. p_id r = entryID) (t_publish db) \<noteq> None then db
         else db\<lparr>t_publish := t_publish db @ [(repo, row)]\<rparr>)"

definition PgEnqueueForEnrichmentTx :: "int \<Rightarrow> string \<Rightarrow> bytes \<Rightarrow> string \<Rightarrow> pg_db \<Rightarrow> pg_db" where
  "PgEnqueueForEnrichmentTx ts repo nodeID kind db =
     db\<lparr>t_enrich := t_enrich db @ [(repo, \<lparr>e_id = t_next_enrich db, e_node = nodeID, e_kind = kind, e_status = Pending,
          e_created = ts, e_started = None, e_finished = None, e_error = None\<rparr>)],
        t_next_enrich := t_next_enrich db + 1\<rparr>"

text \<open>One claim at a time; concurrent claims skip the locked row.\<close>

definition PgClaimEnrichmentItem :: "int \<Rightarrow> string \<Rightarrow> pg_db \<Rightarrow> enrich_row option \<times> pg_db" where
  "PgClaimEnrichmentItem ts repo db =
     (case pg_find repo (\<lambda>r. e_status r = Pending) (t_enrich db) of
        None \<Rightarrow> (None, db)
      | Some item \<Rightarrow>
          (Some (item\<lparr>e_status := Processing, e_started := Some ts\<rparr>),
           db\<lparr>t_enrich := pg_update repo (\<lambda>r. e_id r = e_id item)
                (\<lambda>r. r\<lparr>e_status := Processing, e_started := Some ts\<rparr>) (t_enrich db)\<rparr>))"

definition PgCompleteEnrichmentItem :: "int \<Rightarrow> string \<Rightarrow> int \<Rightarrow> string \<Rightarrow> pg_db \<Rightarrow> pg_db" where
  "PgCompleteEnrichmentItem ts repo i errMsg db =
     db\<lparr>t_enrich := pg_update repo (\<lambda>r. e_id r = i)
          (\<lambda>r. r\<lparr>e_status := (if errMsg \<noteq> [] then Failed else Done), e_finished := Some ts,
                 e_error := (if errMsg \<noteq> [] then Some errMsg else None)\<rparr>) (t_enrich db)\<rparr>"

section \<open>Edges and authorship\<close>

text \<open>The columns of a primary key cannot be null in Postgres, and \<open>ON CONFLICT\<close> does not cover that
  error: an edge outside a snapshot, which SQLite stores, is refused.\<close>

definition PgInsertEdge :: "string \<Rightarrow> edge \<Rightarrow> pg_db \<Rightarrow> (store_error, pg_db) go" where
  "PgInsertEdge repo e db =
     (if At e = None then Err NotNullConstraint
      else if pg_find repo (\<lambda>x. x = e) (t_edges db) \<noteq> None then Ok db
      else Ok (db\<lparr>t_edges := t_edges db @ [(repo, e)]\<rparr>))"

fun PgInsertEdgesTx :: "string \<Rightarrow> edge list \<Rightarrow> pg_db \<Rightarrow> (store_error, pg_db) go" where
  "PgInsertEdgesTx repo [] db = Ok db"
| "PgInsertEdgesTx repo (e # es) db = bind_go (PgInsertEdge repo e db) (PgInsertEdgesTx repo es)"

definition PgGetEdgesFromDB :: "pg_db \<Rightarrow> string \<Rightarrow> bytes \<Rightarrow> string \<Rightarrow> edge list" where
  "PgGetEdgesFromDB db repo s ty = pg_select repo (\<lambda>e. Src e = s \<and> (ty = [] \<or> EdgeType e = ty)) (t_edges db)"

definition PgGetEdgesToDB :: "pg_db \<Rightarrow> string \<Rightarrow> bytes \<Rightarrow> string \<Rightarrow> edge list" where
  "PgGetEdgesToDB db repo d ty = pg_select repo (\<lambda>e. Dst e = d \<and> (ty = [] \<or> EdgeType e = ty)) (t_edges db)"

definition PgGetEdgesBySnapshotDB :: "pg_db \<Rightarrow> string \<Rightarrow> bytes \<Rightarrow> string \<Rightarrow> edge list" where
  "PgGetEdgesBySnapshotDB db repo a ty = pg_select repo (\<lambda>e. At e = Some a \<and> (ty = [] \<or> EdgeType e = ty)) (t_edges db)"

text \<open>An upsert keeps the place of the row; a read sorts by start line.\<close>

definition same_range :: "authorship_range \<Rightarrow> authorship_range \<Rightarrow> bool" where
  "same_range r x \<longleftrightarrow> SnapshotID x = SnapshotID r \<and> FilePath x = FilePath r \<and> StartLine x = StartLine r"

definition pg_insert_authorship :: "string \<Rightarrow> authorship_range \<Rightarrow> pg_db \<Rightarrow> pg_db" where
  "pg_insert_authorship repo r db =
     (if pg_find repo (same_range r) (t_authorship db) \<noteq> None
      then db\<lparr>t_authorship := pg_update repo (same_range r) (\<lambda>x. r) (t_authorship db)\<rparr>
      else db\<lparr>t_authorship := t_authorship db @ [(repo, r)]\<rparr>)"

definition PgInsertAuthorshipRangesTx :: "string \<Rightarrow> authorship_range list \<Rightarrow> pg_db \<Rightarrow> pg_db" where
  "PgInsertAuthorshipRangesTx repo rs db = foldl (\<lambda>db r. pg_insert_authorship repo r db) db rs"

definition PgGetAuthorshipRanges :: "pg_db \<Rightarrow> string \<Rightarrow> bytes \<Rightarrow> string \<Rightarrow> authorship_range list" where
  "PgGetAuthorshipRanges db repo s f =
     sort_key StartLine (pg_select repo (\<lambda>r. SnapshotID r = s \<and> FilePath r = f) (t_authorship db))"

definition PgGetAllAuthorshipRanges :: "pg_db \<Rightarrow> string \<Rightarrow> bytes \<Rightarrow> authorship_range list" where
  "PgGetAllAuthorshipRanges db repo s =
     sort_key FilePath (sort_key StartLine (pg_select repo (\<lambda>r. SnapshotID r = s) (t_authorship db)))"

section \<open>The methods of a handle\<close>

text \<open>\<open>PgDB\<close> is a connection with the id of one repository. Its methods run the statements of the functions above
  for that repository; segments are read and written without the external store.\<close>

record PgDB =
  RepoID :: string

definition PgDB_InsertSegment :: "int \<Rightarrow> PgDB \<Rightarrow> bytes \<Rightarrow> bytes \<Rightarrow> pg_db \<Rightarrow> int \<times> (string \<times> bytes) option \<times> pg_db" where
  "PgDB_InsertSegment ts d = PgInsertSegmentTx InlineStore ts (RepoID d)"

definition PgDB_GetSegmentBlob :: "pg_db \<Rightarrow> PgDB \<Rightarrow> int \<Rightarrow> (store_error, bytes) go" where
  "PgDB_GetSegmentBlob db d = PgGetSegmentBlobByID InlineStore db (RepoID d)"

definition PgDB_InsertObject :: "int \<Rightarrow> PgDB \<Rightarrow> bytes \<Rightarrow> int \<Rightarrow> 64 word \<Rightarrow> 64 word \<Rightarrow> string \<Rightarrow> pg_db \<Rightarrow> pg_db" where
  "PgDB_InsertObject ts d = PgInsertObjectTx ts (RepoID d)"

definition PgDB_GetObject :: "pg_db \<Rightarrow> PgDB \<Rightarrow> bytes \<Rightarrow> (store_error, object_info) go" where
  "PgDB_GetObject db d = PgGetObjectInfo db (RepoID d)"

definition PgDB_HasObject :: "pg_db \<Rightarrow> PgDB \<Rightarrow> bytes \<Rightarrow> bool" where
  "PgDB_HasObject db d = (\<lambda>digest. pg_select (RepoID d) (\<lambda>r. Digest r = digest) (t_objects db) \<noteq> [])"

definition PgDB_HasObjects :: "pg_db \<Rightarrow> PgDB \<Rightarrow> bytes list \<Rightarrow> string list" where
  "PgDB_HasObjects db d = PgHasObjects db (RepoID d)"

definition PgDB_ReadObjectContent :: "pg_db \<Rightarrow> PgDB \<Rightarrow> bytes \<Rightarrow> (store_error, bytes) go" where
  "PgDB_ReadObjectContent db d = PgReadObjectContentDB InlineStore db (RepoID d)"

definition PgDB_GetRef :: "pg_db \<Rightarrow> PgDB \<Rightarrow> string \<Rightarrow> (store_error, ref_row) go" where
  "PgDB_GetRef db d = PgGetRef db (RepoID d)"

definition PgDB_ListRefs :: "pg_db \<Rightarrow> PgDB \<Rightarrow> string \<Rightarrow> ref_row list" where
  "PgDB_ListRefs db d = PgListRefs db (RepoID d)"

definition PgDB_SetRefFF :: "(bytes \<Rightarrow> bytes) \<Rightarrow> int \<Rightarrow> PgDB \<Rightarrow> string \<Rightarrow> bytes option \<Rightarrow> bytes \<Rightarrow> string \<Rightarrow> string \<Rightarrow> pg_db \<Rightarrow> (store_error, pg_db) go" where
  "PgDB_SetRefFF h ts d = PgSetRefFF h ts (RepoID d)"

definition PgDB_ForceSetRef :: "(bytes \<Rightarrow> bytes) \<Rightarrow> int \<Rightarrow> PgDB \<Rightarrow> string \<Rightarrow> bytes \<Rightarrow> string \<Rightarrow> string \<Rightarrow> pg_db \<Rightarrow> (store_error, pg_db) go" where
  "PgDB_ForceSetRef h ts d = PgForceSetRef h ts (RepoID d)"

definition PgDB_DeleteRef :: "(bytes \<Rightarrow> bytes) \<Rightarrow> int \<Rightarrow> PgDB \<Rightarrow> string \<Rightarrow> bytes option \<Rightarrow> string \<Rightarrow> string \<Rightarrow> pg_db \<Rightarrow> (store_error, pg_db) go" where
  "PgDB_DeleteRef h ts d = PgDeleteRef h ts (RepoID d)"

definition PgDB_GetLogHead :: "pg_db \<Rightarrow> PgDB \<Rightarrow> bytes option" where
  "PgDB_GetLogHead db d = PgGetLogHead db (RepoID d)"

definition PgDB_RecordNodePublish :: "(bytes \<Rightarrow> bytes) \<Rightarrow> int \<Rightarrow> PgDB \<Rightarrow> bytes \<Rightarrow> string \<Rightarrow> string \<Rightarrow> pg_db \<Rightarrow> pg_db" where
  "PgDB_RecordNodePublish h ts d = PgRecordNodePublish h ts (RepoID d)"

definition PgDB_EnqueueForEnrichment :: "int \<Rightarrow> PgDB \<Rightarrow> bytes \<Rightarrow> string \<Rightarrow> pg_db \<Rightarrow> pg_db" where
  "PgDB_EnqueueForEnrichment ts d = PgEnqueueForEnrichmentTx ts (RepoID d)"

definition PgDB_ClaimEnrichmentItem :: "int \<Rightarrow> PgDB \<Rightarrow> pg_db \<Rightarrow> enrich_row option \<times> pg_db" where
  "PgDB_ClaimEnrichmentItem ts d = PgClaimEnrichmentItem ts (RepoID d)"

definition PgDB_CompleteEnrichmentItem :: "int \<Rightarrow> PgDB \<Rightarrow> int \<Rightarrow> string \<Rightarrow> pg_db \<Rightarrow> pg_db" where
  "PgDB_CompleteEnrichmentItem ts d = PgCompleteEnrichmentItem ts (RepoID d)"

definition PgDB_InsertEdge :: "PgDB \<Rightarrow> edge \<Rightarrow> pg_db \<Rightarrow> (store_error, pg_db) go" where
  "PgDB_InsertEdge d = PgInsertEdge (RepoID d)"

definition PgDB_InsertEdgesBatch :: "PgDB \<Rightarrow> edge list \<Rightarrow> pg_db \<Rightarrow> (store_error, pg_db) go" where
  "PgDB_InsertEdgesBatch d = PgInsertEdgesTx (RepoID d)"

definition PgDB_GetEdgesFrom :: "pg_db \<Rightarrow> PgDB \<Rightarrow> bytes \<Rightarrow> string \<Rightarrow> edge list" where
  "PgDB_GetEdgesFrom db d = PgGetEdgesFromDB db (RepoID d)"

definition PgDB_GetEdgesTo :: "pg_db \<Rightarrow> PgDB \<Rightarrow> bytes \<Rightarrow> string \<Rightarrow> edge list" where
  "PgDB_GetEdgesTo db d = PgGetEdgesToDB db (RepoID d)"

definition PgDB_GetEdgesBySnapshot :: "pg_db \<Rightarrow> PgDB \<Rightarrow> bytes \<Rightarrow> string \<Rightarrow> edge list" where
  "PgDB_GetEdgesBySnapshot db d = PgGetEdgesBySnapshotDB db (RepoID d)"

section \<open>What a repository sees\<close>

definition rows_of :: "string \<Rightarrow> 'r table \<Rightarrow> 'r list" where
  "rows_of repo t = map snd (filter (\<lambda>x. fst x = repo) t)"

definition repo_view :: "string \<Rightarrow> pg_db \<Rightarrow> repo_db" where
  "repo_view repo db = \<lparr>segments = rows_of repo (t_segments db), next_segment = t_next_segment db,
     object_rows = rows_of repo (t_objects db), refs = rows_of repo (t_refs db),
     ref_history = rows_of repo (t_history db), next_history = t_next_history db,
     node_publish = rows_of repo (t_publish db), next_publish = t_next_publish db,
     enrich_queue = rows_of repo (t_enrich db), next_enrich = t_next_enrich db,
     edges = rows_of repo (t_edges db), authorship = rows_of repo (t_authorship db)\<rparr>"

text \<open>The same rows; the positions of the sequences are left out, and the order of the authorship rows, which
  every read sorts.\<close>

definition same_rows :: "repo_db \<Rightarrow> repo_db \<Rightarrow> bool" where
  "same_rows a b \<longleftrightarrow> segments a = segments b \<and> object_rows a = object_rows b \<and> refs a = refs b \<and>
     ref_history a = ref_history b \<and> node_publish a = node_publish b \<and> enrich_queue a = enrich_queue b \<and>
     edges a = edges b \<and> set (authorship a) = set (authorship b)"

named_theorems pg_rows \<open>the rows of one repository in a shared table\<close>

lemma rows_of_Nil [pg_rows]: "rows_of r [] = []"
  by (simp add: rows_of_def)

lemma rows_of_append [pg_rows]: "rows_of r (t @ [(repo, x)]) = rows_of r t @ (if r = repo then [x] else [])"
  by (simp add: rows_of_def)

lemma pg_find_rows [pg_rows]: "pg_find repo P t = find P (rows_of repo t)"
  by (induction t) (auto simp: pg_find_def at_repo_def rows_of_def)

lemma pg_select_rows [pg_rows]: "pg_select repo P t = filter P (rows_of repo t)"
  by (induction t) (auto simp: pg_select_def at_repo_def rows_of_def)

lemma rows_of_update [pg_rows]:
  "rows_of r (pg_update repo P f t) = (if r = repo then map (\<lambda>x. if P x then f x else x) (rows_of r t) else rows_of r t)"
  by (induction t) (auto simp: pg_update_def at_repo_def rows_of_def)

lemma rows_of_delete [pg_rows]:
  "rows_of r (filter (\<lambda>x. \<not> at_repo repo P x) t) = (if r = repo then filter (\<lambda>x. \<not> P x) (rows_of r t) else rows_of r t)"
  by (induction t) (auto simp: at_repo_def rows_of_def)

lemma find_ex [simp]: "(\<exists>y. find P xs = Some y) \<longleftrightarrow> (\<exists>x \<in> set xs. P x)"
  by (induction xs) auto

lemma same_rows_refl [simp]: "same_rows a a"
  by (simp add: same_rows_def)

lemma repo_view_sel [simp]:
  "segments (repo_view r db) = rows_of r (t_segments db)" "object_rows (repo_view r db) = rows_of r (t_objects db)"
  "refs (repo_view r db) = rows_of r (t_refs db)" "ref_history (repo_view r db) = rows_of r (t_history db)"
  "node_publish (repo_view r db) = rows_of r (t_publish db)" "enrich_queue (repo_view r db) = rows_of r (t_enrich db)"
  "edges (repo_view r db) = rows_of r (t_edges db)" "authorship (repo_view r db) = rows_of r (t_authorship db)"
  "next_segment (repo_view r db) = t_next_segment db" "next_history (repo_view r db) = t_next_history db"
  "next_publish (repo_view r db) = t_next_publish db" "next_enrich (repo_view r db) = t_next_enrich db"
  by (simp_all add: repo_view_def)

section \<open>Reads\<close>

lemma pg_reads:
  "PgGetObjectInfo db repo d = GetObject (repo_view repo db) d"
  "PgGetRef db repo name = GetRef (repo_view repo db) name"
  "pg_target db repo name = current_target (repo_view repo db) name"
  "pg_last_history db repo name = map_option h_id (last_history (repo_view repo db) name)"
  "PgDB_GetRefHistory db repo filt after limit = DB_GetRefHistory (repo_view repo db) filt after limit"
  "PgGetRefHistory db repo filt after limit = GetRefHistory (repo_view repo db) filt after limit"
  "PgGetLogHead db repo = GetLogHead (repo_view repo db)"
  "PgGetEdgesFromDB db repo n ty = GetEdgesFrom (repo_view repo db) n ty"
  "PgGetEdgesToDB db repo n ty = GetEdgesTo (repo_view repo db) n ty"
  "PgGetEdgesBySnapshotDB db repo n ty = GetEdgesBySnapshot (repo_view repo db) n ty"
  "PgGetAuthorshipRanges db repo n f = GetAuthorshipRanges (repo_view repo db) n f"
  "PgGetAllAuthorshipRanges db repo n = GetAllAuthorshipRanges (repo_view repo db) n"
  by (simp_all add: PgGetObjectInfo_def GetObject_def PgGetRef_def GetRef_def pg_target_def current_target_def
      pg_last_history_def last_history_def PgDB_GetRefHistory_def DB_GetRefHistory_def pg_history_after_def history_after_def
      PgGetRefHistory_def GetRefHistory_def PgGetLogHead_def GetLogHead_def PgGetEdgesFromDB_def GetEdgesFrom_def
      PgGetEdgesToDB_def GetEdgesTo_def PgGetEdgesBySnapshotDB_def GetEdgesBySnapshot_def PgGetAuthorshipRanges_def
      GetAuthorshipRanges_def PgGetAllAuthorshipRanges_def GetAllAuthorshipRanges_def pg_rows split: list.split)

lemma PgHasObjects_view: "PgHasObjects db repo ds = HasObjects (repo_view repo db) ds"
proof -
  have "pg_has_batches db repo ds res = has_batches (repo_view repo db) ds res" for res
    by (induction db repo ds res rule: pg_has_batches.induct)
      (subst pg_has_batches.simps, subst has_batches.simps, simp add: has_batch_def pg_rows)
  then show ?thesis by (simp add: PgHasObjects_def HasObjects_def)
qed

section \<open>Writes\<close>

datatype store_op =
    OpSegment bytes bytes
  | OpObject bytes int "64 word" "64 word" string
  | OpSetRef string "bytes option" bytes string string
  | OpForceRef string bytes string string
  | OpDeleteRef string "bytes option" string string
  | OpPublish bytes string string
  | OpEnqueue bytes string
  | OpClaim
  | OpComplete int string
  | OpEdges "edge list"
  | OpAuthorship "authorship_range list"

primrec lite_apply :: "(bytes \<Rightarrow> bytes) \<Rightarrow> int \<Rightarrow> store_op \<Rightarrow> repo_db \<Rightarrow> (store_error, repo_db) go" where
  "lite_apply h ts (OpSegment checksum blob) db = Ok (snd (InsertSegment ts checksum blob db))"
| "lite_apply h ts (OpObject d s off len k) db = Ok (InsertObject ts d s off len k db)"
| "lite_apply h ts (OpSetRef name old new actor push) db = SetRefFF h ts name old new actor push db"
| "lite_apply h ts (OpForceRef name new actor push) db = ForceSetRef h ts name new actor push db"
| "lite_apply h ts (OpDeleteRef name old actor push) db = DeleteRef h ts name old actor push db"
| "lite_apply h ts (OpPublish n k actor) db = Ok (RecordNodePublish h ts n k actor db)"
| "lite_apply h ts (OpEnqueue n k) db = Ok (EnqueueForEnrichment ts n k db)"
| "lite_apply h ts OpClaim db = Ok (snd (ClaimEnrichmentItem ts db))"
| "lite_apply h ts (OpComplete i msg) db = Ok (CompleteEnrichmentItem ts i msg db)"
| "lite_apply h ts (OpEdges es) db = Ok (InsertEdgesBatch es db)"
| "lite_apply h ts (OpAuthorship rs) db = Ok (InsertAuthorshipRanges rs db)"

primrec pg_apply :: "blob_api \<Rightarrow> (bytes \<Rightarrow> bytes) \<Rightarrow> int \<Rightarrow> string \<Rightarrow> store_op \<Rightarrow> pg_db \<Rightarrow> (store_error, pg_db) go" where
  "pg_apply bs h ts repo (OpSegment checksum blob) db = Ok (snd (snd (PgInsertSegmentTx bs ts repo checksum blob db)))"
| "pg_apply bs h ts repo (OpObject d s off len k) db = Ok (PgInsertObjectTx ts repo d s off len k db)"
| "pg_apply bs h ts repo (OpSetRef name old new actor push) db = PgSetRefFF h ts repo name old new actor push db"
| "pg_apply bs h ts repo (OpForceRef name new actor push) db = PgForceSetRef h ts repo name new actor push db"
| "pg_apply bs h ts repo (OpDeleteRef name old actor push) db = PgDeleteRef h ts repo name old actor push db"
| "pg_apply bs h ts repo (OpPublish n k actor) db = Ok (PgRecordNodePublish h ts repo n k actor db)"
| "pg_apply bs h ts repo (OpEnqueue n k) db = Ok (PgEnqueueForEnrichmentTx ts repo n k db)"
| "pg_apply bs h ts repo OpClaim db = Ok (snd (PgClaimEnrichmentItem ts repo db))"
| "pg_apply bs h ts repo (OpComplete i msg) db = Ok (PgCompleteEnrichmentItem ts repo i msg db)"
| "pg_apply bs h ts repo (OpEdges es) db = PgInsertEdgesTx repo es db"
| "pg_apply bs h ts repo (OpAuthorship rs) db = Ok (PgInsertAuthorshipRangesTx repo rs db)"

text \<open>The outcome on the shared tables against the outcome on the view.\<close>

definition agrees :: "string \<Rightarrow> pg_db \<Rightarrow> (store_error, pg_db) go \<Rightarrow> (store_error, repo_db) go \<Rightarrow> bool" where
  "agrees repo db m n \<longleftrightarrow> (case m of
       Ok db' \<Rightarrow> (\<exists>v. n = Ok v \<and> same_rows v (repo_view repo db')) \<and> (\<forall>r. r \<noteq> repo \<longrightarrow> same_rows (repo_view r db) (repo_view r db'))
     | Err e \<Rightarrow> n = Err e
     | Panic \<Rightarrow> False)"

lemma agrees_Ok:
  "same_rows v (repo_view repo db') \<Longrightarrow> (\<And>r. r \<noteq> repo \<Longrightarrow> same_rows (repo_view r db) (repo_view r db')) \<Longrightarrow> agrees repo db (Ok db') (Ok v)"
  by (simp add: agrees_def)

lemma pg_upsert_view:
  "repo_view repo (pg_upsert_ref repo name new ts actor push db) = upsert_ref name new ts actor push (repo_view repo db)"
  "r \<noteq> repo \<Longrightarrow> repo_view r (pg_upsert_ref repo name new ts actor push db) = repo_view r db"
  by (simp_all add: pg_upsert_ref_def upsert_ref_def repo_view_def pg_rows Let_def)

lemma pg_append_agrees:
  assumes "repo_view repo db1 = v" and "\<And>r. r \<noteq> repo \<Longrightarrow> repo_view r db1 = repo_view r db"
  shows "agrees repo db (pg_append_history h ts repo actor name old new push extra parent db1)
           (append_history h ts actor name old new push extra parent v)"
proof -
  have e: "pg_find repo P (t_history db1) \<noteq> None \<longleftrightarrow> (\<exists>r \<in> set (ref_history v). P r)" for P
    by (simp add: assms(1) [symmetric] pg_rows)
  show ?thesis
  proof (cases "\<exists>r \<in> set (ref_history v). h_id r = h (to_bytes (history_json ts actor name old new push extra parent))")
    case True
    show ?thesis
      unfolding pg_append_history_def append_history_def Let_def e if_P [OF True] by (simp add: agrees_def)
  next
    case False
    show ?thesis
      unfolding pg_append_history_def append_history_def Let_def e if_not_P [OF False]
      by (intro agrees_Ok) (simp_all add: same_rows_def assms(1) [symmetric] assms(2) [symmetric] pg_rows)
  qed
qed

lemma agrees_ops:
  "agrees repo db (PgSetRefFF h ts repo name old new actor push db) (SetRefFF h ts name old new actor push (repo_view repo db))"
  "agrees repo db (PgForceSetRef h ts repo name new actor push db) (ForceSetRef h ts name new actor push (repo_view repo db))"
  "agrees repo db (PgDeleteRef h ts repo name old actor push db) (DeleteRef h ts name old actor push (repo_view repo db))"
proof -
  show "agrees repo db (PgForceSetRef h ts repo name new actor push db) (ForceSetRef h ts name new actor push (repo_view repo db))"
    unfolding PgForceSetRef_def ForceSetRef_def Let_def pg_reads by (rule pg_append_agrees) (simp_all add: pg_upsert_view)
  show "agrees repo db (PgSetRefFF h ts repo name old new actor push db) (SetRefFF h ts name old new actor push (repo_view repo db))"
  proof (cases "ff_check old (current_target (repo_view repo db) name)")
    case True
    then have c: "\<not> (old = None \<and> current_target (repo_view repo db) name \<noteq> None)"
      "\<not> (old \<noteq> None \<and> (current_target (repo_view repo db) name = None \<or> old \<noteq> current_target (repo_view repo db) name))"
      by (auto simp: ff_check_def split: option.splits)
    have s: "SetRefFF h ts name old new actor push (repo_view repo db) =
        ff_write h ts name old new actor push (map_option h_id (last_history (repo_view repo db) name)) (repo_view repo db)"
      using True by (simp add: SetRefFF_def ff_read_def)
    show ?thesis
      unfolding PgSetRefFF_def Let_def pg_reads s ff_write_def if_not_P [OF c(1)] if_not_P [OF c(2)]
      by (rule pg_append_agrees) (simp_all add: pg_upsert_view)
  next
    case False
    then have "PgSetRefFF h ts repo name old new actor push db = Err ErrRefMismatch"
      by (auto simp: PgSetRefFF_def Let_def pg_reads ff_check_def split: option.splits)
    then show ?thesis using False by (simp add: SetRefFF_def ff_read_def agrees_def)
  qed
  let ?del = "\<lambda>db. db\<lparr>t_refs := filter (\<lambda>x. \<not> at_repo repo (\<lambda>r. RefName r = name) x) (t_refs db)\<rparr>"
  have d: "repo_view repo (?del db) = (repo_view repo db)\<lparr>refs := filter (\<lambda>r. RefName r \<noteq> name) (refs (repo_view repo db))\<rparr>"
    "r \<noteq> repo \<Longrightarrow> repo_view r (?del db) = repo_view r db" for r
    by (simp_all add: repo_view_def pg_rows)
  show "agrees repo db (PgDeleteRef h ts repo name old actor push db) (DeleteRef h ts name old actor push (repo_view repo db))"
  proof (cases "current_target (repo_view repo db) name")
    case None
    then show ?thesis by (simp add: PgDeleteRef_def DeleteRef_def pg_reads agrees_def)
  next
    case (Some t)
    show ?thesis
    proof (cases "old \<noteq> None \<and> old \<noteq> Some t")
      case True
      then show ?thesis by (simp add: PgDeleteRef_def DeleteRef_def pg_reads Some agrees_def)
    next
      case False
      show ?thesis
        unfolding PgDeleteRef_def DeleteRef_def Let_def pg_reads Some option.case if_not_P [OF False]
        by (rule pg_append_agrees [OF d])
    qed
  qed
qed

lemma agrees_edges:
  assumes "\<forall>e \<in> set es. At e \<noteq> None"
  shows "agrees repo db (PgInsertEdgesTx repo es db) (Ok (InsertEdgesBatch es (repo_view repo db)))"
proof -
  have one: "PgInsertEdge repo e db = Ok (if e \<in> set (rows_of repo (t_edges db)) then db else db\<lparr>t_edges := t_edges db @ [(repo, e)]\<rparr>)"
    if "At e \<noteq> None" for e db
    using that by (auto simp: PgInsertEdge_def pg_rows find_None_iff)
  show ?thesis
    using assms
  proof (induction es arbitrary: db)
    case Nil
    then show ?case by (simp add: agrees_def InsertEdgesBatch_def)
  next
    case (Cons e es)
    define db1 where "db1 = (if e \<in> set (rows_of repo (t_edges db)) then db else db\<lparr>t_edges := t_edges db @ [(repo, e)]\<rparr>)"
    have v: "repo_view repo db1 = InsertEdge e (repo_view repo db)" "r \<noteq> repo \<Longrightarrow> repo_view r db1 = repo_view r db" for r
      using Cons.prems by (auto simp: db1_def InsertEdge_def repo_view_def pg_rows)
    have "PgInsertEdgesTx repo (e # es) db = PgInsertEdgesTx repo es db1"
      using Cons.prems by (simp add: one db1_def)
    moreover have "InsertEdgesBatch (e # es) (repo_view repo db) = InsertEdgesBatch es (repo_view repo db1)"
      by (simp add: InsertEdgesBatch_def v)
    ultimately show ?case using Cons.IH [of db1] Cons.prems v(2) by (auto simp: agrees_def split: go.splits)
  qed
qed

lemma pg_insert_authorship_view:
  "set (rows_of repo (t_authorship (pg_insert_authorship repo r db))) = set (insert_authorship r (rows_of repo (t_authorship db)))"
  "\<exists>rows. repo_view repo (pg_insert_authorship repo r db) = (repo_view repo db)\<lparr>authorship := rows\<rparr>"
  "q \<noteq> repo \<Longrightarrow> repo_view q (pg_insert_authorship repo r db) = repo_view q db"
proof -
  have s: "insert_authorship r rows = filter (\<lambda>x. \<not> same_range r x) rows @ [r]" for rows
    by (simp add: insert_authorship_def same_range_def)
  let ?rows = "rows_of repo (t_authorship db)"
  have "set (rows_of repo (t_authorship (pg_insert_authorship repo r db))) = insert r {x \<in> set ?rows. \<not> same_range r x}"
  proof (cases "\<exists>x \<in> set ?rows. same_range r x")
    case True
    then have "rows_of repo (t_authorship (pg_insert_authorship repo r db)) = map (\<lambda>x. if same_range r x then r else x) ?rows"
      by (simp add: pg_insert_authorship_def pg_rows)
    moreover have "set (map (\<lambda>x. if same_range r x then r else x) ?rows) = insert r {x \<in> set ?rows. \<not> same_range r x}"
      using True by (auto simp: image_iff)
    ultimately show ?thesis by simp
  next
    case False
    then have "rows_of repo (t_authorship (pg_insert_authorship repo r db)) = ?rows @ [r]"
      by (simp add: pg_insert_authorship_def pg_rows)
    with False show ?thesis by auto
  qed
  then show "set (rows_of repo (t_authorship (pg_insert_authorship repo r db))) = set (insert_authorship r ?rows)" by (simp add: s)
  show "\<exists>rows. repo_view repo (pg_insert_authorship repo r db) = (repo_view repo db)\<lparr>authorship := rows\<rparr>"
    by (simp add: pg_insert_authorship_def repo_view_def)
  show "q \<noteq> repo \<Longrightarrow> repo_view q (pg_insert_authorship repo r db) = repo_view q db"
    by (simp add: pg_insert_authorship_def repo_view_def pg_rows)
qed

lemma insert_authorship_set: "set rows = set rows' \<Longrightarrow> set (insert_authorship r rows) = set (insert_authorship r rows')"
  by (simp add: insert_authorship_def)

lemma agrees_authorship:
  "agrees repo db (Ok (PgInsertAuthorshipRangesTx repo rs db)) (Ok (InsertAuthorshipRanges rs (repo_view repo db)))"
proof -
  let ?ins = "\<lambda>rows r. insert_authorship r rows"
  have step: "set (rows_of repo (t_authorship (PgInsertAuthorshipRangesTx repo rs d))) = set (foldl ?ins rows rs) \<and>
      (\<exists>rows. repo_view repo (PgInsertAuthorshipRangesTx repo rs d) = (repo_view repo d)\<lparr>authorship := rows\<rparr>) \<and>
      (\<forall>q. q \<noteq> repo \<longrightarrow> repo_view q (PgInsertAuthorshipRangesTx repo rs d) = repo_view q d)"
    if "set rows = set (rows_of repo (t_authorship d))" for d rows
    using that
  proof (induction rs arbitrary: d rows)
    case Nil
    have "repo_view repo d = (repo_view repo d)\<lparr>authorship := rows_of repo (t_authorship d)\<rparr>" by (simp add: repo_view_def)
    then show ?case using Nil unfolding PgInsertAuthorshipRangesTx_def foldl.simps by blast
  next
    case (Cons r rs)
    let ?d = "pg_insert_authorship repo r d"
    have "set (insert_authorship r rows) = set (rows_of repo (t_authorship ?d))"
      using insert_authorship_set [OF Cons.prems] by (simp add: pg_insert_authorship_view)
    note IH = Cons.IH [OF this]
    obtain rows1 rows2 where v: "repo_view repo (PgInsertAuthorshipRangesTx repo rs ?d) = (repo_view repo ?d)\<lparr>authorship := rows1\<rparr>"
      "repo_view repo ?d = (repo_view repo d)\<lparr>authorship := rows2\<rparr>"
      using IH pg_insert_authorship_view(2) by metis
    have e: "PgInsertAuthorshipRangesTx repo (r # rs) d = PgInsertAuthorshipRangesTx repo rs ?d"
      by (simp add: PgInsertAuthorshipRangesTx_def)
    have "repo_view repo (PgInsertAuthorshipRangesTx repo rs ?d) = (repo_view repo d)\<lparr>authorship := rows1\<rparr>"
      unfolding v by simp
    then show ?case unfolding e using IH pg_insert_authorship_view(3) by (auto simp: e)
  qed
  obtain rows where v: "repo_view repo (PgInsertAuthorshipRangesTx repo rs db) = (repo_view repo db)\<lparr>authorship := rows\<rparr>"
    using step [OF refl, of db] by blast
  have "rows_of repo (t_segments (PgInsertAuthorshipRangesTx repo rs db)) = segments (repo_view repo (PgInsertAuthorshipRangesTx repo rs db))" by simp
  show ?thesis
  proof (rule agrees_Ok)
    have "set (authorship (repo_view repo (PgInsertAuthorshipRangesTx repo rs db))) = set (foldl ?ins (rows_of repo (t_authorship db)) rs)"
      using step [OF refl, of db] by simp
    then show "same_rows (InsertAuthorshipRanges rs (repo_view repo db)) (repo_view repo (PgInsertAuthorshipRangesTx repo rs db))"
      unfolding v by (simp add: same_rows_def InsertAuthorshipRanges_def)
  qed (use step [OF refl, of db] in simp)
qed


section \<open>Content through the external store\<close>

text \<open>What the code relies on: a read that answers gives the bytes that were put under the key.\<close>

definition in_bounds :: "object_info \<Rightarrow> bytes \<Rightarrow> bool" where
  "in_bounds r blob \<longleftrightarrow> 0 \<le> sint (Off r) \<and> 0 \<le> sint (Len r) \<and> sint (Off r + Len r) = sint (Off r) + sint (Len r) \<and>
     sint (Off r + Len r) \<le> int (length blob)"

definition object_slice :: "object_info \<Rightarrow> bytes \<Rightarrow> bytes" where
  "object_slice r blob = slice (nat (sint (Off r))) (nat (sint (Off r + Len r))) blob"

locale blob_store =
  fixes bs :: blob_api and contents :: "string \<Rightarrow> string \<Rightarrow> bytes option"
  assumes get_contents: "bs_Get bs repo key = Some data \<Longrightarrow> contents repo key = Some data"
    and range_contents: "bs_GetRange bs repo key (Off r) (Len r) = Some data \<Longrightarrow>
      \<exists>blob. contents repo key = Some blob \<and> (in_bounds r blob \<longrightarrow> data = object_slice r blob)"

text \<open>The external store holds segments of the tables, and the objects lie inside their segments.\<close>

definition mirrors :: "(string \<Rightarrow> string \<Rightarrow> bytes option) \<Rightarrow> pg_db \<Rightarrow> string \<Rightarrow> bool" where
  "mirrors contents db repo \<longleftrightarrow>
     (\<forall>sid blob. contents repo (SegmentKey sid) = Some blob \<longrightarrow> GetSegmentBlob (repo_view repo db) sid = Ok blob)"

definition objects_ok :: "repo_db \<Rightarrow> bool" where
  "objects_ok v \<longleftrightarrow> distinct (map Digest (object_rows v)) \<and>
     (\<forall>r \<in> set (object_rows v). \<forall>blob. GetSegmentBlob v (SegmentID r) = Ok blob \<longrightarrow> in_bounds r blob)"

definition read_row :: "repo_db \<Rightarrow> object_info \<Rightarrow> (bytes \<times> string) option" where
  "read_row v r = (case GetSegmentBlob v (SegmentID r) of Ok blob \<Rightarrow> Some (object_slice r blob, ObjKind r) | _ \<Rightarrow> None)"

text \<open>A result of a batch is sound for a set of rows, and covers some of them.\<close>

definition sound :: "repo_db \<Rightarrow> object_info set \<Rightarrow> (string, bytes \<times> string) gomap \<Rightarrow> bool" where
  "sound v R res \<longleftrightarrow> (\<forall>k x. map_of res k = Some x \<longrightarrow> (\<exists>r \<in> R. k = hex_encode (Digest r) \<and> read_row v r = Some x))"

definition covers :: "object_info set \<Rightarrow> (string, bytes \<times> string) gomap \<Rightarrow> bool" where
  "covers S res \<longleftrightarrow> (\<forall>r \<in> S. hex_encode (Digest r) \<in> dom (map_of res))"

lemma sound_update: "sound v R res \<Longrightarrow> r \<in> R \<Longrightarrow> read_row v r = Some x \<Longrightarrow> sound v R (AList.update (hex_encode (Digest r)) x res)"
  by (auto simp: sound_def)

lemma covers_update: "covers S res \<Longrightarrow> covers (insert r S) (AList.update (hex_encode (Digest r)) x res)"
  by (auto simp: covers_def)

lemma slice64_object: "in_bounds r blob \<Longrightarrow> slice64 blob (Off r) (Len r) = Ok (object_slice r blob)"
  by (auto simp: slice64_def in_bounds_def object_slice_def)

lemma GetObject_mem: "GetObject v d = Ok info \<Longrightarrow> info \<in> set (object_rows v) \<and> Digest info = d"
  by (auto simp: GetObject_def find_Some_iff split: option.splits)

context blob_store
begin

lemma blob_by_id: "mirrors contents db repo \<Longrightarrow> PgGetSegmentBlobByID bs db repo sid = GetSegmentBlob (repo_view repo db) sid"
proof (cases "if IsExternal bs then bs_Get bs repo (SegmentKey sid) else None")
  case (Some data)
  assume m: "mirrors contents db repo"
  have "contents repo (SegmentKey sid) = Some data" using Some get_contents by (simp split: if_splits)
  then have "GetSegmentBlob (repo_view repo db) sid = Ok data" using m by (simp add: mirrors_def)
  with Some show ?thesis by (simp add: PgGetSegmentBlobByID_def GetSegmentBlob_def pg_rows split: list.split option.splits)
qed (simp add: PgGetSegmentBlobByID_def GetSegmentBlob_def pg_rows)

lemma range_row:
  assumes "mirrors contents db repo" and "objects_ok (repo_view repo db)" and "r \<in> set (object_rows (repo_view repo db))"
    and "bs_GetRange bs repo (SegmentKey (SegmentID r)) (Off r) (Len r) = Some data"
  shows "read_row (repo_view repo db) r = Some (data, ObjKind r) \<and> (\<exists>blob. GetSegmentBlob (repo_view repo db) (SegmentID r) = Ok blob \<and>
    in_bounds r blob \<and> data = object_slice r blob)"
proof -
  obtain blob where b: "contents repo (SegmentKey (SegmentID r)) = Some blob" "in_bounds r blob \<longrightarrow> data = object_slice r blob"
    using range_contents [OF assms(4)] by blast
  have g: "GetSegmentBlob (repo_view repo db) (SegmentID r) = Ok blob" using assms(1) b(1) unfolding mirrors_def by blast
  then have "in_bounds r blob" using assms(2,3) unfolding objects_ok_def by blast
  with b g show ?thesis by (simp add: read_row_def)
qed

lemma read_object:
  assumes m: "mirrors contents db repo" and ok: "objects_ok (repo_view repo db)"
  shows "PgReadObjectContentDB bs db repo d = ReadObjectContent (repo_view repo db) d"
proof (cases "GetObject (repo_view repo db) d")
  case (Ok info)
  note mem = GetObject_mem [OF Ok]
  let ?ext = "if IsExternal bs then bs_GetRange bs repo (SegmentKey (SegmentID info)) (Off info) (Len info) else None"
  have inline: "bind_go (PgGetSegmentBlobByID bs db repo (SegmentID info)) (\<lambda>blob. slice64 blob (Off info) (Len info)) = ReadObjectContent (repo_view repo db) d"
    by (simp add: ReadObjectContent_def Ok blob_by_id [OF m])
  show ?thesis
  proof (cases ?ext)
    case None
    then show ?thesis using inline by (simp add: PgReadObjectContentDB_def pg_reads Ok)
  next
    case (Some data)
    then have "bs_GetRange bs repo (SegmentKey (SegmentID info)) (Off info) (Len info) = Some data" by (simp split: if_splits)
    from range_row [OF m ok _ this] mem obtain blob where
      "GetSegmentBlob (repo_view repo db) (SegmentID info) = Ok blob" "in_bounds info blob" "data = object_slice info blob" by blast
    then have "ReadObjectContent (repo_view repo db) d = Ok data"
      by (simp add: ReadObjectContent_def Ok slice64_object)
    with Some inline show ?thesis by (simp add: PgReadObjectContentDB_def pg_reads Ok split: list.split)
  qed
qed (simp_all add: PgReadObjectContentDB_def ReadObjectContent_def pg_reads)

lemma range_reads_sound:
  assumes m: "mirrors contents db repo" and ok: "objects_ok (repo_view repo db)" and R: "R \<subseteq> set (object_rows (repo_view repo db))"
  shows "set rows \<subseteq> R \<Longrightarrow> sound (repo_view repo db) R res \<Longrightarrow> covers S res \<Longrightarrow> range_reads bs repo rows res = (served, res') \<Longrightarrow>
    sound (repo_view repo db) R res' \<and> covers S res' \<and> (served \<longrightarrow> covers (set rows) res')"
proof (induction rows arbitrary: res S)
  case Nil
  then show ?case by (simp add: covers_def)
next
  case (Cons r rows)
  let ?ext = "bs_GetRange bs repo (SegmentKey (SegmentID r)) (Off r) (Len r)"
  show ?case
  proof (cases "\<exists>b data. ?ext = Some (b # data)")
    case False
    then have "range_reads bs repo (r # rows) res = (False, res)" by (auto split: option.split list.split)
    with Cons.prems show ?thesis by simp
  next
    case True
    then obtain b data where e: "?ext = Some (b # data)" by blast
    have "r \<in> set (object_rows (repo_view repo db))" using Cons.prems(1) R by auto
    from range_row [OF m ok this e] have x: "read_row (repo_view repo db) r = Some (b # data, ObjKind r)" by blast
    let ?res = "AList.update (hex_encode (Digest r)) (b # data, ObjKind r) res"
    have "range_reads bs repo rows ?res = (served, res')" using Cons.prems(4) e by simp
    moreover have "sound (repo_view repo db) R ?res" using Cons.prems(1) by (intro sound_update Cons.prems(2) x) simp
    moreover have "covers (insert r S) ?res" by (rule covers_update [OF Cons.prems(3)])
    ultimately have "sound (repo_view repo db) R res' \<and> covers (insert r S) res' \<and> (served \<longrightarrow> covers (set rows) res')"
      using Cons.IH Cons.prems(1) by auto
    then show ?thesis by (auto simp: covers_def)
  qed
qed

end

lemma inline_reads_sound:
  assumes g: "GetSegmentBlob v sid = Ok blob" and ok: "objects_ok v"
  shows "set rows \<subseteq> R \<Longrightarrow> R \<subseteq> set (object_rows v) \<Longrightarrow> \<forall>r \<in> set rows. SegmentID r = sid \<Longrightarrow> sound v R res \<Longrightarrow> covers S res \<Longrightarrow>
    \<exists>res'. inline_reads blob rows res = Ok res' \<and> sound v R res' \<and> covers (S \<union> set rows) res'"
proof (induction rows arbitrary: res S)
  case (Cons r rows)
  have "in_bounds r blob" using Cons.prems(1-3) ok g unfolding objects_ok_def by auto
  moreover have x: "read_row v r = Some (object_slice r blob, ObjKind r)" using Cons.prems(3) g by (simp add: read_row_def)
  ultimately have "inline_reads blob (r # rows) res = inline_reads blob rows (AList.update (hex_encode (Digest r)) (object_slice r blob, ObjKind r) res)"
    by (simp add: in_bounds_def object_slice_def)
  moreover have "sound v R (AList.update (hex_encode (Digest r)) (object_slice r blob, ObjKind r) res)"
    using Cons.prems(1) by (intro sound_update Cons.prems(4) x) simp
  ultimately show ?case
    using Cons.IH [of "AList.update (hex_encode (Digest r)) (object_slice r blob, ObjKind r) res" "insert r S"]
      Cons.prems covers_update [OF Cons.prems(5), of r] by simp
qed simp

lemma group_step:
  "set (AList.map_default k [r] (\<lambda>rs. rs @ [r]) m) \<subseteq> {(k', rs'). \<exists>rs. (k', rs) \<in> set m \<and> (rs' = rs \<or> k' = k \<and> rs' = rs @ [r])} \<union> {(k, [r])}"
  by (induction m) auto

lemma group_step_covers: "\<exists>rs. (k, rs) \<in> set (AList.map_default k [r] (\<lambda>rs. rs @ [r]) m) \<and> r \<in> set rs"
  by (induction m) auto

lemma group_step_keeps: "(k', rs) \<in> set m \<Longrightarrow> \<exists>rs'. (k', rs') \<in> set (AList.map_default k [r] (\<lambda>rs. rs @ [r]) m) \<and> set rs \<subseteq> set rs'"
  by (induction m) auto

lemma group_segments_snoc:
  "group_segments (rows @ [r]) = AList.map_default (SegmentID r) [r] (\<lambda>rs. rs @ [r]) (group_segments rows)"
  by (simp add: group_segments_def)

lemma group_segments_rows:
  "(sid, rs) \<in> set (group_segments rows) \<Longrightarrow> set rs \<subseteq> set rows \<and> (\<forall>r \<in> set rs. SegmentID r = sid)"
proof (induction rows arbitrary: sid rs rule: rev_induct)
  case (snoc r rows)
  then show ?case
    using group_step [of "SegmentID r" r "group_segments rows"] by (fastforce simp: group_segments_snoc)
qed (simp add: group_segments_def)

lemma group_segments_covers: "r \<in> set rows \<Longrightarrow> \<exists>sid rs. (sid, rs) \<in> set (group_segments rows) \<and> r \<in> set rs"
proof (induction rows rule: rev_induct)
  case (snoc x rows)
  show ?case
  proof (cases "r = x")
    case True
    then show ?thesis using group_step_covers [of "SegmentID x" x "group_segments rows"] by (auto simp: group_segments_snoc)
  next
    case False
    then obtain sid rs where "(sid, rs) \<in> set (group_segments rows)" "r \<in> set rs" using snoc by auto
    then show ?thesis using group_step_keeps [of sid rs "group_segments rows" "SegmentID x" x] by (auto simp: group_segments_snoc)
  qed
qed simp

context blob_store
begin

lemma read_segments_sound:
  assumes m: "mirrors contents db repo" and ok: "objects_ok (repo_view repo db)" and R: "R \<subseteq> set (object_rows (repo_view repo db))"
  shows "\<forall>(sid, rs) \<in> set segs. set rs \<subseteq> R \<and> (\<forall>r \<in> set rs. SegmentID r = sid) \<Longrightarrow> sound (repo_view repo db) R res \<Longrightarrow> covers S res \<Longrightarrow>
    \<exists>res'. read_segments bs db repo segs res = Ok res' \<and> sound (repo_view repo db) R res' \<and> covers S res' \<and>
      (\<forall>(sid, rs) \<in> set segs. GetSegmentBlob (repo_view repo db) sid \<noteq> Err ErrSegmentNotFound \<longrightarrow> covers (set rs) res')"
proof (induction segs arbitrary: res S)
  case (Cons seg segs)
  let ?v = "repo_view repo db"
  obtain sid rs where seg: "seg = (sid, rs)" by (cases seg)
  have rs: "set rs \<subseteq> R" "\<forall>r \<in> set rs. SegmentID r = sid" using Cons.prems(1) by (auto simp: seg)
  have rest: "\<forall>(sid, rs) \<in> set segs. set rs \<subseteq> R \<and> (\<forall>r \<in> set rs. SegmentID r = sid)" using Cons.prems(1) by simp
  obtain served res1 where ext: "(if IsExternal bs then range_reads bs repo rs res else (False, res)) = (served, res1)" by fastforce
  have s1: "sound ?v R res1" "covers S res1" "served \<Longrightarrow> covers (set rs) res1"
    using range_reads_sound [OF m ok R rs(1) Cons.prems(2,3)] ext Cons.prems(2,3) by (auto split: if_splits)
  show ?case
  proof (cases "served")
    case True
    have c: "covers (S \<union> set rs) res1" using s1(2) s1(3) [OF True] by (auto simp: covers_def)
    have "read_segments bs db repo (seg # segs) res = read_segments bs db repo segs res1"
      using ext True by (simp add: seg)
    then show ?thesis using Cons.IH [OF rest s1(1) c] by (auto simp: seg covers_def)
  next
    case False
    show ?thesis
    proof (cases "GetSegmentBlob ?v sid")
      case (Ok blob)
      obtain res2 where r2: "inline_reads blob rs res1 = Ok res2" "sound ?v R res2" "covers (S \<union> set rs) res2"
        using inline_reads_sound [OF Ok ok rs(1) R rs(2) s1(1,2)] by blast
      have "read_segments bs db repo (seg # segs) res = read_segments bs db repo segs res2"
        using ext False r2(1) by (simp add: seg blob_by_id [OF m] Ok)
      then show ?thesis using Cons.IH [OF rest r2(2,3)] by (auto simp: seg covers_def)
    next
      case (Err e)
      then have "e = ErrSegmentNotFound" by (auto simp: GetSegmentBlob_def split: option.splits)
      moreover have "read_segments bs db repo (seg # segs) res = read_segments bs db repo segs res1"
        using ext False by (simp add: seg blob_by_id [OF m] Err)
      ultimately show ?thesis using Cons.IH [OF rest s1(1,2)] Err by (auto simp: seg)
    next
      case Panic
      then show ?thesis by (simp add: GetSegmentBlob_def split: option.splits)
    qed
  qed
qed simp

lemma read_batch:
  assumes m: "mirrors contents db repo" and ok: "objects_ok (repo_view repo db)" and d: "d \<in> set ds"
  shows "\<exists>res. PgBatchGetObjects bs db repo ds = Ok res \<and>
    map_of res (hex_encode d) =
      (case GetObject (repo_view repo db) d of Ok info \<Rightarrow>
         (case ReadObjectContent (repo_view repo db) d of Ok data \<Rightarrow> Some (data, ObjKind info) | _ \<Rightarrow> None) | _ \<Rightarrow> None)"
proof -
  let ?v = "repo_view repo db"
  let ?rows = "filter (\<lambda>r. Digest r \<in> set ds) (object_rows ?v)"
  have R: "set ?rows \<subseteq> set (object_rows ?v)" by auto
  have segs: "\<forall>(sid, rs) \<in> set (group_segments ?rows). set rs \<subseteq> set ?rows \<and> (\<forall>r \<in> set rs. SegmentID r = sid)"
    using group_segments_rows by blast
  obtain res where res: "read_segments bs db repo (group_segments ?rows) [] = Ok res" "sound ?v (set ?rows) res"
    "\<forall>(sid, rs) \<in> set (group_segments ?rows). GetSegmentBlob ?v sid \<noteq> Err ErrSegmentNotFound \<longrightarrow> covers (set rs) res"
    using read_segments_sound [OF m ok R segs, of "[]" "{}"] by (auto simp: sound_def covers_def)
  have "PgBatchGetObjects bs db repo ds = Ok res"
    using res(1) d by (auto simp: PgBatchGetObjects_def pg_rows)
  moreover have "map_of res (hex_encode d) =
      (case GetObject ?v d of Ok info \<Rightarrow> (case ReadObjectContent ?v d of Ok data \<Rightarrow> Some (data, ObjKind info) | _ \<Rightarrow> None) | _ \<Rightarrow> None)"
  proof (cases "GetObject ?v d")
    case (Ok info)
    note mem = GetObject_mem [OF Ok]
    have uniq: "r = info" if "r \<in> set (object_rows ?v)" "Digest r = d" for r
      using that mem ok by (auto simp: objects_ok_def dest: inj_onD [OF distinct_map [THEN iffD1, THEN conjunct2]])
    have read: "(case ReadObjectContent ?v d of Ok data \<Rightarrow> Some (data, ObjKind info) | _ \<Rightarrow> None) = read_row ?v info"
    proof (cases "GetSegmentBlob ?v (SegmentID info)")
      case (Ok blob)
      then have "in_bounds info blob" using ok mem unfolding objects_ok_def by blast
      then show ?thesis using Ok \<open>GetObject ?v d = Ok info\<close> by (simp add: ReadObjectContent_def read_row_def slice64_object)
    qed (simp_all add: ReadObjectContent_def read_row_def \<open>GetObject ?v d = Ok info\<close>)
    have "map_of res (hex_encode d) = read_row ?v info"
    proof (cases "map_of res (hex_encode d)")
      case (Some x)
      then obtain r where r: "r \<in> set ?rows" "hex_encode d = hex_encode (Digest r)" "read_row ?v r = Some x"
        using res(2) unfolding sound_def by blast
      then have "r = info" using uniq [of r] by (simp add: hex_encode_inj)
      then show ?thesis using r Some by simp
    next
      case None
      have "info \<in> set ?rows" using mem d by simp
      from group_segments_covers [OF this] obtain sid rs where g: "(sid, rs) \<in> set (group_segments ?rows)" "info \<in> set rs" by blast
      have sid: "SegmentID info = sid" using group_segments_rows [OF g(1)] g(2) by blast
      have "\<not> covers (set rs) res" using None g(2) mem by (auto simp: covers_def)
      then have "GetSegmentBlob ?v sid = Err ErrSegmentNotFound" using res(3) g(1) by blast
      then show ?thesis using None by (simp add: read_row_def sid)
    qed
    with read show ?thesis by (simp add: Ok)
  next
    case (Err e)
    have "\<not> (\<exists>r \<in> set (object_rows ?v). Digest r = d)" using Err by (auto simp: GetObject_def find_None_iff split: option.splits)
    then have "map_of res (hex_encode d) = None"
      using res(2) unfolding sound_def by (metis (mono_tags, lifting) R hex_encode_inj not_None_eq subset_iff)
    then show ?thesis by (simp add: Err)
  next
    case Panic
    then show ?thesis by (simp add: GetObject_def split: option.splits)
  qed
  ultimately show ?thesis by blast
qed

end

interpretation inline: blob_store InlineStore "\<lambda>_ _. None"
  by unfold_locales (simp_all add: InlineStore_def)


section \<open>Examples\<close>

lemma SegmentKey_inj: "SegmentKey a = SegmentKey b \<longleftrightarrow> a = b"
  by (auto simp: SegmentKey_def dest: show_int_inj)

definition ex_edge :: edge where
  "ex_edge = \<lparr>Src = [1], EdgeType = ''CALLS'', Dst = [2], At = Some [3]\<rparr>"

definition ex_pg :: pg_db where
  "ex_pg = \<lparr>t_segments = [(''a'', \<lparr>seg_id = 1, seg_ts = 0, seg_checksum = [], seg_size = 4, seg_blob = [10, 20, 30, 40]\<rparr>)],
     t_next_segment = 2, t_objects = [(''a'', \<lparr>Digest = [7], SegmentID = 1, Off = 1, Len = 2, ObjKind = ''File'', CreatedAt = 0\<rparr>),
       (''b'', \<lparr>Digest = [7], SegmentID = 1, Off = 0, Len = 9, ObjKind = ''File'', CreatedAt = 0\<rparr>)],
     t_refs = [], t_history = [], t_next_history = 1, t_publish = [], t_next_publish = 1, t_enrich = [], t_next_enrich = 1,
     t_edges = [(''b'', ex_edge)], t_authorship = []\<rparr>"

definition ex_contents :: "string \<Rightarrow> string \<Rightarrow> bytes option" where
  "ex_contents repo key = (if repo = ''a'' \<and> key = SegmentKey 1 then Some [10, 20, 30, 40] else None)"

definition ex_blobs :: blob_api where
  "ex_blobs = \<lparr>IsExternal = True, bs_Get = ex_contents,
     bs_GetRange = (\<lambda>repo key off len. map_option (slice (nat (sint off)) (nat (sint (off + len)))) (ex_contents repo key))\<rparr>"



end
