(* ===== verification/Segment.thy ===== *)
theory Segment
  imports PgStore
begin

text \<open>
  Segment packs (\<open>src/kailab/pack/segment.go\<close>): a zstd-compressed stream of a header length, a JSON header that
  lists objects with their digest, kind and place, and the objects' bytes. Ingesting one stores the bytes as a segment and
  records every object after checking its place and its digest. zstd, JSON of the header and BLAKE3 are parameters:
  decompression gives the bytes read before the stream ends or fails, and whether it ended well.
\<close>

section \<open>Packs\<close>

record pack_entry =
  pe_Digest :: bytes
  pe_Kind :: string
  pe_Offset :: "64 word"
  pe_Length :: "64 word"

record pack_object =
  po_Digest :: bytes
  po_Kind :: string
  po_Content :: bytes

record pack_codec =
  zstd_encode :: "bytes \<Rightarrow> bytes"
  zstd_decode :: "bytes \<Rightarrow> bytes \<times> bool"
  header_marshal :: "pack_entry list \<Rightarrow> bytes"
  header_unmarshal :: "bytes \<Rightarrow> pack_entry list option"

definition MaxHeaderSize :: nat where
  "MaxHeaderSize = 10 * 1024 * 1024"

fun pack_entries :: "nat \<Rightarrow> pack_object list \<Rightarrow> pack_entry list" where
  "pack_entries n [] = []"
| "pack_entries n (o1 # os) =
     \<lparr>pe_Digest = po_Digest o1, pe_Kind = po_Kind o1, pe_Offset = word_of_nat n, pe_Length = word_of_nat (length (po_Content o1))\<rparr>
     # pack_entries (n + length (po_Content o1)) os"

definition BuildPack :: "pack_codec \<Rightarrow> pack_object list \<Rightarrow> bytes" where
  "BuildPack c os =
     (let data = concat (map po_Content os); headerJSON = header_marshal c (pack_entries 0 os)
      in zstd_encode c (be32 (length headerJSON) @ headerJSON @ data))"

section \<open>Ingesting\<close>

datatype ingest_error = ShortHeaderLength | HeaderTooLarge | ShortHeader | BadHeader | ReadError | BeyondData | DigestMismatch
  | StoreError store_error

definition isSemanticKind :: "string \<Rightarrow> bool" where
  "isSemanticKind kind \<longleftrightarrow> kind \<in> {''Snapshot'', ''ChangeSet'', ''Symbol'', ''Module'', ''File'', ''ChangeType'', ''Workspace''}"

text \<open>The header's objects, the checksum of the whole stream and the bytes after the header.\<close>

definition read_pack :: "pack_codec \<Rightarrow> (bytes \<Rightarrow> bytes) \<Rightarrow> bytes \<Rightarrow> (ingest_error, pack_entry list \<times> bytes \<times> bytes) go" where
  "read_pack c blake3 raw =
     (let (plain, ended) = zstd_decode c raw in
      if length plain < 4 then Err ShortHeaderLength
      else let headerLen = of_be32 (take 4 plain); rest = drop 4 plain in
        if headerLen > MaxHeaderSize then Err HeaderTooLarge
        else if length rest < headerLen then Err ShortHeader
        else case header_unmarshal c (take headerLen rest) of
          None \<Rightarrow> Err BadHeader
        | Some entries \<Rightarrow> if \<not> ended then Err ReadError else Ok (entries, blake3 plain, drop headerLen rest))"

text \<open>The check of one object. The message of the first error shows eight bytes of the digest, and slicing a
  shorter one panics, as does a negative offset or length that passes the 64-bit sum.\<close>

definition check_entry :: "(bytes \<Rightarrow> bytes) \<Rightarrow> bytes \<Rightarrow> pack_entry \<Rightarrow> (ingest_error, unit) go" where
  "check_entry blake3 data e =
     (let off = sint (pe_Offset e); stop = sint (pe_Offset e + pe_Length e) in
      if stop > int (length data) then (if length (pe_Digest e) < 8 then Panic else Err BeyondData)
      else if off < 0 \<or> stop < off then Panic
      else if blake3 (slice (nat off) (nat stop) data) \<noteq> pe_Digest e then Err DigestMismatch
      else Ok ())"

fun index_objects ::
  "(bytes \<Rightarrow> bytes) \<Rightarrow> (pack_entry \<Rightarrow> 'db \<Rightarrow> 'db) \<Rightarrow> bytes \<Rightarrow> pack_entry list \<Rightarrow> 'db \<Rightarrow> (ingest_error, 'db) go" where
  "index_objects blake3 record data [] db = Ok db"
| "index_objects blake3 record data (e # es) db =
     bind_go (check_entry blake3 data e) (\<lambda>_. index_objects blake3 record data es (record e db))"

definition record_entry :: "(bytes \<Rightarrow> bytes) \<Rightarrow> int \<Rightarrow> string \<Rightarrow> int \<Rightarrow> pack_entry \<Rightarrow> repo_db \<Rightarrow> repo_db" where
  "record_entry blake3 ts actor segmentID e db =
     (let db = InsertObject ts (pe_Digest e) segmentID (pe_Offset e) (pe_Length e) (pe_Kind e) db
      in if isSemanticKind (pe_Kind e)
         then let db = RecordNodePublish blake3 ts (pe_Digest e) (pe_Kind e) actor db
              in if pe_Kind e = ''Snapshot'' then EnqueueForEnrichment ts (pe_Digest e) (pe_Kind e) db else db
         else db)"

text \<open>An error rolls the transaction back, so it carries no tables.\<close>

definition IngestSegment ::
  "pack_codec \<Rightarrow> (bytes \<Rightarrow> bytes) \<Rightarrow> int \<Rightarrow> string \<Rightarrow> bytes \<Rightarrow> repo_db \<Rightarrow> (ingest_error, int \<times> nat \<times> repo_db) go" where
  "IngestSegment c blake3 ts actor raw db =
     bind_go (read_pack c blake3 raw) (\<lambda>(entries, checksum, data).
       let (segmentID, db) = InsertSegment ts checksum data db
       in bind_go (index_objects blake3 (record_entry blake3 ts actor segmentID) data entries db) (\<lambda>db.
            Ok (segmentID, length entries, db)))"

text \<open>The standalone function records no announcements.\<close>

definition record_entry_db :: "int \<Rightarrow> int \<Rightarrow> pack_entry \<Rightarrow> repo_db \<Rightarrow> repo_db" where
  "record_entry_db ts segmentID e db =
     (let db = InsertObjectTx ts (pe_Digest e) segmentID (pe_Offset e) (pe_Length e) (pe_Kind e) db
      in if pe_Kind e = ''Snapshot'' then EnqueueForEnrichmentTx ts (pe_Digest e) (pe_Kind e) db else db)"

definition IngestSegmentToDB ::
  "pack_codec \<Rightarrow> (bytes \<Rightarrow> bytes) \<Rightarrow> int \<Rightarrow> bytes \<Rightarrow> repo_db \<Rightarrow> (ingest_error, int \<times> nat \<times> repo_db) go" where
  "IngestSegmentToDB c blake3 ts raw db =
     bind_go (read_pack c blake3 raw) (\<lambda>(entries, checksum, data).
       let (segmentID, db) = InsertSegmentTx ts checksum data db
       in bind_go (index_objects blake3 (record_entry_db ts segmentID) data entries db) (\<lambda>db.
            Ok (segmentID, length entries, db)))"

definition pg_record_entry :: "int \<Rightarrow> string \<Rightarrow> int \<Rightarrow> pack_entry \<Rightarrow> pg_db \<Rightarrow> pg_db" where
  "pg_record_entry ts repo segmentID e db =
     (let db = PgInsertObjectTx ts repo (pe_Digest e) segmentID (pe_Offset e) (pe_Length e) (pe_Kind e) db
      in if pe_Kind e = ''Snapshot'' then PgEnqueueForEnrichmentTx ts repo (pe_Digest e) (pe_Kind e) db else db)"

definition PgIngestSegmentToDB ::
  "pack_codec \<Rightarrow> blob_api \<Rightarrow> (bytes \<Rightarrow> bytes) \<Rightarrow> int \<Rightarrow> string \<Rightarrow> bytes \<Rightarrow> pg_db \<Rightarrow> (ingest_error, int \<times> nat \<times> pg_db) go" where
  "PgIngestSegmentToDB c bs blake3 ts repo raw db =
     bind_go (read_pack c blake3 raw) (\<lambda>(entries, checksum, data).
       case PgInsertSegmentTx bs ts repo checksum data db of (segmentID, _, db) \<Rightarrow>
         bind_go (index_objects blake3 (pg_record_entry ts repo segmentID) data entries db) (\<lambda>db.
            Ok (segmentID, length entries, db)))"

section \<open>Extracting\<close>

definition ExtractObject :: "repo_db \<Rightarrow> bytes \<Rightarrow> (store_error, bytes \<times> string) go" where
  "ExtractObject db digest =
     bind_go (GetObject db digest) (\<lambda>info.
     bind_go (GetSegmentBlob db (SegmentID info)) (\<lambda>blob.
     bind_go (slice64 blob (Off info) (Len info)) (\<lambda>content. Ok (content, ObjKind info))))"

definition ExtractObjectFromDB :: "repo_db \<Rightarrow> bytes \<Rightarrow> (store_error, bytes \<times> string) go" where
  "ExtractObjectFromDB db digest =
     bind_go (GetObjectInfo db digest) (\<lambda>info.
     bind_go (GetSegmentBlobByID db (SegmentID info)) (\<lambda>blob.
     bind_go (slice64 blob (Off info) (Len info)) (\<lambda>content. Ok (content, ObjKind info))))"

definition PgExtractObjectFromDB :: "blob_api \<Rightarrow> pg_db \<Rightarrow> string \<Rightarrow> bytes \<Rightarrow> (store_error, bytes \<times> string) go" where
  "PgExtractObjectFromDB bs db repo digest =
     bind_go (PgGetObjectInfo db repo digest) (\<lambda>info.
       case (if IsExternal bs then bs_GetRange bs repo (SegmentKey (SegmentID info)) (Off info) (Len info) else None) of
         Some (b # content) \<Rightarrow> Ok (b # content, ObjKind info)
       | _ \<Rightarrow> bind_go (PgGetSegmentBlobByID bs db repo (SegmentID info)) (\<lambda>blob.
           bind_go (slice64 blob (Off info) (Len info)) (\<lambda>content. Ok (content, ObjKind info))))"

section \<open>A content-addressed store\<close>

text \<open>Every object of the store lies inside its segment, and its bytes hash to its digest.\<close>

definition object_valid :: "(bytes \<Rightarrow> bytes) \<Rightarrow> repo_db \<Rightarrow> object_info \<Rightarrow> bool" where
  "object_valid blake3 v r \<longleftrightarrow> (\<exists>blob. GetSegmentBlob v (SegmentID r) = Ok blob \<and> in_bounds r blob \<and> blake3 (object_slice r blob) = Digest r)"

definition store_ok :: "(bytes \<Rightarrow> bytes) \<Rightarrow> repo_db \<Rightarrow> bool" where
  "store_ok blake3 v \<longleftrightarrow> (\<forall>s \<in> set (segments v). seg_id s < next_segment v) \<and> distinct (map Digest (object_rows v)) \<and>
     (\<forall>r \<in> set (object_rows v). object_valid blake3 v r)"

definition object_row :: "int \<Rightarrow> int \<Rightarrow> pack_entry \<Rightarrow> object_info" where
  "object_row ts segmentID e = \<lparr>Digest = pe_Digest e, SegmentID = segmentID, Off = pe_Offset e, Len = pe_Length e,
     ObjKind = pe_Kind e, CreatedAt = ts\<rparr>"

lemma sint_add_bounds:
  fixes a b :: "64 word"
  assumes "0 \<le> sint a" and "sint a \<le> sint (a + b)"
  shows "0 \<le> sint b \<and> sint (a + b) = sint a + sint b"
proof -
  have r: "- (2 ^ 63) \<le> sint a" "sint a < 2 ^ 63" "- (2 ^ 63) \<le> sint b" "sint b < 2 ^ 63"
    using sint_range_size [of a] sint_range_size [of b] by (simp_all add: word_size)
  have s: "sint (a + b) = (sint a + sint b + 2 ^ 63) mod 2 ^ 64 - 2 ^ 63"
    by (simp add: sint_word_ariths signed_take_bit_eq_take_bit_shift take_bit_eq_mod)
  show ?thesis
  proof (cases "sint a + sint b < 2 ^ 63")
    case True
    then have "(sint a + sint b + 2 ^ 63) mod 2 ^ 64 = sint a + sint b + 2 ^ 63"
      using r assms(1) by (intro mod_pos_pos_trivial) auto
    then show ?thesis using s assms by auto
  next
    case False
    then have "(sint a + sint b + 2 ^ 63) mod 2 ^ 64 = sint a + sint b + 2 ^ 63 - 2 ^ 64"
      using r by (intro int_mod_pos_eq [where q = 1]) auto
    then have "sint (a + b) = sint a + sint b - 2 ^ 64" using s by simp
    then have False using r assms by auto
    then show ?thesis ..
  qed
qed

lemma check_entry_valid:
  "check_entry blake3 data e = Ok () \<Longrightarrow> in_bounds (object_row ts sid e) data \<and> blake3 (object_slice (object_row ts sid e) data) = pe_Digest e"
  using sint_add_bounds [of "pe_Offset e" "pe_Length e"]
  by (auto simp: check_entry_def Let_def in_bounds_def object_row_def object_slice_def split: if_splits)

lemma GetSegmentBlob_cong: "segments v = segments w \<Longrightarrow> GetSegmentBlob v = GetSegmentBlob w"
  by (simp add: GetSegmentBlob_def fun_eq_iff)

lemma object_valid_cong: "segments v = segments w \<Longrightarrow> object_valid blake3 v = object_valid blake3 w"
  by (simp add: object_valid_def fun_eq_iff GetSegmentBlob_cong [of v w])

text \<open>What ingesting needs of a store: a view of its rows, in which a new segment is added under the next id, and an
  object is added unless its digest is there.\<close>

locale ingest_store =
  fixes view :: "'db \<Rightarrow> repo_db" and ins :: "bytes \<Rightarrow> bytes \<Rightarrow> 'db \<Rightarrow> int \<times> 'db"
    and rec :: "int \<Rightarrow> pack_entry \<Rightarrow> 'db \<Rightarrow> 'db" and ts :: int
  assumes ins_segments: "ins checksum data db = (sid, db') \<Longrightarrow> sid = next_segment (view db) \<and> next_segment (view db') = sid + 1 \<and>
      segments (view db') = segments (view db) @ [\<lparr>seg_id = sid, seg_ts = ts, seg_checksum = checksum, seg_size = int (length data), seg_blob = data\<rparr>] \<and>
      object_rows (view db') = object_rows (view db)"
    and rec_segments: "segments (view (rec sid e db)) = segments (view db)" "next_segment (view (rec sid e db)) = next_segment (view db)"
    and rec_objects: "object_rows (view (rec sid e db)) =
      (if \<exists>r \<in> set (object_rows (view db)). Digest r = pe_Digest e then object_rows (view db)
       else object_rows (view db) @ [object_row ts sid e])"

definition ingest ::
  "pack_codec \<Rightarrow> (bytes \<Rightarrow> bytes) \<Rightarrow> (bytes \<Rightarrow> bytes \<Rightarrow> 'db \<Rightarrow> int \<times> 'db) \<Rightarrow> (int \<Rightarrow> pack_entry \<Rightarrow> 'db \<Rightarrow> 'db) \<Rightarrow> bytes \<Rightarrow> 'db \<Rightarrow>
   (ingest_error, int \<times> nat \<times> 'db) go" where
  "ingest c blake3 ins rec raw db =
     bind_go (read_pack c blake3 raw) (\<lambda>(entries, checksum, data).
       case ins checksum data db of (sid, db) \<Rightarrow>
         bind_go (index_objects blake3 (rec sid) data entries db) (\<lambda>db. Ok (sid, length entries, db)))"

context ingest_store
begin

lemma rec_ok:
  assumes "store_ok blake3 (view db)" and "GetSegmentBlob (view db) sid = Ok data" and "check_entry blake3 data e = Ok ()"
  shows "store_ok blake3 (view (rec sid e db))"
proof -
  have new: "object_valid blake3 (view db) (object_row ts sid e)"
    using check_entry_valid [OF assms(3), of ts sid] assms(2) by (auto simp: object_valid_def object_row_def)
  have v: "object_valid blake3 (view (rec sid e db)) = object_valid blake3 (view db)"
    by (rule object_valid_cong) (rule rec_segments)
  show ?thesis
    using assms(1) new unfolding store_ok_def v rec_segments rec_objects
    by (auto simp: object_row_def)
qed

lemma index_ok:
  assumes "store_ok blake3 (view db)" and "GetSegmentBlob (view db) sid = Ok data" and "index_objects blake3 (rec sid) data es db = Ok db'"
  shows "store_ok blake3 (view db') \<and> (\<forall>e \<in> set es. HasObject (view db') (pe_Digest e)) \<and>
    set (object_rows (view db)) \<subseteq> set (object_rows (view db'))"
  using assms
proof (induction es arbitrary: db)
  case (Cons e es)
  then have c: "check_entry blake3 data e = Ok ()" and i: "index_objects blake3 (rec sid) data es (rec sid e db) = Ok db'"
    by (auto simp: bind_go_Ok_iff)
  have g: "GetSegmentBlob (view (rec sid e db)) sid = Ok data"
    using Cons.prems(2) GetSegmentBlob_cong [OF rec_segments(1)] by metis
  note IH = Cons.IH [OF rec_ok [OF Cons.prems(1,2) c] g i]
  have "HasObject (view (rec sid e db)) (pe_Digest e)" by (auto simp: HasObject_def rec_objects object_row_def)
  moreover have "set (object_rows (view db)) \<subseteq> set (object_rows (view (rec sid e db)))" by (auto simp: rec_objects)
  ultimately show ?case using IH by (auto simp: HasObject_def)
qed simp

lemma ins_ok:
  assumes "store_ok blake3 (view db)" and "ins checksum data db = (sid, db')"
  shows "store_ok blake3 (view db') \<and> GetSegmentBlob (view db') sid = Ok data \<and> object_rows (view db') = object_rows (view db)"
proof -
  note i = ins_segments [OF assms(2)]
  have fresh: "\<forall>s \<in> set (segments (view db)). seg_id s < sid" using assms(1) i by (simp add: store_ok_def)
  then have none: "find (\<lambda>r. seg_id r = sid) (segments (view db)) = None" by (auto simp: find_None_iff)
  have find_snoc: "find P (xs @ [x]) = (case find P xs of Some y \<Rightarrow> Some y | None \<Rightarrow> if P x then Some x else None)" for P :: "segment_row \<Rightarrow> bool" and xs x
    by (induction xs) auto
  have old: "GetSegmentBlob (view db') k = Ok b" if "GetSegmentBlob (view db) k = Ok b" for k b
    using that i by (auto simp: GetSegmentBlob_def find_snoc split: option.splits)
  have "object_valid blake3 (view db') r" if "object_valid blake3 (view db) r" for r
    using that old by (auto simp: object_valid_def)
  then have "store_ok blake3 (view db')" using assms(1) i fresh by (auto simp: store_ok_def)
  moreover have "GetSegmentBlob (view db') sid = Ok data" using i none by (simp add: GetSegmentBlob_def find_snoc)
  ultimately show ?thesis using i by blast
qed

lemma ingest_ok:
  assumes "store_ok blake3 (view db)" and "ingest c blake3 ins rec raw db = Ok (sid, n, db')"
  shows "store_ok blake3 (view db') \<and> set (object_rows (view db)) \<subseteq> set (object_rows (view db')) \<and>
    (\<exists>entries checksum data. read_pack c blake3 raw = Ok (entries, checksum, data) \<and> n = length entries \<and>
      (\<forall>e \<in> set entries. HasObject (view db') (pe_Digest e)))"
proof -
  obtain entries checksum data where r: "read_pack c blake3 raw = Ok (entries, checksum, data)"
    using assms(2) by (auto simp: ingest_def bind_go_Ok_iff)
  obtain s1 db1 where i: "ins checksum data db = (s1, db1)" by fastforce
  from assms(2) r i have x: "index_objects blake3 (rec s1) data entries db1 = Ok db'" "n = length entries"
    by (auto simp: ingest_def bind_go_Ok_iff)
  note o = ins_ok [OF assms(1) i]
  show ?thesis using index_ok [OF _ _ x(1)] o r x(2) by auto
qed

end

lemma store_ok_extract:
  assumes "store_ok blake3 v" and "HasObject v d"
  shows "\<exists>content kind. ExtractObject v d = Ok (content, kind) \<and> blake3 content = d"
proof -
  obtain info where i: "GetObject v d = Ok info"
  proof (cases "find (\<lambda>r. Digest r = d) (object_rows v)")
    case None
    then show ?thesis using assms(2) by (auto simp: HasObject_def find_None_iff)
  next
    case (Some info)
    then show ?thesis using that by (simp add: GetObject_def)
  qed
  from GetObject_mem [OF i] assms(1) obtain blob where
    b: "GetSegmentBlob v (SegmentID info) = Ok blob" "in_bounds info blob" "blake3 (object_slice info blob) = d"
    by (auto simp: store_ok_def object_valid_def)
  then show ?thesis by (simp add: ExtractObject_def i slice64_object)
qed

lemma record_entry_sel:
  "segments (record_entry blake3 ts actor sid e db) = segments db" "next_segment (record_entry blake3 ts actor sid e db) = next_segment db"
  "object_rows (record_entry blake3 ts actor sid e db) = object_rows (InsertObject ts (pe_Digest e) sid (pe_Offset e) (pe_Length e) (pe_Kind e) db)"
  by (simp_all add: record_entry_def Let_def RecordNodePublish_def EnqueueForEnrichment_def InsertObject_def)

interpretation lite: ingest_store "\<lambda>db. db" "InsertSegment ts" "record_entry blake3 ts actor" ts for blake3 ts actor
  by unfold_locales (auto simp: record_entry_sel InsertSegment_def InsertObject_def object_row_def)

interpretation lite_db: ingest_store "\<lambda>db. db" "InsertSegmentTx ts" "record_entry_db ts" ts for ts
  by unfold_locales (auto simp: record_entry_db_def InsertSegmentTx_def InsertSegment_def InsertObjectTx_def InsertObject_def
      EnqueueForEnrichmentTx_def EnqueueForEnrichment_def object_row_def Let_def)

definition pg_insert_segment :: "blob_api \<Rightarrow> int \<Rightarrow> string \<Rightarrow> bytes \<Rightarrow> bytes \<Rightarrow> pg_db \<Rightarrow> int \<times> pg_db" where
  "pg_insert_segment bs ts repo checksum data db = (case PgInsertSegmentTx bs ts repo checksum data db of (sid, _, db) \<Rightarrow> (sid, db))"

interpretation pg: ingest_store "repo_view repo" "pg_insert_segment bs ts repo" "pg_record_entry ts repo" ts for bs ts repo
  by unfold_locales (auto simp: pg_insert_segment_def pg_record_entry_def PgInsertSegmentTx_def PgInsertObjectTx_def
      PgEnqueueForEnrichmentTx_def object_row_def Let_def pg_rows)

lemma ingest_instances:
  "IngestSegment c blake3 ts actor raw db = ingest c blake3 (InsertSegment ts) (record_entry blake3 ts actor) raw db"
  "IngestSegmentToDB c blake3 ts raw db = ingest c blake3 (InsertSegmentTx ts) (record_entry_db ts) raw db"
  "PgIngestSegmentToDB c bs blake3 ts repo raw pdb = ingest c blake3 (pg_insert_segment bs ts repo) (pg_record_entry ts repo) raw pdb"
  by (auto simp: IngestSegment_def IngestSegmentToDB_def PgIngestSegmentToDB_def ingest_def pg_insert_segment_def Let_def
      intro!: bind_go_cong split: prod.split)


section \<open>Building and ingesting\<close>

definition codec_ok :: "pack_codec \<Rightarrow> bool" where
  "codec_ok c \<longleftrightarrow> (\<forall>x. zstd_decode c (zstd_encode c x) = (x, True)) \<and> (\<forall>es. header_unmarshal c (header_marshal c es) = Some es)"

lemma sint_of_nat: "n < 2 ^ 63 \<Longrightarrow> sint (word_of_nat n :: 64 word) = int n"
  by (simp add: signed_of_nat signed_take_bit_int_eq_self)

lemma check_pack_entries:
  assumes "\<forall>x \<in> set os. blake3 (po_Content x) = po_Digest x" and "length pre + length (concat (map po_Content os)) < 2 ^ 63"
  shows "\<forall>e \<in> set (pack_entries (length pre) os). check_entry blake3 (pre @ concat (map po_Content os)) e = Ok ()"
  using assms
proof (induction os arbitrary: pre)
  case (Cons x os)
  let ?n = "length pre" and ?k = "length (po_Content x)"
  have "sint (word_of_nat ?n + word_of_nat ?k :: 64 word) = int (?n + ?k)"
    using Cons.prems(2) sint_of_nat [of "?n + ?k"] by simp
  moreover have "sint (word_of_nat ?n :: 64 word) = int ?n" using Cons.prems(2) by (intro sint_of_nat) simp
  moreover have "slice ?n (?n + ?k) (pre @ po_Content x @ concat (map po_Content os)) = po_Content x"
    by (simp add: slice_def)
  ultimately have "check_entry blake3 (pre @ concat (map po_Content (x # os)))
      \<lparr>pe_Digest = po_Digest x, pe_Kind = po_Kind x, pe_Offset = word_of_nat ?n, pe_Length = word_of_nat ?k\<rparr> = Ok ()"
    using Cons.prems(1) nat_int_add [of ?n ?k] by (simp add: check_entry_def Let_def)
  then show ?case using Cons.IH [of "pre @ po_Content x"] Cons.prems by simp
qed simp

lemma index_all: "\<forall>e \<in> set es. check_entry blake3 data e = Ok () \<Longrightarrow> \<exists>db'. index_objects blake3 rec data es db = Ok db'"
  by (induction es arbitrary: db) auto

lemma pack_entries_digests: "map pe_Digest (pack_entries n os) = map po_Digest os" "length (pack_entries n os) = length os"
  by (induction n os rule: pack_entries.induct) auto

lemma BuildPack_accepted:
  assumes "codec_ok c" and "store_ok blake3 db" and "\<forall>x \<in> set os. blake3 (po_Content x) = po_Digest x"
    and "length (header_marshal c (pack_entries 0 os)) \<le> MaxHeaderSize" and "length (concat (map po_Content os)) < 2 ^ 63"
  shows "\<exists>sid db' checksum data. IngestSegment c blake3 ts actor (BuildPack c os) db = Ok (sid, length os, db') \<and>
    read_pack c blake3 (BuildPack c os) = Ok (pack_entries 0 os, checksum, data)"
proof -
  let ?h = "header_marshal c (pack_entries 0 os)" and ?data = "concat (map po_Content os)"
  have "length ?h < 4294967296" using assms(4) by (simp add: MaxHeaderSize_def)
  then have r: "read_pack c blake3 (BuildPack c os) = Ok (pack_entries 0 os, blake3 (be32 (length ?h) @ ?h @ ?data), ?data)"
    using assms(1,4) by (simp add: read_pack_def BuildPack_def codec_ok_def Let_def of_be32_be32)
  obtain sid db1 where i: "InsertSegment ts (blake3 (be32 (length ?h) @ ?h @ ?data)) ?data db = (sid, db1)" by fastforce
  have "\<forall>e \<in> set (pack_entries 0 os). check_entry blake3 ?data e = Ok ()"
    using check_pack_entries [of os blake3 "[]"] assms(3,5) by simp
  from index_all [OF this, of "record_entry blake3 ts actor sid" db1] obtain db' where x: "index_objects blake3 (record_entry blake3 ts actor sid) ?data (pack_entries 0 os) db1 = Ok db'" by blast
  have s: "IngestSegment c blake3 ts actor (BuildPack c os) db = Ok (sid, length os, db')"
    using r i x by (simp add: IngestSegment_def pack_entries_digests)
  with r show ?thesis by blast
qed


section \<open>Examples\<close>

text \<open>A small encoding of headers in place of JSON, no compression, and reversal as the hash.\<close>

fun enc_bytes :: "bytes \<Rightarrow> bytes" where
  "enc_bytes [] = [0]"
| "enc_bytes (b # bs) = 1 # b # enc_bytes bs"

fun dec_bytes :: "bytes \<Rightarrow> (bytes \<times> bytes) option" where
  "dec_bytes [] = None"
| "dec_bytes [t] = (if t = 0 then Some ([], []) else None)"
| "dec_bytes (t # b # r) = (if t = 0 then Some ([], b # r) else map_option (\<lambda>(x, s). (b # x, s)) (dec_bytes r))"

lemma dec_enc_bytes: "dec_bytes (enc_bytes b @ r) = Some (b, r)"
proof (induction b)
  case Nil
  then show ?case by (cases r) simp_all
qed simp

definition enc_word :: "64 word \<Rightarrow> bytes" where
  "enc_word w = enc_bytes (to_bytes (show_nat (unat w)))"

definition enc_entry :: "pack_entry \<Rightarrow> bytes" where
  "enc_entry e = enc_bytes (pe_Digest e) @ enc_bytes (to_bytes (pe_Kind e)) @ enc_word (pe_Offset e) @ enc_word (pe_Length e)"

definition dec_entry :: "bytes \<Rightarrow> (pack_entry \<times> bytes) option" where
  "dec_entry b = Option.bind (dec_bytes b) (\<lambda>(d, b). Option.bind (dec_bytes b) (\<lambda>(k, b).
     Option.bind (dec_bytes b) (\<lambda>(off, b). Option.bind (dec_bytes b) (\<lambda>(len, b).
       Some (\<lparr>pe_Digest = d, pe_Kind = of_bytes k, pe_Offset = word_of_nat (digits_value (of_bytes off)),
              pe_Length = word_of_nat (digits_value (of_bytes len))\<rparr>, b)))))"

lemma dec_enc_entry: "dec_entry (enc_entry e @ r) = Some (e, r)"
  by (simp add: dec_entry_def enc_entry_def enc_word_def dec_enc_bytes digits_value_show)

fun enc_header :: "pack_entry list \<Rightarrow> bytes" where
  "enc_header [] = []"
| "enc_header (e # es) = enc_entry e @ enc_header es"

primrec dec_header :: "nat \<Rightarrow> bytes \<Rightarrow> pack_entry list option" where
  "dec_header 0 b = None"
| "dec_header (Suc n) b = (if b = [] then Some [] else Option.bind (dec_entry b) (\<lambda>(e, r). map_option ((#) e) (dec_header n r)))"

lemma enc_entry_nonempty: "enc_entry e \<noteq> []" "0 < length (enc_entry e)"
  by (cases "pe_Digest e"; simp add: enc_entry_def)+

lemma dec_enc_header: "length es < n \<Longrightarrow> dec_header n (enc_header es) = Some es"
proof (induction es arbitrary: n)
  case Nil
  then show ?case by (cases n) simp_all
next
  case (Cons e es)
  then show ?case by (cases n) (simp_all add: enc_entry_nonempty dec_enc_entry)
qed

lemma length_enc_header: "length es \<le> length (enc_header es)"
proof (induction es)
  case (Cons e es)
  have "1 \<le> length (enc_entry e)" using enc_entry_nonempty(1) [of e] by (cases "enc_entry e") simp_all
  with Cons show ?case by simp
qed simp

definition ex_codec :: pack_codec where
  "ex_codec = \<lparr>zstd_encode = (\<lambda>x. x), zstd_decode = (\<lambda>x. (x, True)), header_marshal = enc_header,
     header_unmarshal = (\<lambda>b. dec_header (length b + 1) b)\<rparr>"

lemma ex_codec_ok: "codec_ok ex_codec"
  using dec_enc_header [OF le_imp_less_Suc [OF length_enc_header]]
  by (simp add: codec_ok_def ex_codec_def del: dec_header.simps)

definition ex_objects :: "pack_object list" where
  "ex_objects = [\<lparr>po_Digest = [2, 1], po_Kind = ''File'', po_Content = [1, 2]\<rparr>, \<lparr>po_Digest = [3], po_Kind = ''Blob'', po_Content = [3]\<rparr>]"

lemma ex_store_ok: "store_ok rev empty_db"
  by (simp add: store_ok_def empty_db_def)

lemma ex_pg_store_ok: "store_ok rev (repo_view ''a'' \<lparr>t_segments = [], t_next_segment = 1, t_objects = [], t_refs = [], t_history = [],
     t_next_history = 1, t_publish = [], t_next_publish = 1, t_enrich = [], t_next_enrich = 1, t_edges = [], t_authorship = []\<rparr>)"
  by (simp add: store_ok_def rows_of_def)

lemma ex_sizes: "\<forall>x \<in> set ex_objects. rev (po_Content x) = po_Digest x"
    "length (header_marshal ex_codec (pack_entries 0 ex_objects)) \<le> MaxHeaderSize" "length (concat (map po_Content ex_objects)) < 2 ^ 63"
proof -
  show "\<forall>x \<in> set ex_objects. rev (po_Content x) = po_Digest x" by (simp add: ex_objects_def)
  have "header_marshal ex_codec (pack_entries 0 ex_objects) = enc_header (pack_entries 0 ex_objects)" by (simp add: ex_codec_def)
  moreover have "length (enc_header (pack_entries 0 ex_objects)) \<le> MaxHeaderSize"
    by (simp add: ex_objects_def enc_entry_def enc_word_def show_nat.simps to_bytes_def MaxHeaderSize_def)
  ultimately show "length (header_marshal ex_codec (pack_entries 0 ex_objects)) \<le> MaxHeaderSize" by simp
  show "length (concat (map po_Content ex_objects)) < 2 ^ 63" by (simp add: ex_objects_def)
qed



end
