(* ===== verification/Cas.thy ===== *)
theory Cas
  imports RefStore
begin


text \<open>
  Content addressing of semantic nodes (\<open>src/kai-core/cas/cas.go\<close>): canonical JSON and node ids. A value that
  \<open>json.Unmarshal\<close> gives is null, a boolean, a number, a string, an array or an object, the last a Go map
  with string keys, which are distinct. How \<open>encoding/json\<close> prints a number and BLAKE3 are parameters.
\<close>

section \<open>Values\<close>

datatype 'n json = VNull | VBool bool | VNum 'n | VStr string | VArr "'n json list" | VObj "(string \<times> 'n json) list"

fun join_with :: "string \<Rightarrow> string list \<Rightarrow> string" where
  "join_with sep [] = []"
| "join_with sep [s] = s"
| "join_with sep (s # t # ss) = s @ sep @ join_with sep (t # ss)"

definition marshalArray :: "string list \<Rightarrow> string" where
  "marshalArray vals = ''['' @ join_with '','' vals @ '']''"

definition marshalSortedMap :: "(string \<times> string) list \<Rightarrow> string" where
  "marshalSortedMap m = ''{'' @ join_with '','' (map (\<lambda>(k, v). json_string k @ '':'' @ v) (sort_key fst m)) @ ''}''"

fun canonicalMarshal :: "('n \<Rightarrow> string) \<Rightarrow> 'n json \<Rightarrow> string" where
  "canonicalMarshal num VNull = ''null''"
| "canonicalMarshal num (VBool b) = (if b then ''true'' else ''false'')"
| "canonicalMarshal num (VNum n) = num n"
| "canonicalMarshal num (VStr s) = json_string s"
| "canonicalMarshal num (VArr vs) = marshalArray (map (canonicalMarshal num) vs)"
| "canonicalMarshal num (VObj m) = marshalSortedMap (map (\<lambda>(k, v). (k, canonicalMarshal num v)) m)"

text \<open>A Go value is first marshalled and read back, which fails for values JSON does not have.\<close>

definition CanonicalJSON :: "('n \<Rightarrow> string) \<Rightarrow> ('v \<Rightarrow> 'n json option) \<Rightarrow> 'v \<Rightarrow> string option" where
  "CanonicalJSON num to_json v = map_option (canonicalMarshal num) (to_json v)"

definition NodeID :: "(bytes \<Rightarrow> bytes) \<Rightarrow> ('n \<Rightarrow> string) \<Rightarrow> ('v \<Rightarrow> 'n json option) \<Rightarrow> string \<Rightarrow> 'v \<Rightarrow> bytes option" where
  "NodeID blake3 num to_json kind payload =
     map_option (\<lambda>canonicalPayload. blake3 (to_bytes (kind @ [CHR 0x0A] @ canonicalPayload))) (CanonicalJSON num to_json payload)"

definition NodeIDHex :: "(bytes \<Rightarrow> bytes) \<Rightarrow> ('n \<Rightarrow> string) \<Rightarrow> ('v \<Rightarrow> 'n json option) \<Rightarrow> string \<Rightarrow> 'v \<Rightarrow> string option" where
  "NodeIDHex blake3 num to_json kind payload = map_option hex_encode (NodeID blake3 num to_json kind payload)"

section \<open>Equal values\<close>

text \<open>Sorting the keys of every object.\<close>

fun json_norm :: "'n json \<Rightarrow> 'n json" where
  "json_norm (VArr vs) = VArr (map json_norm vs)"
| "json_norm (VObj m) = VObj (sort_key fst (map (\<lambda>(k, v). (k, json_norm v)) m))"
| "json_norm v = v"

section \<open>Strings are printed without ambiguity\<close>

definition read_char :: "string \<Rightarrow> (char \<times> string) option" where
  "read_char s = (case s of
      [] \<Rightarrow> None
    | c # r \<Rightarrow>
        if c \<noteq> CHR 0x5C then Some (c, r)
        else (case r of
            [] \<Rightarrow> None
          | e # r' \<Rightarrow>
              if e = CHR ''u'' then (case r' of _ # _ # a # b # r'' \<Rightarrow>
                  (case (hex_val a, hex_val b) of (Some x, Some y) \<Rightarrow> Some (char_of (16 * x + y), r'') | _ \<Rightarrow> None) | _ \<Rightarrow> None)
              else Some (if e = CHR ''b'' then char_of (8 :: nat) else if e = CHR ''f'' then char_of (12 :: nat)
                 else if e = CHR ''n'' then char_of (10 :: nat) else if e = CHR ''r'' then char_of (13 :: nat)
                 else if e = CHR ''t'' then char_of (9 :: nat) else e, r')))"

lemma of_char_eq: "(of_char c :: nat) = n \<Longrightarrow> c = char_of n"
  by auto

lemma hex2_read: "n < 256 \<Longrightarrow> \<exists>a b. hex2 n = [a, b] \<and> hex_val a = Some (n div 16) \<and> hex_val b = Some (n mod 16)"
  by (simp add: hex2_def hex_val_digit)

lemma read_char_print: "read_char (json_char c @ r) = Some (c, r)"
proof -
  let ?n = "of_char c :: nat"
  obtain a b where h: "hex2 ?n = [a, b]" "hex_val a = Some (?n div 16)" "hex_val b = Some (?n mod 16)"
    using hex2_read [OF of_char_nat_less] by blast
  have m: "char_of (16 * (?n div 16) + ?n mod 16) = c" by simp
  consider "c = CHR 0x22" | "c = CHR 0x5C" | "?n \<in> {8, 9, 10, 12, 13}"
    | "c \<noteq> CHR 0x22" "c \<noteq> CHR 0x5C" "?n \<notin> {8, 9, 10, 12, 13}" by blast
  then show ?thesis
  proof cases
    case 3
    then consider "?n = 8" | "?n = 9" | "?n = 10" | "?n = 12" | "?n = 13" by blast
    then show ?thesis by cases (drule of_char_eq, simp add: read_char_def json_char_def)+
  next
    case 4
    show ?thesis
    proof (cases "?n < 32 \<or> c \<in> {CHR ''<'', CHR ''>'', CHR ''&''}")
      case True
      then have "json_char c = [CHR 0x5C] @ ''u00'' @ hex2 ?n" using 4 by (simp add: json_char_def Let_def)
      then show ?thesis by (simp add: read_char_def h m)
    next
      case False
      then have "json_char c = [c]" using 4 by (simp add: json_char_def Let_def)
      then show ?thesis using 4 by (simp add: read_char_def)
    qed
  qed (simp_all add: read_char_def json_char_def)
qed

lemma json_char_start: "hd (json_char c) \<noteq> CHR 0x22" "json_char c \<noteq> []"
  by (simp_all add: json_char_def Let_def)

lemma json_chars_inj:
  "concat (map json_char s) @ CHR 0x22 # r = concat (map json_char t) @ CHR 0x22 # u \<Longrightarrow> s = t \<and> r = u"
proof (induction s arbitrary: t)
  case Nil
  show ?case
  proof (cases t)
    case (Cons d t')
    then have "json_char d @ concat (map json_char t') @ CHR 0x22 # u = CHR 0x22 # r" using Nil by simp
    then show ?thesis using json_char_start [of d] by (cases "json_char d") auto
  qed (use Nil in simp)
next
  case (Cons c s)
  show ?case
  proof (cases t)
    case Nil
    then have "json_char c @ concat (map json_char s) @ CHR 0x22 # r = CHR 0x22 # u" using Cons.prems by simp
    then show ?thesis using json_char_start [of c] by (cases "json_char c") auto
  next
    case (Cons d t')
    have "read_char (json_char c @ concat (map json_char s) @ CHR 0x22 # r) = read_char (json_char d @ concat (map json_char t') @ CHR 0x22 # u)"
      using Cons.prems Cons by simp
    then have "c = d" "concat (map json_char s) @ CHR 0x22 # r = concat (map json_char t') @ CHR 0x22 # u"
      by (simp_all add: read_char_print)
    then show ?thesis using Cons.IH [of t'] Cons by simp
  qed
qed

lemma json_string_inj: "json_string s @ r = json_string t @ u \<Longrightarrow> s = t \<and> r = u"
  using json_chars_inj [of s r t u] by (simp add: json_string_def)

section \<open>Values are printed without ambiguity\<close>

text \<open>What is used of the printing of numbers: different numbers are printed differently, with characters that
  begin no other value and end none.\<close>

definition num_char :: "char \<Rightarrow> bool" where
  "num_char c \<longleftrightarrow> is_digit c \<or> c \<in> {CHR ''-'', CHR ''+'', CHR ''.'', CHR ''e'', CHR ''E''}"

definition prints_numbers :: "('n \<Rightarrow> string) \<Rightarrow> bool" where
  "prints_numbers num \<longleftrightarrow> inj num \<and> (\<forall>n. num n \<noteq> [] \<and> list_all num_char (num n) \<and> (is_digit (hd (num n)) \<or> hd (num n) = CHR ''-''))"

text \<open>Such text ends before a character of this kind, or at the end.\<close>

definition ends :: "string \<Rightarrow> bool" where
  "ends r \<longleftrightarrow> r = [] \<or> hd r \<in> {CHR '','', CHR '']'', CHR ''}''}"

lemma ends_simps [simp]: "ends []" "ends (CHR '','' # r)" "ends (CHR '']'' # r)" "ends (CHR ''}'' # r)"
  by (simp_all add: ends_def)

lemma num_takeWhile: "list_all num_char a \<Longrightarrow> ends r \<Longrightarrow> takeWhile num_char (a @ r) = a"
proof -
  assume a: "list_all num_char a" and r: "ends r"
  have "takeWhile num_char r = []"
    using r by (cases r) (auto simp: ends_def num_char_def is_digit_def)
  then show ?thesis using a by (simp add: list_all_iff)
qed

text \<open>The first character tells what kind of value follows.\<close>

primrec first_of :: "'n json \<Rightarrow> char \<Rightarrow> bool" where
  "first_of VNull c \<longleftrightarrow> c = CHR ''n''"
| "first_of (VBool b) c \<longleftrightarrow> c = (if b then CHR ''t'' else CHR ''f'')"
| "first_of (VNum n) c \<longleftrightarrow> is_digit c \<or> c = CHR ''-''"
| "first_of (VStr s) c \<longleftrightarrow> c = CHR 0x22"
| "first_of (VArr vs) c \<longleftrightarrow> c = CHR ''[''"
| "first_of (VObj m) c \<longleftrightarrow> c = CHR ''{''"

lemma canonical_first:
  assumes "prints_numbers num"
  shows "\<exists>c r. canonicalMarshal num v = c # r \<and> first_of v c"
proof (cases v)
  case (VNum n)
  have "num n \<noteq> []" "is_digit (hd (num n)) \<or> hd (num n) = CHR ''-''" using assms by (auto simp: prints_numbers_def)
  then show ?thesis by (cases "num n") (simp_all add: VNum)
qed (auto simp: json_string_def marshalArray_def marshalSortedMap_def)

lemma join_cons: "join_with sep (s # ss) = s @ (if ss = [] then [] else sep @ join_with sep ss)"
  by (cases ss) simp_all

text \<open>Lists of unambiguous texts, separated by commas and closed by a bracket, are unambiguous.\<close>

lemma join_inj:
  assumes "\<And>x y r u. x \<in> set xs \<Longrightarrow> f x @ r = g y @ u \<Longrightarrow> ends r \<Longrightarrow> ends u \<Longrightarrow> P x y \<and> r = u"
    and "\<And>x. x \<in> set xs \<Longrightarrow> f x \<noteq> [] \<and> hd (f x) \<noteq> close" and "\<And>y. g y \<noteq> [] \<and> hd (g y) \<noteq> close" and "close \<in> {CHR '']'', CHR ''}''}"
    and "join_with '','' (map f xs) @ close # r = join_with '','' (map g ys) @ close # u"
  shows "list_all2 P xs ys \<and> r = u"
  using assms
proof (induction xs arbitrary: ys)
  case Nil
  show ?case
  proof (cases ys)
    case (Cons y ys')
    then have "g y @ (if ys' = [] then [] else '','' @ join_with '','' (map g ys')) @ close # u = close # r"
      using Nil.prems(5) by (simp add: join_cons)
    then show ?thesis using Nil.prems(3) [of y] by (cases "g y") auto
  qed (use Nil.prems(5) in simp)
next
  case (Cons x xs)
  have cl: "ends (close # s)" for s using Cons.prems(4) by (auto simp: ends_def)
  let ?tail = "\<lambda>h zs s. (if zs = [] then close # s else CHR '','' # join_with '','' (map h zs) @ close # s)"
  have fx: "join_with '','' (map f (x # xs)) @ close # r = f x @ ?tail f xs r" by (simp add: join_cons)
  show ?case
  proof (cases ys)
    case Nil
    then have "f x @ ?tail f xs r = close # u" using Cons.prems(5) fx by simp
    then show ?thesis using Cons.prems(2) [of x] by (cases "f x") auto
  next
    case (Cons y ys')
    have gy: "join_with '','' (map g ys) @ close # u = g y @ ?tail g ys' u" by (simp add: Cons join_cons)
    have "f x @ ?tail f xs r = g y @ ?tail g ys' u" using Cons.prems(5) fx gy by simp
    from Cons.prems(1) [OF _ this] have p: "P x y" "?tail f xs r = ?tail g ys' u" by (auto simp: cl)
    show ?thesis
    proof (cases "xs = [] \<or> ys' = []")
      case True
      have "close \<noteq> CHR '',''" using Cons.prems(4) by auto
      with True p(2) have "xs = []" "ys' = []" "r = u" by (auto split: if_splits)
      with p(1) Cons show ?thesis by simp
    next
      case False
      then have eq: "join_with '','' (map f xs) @ close # r = join_with '','' (map g ys') @ close # u" using p(2) by simp
      have "list_all2 P xs ys' \<and> r = u"
      proof (rule Cons.IH [OF _ _ Cons.prems(3,4) eq])
        show "P x' y' \<and> r' = u'" if "x' \<in> set xs" "f x' @ r' = g y' @ u'" "ends r'" "ends u'" for x' r' y' u'
          using Cons.prems(1) [OF _ that(2-4)] that(1) by simp
        show "f x' \<noteq> [] \<and> hd (f x') \<noteq> close" if "x' \<in> set xs" for x' using Cons.prems(2) that by simp
      qed
      with p(1) Cons show ?thesis by simp
    qed
  qed
qed

text \<open>Printing forgets the order of the keys and nothing else.\<close>

lemma insort_map_snd: "map (\<lambda>(k, v). (k, f v)) (insort_key fst (k, v) m) = insort_key fst (k, f v) (map (\<lambda>(k, v). (k, f v)) m)"
  by (induction m) auto

lemma sort_map_snd: "sort_key fst (map (\<lambda>(k, v). (k, f v)) m) = map (\<lambda>(k, v). (k, f v)) (sort_key fst m)"
proof (induction m)
  case (Cons x m)
  obtain k v where "x = (k, v)" by (cases x)
  with Cons show ?case by (simp add: insort_map_snd)
qed simp

lemma canonical_VObj:
  "canonicalMarshal num (VObj m) = CHR ''{'' # join_with '','' (map (\<lambda>(k, v). json_string k @ '':'' @ canonicalMarshal num v) (sort_key fst m)) @ ''}''"
proof -
  have "(\<lambda>(k, v). json_string k @ CHR '':'' # v) \<circ> (\<lambda>(k, v). (k, canonicalMarshal num v)) =
      (\<lambda>(k, v). json_string k @ CHR '':'' # canonicalMarshal num v)"
    by auto
  then show ?thesis by (simp add: marshalSortedMap_def sort_map_snd)
qed

lemma json_norm_VObj: "json_norm (VObj m) = VObj (map (\<lambda>(k, v). (k, json_norm v)) (sort_key fst m))"
  by (simp add: sort_map_snd)

declare canonicalMarshal.simps(6) [simp del] json_norm.simps(2) [simp del]

lemma list_all2_norm: "list_all2 (\<lambda>x y. json_norm x = json_norm y) vs ws \<Longrightarrow> map json_norm vs = map json_norm ws"
  by (induction vs ws rule: list_all2_induct) simp_all

lemma first_of_close: "first_of v c \<Longrightarrow> c \<noteq> CHR '']'' \<and> c \<noteq> CHR ''}''"
  by (cases v) (auto simp: is_digit_def split: if_splits)

lemma canonical_close:
  "prints_numbers num \<Longrightarrow> canonicalMarshal num v \<noteq> [] \<and> hd (canonicalMarshal num v) \<noteq> CHR '']''"
  using canonical_first [of num v] first_of_close [of v] by auto

lemma canonical_inj:
  assumes num: "prints_numbers num"
  shows "canonicalMarshal num v @ r = canonicalMarshal num w @ u \<Longrightarrow> ends r \<Longrightarrow> ends u \<Longrightarrow> json_norm v = json_norm w \<and> r = u"
proof (induction v arbitrary: w r u)
  case (VNum n)
  obtain c t where c: "canonicalMarshal num w = c # t" "first_of w c" using canonical_first [OF num] by blast
  have n: "num n \<noteq> []" "list_all num_char (num n)" "is_digit (hd (num n)) \<or> hd (num n) = CHR ''-''" for n
    using num by (auto simp: prints_numbers_def)
  have "hd (num n) = c" using VNum.prems(1) c n(1) [of n] by (cases "num n") auto
  then have "\<exists>k. w = VNum k" using c(2) n(3) [of n] by (cases w) (auto simp: is_digit_def split: if_splits)
  then obtain k where w: "w = VNum k" ..
  then have eq: "num n @ r = num k @ u" using VNum.prems(1) by simp
  have "num n = num k"
    using num_takeWhile [OF n(2) VNum.prems(2)] num_takeWhile [OF n(2) VNum.prems(3)] eq by metis
  then show ?case using eq w num by (simp add: prints_numbers_def inj_eq)
next
  case (VStr s)
  obtain c t where c: "canonicalMarshal num w = c # t" "first_of w c" using canonical_first [OF num] by blast
  have "c = CHR 0x22" using VStr.prems(1) c(1) by (simp add: json_string_def)
  then obtain s' where w: "w = VStr s'" using c(2) by (cases w) (auto simp: is_digit_def split: if_splits)
  then have "json_string s @ r = json_string s' @ u" using VStr.prems(1) by simp
  from json_string_inj [OF this] show ?case using w by simp
next
  case (VArr vs)
  obtain c t where c: "canonicalMarshal num w = c # t" "first_of w c" using canonical_first [OF num] by blast
  have "c = CHR ''[''" using VArr.prems(1) c(1) by (simp add: marshalArray_def)
  then obtain ws where w: "w = VArr ws" using c(2) by (cases w) (auto simp: is_digit_def split: if_splits)
  have ne: "canonicalMarshal num x \<noteq> [] \<and> hd (canonicalMarshal num x) \<noteq> CHR '']''" for x
    by (rule canonical_close [OF num])
  have eq: "join_with '','' (map (canonicalMarshal num) vs) @ CHR '']'' # r = join_with '','' (map (canonicalMarshal num) ws) @ CHR '']'' # u"
    using VArr.prems(1) w by (simp add: marshalArray_def)
  have "list_all2 (\<lambda>x y. json_norm x = json_norm y) vs ws \<and> r = u"
    by (rule join_inj [OF _ ne ne _ eq]) (erule (3) VArr.IH, simp)
  then show ?case using w list_all2_norm [of vs ws] by simp
next
  case (VObj m)
  obtain c t where c: "canonicalMarshal num w = c # t" "first_of w c" using canonical_first [OF num] by blast
  have "c = CHR ''{''" using VObj.prems(1) c(1) by (simp add: canonical_VObj)
  then obtain m' where w: "w = VObj m'" using c(2) by (cases w) (auto simp: is_digit_def split: if_splits)
  let ?f = "\<lambda>(k, v). json_string k @ '':'' @ canonicalMarshal num v"
  have ne: "?f x \<noteq> [] \<and> hd (?f x) \<noteq> CHR ''}''" for x by (auto simp: json_string_def split: prod.split)
  have one: "fst x = fst y \<and> json_norm (snd x) = json_norm (snd y) \<and> r' = u'"
    if "x \<in> set (sort_key fst m)" "?f x @ r' = ?f y @ u'" "ends r'" "ends u'" for x y r' u'
  proof -
    obtain k v k' v' where x: "x = (k, v)" "y = (k', v')" by (cases x, cases y)
    then have "json_string k @ CHR '':'' # canonicalMarshal num v @ r' = json_string k' @ CHR '':'' # canonicalMarshal num v' @ u'"
      using that(2) by simp
    then have k: "k = k'" "canonicalMarshal num v @ r' = canonicalMarshal num v' @ u'" using json_string_inj by blast+
    have "(k, v) \<in> set m" using that(1) x by simp
    then have "json_norm v = json_norm v' \<and> r' = u'" using VObj.IH [OF _ _ k(2) that(3,4)] by (auto simp: snds.simps)
    then show ?thesis using x k by simp
  qed
  have eq: "join_with '','' (map ?f (sort_key fst m)) @ CHR ''}'' # r = join_with '','' (map ?f (sort_key fst m')) @ CHR ''}'' # u"
    using VObj.prems(1) w by (simp add: canonical_VObj)
  have l: "list_all2 (\<lambda>x y. fst x = fst y \<and> json_norm (snd x) = json_norm (snd y)) (sort_key fst m) (sort_key fst m') \<and> r = u"
    by (rule join_inj [OF _ ne ne _ eq]) (use one in blast, simp)
  have "map (\<lambda>(k, v). (k, json_norm v)) xs = map (\<lambda>(k, v). (k, json_norm v)) ys"
    if "list_all2 (\<lambda>x y. fst x = fst y \<and> json_norm (snd x) = json_norm (snd y)) xs ys" for xs ys :: "(string \<times> 'a json) list"
    using that by (induction xs ys rule: list_all2_induct) (auto split: prod.split)
  with l w show ?case by (simp add: json_norm_VObj)
next
  case VNull
  obtain c t where c: "canonicalMarshal num w = c # t" "first_of w c" using canonical_first [OF num] by blast
  have "c = CHR ''n''" using VNull.prems(1) c(1) by simp
  then have "w = VNull" using c(2) by (cases w) (auto simp: is_digit_def split: if_splits)
  then show ?case using VNull.prems(1) by simp
next
  case (VBool b)
  obtain c t where c: "canonicalMarshal num w = c # t" "first_of w c" using canonical_first [OF num] by blast
  have "c = (if b then CHR ''t'' else CHR ''f'')" using VBool.prems(1) c(1) by (simp split: if_splits)
  then have "w = VBool b" using c(2) by (cases w) (auto simp: is_digit_def split: if_splits)
  then show ?case using VBool.prems(1) by simp
qed

text \<open>The keys of a Go map are distinct, so the order in which they are listed does not matter.\<close>

lemma sort_key_unique:
  fixes m m' :: "(string \<times> 'v) list"
  assumes "distinct (map fst m)" and "distinct (map fst m')" and "set m = set m'"
  shows "sort_key fst m = sort_key fst m'"
proof -
  have "distinct (map fst (sort_key fst l))" if "distinct (map fst l)" for l :: "(string \<times> 'v) list"
    using that by (simp add: distinct_map)
  then show ?thesis
    by (intro map_sorted_distinct_set_unique [where f = fst]) (use assms in \<open>auto simp: distinct_map\<close>)
qed

lemma json_norm_order:
  "distinct (map fst m) \<Longrightarrow> distinct (map fst m') \<Longrightarrow> set m = set m' \<Longrightarrow> json_norm (VObj m) = json_norm (VObj m')"
  by (simp add: json_norm_VObj sort_key_unique [of m m'])

lemma canonical_norm: "canonicalMarshal num (json_norm v) = canonicalMarshal num v"
proof (induction v)
  case (VArr vs)
  then have "map (canonicalMarshal num) (map json_norm vs) = map (canonicalMarshal num) vs" by simp
  then show ?case by (simp only: json_norm.simps canonicalMarshal.simps)
next
  case (VObj m)
  have s: "sort_key fst (sort_key fst m) = sort_key fst m" by (rule sort_key_id_if_sorted) simp
  have "map (\<lambda>(k, v). json_string k @ '':'' @ canonicalMarshal num v) (map (\<lambda>(k, v). (k, json_norm v)) (sort_key fst m)) =
      map (\<lambda>(k, v). json_string k @ '':'' @ canonicalMarshal num v) (sort_key fst m)"
    using VObj.IH by (auto simp: snds.simps)
  then show ?case by (simp only: json_norm_VObj canonical_VObj sort_map_snd s)
qed simp_all



end
