(* ===== verification/Json.thy ===== *)
theory Json
  imports Cas "HOL-Library.Multiset"
begin

text \<open>
  Reading JSON (package \<open>encoding/json\<close>): the values of \<open>json.Unmarshal\<close> into an empty
  interface, where a number is kept as its literal, and the decoding of a struct's fields. Used wherever the servers read back
  payloads they have written. The text is taken to be valid UTF-8 and nested less deeply than the decoder's bound
  of 10000. The round trip at the end is what the clients of this theory rest on.
\<close>

section \<open>The scanner\<close>

fun skip_ws :: "string \<Rightarrow> string" where
  "skip_ws [] = []"
| "skip_ws (c # s) = (if c \<in> {CHR '' '', CHR 0x09, CHR 0x0A, CHR 0x0D} then skip_ws s else c # s)"

definition hex4_value :: "char \<Rightarrow> char \<Rightarrow> char \<Rightarrow> char \<Rightarrow> nat option" where
  "hex4_value a b c d = (case (hex_val a, hex_val b, hex_val c, hex_val d) of
     (Some w, Some x, Some y, Some z) \<Rightarrow> Some (4096 * w + 256 * x + 16 * y + z) | _ \<Rightarrow> None)"

definition utf8 :: "nat \<Rightarrow> string" where
  "utf8 n = (if n < 128 then [char_of n]
     else if n < 2048 then [char_of (192 + n div 64), char_of (128 + n mod 64)]
     else if n < 65536 then [char_of (224 + n div 4096), char_of (128 + n div 64 mod 64), char_of (128 + n mod 64)]
     else [char_of (240 + n div 262144), char_of (128 + n div 4096 mod 64), char_of (128 + n div 64 mod 64), char_of (128 + n mod 64)])"

definition simple_escape :: "char \<Rightarrow> string option" where
  "simple_escape e =
     (if e \<in> {CHR 0x22, CHR 0x5C, CHR ''/''} then Some [e]
      else if e = CHR ''b'' then Some [char_of (8 :: nat)] else if e = CHR ''f'' then Some [char_of (12 :: nat)]
      else if e = CHR ''n'' then Some [char_of (10 :: nat)] else if e = CHR ''r'' then Some [char_of (13 :: nat)]
      else if e = CHR ''t'' then Some [char_of (9 :: nat)] else None)"

text \<open>A second surrogate completes the first; one that stands alone becomes U+FFFD.\<close>

definition low_surrogate :: "string \<Rightarrow> (nat \<times> string) option" where
  "low_surrogate s = (case s of
     b # u # w # x # y # z # r \<Rightarrow>
       if b = CHR 0x5C \<and> u = CHR ''u'' then
         (case hex4_value w x y z of
            Some n \<Rightarrow> if 0xDC00 \<le> n \<and> n < 0xE000 then Some (n, r) else None
          | None \<Rightarrow> None)
       else None
   | _ \<Rightarrow> None)"

definition read_unicode :: "string \<Rightarrow> (string \<times> string) option" where
  "read_unicode s = (case s of
     a # b # c # d # r \<Rightarrow>
       (case hex4_value a b c d of
          None \<Rightarrow> None
        | Some n \<Rightarrow>
            if 0xD800 \<le> n \<and> n < 0xDC00 then
              (case low_surrogate r of
                 Some (m, r') \<Rightarrow> Some (utf8 (0x10000 + (n - 0xD800) * 1024 + (m - 0xDC00)), r')
               | None \<Rightarrow> Some (utf8 0xFFFD, r))
            else if 0xDC00 \<le> n \<and> n < 0xE000 then Some (utf8 0xFFFD, r)
            else Some (utf8 n, r))
   | _ \<Rightarrow> None)"

definition read_json_char :: "string \<Rightarrow> (string \<times> string) option" where
  "read_json_char s = (case s of
     [] \<Rightarrow> None
   | c # r \<Rightarrow>
       if (of_char c :: nat) < 32 \<or> c = CHR 0x22 then None
       else if c \<noteq> CHR 0x5C then Some ([c], r)
       else (case r of
          [] \<Rightarrow> None
        | e # r' \<Rightarrow> if e = CHR ''u'' then read_unicode r'
                    else map_option (\<lambda>x. (x, r')) (simple_escape e)))"

primrec read_string_chars :: "nat \<Rightarrow> string \<Rightarrow> (string \<times> string) option" where
  "read_string_chars 0 s = None"
| "read_string_chars (Suc n) s =
     (case s of
        [] \<Rightarrow> None
      | c # r \<Rightarrow>
          if c = CHR 0x22 then Some ([], r)
          else (case read_json_char s of
             None \<Rightarrow> None
           | Some (x, r') \<Rightarrow> map_option (\<lambda>(y, r''). (x @ y, r'')) (read_string_chars n r')))"

text \<open>The text after an opening quote; every character takes some of it, so its length is fuel enough.\<close>

definition read_json_string :: "string \<Rightarrow> (string \<times> string) option" where
  "read_json_string s = read_string_chars (Suc (length s)) s"

text \<open>A number is the longest text of its characters, which must then be a number of JSON.\<close>

definition all_digits :: "string \<Rightarrow> bool" where
  "all_digits s \<longleftrightarrow> s \<noteq> [] \<and> list_all is_digit s"

definition valid_exponent :: "string \<Rightarrow> bool" where
  "valid_exponent s = (case s of
     [] \<Rightarrow> True
   | c # r \<Rightarrow> c \<in> {CHR ''e'', CHR ''E''} \<and>
       all_digits (case r of d # r' \<Rightarrow> if d \<in> {CHR ''+'', CHR ''-''} then r' else r | [] \<Rightarrow> []))"

definition valid_number :: "string \<Rightarrow> bool" where
  "valid_number s =
     (let s = (case s of c # r \<Rightarrow> if c = CHR ''-'' then r else s | [] \<Rightarrow> []);
          i = takeWhile is_digit s; s = dropWhile is_digit s
      in i \<noteq> [] \<and> (hd i = CHR ''0'' \<longrightarrow> length i = 1) \<and>
         (case s of
            c # r \<Rightarrow> if c = CHR ''.'' then takeWhile is_digit r \<noteq> [] \<and> valid_exponent (dropWhile is_digit r) else valid_exponent s
          | [] \<Rightarrow> True))"

section \<open>The parser\<close>

primrec parse_elems :: "(string \<Rightarrow> ('v \<times> string) option) \<Rightarrow> nat \<Rightarrow> string \<Rightarrow> ('v list \<times> string) option" where
  "parse_elems p 0 s = None"
| "parse_elems p (Suc n) s =
     (case p s of
        None \<Rightarrow> None
      | Some (v, r) \<Rightarrow>
          (case skip_ws r of
             [] \<Rightarrow> None
           | c # r' \<Rightarrow>
               if c = CHR '']'' then Some ([v], r')
               else if c = CHR '','' then map_option (\<lambda>(vs, r). (v # vs, r)) (parse_elems p n r')
               else None))"

definition parse_key :: "string \<Rightarrow> (string \<times> string) option" where
  "parse_key s = (case skip_ws s of
     c # r \<Rightarrow> if c \<noteq> CHR 0x22 then None
       else (case read_json_string r of
          None \<Rightarrow> None
        | Some (k, r') \<Rightarrow> (case skip_ws r' of d # r'' \<Rightarrow> if d = CHR '':'' then Some (k, r'') else None | [] \<Rightarrow> None))
   | [] \<Rightarrow> None)"

primrec parse_members :: "(string \<Rightarrow> ('v \<times> string) option) \<Rightarrow> nat \<Rightarrow> string \<Rightarrow> ((string \<times> 'v) list \<times> string) option" where
  "parse_members p 0 s = None"
| "parse_members p (Suc n) s =
     (case parse_key s of
        None \<Rightarrow> None
      | Some (k, r) \<Rightarrow>
          (case p r of
             None \<Rightarrow> None
           | Some (v, r) \<Rightarrow>
               (case skip_ws r of
                  [] \<Rightarrow> None
                | c # r' \<Rightarrow>
                    if c = CHR ''}'' then Some ([(k, v)], r')
                    else if c = CHR '','' then map_option (\<lambda>(m, r). ((k, v) # m, r)) (parse_members p n r')
                    else None)))"

definition literal :: "string \<Rightarrow> 'v \<Rightarrow> string \<Rightarrow> ('v \<times> string) option" where
  "literal w v s = (if HasPrefix s w then Some (v, drop (length w) s) else None)"

definition num_chars :: "char \<Rightarrow> bool" where
  "num_chars c \<longleftrightarrow> is_digit c \<or> c \<in> {CHR ''-'', CHR ''+'', CHR ''.'', CHR ''e'', CHR ''E''}"

primrec parse_value :: "nat \<Rightarrow> string \<Rightarrow> (string json \<times> string) option" where
  "parse_value 0 s = None"
| "parse_value (Suc n) s =
     (case skip_ws s of
        [] \<Rightarrow> None
      | c # r \<Rightarrow>
          if c = CHR ''n'' then literal ''null'' VNull (c # r)
          else if c = CHR ''t'' then literal ''true'' (VBool True) (c # r)
          else if c = CHR ''f'' then literal ''false'' (VBool False) (c # r)
          else if c = CHR 0x22 then map_option (\<lambda>(x, r). (VStr x, r)) (read_json_string r)
          else if c = CHR ''['' then
            (case skip_ws r of
               d # r' \<Rightarrow> if d = CHR '']'' then Some (VArr [], r')
                         else map_option (\<lambda>(vs, r). (VArr vs, r)) (parse_elems (parse_value n) n r)
             | [] \<Rightarrow> None)
          else if c = CHR ''{'' then
            (case skip_ws r of
               d # r' \<Rightarrow> if d = CHR ''}'' then Some (VObj [], r')
                         else map_option (\<lambda>(m, r). (VObj m, r)) (parse_members (parse_value n) n r)
             | [] \<Rightarrow> None)
          else let x = takeWhile num_chars (c # r) in
            if valid_number x then Some (VNum x, dropWhile num_chars (c # r)) else None)"

definition Unmarshal :: "string \<Rightarrow> string json option" where
  "Unmarshal s = (case parse_value (Suc (length s)) s of
     Some (v, r) \<Rightarrow> if skip_ws r = [] then Some v else None
   | None \<Rightarrow> None)"
section \<open>Decoding a struct\<close>

text \<open>Every member whose name matches the field's, in either case, is assigned to it, so the last one counts; a value
  of another type makes the whole call fail. A reader takes the value the field has so far.\<close>

definition fold_eq :: "string \<Rightarrow> string \<Rightarrow> bool" where
  "fold_eq a b \<longleftrightarrow> map to_lower a = map to_lower b"

definition struct_field :: "('a \<Rightarrow> 'n json \<Rightarrow> 'a option) \<Rightarrow> 'a \<Rightarrow> string \<Rightarrow> (string \<times> 'n json) list \<Rightarrow> 'a option" where
  "struct_field rd zero name m =
     foldl (\<lambda>acc (k, v). if fold_eq k name then Option.bind acc (\<lambda>a. rd a v) else acc) (Some zero) m"

fun string_value :: "string \<Rightarrow> 'n json \<Rightarrow> string option" where
  "string_value old (VStr s) = Some s"
| "string_value old VNull = Some old"
| "string_value old _ = None"

fun bool_value :: "bool \<Rightarrow> 'n json \<Rightarrow> bool option" where
  "bool_value old (VBool b) = Some b"
| "bool_value old VNull = Some old"
| "bool_value old _ = None"

fun list_value :: "('n json \<Rightarrow> 'a option) \<Rightarrow> 'a list \<Rightarrow> 'n json \<Rightarrow> 'a list option" where
  "list_value rd old (VArr vs) = those (map rd vs)"
| "list_value rd old VNull = Some []"
| "list_value rd old _ = None"

text \<open>\<open>m[k]\<close> for a decoded map, whose later members replace earlier ones, and the assertions on its type.\<close>

definition member :: "(string \<times> 'n json) list \<Rightarrow> string \<Rightarrow> 'n json option" where
  "member m k = map_of (rev m) k"

definition string_at :: "(string \<times> 'n json) list \<Rightarrow> string \<Rightarrow> string" where
  "string_at m k = (case member m k of Some (VStr s) \<Rightarrow> s | _ \<Rightarrow> [])"

section \<open>What is printed is read back\<close>

lemma read_json_char_print: "read_json_char (json_char c @ r) = Some ([c], r)"
proof -
  let ?n = "of_char c :: nat"
  have n: "?n < 256" by (rule of_char_nat_less)
  have h: "hex_val (hex_digits ! (?n div 16)) = Some (?n div 16)" "hex_val (hex_digits ! (?n mod 16)) = Some (?n mod 16)"
    using n by (simp_all add: hex_val_digit div_less_iff_less_mult)
  have z: "hex_val (CHR ''0'') = Some 0" by (simp add: hex_val_def)
  consider "c = CHR 0x22" | "c = CHR 0x5C" | "?n \<in> {8, 9, 10, 12, 13}"
    | "c \<noteq> CHR 0x22" "c \<noteq> CHR 0x5C" "?n \<notin> {8, 9, 10, 12, 13}" by blast
  then show ?thesis
  proof cases
    case 3
    then consider "?n = 8" | "?n = 9" | "?n = 10" | "?n = 12" | "?n = 13" by blast
    then show ?thesis by cases (drule of_char_eq, simp add: read_json_char_def json_char_def simple_escape_def)+
  next
    case 4
    show ?thesis
    proof (cases "?n < 32 \<or> c \<in> {CHR ''<'', CHR ''>'', CHR ''&''}")
      case True
      then have "json_char c = [CHR 0x5C] @ ''u00'' @ hex2 ?n" using 4 by (simp add: json_char_def Let_def)
      moreover have "?n < 128" using True by auto
      moreover have "16 * (?n div 16) + ?n mod 16 = ?n" by simp
      ultimately show ?thesis
        by (simp add: read_json_char_def read_unicode_def hex4_value_def hex2_def h z utf8_def)
    next
      case False
      then have "json_char c = [c]" using 4 by (simp add: json_char_def Let_def)
      then show ?thesis using 4 False by (simp add: read_json_char_def)
    qed
  qed (simp_all add: read_json_char_def json_char_def simple_escape_def)
qed

lemma json_char_quote: "json_char c @ r = d # t \<Longrightarrow> d \<noteq> CHR 0x22"
  using json_char_start [of c] by (cases "json_char c") auto

lemma read_string_chars_print:
  "length s < n \<Longrightarrow> read_string_chars n (concat (map json_char s) @ CHR 0x22 # r) = Some (s, r)"
proof (induction s arbitrary: n)
  case Nil
  then show ?case by (cases n) simp_all
next
  case (Cons c s)
  obtain m where n: "n = Suc m" using Cons.prems by (cases n) auto
  obtain d t where d: "json_char c @ concat (map json_char s) @ CHR 0x22 # r = d # t"
    using json_char_start(2) [of c] by (cases "json_char c") auto
  have "read_json_char (d # t) = Some ([c], concat (map json_char s) @ CHR 0x22 # r)"
    using read_json_char_print [of c] d by metis
  then show ?case using Cons.IH [of m] Cons.prems json_char_quote [OF d] by (simp add: n d)
qed

lemma length_chars: "length s \<le> length (concat (map json_char s))"
proof (induction s)
  case (Cons c s)
  obtain d t where "json_char c = d # t" using json_char_start(2) [of c] by (cases "json_char c") auto
  with Cons show ?case by simp
qed simp

lemma read_json_string_print: "read_json_string (concat (map json_char s) @ CHR 0x22 # r) = Some (s, r)"
  using length_chars [of s] by (simp add: read_json_string_def read_string_chars_print del: read_string_chars.simps)

definition stops :: "string \<Rightarrow> bool" where
  "stops r \<longleftrightarrow> (case r of [] \<Rightarrow> True | c # _ \<Rightarrow> \<not> num_chars c)"

lemma stops_simps [simp]: "stops []" "stops (c # r) \<longleftrightarrow> \<not> num_chars c"
  by (simp_all add: stops_def)

lemma digit_num_char: "is_digit c \<Longrightarrow> num_chars c"
  by (simp add: num_chars_def)

lemma exponent_chars: "valid_exponent s \<Longrightarrow> list_all num_chars s"
  by (cases s; cases "tl s") (auto simp: valid_exponent_def all_digits_def num_chars_def list_all_iff split: if_splits)

lemma valid_number_chars:
  assumes "valid_number s"
  shows "list_all num_chars s" "\<exists>c t. s = c # t \<and> (is_digit c \<or> c = CHR ''-'')"
proof -
  define b where "b = (case s of c # r \<Rightarrow> if c = CHR ''-'' then r else s | [] \<Rightarrow> [])"
  have v: "takeWhile is_digit b \<noteq> []" "case dropWhile is_digit b of
      c # r \<Rightarrow> if c = CHR ''.'' then takeWhile is_digit r \<noteq> [] \<and> valid_exponent (dropWhile is_digit r)
        else valid_exponent (dropWhile is_digit b)
    | [] \<Rightarrow> True"
    using assms unfolding valid_number_def b_def Let_def by blast+
  have digits: "list_all num_chars (takeWhile is_digit x)" for x
    by (auto simp: list_all_iff dest!: set_takeWhileD digit_num_char)
  have rest: "list_all num_chars (dropWhile is_digit b)"
  proof (cases "dropWhile is_digit b")
    case (Cons c r)
    show ?thesis
    proof (cases "c = CHR ''.''")
      case True
      then have "list_all num_chars (takeWhile is_digit r @ dropWhile is_digit r)"
        using v(2) Cons exponent_chars digits by (simp del: takeWhile_dropWhile_id)
      then show ?thesis using True Cons by (simp add: num_chars_def)
    qed (use v(2) Cons exponent_chars [of "c # r"] in simp)
  next
    case Nil
    then show ?thesis by (simp only: list_all_iff) simp
  qed
  have "list_all num_chars (takeWhile is_digit b @ dropWhile is_digit b)"
    using digits [of b] rest by (simp del: takeWhile_dropWhile_id)
  then have b: "list_all num_chars b" by simp
  then show "list_all num_chars s" by (cases s) (auto simp: b_def num_chars_def split: if_splits)
  obtain d t where "b = d # t" "is_digit d" using v(1) by (cases b) (auto split: if_splits)
  then show "\<exists>c t. s = c # t \<and> (is_digit c \<or> c = CHR ''-'')" by (cases s) (auto simp: b_def split: if_splits)
qed

definition json_ok :: "('n \<Rightarrow> string) \<Rightarrow> 'n json \<Rightarrow> bool" where
  "json_ok num v \<longleftrightarrow> (\<forall>n \<in> set_json v. valid_number (num n))"

definition reads :: "(string \<Rightarrow> ('v \<times> string) option) \<Rightarrow> string \<Rightarrow> 'v \<Rightarrow> bool" where
  "reads p s v \<longleftrightarrow> (\<forall>r. stops r \<longrightarrow> p (s @ r) = Some (v, r))"

lemma skip_ws_other: "c \<notin> {CHR '' '', CHR 0x09, CHR 0x0A, CHR 0x0D} \<Longrightarrow> skip_ws (c # s) = c # s"
  by simp

lemma not_num_chars: "\<not> num_chars (CHR '','')" "\<not> num_chars (CHR '']'')" "\<not> num_chars (CHR ''}'')"
  by (simp_all add: num_chars_def is_digit_def)

lemma join_with_Cons: "xs \<noteq> [] \<Longrightarrow> join_with sep (x # xs) = x @ sep @ join_with sep xs"
  by (cases xs) simp_all

lemma parse_elems_print:
  assumes "\<And>x. x \<in> set xs \<Longrightarrow> reads p (f x) (g x)" and "xs \<noteq> []" and "length xs \<le> n"
  shows "parse_elems p n (join_with '','' (map f xs) @ CHR '']'' # r) = Some (map g xs, r)"
  using assms
proof (induction xs arbitrary: n)
  case (Cons x xs)
  obtain m where n: "n = Suc m" using Cons.prems(3) by (cases n) auto
  have x: "reads p (f x) (g x)" using Cons.prems(1) by simp
  show ?case
  proof (cases "xs = []")
    case True
    have "p (f x @ CHR '']'' # r) = Some (g x, CHR '']'' # r)" using x not_num_chars by (simp add: reads_def)
    then show ?thesis by (simp add: True n)
  next
    case False
    have "p (f x @ CHR '','' # join_with '','' (map f xs) @ CHR '']'' # r) =
        Some (g x, CHR '','' # join_with '','' (map f xs) @ CHR '']'' # r)"
      using x not_num_chars by (simp add: reads_def)
    then show ?thesis using Cons.IH [of m] Cons.prems False by (simp add: n join_with_Cons)
  qed
qed simp

lemma parse_key_print: "parse_key (json_string k @ '':'' @ s) = Some (k, s)"
  by (simp add: parse_key_def json_string_def read_json_string_print)

lemma parse_members_print:
  assumes "\<And>x. x \<in> set m \<Longrightarrow> reads p (f (snd x)) (g (snd x))" and "m \<noteq> []" and "length m \<le> n"
  shows "parse_members p n (join_with '','' (map (\<lambda>(k, v). json_string k @ '':'' @ f v) m) @ CHR ''}'' # r) =
    Some (map (\<lambda>(k, v). (k, g v)) m, r)"
  using assms
proof (induction m arbitrary: n)
  case (Cons x m)
  obtain j where n: "n = Suc j" using Cons.prems(3) by (cases n) auto
  obtain k v where kv: "x = (k, v)" by (cases x)
  have x: "reads p (f v) (g v)" using Cons.prems(1) [of x] by (simp add: kv)
  have key: "parse_key (json_string k @ CHR '':'' # s) = Some (k, s)" for s using parse_key_print [of k s] by simp
  show ?case
  proof (cases "m = []")
    case True
    have "p (f v @ CHR ''}'' # r) = Some (g v, CHR ''}'' # r)" using x not_num_chars by (simp add: reads_def)
    then show ?thesis by (simp add: True n kv key)
  next
    case False
    let ?s = "CHR '','' # join_with '','' (map (\<lambda>(k, v). json_string k @ '':'' @ f v) m) @ CHR ''}'' # r"
    have "p (f v @ ?s) = Some (g v, ?s)" using x not_num_chars by (simp add: reads_def)
    then show ?thesis using Cons.IH [of j] Cons.prems False by (simp add: n kv key join_with_Cons)
  qed
qed simp

lemma print_start:
  assumes "json_ok num v"
  shows "\<exists>c t. canonicalMarshal num v = c # t \<and> c \<notin> {CHR '' '', CHR 0x09, CHR 0x0A, CHR 0x0D} \<and> c \<noteq> CHR '']'' \<and> c \<noteq> CHR ''}''"
proof (cases v)
  case (VNum n)
  obtain c t where "num n = c # t" "is_digit c \<or> c = CHR ''-''"
    using assms valid_number_chars(2) [of "num n"] by (auto simp: json_ok_def VNum)
  then show ?thesis by (auto simp: VNum is_digit_def)
next
  case (VObj m)
  then show ?thesis by (simp only: canonicalMarshal.simps marshalSortedMap_def) simp
qed (simp_all add: json_string_def marshalArray_def)

lemma join_length: "length xs \<le> Suc (length (join_with '','' xs))"
  by (induction "'','' :: string" xs rule: join_with.induct) auto

lemma length_join_elem: "x \<in> set xs \<Longrightarrow> length x \<le> length (join_with sep xs)"
  by (induction sep xs rule: join_with.induct) auto

text \<open>The value as it is read: the keys of objects sorted, the numbers as their literals.\<close>

definition as_read :: "('n \<Rightarrow> string) \<Rightarrow> 'n json \<Rightarrow> string json" where
  "as_read num v = json_norm (map_json num v)"

lemma as_read_simps [simp]:
  "as_read num VNull = VNull" "as_read num (VBool b) = VBool b" "as_read num (VNum n) = VNum (num n)"
  "as_read num (VStr s) = VStr s" "as_read num (VArr vs) = VArr (map (as_read num) vs)"
  by (simp_all add: as_read_def)

lemma as_read_VObj: "as_read num (VObj m) = VObj (map (\<lambda>(k, v). (k, as_read num v)) (sort_key fst m))"
proof -
  have "as_read num (VObj m) = VObj (sort_key fst (map (\<lambda>(k, v). (k, as_read num v)) m))"
    by (simp only: as_read_def json.map json_norm.simps(2) list.map_comp comp_def map_prod_def case_prod_unfold fst_conv snd_conv id_apply)
  then show ?thesis by (simp only: sort_map_snd)
qed

lemma parse_print:
  assumes "json_ok num v" and "length (canonicalMarshal num v) < n"
  shows "reads (parse_value n) (canonicalMarshal num v) (as_read num v)"
  using assms
proof (induction n arbitrary: v)
  case (Suc n)
  have "parse_value (Suc n) (canonicalMarshal num v @ r) = Some (as_read num v, r)" if r: "stops r" for r
  proof (cases v)
    case (VNum x)
    have ok: "valid_number (num x)" using Suc.prems(1) by (simp add: json_ok_def VNum)
    obtain c t where c: "num x = c # t" "is_digit c \<or> c = CHR ''-''" using valid_number_chars(2) [OF ok] by blast
    have t: "takeWhile num_chars (num x @ r) = num x" "dropWhile num_chars (num x @ r) = r"
      using valid_number_chars(1) [OF ok] r by (cases r; simp add: list_all_iff takeWhile_append dropWhile_append)+
    have "c \<notin> {CHR '' '', CHR 0x09, CHR 0x0A, CHR 0x0D}" "c \<noteq> CHR ''n''" "c \<noteq> CHR ''t''" "c \<noteq> CHR ''f''" "c \<noteq> CHR 0x22"
      "c \<noteq> CHR ''[''" "c \<noteq> CHR ''{''" using c(2) by (auto simp: is_digit_def)
    then show ?thesis using t ok by (simp add: VNum c(1))
  next
    case (VStr s)
    then show ?thesis by (simp add: json_string_def read_json_string_print)
  next
    case (VArr vs)
    show ?thesis
    proof (cases "vs = []")
      case False
      let ?ps = "map (canonicalMarshal num) vs"
      have len: "length (join_with '','' ?ps) < n" using Suc.prems(2) by (simp add: VArr marshalArray_def)
      have "reads (parse_value n) (canonicalMarshal num w) (as_read num w)" if "w \<in> set vs" for w
        using Suc.IH [of w] Suc.prems(1) that len length_join_elem [of "canonicalMarshal num w" ?ps "'',''"]
        by (auto simp: json_ok_def VArr)
      then have e: "parse_elems (parse_value n) n (join_with '','' ?ps @ CHR '']'' # r) = Some (map (as_read num) vs, r)"
        using parse_elems_print [of vs "parse_value n" "canonicalMarshal num" "as_read num" n] False join_length [of ?ps] len
        by simp
      obtain w ws where vs: "vs = w # ws" using False by (cases vs) auto
      obtain c t where c: "canonicalMarshal num w = c # t" "c \<notin> {CHR '' '', CHR 0x09, CHR 0x0A, CHR 0x0D}" "c \<noteq> CHR '']''"
        using print_start [of num w] Suc.prems(1) by (auto simp: json_ok_def VArr vs)
      obtain t' where "join_with '','' ?ps @ CHR '']'' # r = c # t'" by (cases ws) (auto simp: vs c(1))
      then show ?thesis using e c by (simp add: VArr marshalArray_def)
    qed (simp add: VArr marshalArray_def)
  next
    case (VObj m)
    let ?m = "sort_key fst m"
    let ?ps = "map (\<lambda>(k, v). json_string k @ '':'' @ canonicalMarshal num v) ?m"
    have p: "canonicalMarshal num v = CHR ''{'' # join_with '','' ?ps @ ''}''" by (simp only: VObj canonical_VObj)
    show ?thesis
    proof (cases "m = []")
      case False
      have ne: "?m \<noteq> []" using False by (metis length_0_conv length_sort)
      have len: "length (join_with '','' ?ps) < n" using Suc.prems(2) p by simp
      have "reads (parse_value n) (canonicalMarshal num (snd x)) (as_read num (snd x))" if x: "x \<in> set ?m" for x
      proof -
        have "length (canonicalMarshal num (snd x)) \<le> length (json_string (fst x) @ '':'' @ canonicalMarshal num (snd x))" by simp
        also have "\<dots> \<le> length (join_with '','' ?ps)" by (rule length_join_elem) (use x in \<open>force simp: case_prod_unfold\<close>)
        finally have "length (canonicalMarshal num (snd x)) < n" using len by simp
        moreover have "json_ok num (snd x)" using Suc.prems(1) x by (cases x) (force simp: json_ok_def VObj)
        ultimately show ?thesis by (rule Suc.IH [rotated])
      qed
      then have e: "parse_members (parse_value n) n (join_with '','' ?ps @ CHR ''}'' # r) = Some (map (\<lambda>(k, v). (k, as_read num v)) ?m, r)"
        using parse_members_print [of ?m "parse_value n" "canonicalMarshal num" "as_read num" n] ne join_length [of ?ps] len
        by simp
      obtain k w ms where m: "?m = (k, w) # ms" using ne by (cases ?m) auto
      obtain t where "join_with '','' ?ps @ CHR ''}'' # r = CHR 0x22 # t" by (cases ms) (auto simp: m json_string_def)
      then show ?thesis unfolding p using e by (simp add: VObj as_read_VObj del: canonicalMarshal.simps)
    next
      case True
      then show ?thesis unfolding p by (simp add: VObj as_read_VObj del: canonicalMarshal.simps)
    qed
  qed (simp_all add: literal_def HasPrefix_def split: if_splits)
  then show ?case by (simp only: reads_def) blast
qed simp

lemma Unmarshal_canonical: "json_ok num v \<Longrightarrow> Unmarshal (canonicalMarshal num v) = Some (as_read num v)"
  using parse_print [of num v "Suc (length (canonicalMarshal num v))"]
  by (auto simp: Unmarshal_def reads_def simp del: parse_value.simps dest: spec [of _ "[]"])

section \<open>The length of a text\<close>

text \<open>A bound that can be computed without printing the value.\<close>

fun weight :: "('n \<Rightarrow> string) \<Rightarrow> 'n json \<Rightarrow> nat" where
  "weight num VNull = 4"
| "weight num (VBool b) = 5"
| "weight num (VNum n) = length (num n)"
| "weight num (VStr s) = 6 * length s + 2"
| "weight num (VArr vs) = sum_list (map (\<lambda>v. weight num v + 1) vs) + 2"
| "weight num (VObj m) = sum_list (map (\<lambda>(k, v). 6 * length k + weight num v + 4) m) + 2"

lemma length_json_string: "length (json_string s) \<le> 6 * length s + 2"
proof -
  have "length (json_char c) \<le> 6" for c by (simp add: json_char_def Let_def hex2_def)
  then have "length (concat (map json_char s)) \<le> 6 * length s"
    by (induction s) (simp_all add: add_le_mono)
  then show ?thesis by (simp add: json_string_def)
qed

lemma length_join: "length (join_with [c] xs) \<le> sum_list (map (\<lambda>x. length x + 1) xs)"
  by (induction "[c]" xs rule: join_with.induct) auto

lemma sum_list_sort: "sum_list (map g (sort_key f xs)) = (sum_list (map g xs) :: nat)"
proof -
  have "mset (map g (sort_key f xs)) = mset (map g xs)" by simp
  then show ?thesis by (metis sum_mset_sum_list)
qed

lemma length_canonical: "length (canonicalMarshal num v) \<le> weight num v"
proof (induction v)
  case (VStr s)
  then show ?case using length_json_string [of s] by simp
next
  case (VArr vs)
  have "sum_list (map (\<lambda>x. length x + 1) (map (canonicalMarshal num) vs)) \<le> sum_list (map (\<lambda>v. weight num v + 1) vs)"
    unfolding map_map comp_def by (rule sum_list_mono) (simp add: VArr)
  then show ?case using length_join [of "CHR '',''" "map (canonicalMarshal num) vs"] by (simp add: marshalArray_def)
next
  case (VObj m)
  let ?f = "\<lambda>(k, v). json_string k @ '':'' @ canonicalMarshal num v"
  have "sum_list (map (\<lambda>x. length x + 1) (map ?f (sort_key fst m))) = sum_list (map (\<lambda>x. length (?f x) + 1) m)"
    unfolding map_map comp_def by (rule sum_list_sort)
  also have "\<dots> \<le> sum_list (map (\<lambda>(k, v). 6 * length k + weight num v + 4) m)"
  proof (rule sum_list_mono)
    fix x assume x: "x \<in> set m"
    obtain k w where kw: "x = (k, w)" by (rule prod.exhaust)
    show "length (?f x) + 1 \<le> (case x of (k, v) \<Rightarrow> 6 * length k + weight num v + 4)"
      using VObj [OF x, of w] length_json_string [of k] by (simp add: kw)
  qed
  finally show ?case
    using length_join [of "CHR '',''" "map ?f (sort_key fst m)"] by (simp only: canonical_VObj) simp
qed simp_all

section \<open>Stored payloads\<close>

text \<open>A stored node is its kind, a line feed and its canonical JSON.\<close>

definition node_content :: "('n \<Rightarrow> string) \<Rightarrow> string \<Rightarrow> 'n json \<Rightarrow> bytes" where
  "node_content num kind payload = to_bytes (kind @ CHR 0x0A # canonicalMarshal num payload)"

definition parsePayload :: "bytes \<Rightarrow> bytes" where
  "parsePayload content = (if 10 \<in> set content then tl (dropWhile (\<lambda>b. b \<noteq> 10) content) else content)"

definition ParseObjectPayload :: "bytes \<Rightarrow> (string \<times> string json) list option" where
  "ParseObjectPayload content = (case Unmarshal (of_bytes (parsePayload content)) of
     Some (VObj m) \<Rightarrow> Some m | Some VNull \<Rightarrow> Some [] | _ \<Rightarrow> None)"

lemma to_bytes_line [simp]: "to_bytes (CHR 0x0A # s) = 10 # to_bytes s"
  by (simp add: to_bytes_def)

lemma line_in_to_bytes: "10 \<in> set (to_bytes s) \<longleftrightarrow> CHR 0x0A \<in> set s"
proof -
  have "(word_of_nat (of_char c) :: byte) = 10 \<longleftrightarrow> c = CHR 0x0A" for c :: char
  proof
    assume "(word_of_nat (of_char c) :: byte) = 10"
    then have "unat (word_of_nat (of_char c) :: byte) = 10" by simp
    then have "of_char c = (10 :: nat)" using of_char_nat_less [of c] by simp
    then have "of_char c = (of_char (CHR 0x0A) :: nat)" by simp
    then show "c = CHR 0x0A" by (simp only: of_char_eq_iff)
  qed simp
  then show ?thesis by (auto simp: to_bytes_def image_iff)
qed

lemma parsePayload_node: "CHR 0x0A \<notin> set kind \<Longrightarrow> parsePayload (node_content num kind v) = to_bytes (canonicalMarshal num v)"
proof -
  assume k: "CHR 0x0A \<notin> set kind"
  have "dropWhile (\<lambda>b. b \<noteq> 10) (to_bytes kind @ 10 # s) = 10 # s" for s
    using k by (subst dropWhile_append2) (auto simp: line_in_to_bytes [symmetric])
  then show ?thesis by (simp add: parsePayload_def node_content_def)
qed

lemma payload_of_node:
  "json_ok num (VObj m) \<Longrightarrow> CHR 0x0A \<notin> set kind \<Longrightarrow>
    ParseObjectPayload (node_content num kind (VObj m)) = Some (map (\<lambda>(k, v). (k, as_read num v)) (sort_key fst m))"
  using Unmarshal_canonical [of num "VObj m"] by (simp add: ParseObjectPayload_def parsePayload_node as_read_VObj del: canonicalMarshal.simps)

text \<open>C18: a stored node reads back: the payload parsed from the content of a node is the payload that was stored, with the keys of
  objects sorted and every number as the text it was printed as.\<close>

theorem ParseObjectPayload_node:
  assumes "json_ok num (VObj m)" and "CHR 0x0A \<notin> set kind"
  shows "ParseObjectPayload (node_content num kind (VObj m)) = Some (map (\<lambda>(k, v). (k, as_read num v)) (sort_key fst m))"
  by (rule payload_of_node [OF assms])

lemma show_int_number: "valid_number (show_int n)"
proof -
  have lead: "hd (show_nat k) = CHR ''0'' \<longrightarrow> length (show_nat k) = 1" for k
  proof (induction k rule: show_nat.induct)
    case (1 k)
    show ?case
    proof (cases "k < 10")
      case False
      have "show_nat (k div 10) \<noteq> []" using show_nat_digits by blast
      moreover have "hd (show_nat (k div 10)) \<noteq> CHR ''0''"
      proof
        assume h: "hd (show_nat (k div 10)) = CHR ''0''"
        then have "length (show_nat (k div 10)) = 1" using 1 False by simp
        then have "show_nat (k div 10) = ''0''" using h by (cases "show_nat (k div 10)") auto
        then have "k div 10 = 0" using digits_value_show [of "k div 10"] by (simp add: digits_value_def)
        then show False using False by simp
      qed
      ultimately show ?thesis using False by (subst (1 2) show_nat.simps) simp
    qed (simp add: show_nat.simps [of k])
  qed
  have d: "show_nat k \<noteq> []" "list_all is_digit (show_nat k)" for k using show_nat_digits [of k] by auto
  have tw: "takeWhile is_digit (show_nat k) = show_nat k" "dropWhile is_digit (show_nat k) = []" for k
    using d(2) [of k] by (simp_all add: list_all_iff takeWhile_eq_all_conv)
  have h: "show_nat k = c # t \<Longrightarrow> c \<noteq> CHR ''-''" for k c t using d(2) [of k] by (auto simp: is_digit_def)
  show ?thesis
  proof (cases "n < 0")
    case True
    then show ?thesis using lead [of "nat (- n)"] d(1) [of "nat (- n)"]
      by (simp add: valid_number_def show_int_def Let_def tw del: takeWhile_eq_all_conv dropWhile_eq_Nil_conv)
  next
    case False
    obtain c t where c: "show_nat (nat n) = c # t" using d(1) by (cases "show_nat (nat n)") auto
    have m: "c \<noteq> CHR ''-''" using h [OF c] .
    have "is_digit (CHR ''0'')" by (simp add: is_digit_def)
    then have "valid_number (c # t)" using m lead [of "nat n"] tw [of "nat n"]
      by (simp add: valid_number_def Let_def c del: takeWhile_eq_all_conv dropWhile_eq_Nil_conv)
    then show ?thesis using False c by (simp add: show_int_def)
  qed
qed

theorem ParseObjectPayload_node_witness:
  "ParseObjectPayload (node_content show_int ''ChangeSet'' (VObj [(''title'', VStr ''a\<newline>''), (''n'', VArr [VNum (-12), VNull])])) =
    Some [(''n'', VArr [VNum ''-12'', VNull]), (''title'', VStr ''a\<newline>'')]"
proof -
  have "json_ok show_int (VObj [(''title'', VStr ''a\<newline>''), (''n'', VArr [VNum (-12), VNull])])"
    by (simp add: json_ok_def show_int_number)
  moreover have "show_int (-12) = ''-12''" by code_simp
  ultimately show ?thesis by (simp add: ParseObjectPayload_node)
qed

end
