(* ===== verification/RefCommits.thy ===== *)
theory RefCommits
  imports Json Segment PackBuild
begin

text \<open>
  From the refs of a repository to git commits (\<open>buildRefCommits\<close> and its helpers in
  \<open>src/kailab/sshserver/gitpack.go\<close>, \<open>SnapshotObjects\<close> in \<open>snapshot_adapter.go\<close>, and
  \<open>ListRefs\<close> of \<open>ref_adapter.go\<close>). A ref whose change sets hold git packs shows the objects of these packs; any
  other ref gets a synthetic commit of its snapshot. \<open>sha\<close> is SHA-1 and \<open>z\<close> the zlib reader, as in
  \<open>GitPack\<close>.
\<close>

section \<open>Payloads\<close>

datatype ref_error = StoreError store_error | BadPayload | BadHex | NotASnapshot | TreeError string
  | EmptyTarget | NoCommitOID string | NoPacks | NoObjects | NoResolvableRefs

record changeset =
  cs_GitPack :: string
  cs_GitUpdates :: "(string \<times> string json) list list"
  cs_Head :: string

fun object_value :: "'n json \<Rightarrow> (string \<times> 'n json) list option" where
  "object_value (VObj m) = Some m"
| "object_value VNull = Some []"
| "object_value _ = None"

text \<open>The struct that a change set is decoded into; \<open>None\<close> when the text is no JSON object or a field has another type.\<close>

definition changeset_of :: "bytes \<Rightarrow> changeset option" where
  "changeset_of content =
     Option.bind (ParseObjectPayload content) (\<lambda>m.
     Option.bind (struct_field string_value [] ''gitPack'' m) (\<lambda>p.
     Option.bind (struct_field (list_value object_value) [] ''gitUpdates'' m) (\<lambda>us.
     Option.bind (struct_field string_value [] ''head'' m) (\<lambda>h.
       Some \<lparr>cs_GitPack = p, cs_GitUpdates = us, cs_Head = h\<rparr>))))"

definition head_of :: "bytes \<Rightarrow> string option" where
  "head_of content = Option.bind (ParseObjectPayload content) (struct_field string_value [] ''head'')"

section \<open>The snapshot of a ref\<close>

text \<open>At most ten steps along the heads of change sets.\<close>

primrec resolve_loop :: "repo_db \<Rightarrow> nat \<Rightarrow> bytes \<Rightarrow> (ref_error, bytes option) go" where
  "resolve_loop db 0 current = Ok None"
| "resolve_loop db (Suc n) current =
     bind_go (map_err StoreError (ExtractObjectFromDB db current)) (\<lambda>(content, kind).
       if kind = ''Snapshot'' then Ok (Some current)
       else if kind \<noteq> ''ChangeSet'' then Ok None
       else case head_of content of
         None \<Rightarrow> Err BadPayload
       | Some h \<Rightarrow> if h = [] then Ok None
           else case hex_decode h of None \<Rightarrow> Err BadHex | Some d \<Rightarrow> resolve_loop db n d)"

definition resolveSnapshotDigest :: "repo_db \<Rightarrow> bytes \<Rightarrow> (ref_error, bytes option) go" where
  "resolveSnapshotDigest db target = (if target = [] then Ok None else resolve_loop db 10 target)"

definition file_entry_of :: "'n json \<Rightarrow> (string \<times> string \<times> string) option" where
  "file_entry_of v = Option.bind (object_value v) (\<lambda>m.
     Option.bind (struct_field string_value [] ''path'' m) (\<lambda>p.
     Option.bind (struct_field string_value [] ''digest'' m) (\<lambda>d.
     Option.bind (struct_field string_value [] ''contentDigest'' m) (\<lambda>c. Some (p, d, c)))))"

definition snapshot_fields :: "bytes \<Rightarrow> (string list \<times> (string \<times> string \<times> string) list) option" where
  "snapshot_fields content = Option.bind (ParseObjectPayload content) (\<lambda>m.
     Option.bind (struct_field (list_value (string_value [])) [] ''fileDigests'' m) (\<lambda>ds.
     Option.bind (struct_field (list_value file_entry_of) [] ''files'' m) (\<lambda>fs. Some (ds, fs))))"

text \<open>The older form lists the digests of file objects, each of which names a path and its content. A file that
  cannot be read or decoded is skipped.\<close>

fun read_files :: "repo_db \<Rightarrow> string list \<Rightarrow> (ref_error, snapshot_file list) go" where
  "read_files db [] = Ok []"
| "read_files db (h # hs) =
     (case hex_decode h of
        None \<Rightarrow> read_files db hs
      | Some d \<Rightarrow>
        (case ExtractObjectFromDB db d of
           Panic \<Rightarrow> Panic
         | Err e \<Rightarrow> read_files db hs
         | Ok (content, kind) \<Rightarrow>
             if kind \<noteq> ''File'' then read_files db hs
             else (case Option.bind (ParseObjectPayload content) (\<lambda>m.
                     Option.bind (struct_field string_value [] ''path'' m) (\<lambda>p.
                     Option.bind (struct_field string_value [] ''digest'' m) (\<lambda>c. Some (p, c)))) of
                None \<Rightarrow> read_files db hs
              | Some (p, c) \<Rightarrow> bind_go (read_files db hs) (\<lambda>fs. Ok (\<lparr>Path = p, ContentDigest = c\<rparr> # fs)))))"

definition getSnapshotFiles :: "repo_db \<Rightarrow> bytes \<Rightarrow> (ref_error, snapshot_file list) go" where
  "getSnapshotFiles db snapshotDigest =
     bind_go (map_err StoreError (ExtractObjectFromDB db snapshotDigest)) (\<lambda>(content, kind).
       if kind \<noteq> ''Snapshot'' then Err NotASnapshot
       else case snapshot_fields content of
         None \<Rightarrow> Err BadPayload
       | Some (ds, fs) \<Rightarrow>
           if fs \<noteq> [] then Ok (map (\<lambda>(p, d, c). \<lparr>Path = p, ContentDigest = if c = [] then d else c\<rparr>) fs)
           else read_files db ds)"

text \<open>The content a file's digest names, for \<open>buildTreeFromFiles\<close>; the rows of the objects are taken to lie
  in their segments, so that reading does not panic.\<close>

definition content_of :: "repo_db \<Rightarrow> bytes \<Rightarrow> bytes option" where
  "content_of db d = (case ExtractObjectFromDB db d of Ok (content, kind) \<Rightarrow> Some content | _ \<Rightarrow> None)"

definition SnapshotObjects :: "(bytes \<Rightarrow> bytes) \<Rightarrow> repo_db \<Rightarrow> bytes \<Rightarrow> (ref_error, string \<times> git_object list) go" where
  "SnapshotObjects sha db snapshotDigest =
     bind_go (getSnapshotFiles db snapshotDigest) (\<lambda>files.
     bind_go (map_err TreeError (buildTreeFromFiles sha (content_of db) files)) (\<lambda>((oid, objs), bs).
       Ok (oid, bs @ objs)))"

section \<open>The git packs of a ref\<close>

definition zero_oid :: string where
  "zero_oid = replicate 40 (CHR ''0'')"

definition update_commit :: "string \<Rightarrow> (string \<times> string json) list list \<Rightarrow> string option" where
  "update_commit refName updates = map_option (\<lambda>u. string_at u ''new'')
     (find (\<lambda>u. string_at u ''ref'' = refName \<and> string_at u ''new'' \<noteq> [] \<and> string_at u ''new'' \<noteq> zero_oid) updates)"

text \<open>The first pass, along the heads, newest first: the commit that the first change set with one names for the ref, and
  the digests of the packs. Whatever cannot be read ends it.\<close>

primrec collect_packs :: "repo_db \<Rightarrow> string \<Rightarrow> nat \<Rightarrow> bytes \<Rightarrow> string \<times> bytes list \<Rightarrow> (ref_error, string \<times> bytes list) go" where
  "collect_packs db refName 0 current st = Ok st"
| "collect_packs db refName (Suc n) current st =
     (case ExtractObjectFromDB db current of
        Panic \<Rightarrow> Panic
      | Err e \<Rightarrow> Ok st
      | Ok (content, kind) \<Rightarrow>
          if kind \<noteq> ''ChangeSet'' then Ok st
          else (case changeset_of content of
             None \<Rightarrow> Ok st
           | Some cs \<Rightarrow>
               let commitOID = (if fst st \<noteq> [] then fst st
                     else case update_commit refName (cs_GitUpdates cs) of Some c \<Rightarrow> c | None \<Rightarrow> []);
                   packs = (if cs_GitPack cs = [] then snd st
                     else case hex_decode (cs_GitPack cs) of Some d \<Rightarrow> snd st @ [d] | None \<Rightarrow> snd st)
               in if cs_Head cs = [] then Ok (commitOID, packs)
                  else (case hex_decode (cs_Head cs) of
                     None \<Rightarrow> Ok (commitOID, packs)
                   | Some d \<Rightarrow> collect_packs db refName n d (commitOID, packs))))"

definition strip_pack_prefix :: "bytes \<Rightarrow> bytes" where
  "strip_pack_prefix content =
     (if length content > 8 \<and> take 8 content = to_bytes (''GitPack'' @ [CHR 0x0A]) then drop 8 content else content)"

text \<open>The second pass parses the packs, oldest first, so that the bases of a thin pack are at hand.\<close>

fun load_packs :: "zlib \<Rightarrow> (bytes \<Rightarrow> bytes) \<Rightarrow> repo_db \<Rightarrow> bytes list \<Rightarrow> (string, git_object) gomap \<Rightarrow>
    (ref_error, (string, git_object) gomap) go" where
  "load_packs z sha db [] allObjects = Ok allObjects"
| "load_packs z sha db (d # ds) allObjects =
     (case ExtractObjectFromDB db d of
        Panic \<Rightarrow> Panic
      | Err e \<Rightarrow> load_packs z sha db ds allObjects
      | Ok (content, kind) \<Rightarrow>
          (case parseGitPackWithBases z sha (strip_pack_prefix content) allObjects of
             Panic \<Rightarrow> Panic
           | Err e \<Rightarrow> load_packs z sha db ds allObjects
           | Ok objects \<Rightarrow> load_packs z sha db ds (foldl (\<lambda>m (k, v). AList.update k v m) allObjects objects)))"

definition resolveGitPackObjects ::
  "zlib \<Rightarrow> (bytes \<Rightarrow> bytes) \<Rightarrow> repo_db \<Rightarrow> bytes \<Rightarrow> string \<Rightarrow> (ref_error, git_object list \<times> string) go" where
  "resolveGitPackObjects z sha db target refName =
     (if target = [] then Err EmptyTarget
      else bind_go (collect_packs db refName 20 target ([], [])) (\<lambda>(commitOID, packs).
        if commitOID = [] then Err (NoCommitOID refName)
        else if packs = [] then Err NoPacks
        else bind_go (load_packs z sha db (rev packs) []) (\<lambda>allObjects.
          if allObjects = [] then Err NoObjects
          else case collectCommitObjects allObjects commitOID of
            Ok objs \<Rightarrow> Ok (objs, commitOID) | Err e \<Rightarrow> Err NoObjects | Panic \<Rightarrow> Panic)))"

section \<open>Building the refs\<close>

record ref_build =
  rb_refName :: string
  rb_commit :: git_object
  rb_objects :: "git_object list"

text \<open>The commit of a pack is the last collected object with its OID.\<close>

definition split_commit :: "string \<Rightarrow> git_object list \<Rightarrow> (git_object \<times> git_object list) option" where
  "split_commit oid objs =
     (case filter (\<lambda>x. obj_oid x = oid) objs of
        [] \<Rightarrow> None
      | cs \<Rightarrow> Some (last cs, filter (\<lambda>x. obj_oid x \<noteq> oid) objs))"

type_synonym snapshot_cache = "(string, string \<times> git_object list) gomap"

definition synthetic_ref ::
  "(bytes \<Rightarrow> bytes) \<Rightarrow> repo_db \<Rightarrow> ref_row \<Rightarrow> snapshot_cache \<Rightarrow> (ref_error, ref_build \<times> snapshot_cache) go" where
  "synthetic_ref sha db ref cache =
     (let refName = MapRefName (RefName ref);
          build = (\<lambda>(treeOID, objs) cache. Ok (\<lparr>rb_refName = refName,
             rb_commit = buildCommitObject sha refName (hex_encode (Target ref)) treeOID, rb_objects = objs\<rparr>, cache))
      in case resolveSnapshotDigest db (Target ref) of
           Panic \<Rightarrow> Panic
         | Ok (Some d) \<Rightarrow>
             (let key = hex_encode d in
              case map_of cache key of
                Some objs \<Rightarrow> build objs cache
              | None \<Rightarrow> bind_go (SnapshotObjects sha db d) (\<lambda>objs. build objs (AList.update key objs cache)))
         | _ \<Rightarrow> build (emptyTreeOID, [buildEmptyTreeObject]) cache)"

definition buildRef ::
  "zlib \<Rightarrow> (bytes \<Rightarrow> bytes) \<Rightarrow> repo_db \<Rightarrow> ref_row \<Rightarrow> snapshot_cache \<Rightarrow> (ref_error, ref_build \<times> snapshot_cache) go" where
  "buildRef z sha db ref cache =
     (let refName = MapRefName (RefName ref) in
      case resolveGitPackObjects z sha db (Target ref) refName of
        Panic \<Rightarrow> Panic
      | Ok (objs, oid) \<Rightarrow>
          (case split_commit oid objs of
             Some (c, rest) \<Rightarrow> if obj_oid c \<noteq> [] then Ok (\<lparr>rb_refName = refName, rb_commit = c, rb_objects = rest\<rparr>, cache)
                              else synthetic_ref sha db ref cache
           | None \<Rightarrow> synthetic_ref sha db ref cache)
      | Err e \<Rightarrow> synthetic_ref sha db ref cache)"

fun build_refs ::
  "zlib \<Rightarrow> (bytes \<Rightarrow> bytes) \<Rightarrow> repo_db \<Rightarrow> ref_row list \<Rightarrow> snapshot_cache \<Rightarrow>
   (string, ref_commit_info) gomap \<times> (string, string) gomap \<Rightarrow>
   (ref_error, (string, ref_commit_info) gomap \<times> (string, string) gomap) go" where
  "build_refs z sha db [] cache res = Ok res"
| "build_refs z sha db (ref # rs) cache (infos, refToOID) =
     bind_go (buildRef z sha db ref cache) (\<lambda>(b, cache).
       build_refs z sha db rs cache
         (AList.update (obj_oid (rb_commit b)) \<lparr>commit = rb_commit b, commit_objects = rb_objects b\<rparr> infos,
          AList.update (rb_refName b) (obj_oid (rb_commit b)) refToOID))"

definition buildRefCommits ::
  "zlib \<Rightarrow> (bytes \<Rightarrow> bytes) \<Rightarrow> repo_db \<Rightarrow> (ref_error, (string, ref_commit_info) gomap \<times> (string, string) gomap) go" where
  "buildRefCommits z sha db = build_refs z sha db (Sql_ListRefs db []) [] ([], [])"

definition AdapterListRefs ::
  "zlib \<Rightarrow> (bytes \<Rightarrow> bytes) \<Rightarrow> repo_db \<Rightarrow> (ref_error, git_ref list \<times> string) go" where
  "AdapterListRefs z sha db =
     (let names = map RefName (Sql_ListRefs db []) in
      if names = [] then Ok ([], [])
      else bind_go (buildRefCommits z sha db) (\<lambda>(infos, refToOID).
        case PackBuild.ListRefs names refToOID of Some r \<Rightarrow> Ok r | None \<Rightarrow> Err NoResolvableRefs))"

end
