(* ===== verification/SshHandler.thy ===== *)
theory SshHandler
  imports RefCommits PktLine
begin

text \<open>
  The git server (\<open>src/kailab/sshserver\<close>: \<open>sshserver.go\<close>, \<open>server.go\<close>, \<open>handler.go\<close>,
  \<open>receive_pack.go\<close>, \<open>authorizer.go\<close>): commands of an SSH session, fetching over both protocol versions, and
  pushing. An exchange is what the server has written so far and how it ended. \<open>get\<close> and \<open>put\<close> are the object cache,
  \<open>visit\<close> the order in which maps are iterated, \<open>c\<close> the zlib writer and \<open>z\<close> its reader, \<open>sha\<close> SHA-1;
  \<open>clock i\<close> is the \<open>i\<close>-th reading of the clock and \<open>msg\<close> the text of an error. Mirroring and the delivery of webhooks
  are left out; which of them a push causes is here.
\<close>

section \<open>Commands\<close>

datatype ssh_error = ReadError pkt_error | WriteError string | RefError ref_error | PackError build_error
  | RepoUnavailable | InvalidLine string | InvalidV2Command string | UnsupportedV2Command string
  | MultipleDeepen | OnlyDeepenOne | UnsupportedRef string | StoreFailure store_error
  | BadRepoPath | LookupFailed | ReceivePackDisabled
  | EmptyCommand | MissingRepo | EmptyRepo | EmptyRepoNormalized | UnsupportedCommand string | AccessDenied string

datatype command_type = GitUploadPack | GitReceivePack

record git_command =
  gc_Type :: command_type
  gc_Repo :: string
  gc_Raw :: string

definition trimQuotes :: "string \<Rightarrow> string" where
  "trimQuotes s = (if length s \<ge> 2 \<and> hd s = last s \<and> hd s \<in> {CHR 0x27, CHR 0x22} then butlast (tl s) else s)"

definition ParseGitCommand :: "string \<Rightarrow> (ssh_error, git_command) go" where
  "ParseGitCommand cmd =
     (let trimmed = TrimSpace cmd in
      if trimmed = [] then Err EmptyCommand
      else case str_index trimmed '' '' of
        None \<Rightarrow> Err MissingRepo
      | Some i \<Rightarrow>
          let command = take i trimmed; repo = TrimSpace (drop (Suc i) trimmed) in
          if repo = [] then Err EmptyRepo
          else let repo = TrimPrefix (trimQuotes repo) ''/'' in
            if command = ''git-upload-pack'' \<or> command = ''git-receive-pack'' then
              (if repo = [] then Err EmptyRepoNormalized
               else Ok \<lparr>gc_Type = (if command = ''git-upload-pack'' then GitUploadPack else GitReceivePack),
                        gc_Repo = repo, gc_Raw = trimmed\<rparr>)
            else Err (UnsupportedCommand command))"

definition splitProtocolValue :: "string \<Rightarrow> string list" where
  "splitProtocolValue s = filter (\<lambda>p. p \<noteq> []) (split_on (CHR '':'') s)"

definition parseGitProtocolVersion :: "string list \<Rightarrow> nat" where
  "parseGitProtocolVersion environ =
     (if \<exists>env \<in> set environ. length env > 13 \<and> take 13 env = ''GIT_PROTOCOL='' \<and>
         (drop 13 env = ''version=2'' \<or> ''version=2'' \<in> set (splitProtocolValue (drop 13 env))) then 2 else 0)"

definition splitRepo :: "string \<Rightarrow> (string \<times> string) option" where
  "splitRepo repoPath =
     (let trimmed = TrimSuffix (TrimPrefix repoPath ''/'') ''.git'' in
      case str_index trimmed ''/'' of
        None \<Rightarrow> None
      | Some i \<Rightarrow> let tenant = take i trimmed; name = drop (Suc i) trimmed
                 in if tenant = [] \<or> name = [] then None else Some (tenant, name))"

text \<open>The allowlists hold trimmed values; an empty list allows everything. A session is its user and the fingerprint of
  its key, if it has one.\<close>

definition sliceToSet :: "string list \<Rightarrow> string list" where
  "sliceToSet values = filter (\<lambda>v. v \<noteq> []) (map TrimSpace values)"

definition AllowlistAuthorize ::
  "string list \<Rightarrow> string list \<Rightarrow> string list \<Rightarrow> string \<Rightarrow> string option \<Rightarrow> git_command \<Rightarrow> (ssh_error, unit) go" where
  "AllowlistAuthorize users repos keys user fingerprint cmd =
     (if users \<noteq> [] \<and> user \<notin> set users then Err (AccessDenied (''user '' @ user))
      else if repos \<noteq> [] \<and> gc_Repo cmd \<notin> set repos then Err (AccessDenied (''repo '' @ gc_Repo cmd))
      else if keys \<noteq> [] then
        (case fingerprint of
           None \<Rightarrow> Err (AccessDenied ''ssh key required'')
         | Some f \<Rightarrow> if f \<notin> set keys then Err (AccessDenied (''ssh key '' @ f)) else Ok ())
      else Ok ())"

section \<open>Exchanges\<close>

type_synonym exchange = "bytes \<times> (ssh_error, unit) go"

definition emit :: "write_result \<Rightarrow> exchange" where
  "emit w = (fst w, case snd w of None \<Rightarrow> Ok () | Some e \<Rightarrow> Err (WriteError e))"

definition stop :: "ssh_error \<Rightarrow> exchange" where
  "stop e = ([], Err e)"

definition seq :: "exchange \<Rightarrow> exchange \<Rightarrow> exchange" where
  "seq a b = (case snd a of Ok _ \<Rightarrow> (fst a @ fst b, snd b) | _ \<Rightarrow> a)"

primrec emit_lines :: "string list \<Rightarrow> exchange" where
  "emit_lines [] = ([], Ok ())"
| "emit_lines (l # ls) = seq (emit (writePktLine l)) (emit_lines ls)"

text \<open>An error message, a flush, and the error; failures to write them are ignored.\<close>

definition fail_with :: "(ssh_error \<Rightarrow> string) \<Rightarrow> ssh_error \<Rightarrow> exchange" where
  "fail_with msg e = (fst (writeGitError (msg e)) @ fst writeFlush, Err e)"

section \<open>Capabilities\<close>

record caps_config =
  cap_Agent :: string
  cap_Extra :: "string list"
  cap_Disable :: "string list"

text \<open>Disabled names are dropped, then empty ones and repetitions.\<close>

definition dedup_caps :: "caps_config \<Rightarrow> string list \<Rightarrow> string list" where
  "dedup_caps cfg caps =
     rev (foldl (\<lambda>out n. if n = [] \<or> n \<in> set out then out else n # out) []
       (filter (\<lambda>n. n \<notin> set (cap_Disable cfg)) caps))"

definition agent_cap :: "caps_config \<Rightarrow> string" where
  "agent_cap cfg = ''agent='' @ (if cap_Agent cfg = [] then ''kai'' else cap_Agent cfg)"

definition buildCapabilities :: "string \<Rightarrow> caps_config \<Rightarrow> string" where
  "buildCapabilities headRef cfg = join_with '' '' (dedup_caps cfg
     ((if headRef \<noteq> [] then [''symref=HEAD:'' @ headRef] else []) @
      [agent_cap cfg, ''side-band-64k'', ''shallow''] @ cap_Extra cfg))"

definition buildReceivePackCapabilities :: "caps_config \<Rightarrow> string" where
  "buildReceivePackCapabilities cfg = join_with '' '' (dedup_caps cfg
     ([''report-status'', ''delete-refs'', agent_cap cfg] @ cap_Extra cfg))"

definition parseCaps :: "string \<Rightarrow> string list" where
  "parseCaps raw = Fields raw"

definition hasCapability :: "string list \<Rightarrow> string \<Rightarrow> bool" where
  "hasCapability caps name \<longleftrightarrow> name \<in> set caps"

definition selectSideBand :: "string list \<Rightarrow> nat option" where
  "selectSideBand caps =
     (if hasCapability caps ''side-band-64k'' then Some 65515
      else if hasCapability caps ''side-band'' then Some 995 else None)"

section \<open>Advertising refs\<close>

fun advertised_lines :: "string \<Rightarrow> git_ref list \<Rightarrow> string list" where
  "advertised_lines caps [] = []"
| "advertised_lines caps (r # rs) =
     (ref_oid r @ '' '' @ ref_name r @ (if caps \<noteq> [] then CHR 0x00 # caps else []) @ newline) #
     map (\<lambda>r. ref_oid r @ '' '' @ ref_name r @ newline) rs"

definition advertiseRefs :: "(ref_error, git_ref list \<times> string) go \<Rightarrow> caps_config \<Rightarrow> exchange" where
  "advertiseRefs listed cfg = (case listed of
     Err e \<Rightarrow> stop (RefError e)
   | Panic \<Rightarrow> ([], Panic)
   | Ok (rs, headRef) \<Rightarrow>
       seq (emit_lines (advertised_lines (buildCapabilities headRef cfg) rs)) (emit writeFlush))"

definition advertiseReceivePackRefs :: "(ref_error, git_ref list \<times> string) go \<Rightarrow> caps_config \<Rightarrow> exchange" where
  "advertiseReceivePackRefs listed cfg = (case listed of
     Err e \<Rightarrow> stop (RefError e)
   | Panic \<Rightarrow> ([], Panic)
   | Ok (rs, headRef) \<Rightarrow>
       let caps = buildReceivePackCapabilities cfg in
       seq (emit_lines (if rs = [] then [zero_oid @ '' capabilities^{}'' @ CHR 0x00 # caps @ newline]
                        else advertised_lines caps rs)) (emit writeFlush))"

definition advertiseV2Capabilities :: "caps_config \<Rightarrow> exchange" where
  "advertiseV2Capabilities cfg =
     seq (emit_lines [''version 2'' @ newline, agent_cap cfg @ newline, ''ls-refs'' @ newline, ''fetch=shallow'' @ newline,
            ''server-option'' @ newline, ''object-format=sha1'' @ newline]) (emit writeFlush)"

definition writeV2LsRefs :: "(ref_error, git_ref list \<times> string) go \<Rightarrow> exchange" where
  "writeV2LsRefs listed = (case listed of
     Err e \<Rightarrow> stop (RefError e)
   | Panic \<Rightarrow> ([], Panic)
   | Ok (rs, headRef) \<Rightarrow> seq (emit_lines (map (\<lambda>r. ref_oid r @ '' '' @ ref_name r @ newline) rs)) (emit writeFlush))"

definition writeV2LsRefsWithArgs :: "(ref_error, git_ref list \<times> string) go \<Rightarrow> string list \<Rightarrow> exchange" where
  "writeV2LsRefsWithArgs listed args = (case listed of
     Err e \<Rightarrow> stop (RefError e)
   | Panic \<Rightarrow> ([], Panic)
   | Ok (rs, headRef) \<Rightarrow>
       let symrefs = ''symrefs'' \<in> set args;
           prefixes = map (\<lambda>a. TrimPrefix a ''ref-prefix '')
             (filter (\<lambda>a. a \<noteq> ''symrefs'' \<and> a \<noteq> ''peel'' \<and> HasPrefix a ''ref-prefix '') args);
           shown = filter (\<lambda>r. prefixes = [] \<or> (\<exists>p \<in> set prefixes. HasPrefix (ref_name r) p)) rs
       in seq (emit_lines (map (\<lambda>r. ref_oid r @ '' '' @ ref_name r @
                 (if symrefs \<and> ref_name r = ''HEAD'' \<and> headRef \<noteq> [] then '' symref-target:'' @ headRef else []) @ newline) shown))
              (emit writeFlush))"

section \<open>Reading a fetch request\<close>

record upload_request =
  up_Wants :: "string list"
  up_Haves :: "string list"
  up_Shallow :: "string list"
  up_Deepen :: "string list"
  up_Caps :: "string list"
  up_Raw :: "string list"
  up_Done :: bool

definition empty_request :: upload_request where
  "empty_request = \<lparr>up_Wants = [], up_Haves = [], up_Shallow = [], up_Deepen = [], up_Caps = [], up_Raw = [], up_Done = False\<rparr>"

definition arg :: "string \<Rightarrow> string \<Rightarrow> string" where
  "arg line p = TrimSpace (TrimPrefix line p)"

text \<open>The flag tells whether capabilities have been read.\<close>

definition parseUploadPackLine :: "string \<Rightarrow> upload_request \<times> bool \<Rightarrow> upload_request \<times> bool" where
  "parseUploadPackLine line st =
     (case st of (req, capsParsed) \<Rightarrow>
      if HasPrefix line ''want '' then
        (case Fields line of
           _ # w # caps \<Rightarrow>
             if \<not> capsParsed \<and> caps \<noteq> [] then (req\<lparr>up_Wants := up_Wants req @ [w], up_Caps := caps\<rparr>, True)
             else (req\<lparr>up_Wants := up_Wants req @ [w]\<rparr>, capsParsed)
         | _ \<Rightarrow> (req, capsParsed))
      else if line = ''done'' then (req\<lparr>up_Done := True\<rparr>, capsParsed)
      else if HasPrefix line ''have '' then (req\<lparr>up_Haves := up_Haves req @ [arg line ''have '']\<rparr>, capsParsed)
      else if HasPrefix line ''shallow '' then (req\<lparr>up_Shallow := up_Shallow req @ [arg line ''shallow '']\<rparr>, capsParsed)
      else if HasPrefix line ''deepen '' then (req\<lparr>up_Deepen := up_Deepen req @ [arg line ''deepen '']\<rparr>, capsParsed)
      else if HasPrefix line ''deepen-since '' then (req\<lparr>up_Deepen := up_Deepen req @ [arg line ''deepen-since '']\<rparr>, capsParsed)
      else if HasPrefix line ''deepen-not '' then (req\<lparr>up_Deepen := up_Deepen req @ [arg line ''deepen-not '']\<rparr>, capsParsed)
      else (req, capsParsed))"

definition raw_line :: "string \<Rightarrow> upload_request \<times> bool \<Rightarrow> upload_request \<times> bool" where
  "raw_line line st = (let line = TrimSpace line in
     if line = [] then st
     else parseUploadPackLine line ((fst st)\<lparr>up_Raw := up_Raw (fst st) @ [line]\<rparr>, snd st))"

function read_request_lines :: "bytes \<Rightarrow> upload_request \<times> bool \<Rightarrow> (ssh_error, upload_request \<times> bytes) go" where
  "read_request_lines r st =
     (case readPktLine r of
        Err e \<Rightarrow> Err (ReadError e)
      | Panic \<Rightarrow> Panic
      | Ok ((line, fl), r') \<Rightarrow> if fl then Ok (fst st, r') else read_request_lines r' (raw_line line st))"
  by pat_completeness auto
termination by (relation "measure (\<lambda>(r, st). length r)") (auto dest: readPktLine_consumes)

declare read_request_lines.simps [simp del]

definition readUploadPackRequestWithFirstLine :: "string \<Rightarrow> bytes \<Rightarrow> (ssh_error, upload_request) go" where
  "readUploadPackRequestWithFirstLine firstLine r =
     bind_go (read_request_lines r (raw_line firstLine (empty_request, False))) (\<lambda>(req, rest). Ok req)"

definition parseV2FetchArgs :: "string list \<Rightarrow> upload_request" where
  "parseV2FetchArgs args = foldl (\<lambda>req line.
     if HasPrefix line ''want '' then req\<lparr>up_Wants := up_Wants req @ [arg line ''want '']\<rparr>
     else if HasPrefix line ''have '' then req\<lparr>up_Haves := up_Haves req @ [arg line ''have '']\<rparr>
     else if line = ''done'' then req\<lparr>up_Done := True\<rparr>
     else if HasPrefix line ''deepen '' then req\<lparr>up_Deepen := up_Deepen req @ [arg line ''deepen '']\<rparr>
     else if HasPrefix line ''shallow '' then req\<lparr>up_Shallow := up_Shallow req @ [arg line ''shallow '']\<rparr>
     else req) empty_request args"

definition validateShallowRequest :: "upload_request \<Rightarrow> (ssh_error, unit) go" where
  "validateShallowRequest req = (case up_Deepen req of
     [] \<Rightarrow> Ok ()
   | [d] \<Rightarrow> if d \<noteq> ''1'' then Err OnlyDeepenOne else Ok ()
   | _ \<Rightarrow> Err MultipleDeepen)"

definition parseDepth :: "string \<Rightarrow> nat" where
  "parseDepth deepen = (if deepen = ''1'' then 1 else 0)"

section \<open>Fetching\<close>

definition writeAcknowledgements :: "upload_request \<Rightarrow> string list \<Rightarrow> exchange" where
  "writeAcknowledgements req oids =
     (let hits = filter (\<lambda>h. h \<in> set oids) (up_Haves req) in
      if up_Haves req = [] \<or> oids = [] \<or> hits = [] \<or> last hits = [] then emit (writePktLine (''NAK'' @ newline))
      else emit (writePktLine (''ACK '' @ last hits @ newline)))"

definition shallow_lines :: "string list \<Rightarrow> string list" where
  "shallow_lines oids = map (\<lambda>o'. ''shallow '' @ o' @ newline) oids"

definition writeShallowLines :: "string list \<Rightarrow> bool \<Rightarrow> exchange" where
  "writeShallowLines wants fl =
     (let ws = filter (\<lambda>w. w \<noteq> []) wants in
      seq (emit_lines (shallow_lines ws)) (if ws \<noteq> [] \<and> fl then emit writeFlush else ([], Ok ())))"

text \<open>A pack is written in two pieces, the body and its checksum; over a side band each piece is cut into packets.\<close>

definition pack_pieces :: "bytes \<Rightarrow> bytes list" where
  "pack_pieces p = [take (length p - 20) p, drop (length p - 20) p]"

definition send_pack :: "nat option \<Rightarrow> bytes \<Rightarrow> exchange" where
  "send_pack sideband p = (case sideband of
     None \<Rightarrow> (p, Ok ())
   | Some maxData \<Rightarrow> foldl (\<lambda>x piece. seq x
       (case sideBandWrite 1 maxData piece of
          Some (out, n, None) \<Rightarrow> (out, Ok ())
        | Some (out, n, Some e) \<Rightarrow> (out, Err (WriteError e))
        | None \<Rightarrow> ([], Panic))) ([], Ok ()) (pack_pieces p))"

text \<open>The ref adapter of a repository. The shallow commits are computed first, to be announced before the pack.\<close>

definition ref_commits ::
  "(ref_error \<Rightarrow> string) \<Rightarrow> (ref_error, (string, ref_commit_info) gomap \<times> (string, string) gomap) go \<Rightarrow>
   (build_error, (string, ref_commit_info) gomap) go" where
  "ref_commits rmsg built = bind_go (map_err (\<lambda>e. AdapterError (rmsg e)) built) (\<lambda>(infos, refToOID). Ok infos)"

definition nonempty :: "string list \<Rightarrow> string list" where
  "nonempty xs = filter (\<lambda>x. x \<noteq> []) xs"

definition depth_of :: "upload_request \<Rightarrow> (ssh_error, nat) go" where
  "depth_of req = (if up_Deepen req = [] then Ok 0
     else bind_go (validateShallowRequest req) (\<lambda>_. Ok (parseDepth (hd (up_Deepen req)))))"

definition shallow_commits ::
  "(build_error, (string, ref_commit_info) gomap) go \<Rightarrow> upload_request \<Rightarrow> nat \<Rightarrow> (ssh_error, string list) go" where
  "shallow_commits adapter req depth =
     map_err PackError (bind_go adapter (\<lambda>refCommits.
       bind_go (buildPackObjectsWithDepth refCommits (up_Wants req) (nonempty (up_Haves req)) depth) (\<lambda>(objs, sh).
         Ok (if sh \<noteq> [] then sh else up_Wants req))))"

text \<open>What the two protocol versions share: the pack of a request, written through the side band.\<close>

definition write_pack ::
  "(bytes \<Rightarrow> bytes) \<Rightarrow> (bytes \<Rightarrow> bytes) \<Rightarrow> ('s \<Rightarrow> string \<Rightarrow> git_object option \<times> 's) \<Rightarrow> ('s \<Rightarrow> git_object \<Rightarrow> 's) \<Rightarrow>
   (nat \<Rightarrow> (string, git_object) gomap \<Rightarrow> git_object list) \<Rightarrow> (build_error, (string, ref_commit_info) gomap) go \<Rightarrow>
   's option \<Rightarrow> pack_request \<Rightarrow> nat option \<Rightarrow> (ssh_error \<Rightarrow> exchange) \<Rightarrow> exchange \<times> 's option" where
  "write_pack sha c get put visit adapter store req sideband failed =
     (case BuildPack sha c get put visit (Some adapter) store req of
        Ok ((p, sh), store) \<Rightarrow> (let x = send_pack sideband p in
           (case snd x of Ok _ \<Rightarrow> seq x (emit writeFlush) | Err e \<Rightarrow> seq (fst x, Ok ()) (failed e) | Panic \<Rightarrow> x, store))
      | Err e \<Rightarrow> (failed (PackError e), store)
      | Panic \<Rightarrow> (([], Panic), store))"

definition handleUploadPackV2Fetch ::
  "(bytes \<Rightarrow> bytes) \<Rightarrow> (bytes \<Rightarrow> bytes) \<Rightarrow> ('s \<Rightarrow> string \<Rightarrow> git_object option \<times> 's) \<Rightarrow> ('s \<Rightarrow> git_object \<Rightarrow> 's) \<Rightarrow>
   (nat \<Rightarrow> (string, git_object) gomap \<Rightarrow> git_object list) \<Rightarrow> (ssh_error \<Rightarrow> string) \<Rightarrow>
   (build_error, (string, ref_commit_info) gomap) go \<Rightarrow> 's option \<Rightarrow> string list \<Rightarrow> exchange \<times> 's option" where
  "handleUploadPackV2Fetch sha c get put visit msg adapter store args =
     (let req = parseV2FetchArgs args in
      if up_Wants req = [] then ((writeEmptyPack sha, Ok ()), store)
      else case depth_of req of
        Err e \<Rightarrow> (fail_with msg e, store)
      | Panic \<Rightarrow> (([], Panic), store)
      | Ok depth \<Rightarrow>
          (case (if depth > 0 then shallow_commits adapter req depth else Ok []) of
             Err e \<Rightarrow> (fail_with msg e, store)
           | Panic \<Rightarrow> (([], Panic), store)
           | Ok sh \<Rightarrow>
               let x = seq (if sh = [] then ([], Ok ())
                     else seq (emit_lines ((''shallow-info'' @ newline) # shallow_lines sh)) (emit writeDelim))
                     (emit (writePktLine (''packfile'' @ newline)));
                   (y, store') = write_pack sha c get put visit adapter store
                     \<lparr>Wants = up_Wants req, Haves = up_Haves req, ThinPack = False, Depth = depth\<rparr> (Some 65515) stop
               in (seq x y, case snd x of Ok _ \<Rightarrow> store' | _ \<Rightarrow> store)))"

text \<open>The command of a protocol 2 request that follows a protocol 1 advertisement: a single one, whose arguments end at
  the first flush or delimiter.\<close>

function read_args_v1 :: "bytes \<Rightarrow> string list \<Rightarrow> (ssh_error, string list) go" where
  "read_args_v1 r args =
     (case readPktLine r of
        Err e \<Rightarrow> Err (ReadError e)
      | Panic \<Rightarrow> Panic
      | Ok ((line, fl), r') \<Rightarrow>
          if fl then Ok args
          else let line = TrimSpace line in read_args_v1 r' (if line = [] then args else args @ [line]))"
  by pat_completeness auto
termination by (relation "measure (\<lambda>(r, st). length r)") (auto dest: readPktLine_consumes)

declare read_args_v1.simps [simp del]

definition handleUploadPackV2 ::
  "(bytes \<Rightarrow> bytes) \<Rightarrow> (bytes \<Rightarrow> bytes) \<Rightarrow> ('s \<Rightarrow> string \<Rightarrow> git_object option \<times> 's) \<Rightarrow> ('s \<Rightarrow> git_object \<Rightarrow> 's) \<Rightarrow>
   (nat \<Rightarrow> (string, git_object) gomap \<Rightarrow> git_object list) \<Rightarrow> (ssh_error \<Rightarrow> string) \<Rightarrow>
   (ref_error, git_ref list \<times> string) go \<Rightarrow> (build_error, (string, ref_commit_info) gomap) go \<Rightarrow> 's option \<Rightarrow> bytes \<Rightarrow>
   exchange \<times> 's option" where
  "handleUploadPackV2 sha c get put visit msg listed adapter store r =
     (case readPktLine r of
        Err e \<Rightarrow> (stop (ReadError e), store)
      | Panic \<Rightarrow> (([], Panic), store)
      | Ok ((line, fl), r') \<Rightarrow>
          if fl then (([], Ok ()), store)
          else let cmdLine = TrimSpace line in
            if \<not> HasPrefix cmdLine ''command='' then (stop (InvalidV2Command cmdLine), store)
            else (case read_args_v1 r' [] of
              Err e \<Rightarrow> (stop e, store)
            | Panic \<Rightarrow> (([], Panic), store)
            | Ok args \<Rightarrow>
                let command = TrimPrefix cmdLine ''command='' in
                if command = ''ls-refs'' then (writeV2LsRefs listed, store)
                else if command = ''fetch'' then handleUploadPackV2Fetch sha c get put visit msg adapter store args
                else (stop (UnsupportedV2Command command), store)))"

definition handleUploadPack ::
  "(bytes \<Rightarrow> bytes) \<Rightarrow> (bytes \<Rightarrow> bytes) \<Rightarrow> ('s \<Rightarrow> string \<Rightarrow> git_object option \<times> 's) \<Rightarrow> ('s \<Rightarrow> git_object \<Rightarrow> 's) \<Rightarrow>
   (nat \<Rightarrow> (string, git_object) gomap \<Rightarrow> git_object list) \<Rightarrow> (ssh_error \<Rightarrow> string) \<Rightarrow>
   (ref_error, git_ref list \<times> string) go \<Rightarrow> (ref_error, (string, ref_commit_info) gomap \<times> (string, string) gomap) go \<Rightarrow>
   's option \<Rightarrow> bytes \<Rightarrow> exchange \<times> 's option" where
  "handleUploadPack sha c get put visit msg listed built store r =
     (let adapter = ref_commits (\<lambda>e. msg (RefError e)) built in
      case readPktLine r of
        Err e \<Rightarrow> (stop (ReadError e), store)
      | Panic \<Rightarrow> (([], Panic), store)
      | Ok ((firstLine, fl), r') \<Rightarrow>
          if fl then ((writeEmptyPack sha, Ok ()), store)
          else if TrimSpace firstLine = ''version 2'' then handleUploadPackV2 sha c get put visit msg listed adapter store r'
          else (case readUploadPackRequestWithFirstLine firstLine r' of
            Err e \<Rightarrow> (stop e, store)
          | Panic \<Rightarrow> (([], Panic), store)
          | Ok req \<Rightarrow>
              if up_Wants req = [] then ((writeEmptyPack sha, Ok ()), store)
              else (case built of
                Err e \<Rightarrow> (stop (RefError e), store)
              | Panic \<Rightarrow> (([], Panic), store)
              | Ok (infos, refToOID) \<Rightarrow>
                  (case depth_of req of
                     Err e \<Rightarrow> (fail_with msg e, store)
                   | Panic \<Rightarrow> (([], Panic), store)
                   | Ok depth \<Rightarrow>
                       (case (if depth > 0 then shallow_commits adapter req depth else Ok []) of
                          Err e \<Rightarrow> (fail_with msg e, store)
                        | Panic \<Rightarrow> (([], Panic), store)
                        | Ok sh \<Rightarrow>
                            let x = seq (if depth > 0 then writeShallowLines sh True else ([], Ok ()))
                                        (writeAcknowledgements req (map fst infos));
                                (y, store') = write_pack sha c get put visit adapter store
                                  \<lparr>Wants = up_Wants req, Haves = up_Haves req,
                                   ThinPack = hasCapability (up_Caps req) ''thin-pack'', Depth = depth\<rparr>
                                  (selectSideBand (up_Caps req)) (fail_with msg)
                            in (seq x y, case snd x of Ok _ \<Rightarrow> store' | _ \<Rightarrow> store))))))"

text \<open>A protocol 2 session. The capabilities of a command are skipped up to the delimiter; a flush before it means that there
  are no arguments. Further delimiters are skipped.\<close>

function skip_v2_caps :: "bytes \<Rightarrow> (ssh_error, bool \<times> bytes) go" where
  "skip_v2_caps r =
     (case readPktLineV2 r of
        Err e \<Rightarrow> Err (ReadError e)
      | Panic \<Rightarrow> Panic
      | Ok ((line, PktDelim), r') \<Rightarrow> Ok (True, r')
      | Ok ((line, PktFlush), r') \<Rightarrow> Ok (False, r')
      | Ok ((line, PktData), r') \<Rightarrow> skip_v2_caps r')"
  by pat_completeness auto
termination by (relation "measure length") (auto dest: readPktLineV2_consumes)

declare skip_v2_caps.simps [simp del]

function read_v2_args :: "bytes \<Rightarrow> string list \<Rightarrow> (ssh_error, string list \<times> bytes) go" where
  "read_v2_args r args =
     (case readPktLineV2 r of
        Err e \<Rightarrow> Err (ReadError e)
      | Panic \<Rightarrow> Panic
      | Ok ((line, PktFlush), r') \<Rightarrow> Ok (args, r')
      | Ok ((line, PktDelim), r') \<Rightarrow> read_v2_args r' args
      | Ok ((line, PktData), r') \<Rightarrow> let line = TrimSpace line in read_v2_args r' (if line = [] then args else args @ [line]))"
  by pat_completeness auto
termination by (relation "measure (\<lambda>(r, args). length r)") (auto dest: readPktLineV2_consumes)

declare read_v2_args.simps [simp del]

definition read_v2_command :: "bytes \<Rightarrow> (ssh_error, string list \<times> bytes) go" where
  "read_v2_command r = bind_go (skip_v2_caps r) (\<lambda>(delim, r'). if delim then read_v2_args r' [] else Ok ([], r'))"

lemma skip_v2_caps_consumes: "skip_v2_caps r = Ok (b, r') \<Longrightarrow> length r' < length r"
proof (induction "length r" arbitrary: r rule: less_induct)
  case less
  then obtain line ty r1 where x: "readPktLineV2 r = Ok ((line, ty), r1)"
    by (subst (asm) (2) skip_v2_caps.simps) (auto split: go.splits)
  note l = readPktLineV2_consumes [OF x]
  show ?case
  proof (cases ty)
    case PktData
    then have "skip_v2_caps r1 = Ok (b, r')" using less.prems x by (simp add: skip_v2_caps.simps [of r])
    then show ?thesis using less.hyps [OF l] l by simp
  qed (use less.prems x l in \<open>simp_all add: skip_v2_caps.simps [of r]\<close>)
qed

lemma read_v2_args_consumes: "read_v2_args r args = Ok (x, r') \<Longrightarrow> length r' < length r"
proof (induction "length r" arbitrary: r args rule: less_induct)
  case less
  then obtain line ty r1 where x: "readPktLineV2 r = Ok ((line, ty), r1)"
    by (subst (asm) (2) read_v2_args.simps) (auto split: go.splits)
  note l = readPktLineV2_consumes [OF x]
  show ?case
  proof (cases "ty = PktFlush")
    case False
    then obtain args' where "read_v2_args r1 args' = Ok (x, r')"
      using less.prems x by (cases ty) (auto simp: read_v2_args.simps [of r] Let_def)
    then show ?thesis using less.hyps [OF l] l by (meson less_trans)
  qed (use less.prems x l in \<open>simp add: read_v2_args.simps [of r]\<close>)
qed

lemma read_v2_command_consumes: "read_v2_command r = Ok (x, r') \<Longrightarrow> length r' < length r"
  by (force simp: read_v2_command_def bind_go_Ok_iff split: if_splits dest: skip_v2_caps_consumes read_v2_args_consumes)

text \<open>The end of the input between two commands ends the session.\<close>

function handleUploadPackV2Loop ::
  "(bytes \<Rightarrow> bytes) \<Rightarrow> (bytes \<Rightarrow> bytes) \<Rightarrow> ('s \<Rightarrow> string \<Rightarrow> git_object option \<times> 's) \<Rightarrow> ('s \<Rightarrow> git_object \<Rightarrow> 's) \<Rightarrow>
   (nat \<Rightarrow> (string, git_object) gomap \<Rightarrow> git_object list) \<Rightarrow> (ssh_error \<Rightarrow> string) \<Rightarrow>
   (ref_error, git_ref list \<times> string) go \<Rightarrow> (build_error, (string, ref_commit_info) gomap) go \<Rightarrow>
   's option \<Rightarrow> bytes \<Rightarrow> exchange \<times> 's option" where
  "handleUploadPackV2Loop sha c get put visit msg listed adapter store r =
     (case readPktLineV2 r of
        Err EOF \<Rightarrow> (([], Ok ()), store)
      | Err e \<Rightarrow> (stop (ReadError e), store)
      | Panic \<Rightarrow> (([], Panic), store)
      | Ok ((line, ty), r') \<Rightarrow>
          if ty = PktFlush \<or> ty = PktDelim then (([], Ok ()), store)
          else let cmdLine = TrimSpace line in
            if \<not> HasPrefix cmdLine ''command='' then (stop (InvalidV2Command cmdLine), store)
            else let command = TrimPrefix cmdLine ''command='' in
              (case read_v2_command r' of
                 Err e \<Rightarrow> (stop e, store)
               | Panic \<Rightarrow> (([], Panic), store)
               | Ok (args, r'') \<Rightarrow>
                   if command = ''ls-refs'' then
                     let x = writeV2LsRefsWithArgs listed args in
                     (case snd x of
                        Ok _ \<Rightarrow> let (y, store') = handleUploadPackV2Loop sha c get put visit msg listed adapter store r''
                                in (seq x y, store')
                      | _ \<Rightarrow> (x, store))
                   else if command = ''fetch'' then handleUploadPackV2Fetch sha c get put visit msg adapter store args
                   else (stop (UnsupportedV2Command command), store)))"
  by pat_completeness auto
termination
  by (relation "measure (\<lambda>(sha, c, get, put, visit, msg, listed, adapter, store, r). length r)")
    (auto dest!: readPktLineV2_consumes read_v2_command_consumes)

declare handleUploadPackV2Loop.simps [simp del]

text \<open>\<open>repo\<close> is what the registry knows under a tenant and a name.\<close>

definition UploadPack ::
  "zlib \<Rightarrow> (bytes \<Rightarrow> bytes) \<Rightarrow> (bytes \<Rightarrow> bytes) \<Rightarrow> ('s \<Rightarrow> string \<Rightarrow> git_object option \<times> 's) \<Rightarrow> ('s \<Rightarrow> git_object \<Rightarrow> 's) \<Rightarrow>
   (nat \<Rightarrow> (string, git_object) gomap \<Rightarrow> git_object list) \<Rightarrow> (ssh_error \<Rightarrow> string) \<Rightarrow> caps_config \<Rightarrow>
   (string \<Rightarrow> string \<Rightarrow> repo_db option) \<Rightarrow> string \<Rightarrow> nat \<Rightarrow> 's option \<Rightarrow> bytes \<Rightarrow> exchange \<times> 's option" where
  "UploadPack z sha c get put visit msg cfg repo repoPath version store r =
     (case splitRepo repoPath of
        None \<Rightarrow> ((fst (writeGitError ''invalid repo path'') @ fst writeFlush, Err BadRepoPath), store)
      | Some (tenant, name) \<Rightarrow>
          (case repo tenant name of
             None \<Rightarrow> ((fst (writeGitError ''repo lookup failed'') @ fst writeFlush, Err LookupFailed), store)
           | Some db \<Rightarrow>
               let built = buildRefCommits z sha db; listed = AdapterListRefs z sha db;
                   adapter = ref_commits (\<lambda>e. msg (RefError e)) built
               in if version = 2 then
                    let x = advertiseV2Capabilities cfg;
                        (y, store') = handleUploadPackV2Loop sha c get put visit msg listed adapter store r
                    in (seq x y, case snd x of Ok _ \<Rightarrow> store' | _ \<Rightarrow> store)
                  else
                    let x = advertiseRefs listed cfg in
                    (case snd x of
                       Ok _ \<Rightarrow> let (y, store') = handleUploadPack sha c get put visit msg listed built store r in (seq x y, store')
                     | Err e \<Rightarrow> ((fst x @ fst (writeGitError ''failed to advertise refs'') @ fst writeFlush, Err e), store)
                     | Panic \<Rightarrow> (x, store))))"

section \<open>Pushing\<close>

record push_update =
  pu_Old :: string
  pu_New :: string
  pu_Ref :: string

record push_request =
  pr_Updates :: "push_update list"
  pr_Pack :: bytes
  pr_Caps :: "string list"

definition push_line :: "string \<Rightarrow> push_request \<Rightarrow> (ssh_error, push_request) go" where
  "push_line line req =
     (let line = TrimSpace line in
      if line = [] then Ok req
      else let nul = str_index line [CHR 0x00];
               req = (case nul of Some i \<Rightarrow> if pr_Caps req = [] then req\<lparr>pr_Caps := parseCaps (drop (Suc i) line)\<rparr> else req
                      | None \<Rightarrow> req);
               line = (case nul of Some i \<Rightarrow> take i line | None \<Rightarrow> line)
           in (case Fields line of
                 old # new # ref # _ \<Rightarrow> Ok (req\<lparr>pr_Updates := pr_Updates req @ [\<lparr>pu_Old = old, pu_New = new, pu_Ref = ref\<rparr>]\<rparr>)
               | _ \<Rightarrow> Err (InvalidLine line)))"

function read_push_lines :: "bytes \<Rightarrow> push_request \<Rightarrow> (ssh_error, push_request) go" where
  "read_push_lines r req =
     (case readPktLine r of
        Err e \<Rightarrow> Err (ReadError e)
      | Panic \<Rightarrow> Panic
      | Ok ((line, fl), r') \<Rightarrow>
          if fl then Ok (req\<lparr>pr_Pack := r'\<rparr>)
          else bind_go (push_line line req) (read_push_lines r'))"
  by pat_completeness auto
termination by (relation "measure (\<lambda>(r, st). length r)") (auto dest: readPktLine_consumes)

declare read_push_lines.simps [simp del]

definition readReceivePackRequest :: "bytes \<Rightarrow> (ssh_error, push_request) go" where
  "readReceivePackRequest r = read_push_lines r \<lparr>pr_Updates = [], pr_Pack = [], pr_Caps = []\<rparr>"

definition isZeroOID :: "string \<Rightarrow> bool" where
  "isZeroOID oid \<longleftrightarrow> length oid = 40 \<and> list_all (\<lambda>ch. ch = CHR ''0'') oid"

text \<open>Objects are stored in segments of their own. The checksum of a raw object's segment is random.\<close>

definition store_object :: "int \<Rightarrow> bytes \<Rightarrow> bytes \<Rightarrow> string \<Rightarrow> bytes \<Rightarrow> repo_db \<Rightarrow> repo_db" where
  "store_object ts checksum digest kind content db =
     (case InsertSegmentTx ts checksum content db of (segmentID, db) \<Rightarrow>
        InsertObjectTx ts digest segmentID 0 (word_of_nat (length content)) kind db)"

definition storeRawObject ::
  "(bytes \<Rightarrow> bytes) \<Rightarrow> bytes \<Rightarrow> int \<Rightarrow> string \<Rightarrow> bytes \<Rightarrow> repo_db \<Rightarrow> bytes \<times> repo_db" where
  "storeRawObject blake3 checksum ts kind payload db =
     (let content = to_bytes (kind @ [CHR 0x0A]) @ payload; digest = blake3 content
      in (digest, store_object ts checksum digest kind content db))"

text \<open>Payloads are Go maps; their integers are below 2 to the 53rd and print as such.\<close>

definition storeNodeObject ::
  "(bytes \<Rightarrow> bytes) \<Rightarrow> int \<Rightarrow> string \<Rightarrow> int json \<Rightarrow> repo_db \<Rightarrow> bytes \<times> repo_db" where
  "storeNodeObject blake3 ts kind payload db =
     (let content = node_content show_int kind payload;
          digest = the (NodeID blake3 show_int Some kind payload)
      in (digest, store_object ts (blake3 content) digest kind content db))"

definition empty_snapshot :: "int \<Rightarrow> int json" where
  "empty_snapshot ts = VObj [(''sourceType'', VStr ''git''), (''sourceRef'', VStr ''receive-pack''), (''fileCount'', VNum 0),
     (''fileDigests'', VArr []), (''files'', VArr []), (''createdAt'', VNum ts)]"

definition resolveBaseSnapshot :: "(bytes \<Rightarrow> bytes) \<Rightarrow> int \<Rightarrow> repo_db \<Rightarrow> bytes \<times> repo_db" where
  "resolveBaseSnapshot blake3 ts db = (case Sql_GetRef db ''snap.main'' of
     Ok ref \<Rightarrow> (Target ref, db)
   | _ \<Rightarrow> storeNodeObject blake3 ts ''Snapshot'' (empty_snapshot ts) db)"

definition git_update :: "push_update \<Rightarrow> int json" where
  "git_update u = VObj [(''ref'', VStr (pu_Ref u)), (''old'', VStr (pu_Old u)), (''new'', VStr (pu_New u))]"

definition push_payload :: "bytes \<Rightarrow> int \<Rightarrow> push_update list \<Rightarrow> string \<Rightarrow> int json" where
  "push_payload base ts updates packDigestHex = VObj
     ([(''base'', VStr (hex_encode base)), (''head'', VStr (hex_encode base)), (''createdAt'', VNum ts),
       (''sourceType'', VStr ''git''), (''sourceRef'', VStr ''receive-pack''), (''title'', VStr ''git push''),
       (''gitUpdates'', VArr (map git_update updates))] @
      (if packDigestHex \<noteq> [] then [(''gitPack'', VStr packDigestHex)] else []))"

definition push_ref ::
  "(bytes \<Rightarrow> bytes) \<Rightarrow> int \<Rightarrow> bytes \<Rightarrow> push_update \<Rightarrow> repo_db \<Rightarrow> (ssh_error, string \<times> repo_db) go" where
  "push_ref blake3 ts csDigest u db =
     (case MapGitRefName (pu_Ref u) of
        None \<Rightarrow> Err (UnsupportedRef (pu_Ref u))
      | Some kaiRef \<Rightarrow>
          bind_go (map_err StoreFailure
            (if isZeroOID (pu_New u) then Sql_DeleteRef blake3 ts kaiRef None ''ssh'' ''git-receive-pack'' db
             else if isZeroOID (pu_Old u) then Sql_SetRefFF blake3 ts kaiRef None csDigest ''ssh'' ''git-receive-pack'' db
             else Sql_ForceSetRef blake3 ts kaiRef csDigest ''ssh'' ''git-receive-pack'' db))
            (\<lambda>db. Ok (kaiRef, db)))"

fun push_refs ::
  "(bytes \<Rightarrow> bytes) \<Rightarrow> (nat \<Rightarrow> int) \<Rightarrow> bytes \<Rightarrow> push_update list \<Rightarrow> nat \<Rightarrow> repo_db \<Rightarrow> (ssh_error, string list \<times> repo_db) go" where
  "push_refs blake3 clock csDigest [] i db = Ok ([], db)"
| "push_refs blake3 clock csDigest (u # us) i db =
     bind_go (push_ref blake3 (clock i) csDigest u db) (\<lambda>(r, db).
     bind_go (push_refs blake3 clock csDigest us (Suc i) db) (\<lambda>(rs, db). Ok (r # rs, db)))"

text \<open>The objects are stored in transactions of their own and stay when the refs cannot be updated; the updates of the
  refs are one transaction.\<close>

definition push_objects ::
  "(bytes \<Rightarrow> bytes) \<Rightarrow> bytes \<Rightarrow> (nat \<Rightarrow> int) \<Rightarrow> push_request \<Rightarrow> repo_db \<Rightarrow> bytes \<times> repo_db" where
  "push_objects blake3 checksum clock req db =
     (let (baseDigest, db) = resolveBaseSnapshot blake3 (clock 0) db;
          (packDigestHex, db) = (if pr_Pack req = [] then ([], db)
            else case storeRawObject blake3 checksum (clock 1) ''GitPack'' (pr_Pack req) db of (d, db) \<Rightarrow> (hex_encode d, db));
          payload = push_payload baseDigest (clock 2) (pr_Updates req) packDigestHex
      in storeNodeObject blake3 (clock 3) ''ChangeSet'' payload db)"

definition createChangeSetFromPack ::
  "(bytes \<Rightarrow> bytes) \<Rightarrow> bytes \<Rightarrow> (nat \<Rightarrow> int) \<Rightarrow> push_request \<Rightarrow> repo_db \<Rightarrow> repo_db \<times> (ssh_error, bytes \<times> string list) go" where
  "createChangeSetFromPack blake3 checksum clock req db =
     (let (csDigest, db) = push_objects blake3 checksum clock req db
      in case bind_go (push_refs blake3 clock csDigest (pr_Updates req) 4 db) (\<lambda>(rs, db').
             bind_go (map_err StoreFailure (Sql_ForceSetRef blake3 (clock (4 + length rs)) ''cs.latest'' csDigest ''ssh'' ''git-receive-pack'' db'))
               (\<lambda>db'. Ok (rs @ [''cs.latest''], db'))) of
           Ok (rs, db') \<Rightarrow> (db', Ok (csDigest, rs))
         | Err e \<Rightarrow> (db, Err e)
         | Panic \<Rightarrow> (db, Panic))"

definition writeReceivePackStatus :: "push_request \<Rightarrow> exchange" where
  "writeReceivePackStatus req =
     seq (emit_lines ((''unpack ok'' @ newline) # map (\<lambda>u. ''ok '' @ pu_Ref u @ newline) (pr_Updates req))) (emit writeFlush)"

text \<open>What was written, the database, and the updated refs.\<close>

definition handleReceivePack ::
  "(bytes \<Rightarrow> bytes) \<Rightarrow> bytes \<Rightarrow> (nat \<Rightarrow> int) \<Rightarrow> bytes \<Rightarrow> repo_db \<Rightarrow> bytes \<times> repo_db \<times> (ssh_error, string list) go" where
  "handleReceivePack blake3 checksum clock r db =
     (case readReceivePackRequest r of
        Err e \<Rightarrow> ([], db, Err e)
      | Panic \<Rightarrow> ([], db, Panic)
      | Ok req \<Rightarrow>
          (case createChangeSetFromPack blake3 checksum clock req db of
             (db', Err e) \<Rightarrow> ([], db', Err e)
           | (db', Panic) \<Rightarrow> ([], db', Panic)
           | (db', Ok (csDigest, rs)) \<Rightarrow>
               let x = writeReceivePackStatus req in (fst x, db', bind_go (snd x) (\<lambda>_. Ok rs))))"

text \<open>The CI runs that a push asks the control plane for: branch and hash.\<close>

definition getRefSHA :: "repo_db \<Rightarrow> string \<Rightarrow> string" where
  "getRefSHA db name = (case Sql_GetRef db name of Ok ref \<Rightarrow> hex_encode (Target ref) | _ \<Rightarrow> [])"

definition push_ci :: "repo_db \<Rightarrow> string list \<Rightarrow> (string \<times> string) list" where
  "push_ci db rs = map (\<lambda>r. let branch = TrimPrefix r ''snap.'' in
       (''adapter/heads/'' @ (if branch = ''latest'' then ''main'' else branch), getRefSHA db r))
     (filter (\<lambda>r. HasPrefix r ''snap.'') rs)"

record server_config =
  sv_ReadOnly :: bool
  sv_RequireSigned :: bool
  sv_DisableReceivePack :: bool

definition ReceivePack ::
  "zlib \<Rightarrow> (bytes \<Rightarrow> bytes) \<Rightarrow> (bytes \<Rightarrow> bytes) \<Rightarrow> (ssh_error \<Rightarrow> string) \<Rightarrow> caps_config \<Rightarrow> server_config \<Rightarrow> bytes \<Rightarrow> (nat \<Rightarrow> int) \<Rightarrow>
   (string \<Rightarrow> string \<Rightarrow> repo_db option) \<Rightarrow> string \<Rightarrow> bytes \<Rightarrow>
   exchange \<times> (string \<Rightarrow> string \<Rightarrow> repo_db option) \<times> (string \<times> string) list" where
  "ReceivePack z sha blake3 msg cfg sv checksum clock repo repoPath r =
     (case splitRepo repoPath of
        None \<Rightarrow> ((fst (writeGitError ''invalid repo path'') @ fst writeFlush, Err BadRepoPath), repo, [])
      | Some (tenant, name) \<Rightarrow>
          (case repo tenant name of
             None \<Rightarrow> ((fst (writeGitError ''repo lookup failed'') @ fst writeFlush, Err LookupFailed), repo, [])
           | Some db \<Rightarrow>
               if sv_DisableReceivePack sv \<or> sv_ReadOnly sv \<or> sv_RequireSigned sv then (fail_with msg ReceivePackDisabled, repo, [])
               else let x = advertiseReceivePackRefs (AdapterListRefs z sha db) cfg in
                 (case snd x of
                    Panic \<Rightarrow> (x, repo, [])
                  | Err e \<Rightarrow> ((fst x @ fst (writeGitError ''failed to advertise refs'') @ fst writeFlush, Err e), repo, [])
                  | Ok _ \<Rightarrow>
                      (case handleReceivePack blake3 checksum clock r db of (out, db', res) \<Rightarrow>
                         let repo' = (\<lambda>t n. if t = tenant \<and> n = name then Some db' else repo t n) in
                         (case res of
                            Ok rs \<Rightarrow> ((fst x @ out, Ok ()), repo', push_ci db' rs)
                          | Err e \<Rightarrow> ((fst x @ out @ fst (writeGitError (msg e)) @ fst writeFlush, Err e), repo', [])
                          | Panic \<Rightarrow> ((fst x @ out, Panic), repo', []))))))"

end
