(* ===== verification/SshPush.thy ===== *)
theory SshPush
  imports SshHandler
begin

text \<open>
  Pushing and fetching end to end (\<open>receive_pack.go\<close> with \<open>gitpack.go\<close>): what a push stores, that its updates of the
  refs are atomic, that a client can fetch what was pushed, and what a branch shows after a push.
\<close>

section \<open>What a push stores\<close>

text \<open>Ids of segments are handed out in order.\<close>

definition store_fresh :: "repo_db \<Rightarrow> bool" where
  "store_fresh db \<longleftrightarrow> (\<forall>s \<in> set (segments db). seg_id s < next_segment db) \<and>
     (\<forall>r \<in> set (object_rows db). SegmentID r < next_segment db)"

definition same_objects :: "repo_db \<Rightarrow> repo_db \<Rightarrow> bool" where
  "same_objects db db' \<longleftrightarrow> segments db' = segments db \<and> object_rows db' = object_rows db"

definition same_ref_rows :: "repo_db \<Rightarrow> repo_db \<Rightarrow> bool" where
  "same_ref_rows db db' \<longleftrightarrow> refs db' = refs db \<and> ref_history db' = ref_history db \<and> next_history db' = next_history db"

lemmas extract_defs = ExtractObjectFromDB_def GetObjectInfo_def GetSegmentBlobByID_def GetObject_def GetSegmentBlob_def

lemma extract_same_objects: "same_objects db db' \<Longrightarrow> ExtractObjectFromDB db' d = ExtractObjectFromDB db d"
  by (simp add: same_objects_def extract_defs)

lemma slice64_whole: "length blob < 2 ^ 63 \<Longrightarrow> slice64 blob 0 (word_of_nat (length blob)) = Ok blob"
  by (simp add: slice64_def sint_of_nat)

lemma store_object_row:
  assumes "store_fresh db" and "\<not> HasObject db d" and "length content < 2 ^ 63"
  shows "ExtractObjectFromDB (store_object ts ck d kind content db) d = Ok (content, kind)"
    and "e \<noteq> d \<Longrightarrow> ExtractObjectFromDB (store_object ts ck d kind content db) e = ExtractObjectFromDB db e"
    and "store_fresh (store_object ts ck d kind content db)"
    and "HasObject (store_object ts ck d kind content db) e \<longleftrightarrow> e = d \<or> HasObject db e"
    and "same_ref_rows db (store_object ts ck d kind content db)"
proof -
  let ?seg = "\<lparr>seg_id = next_segment db, seg_ts = ts, seg_checksum = ck, seg_size = int (length content), seg_blob = content\<rparr>"
  let ?row = "\<lparr>Digest = d, SegmentID = next_segment db, Off = 0, Len = word_of_nat (length content), ObjKind = kind, CreatedAt = ts\<rparr>"
  have new: "segments (store_object ts ck d kind content db) = segments db @ [?seg]"
    "object_rows (store_object ts ck d kind content db) = object_rows db @ [?row]"
    "next_segment (store_object ts ck d kind content db) = next_segment db + 1"
    using assms(2) by (simp_all add: store_object_def InsertSegmentTx_def InsertSegment_def InsertObjectTx_def InsertObject_def HasObject_def)
  have none: "find (\<lambda>r. Digest r = d) (object_rows db) = None" using assms(2) by (simp add: HasObject_def find_None_iff)
  have seg: "find (\<lambda>s. seg_id s = next_segment db) (segments db) = None"
    using assms(1) by (fastforce simp: store_fresh_def find_None_iff)
  show "ExtractObjectFromDB (store_object ts ck d kind content db) d = Ok (content, kind)"
    by (simp add: extract_defs new none seg find_append slice64_whole [OF assms(3)])
  show "ExtractObjectFromDB (store_object ts ck d kind content db) e = ExtractObjectFromDB db e" if "e \<noteq> d"
  proof (cases "find (\<lambda>r. Digest r = e) (object_rows db)")
    case (Some r)
    then have "SegmentID r < next_segment db" using assms(1) by (auto simp: store_fresh_def find_Some_iff)
    then show ?thesis using that Some by (auto simp: extract_defs new find_append split: option.splits)
  qed (use that in \<open>simp add: extract_defs new find_append\<close>)
  show "store_fresh (store_object ts ck d kind content db)" using assms(1) by (fastforce simp: store_fresh_def new)
  show "HasObject (store_object ts ck d kind content db) e \<longleftrightarrow> e = d \<or> HasObject db e" by (auto simp: HasObject_def new)
  show "same_ref_rows db (store_object ts ck d kind content db)"
    by (simp add: same_ref_rows_def store_object_def InsertSegmentTx_def InsertSegment_def InsertObjectTx_def InsertObject_def)
qed

lemma append_history_frame:
  "append_history b3 ts actor name old new pid extra parent db = Ok db' \<Longrightarrow> same_objects db db' \<and> refs db' = refs db"
  by (auto simp: append_history_def Let_def same_objects_def split: if_splits)

lemma upsert_same_objects: "same_objects db db' \<Longrightarrow> same_objects (upsert_ref name new ts actor pid db) db' \<longleftrightarrow> same_objects db db'"
  by (simp add: same_objects_def upsert_ref_def Let_def)

lemma upsert_objects [simp]: "segments (upsert_ref name new ts actor pid db) = segments db"
  "object_rows (upsert_ref name new ts actor pid db) = object_rows db"
  by (simp_all add: upsert_ref_def Let_def)

lemma ref_writes_keep_objects:
  "SetRefFF b3 ts name old new actor pid db = Ok db' \<Longrightarrow> same_objects db db'"
  "ForceSetRef b3 ts name new actor pid db = Ok db' \<Longrightarrow> same_objects db db'"
  "DeleteRef b3 ts name old actor pid db = Ok db' \<Longrightarrow> same_objects db db'"
  by (auto simp: SetRefFF_def ff_write_def ff_read_def ForceSetRef_def DeleteRef_def Let_def same_objects_def bind_go_Ok_iff
      split: option.splits if_splits dest!: append_history_frame)

section \<open>The change set of a push\<close>

lemma as_read_update: "as_read show_int (git_update u) =
    VObj [(''new'', VStr (pu_New u)), (''old'', VStr (pu_Old u)), (''ref'', VStr (pu_Ref u))]"
  by (simp add: git_update_def as_read_VObj)

lemma json_ok_push: "json_ok show_int (push_payload base ts us hex)"
  by (auto simp: json_ok_def push_payload_def git_update_def show_int_number)

definition update_members :: "push_update \<Rightarrow> (string \<times> string json) list" where
  "update_members u = [(''new'', VStr (pu_New u)), (''old'', VStr (pu_Old u)), (''ref'', VStr (pu_Ref u))]"

lemma those_map_Some: "(\<And>x. x \<in> set xs \<Longrightarrow> f x = Some (g x)) \<Longrightarrow> those (map f xs) = Some (map g xs)"
  by (induction xs) auto

lemma changeset_of_push:
  "changeset_of (node_content show_int ''ChangeSet'' (push_payload base ts us hex)) =
    Some \<lparr>cs_GitPack = hex, cs_GitUpdates = map update_members us, cs_Head = hex_encode base\<rparr>"
proof -
  obtain m where m: "push_payload base ts us hex = VObj m" "m = [(''base'', VStr (hex_encode base)), (''head'', VStr (hex_encode base)), (''createdAt'', VNum ts),
       (''sourceType'', VStr ''git''), (''sourceRef'', VStr ''receive-pack''), (''title'', VStr ''git push''),
       (''gitUpdates'', VArr (map git_update us))] @ (if hex \<noteq> [] then [(''gitPack'', VStr hex)] else [])"
    by (simp add: push_payload_def)
  have p: "ParseObjectPayload (node_content show_int ''ChangeSet'' (VObj m)) = Some (map (\<lambda>(k, v). (k, as_read show_int v)) (sort_key fst m))"
    by (rule payload_of_node) (use json_ok_push [of base ts us hex] m(1) in \<open>simp_all\<close>)
  have us: "those (map (\<lambda>x. object_value (as_read show_int (git_update x))) us) = Some (map update_members us)"
    by (rule those_map_Some) (simp add: as_read_update update_members_def)
  show ?thesis unfolding changeset_of_def m(1) p
    by (simp add: m(2) struct_field_def fold_eq_def to_lower_def us comp_def)
qed

lemma update_commit_push: "update_commit ref (map update_members us) = map_option pu_New
    (find (\<lambda>u. pu_Ref u = ref \<and> pu_New u \<noteq> [] \<and> pu_New u \<noteq> zero_oid) us)"
  by (induction us) (simp_all add: update_commit_def update_members_def string_at_def member_def)

lemma push_node: "storeNodeObject b3 ts ''ChangeSet'' payload db = (b3 (node_content show_int ''ChangeSet'' payload),
    store_object ts (b3 (node_content show_int ''ChangeSet'' payload)) (b3 (node_content show_int ''ChangeSet'' payload)) ''ChangeSet''
      (node_content show_int ''ChangeSet'' payload) db)"
  by (simp add: storeNodeObject_def NodeID_def CanonicalJSON_def node_content_def Let_def)

definition pack_content :: "bytes \<Rightarrow> bytes" where
  "pack_content p = to_bytes (''GitPack'' @ [CHR 0x0A]) @ p"

definition base_content :: "(nat \<Rightarrow> int) \<Rightarrow> bytes" where
  "base_content clock = node_content show_int ''Snapshot'' (empty_snapshot (clock 0))"

definition cs_content :: "(bytes \<Rightarrow> bytes) \<Rightarrow> (nat \<Rightarrow> int) \<Rightarrow> push_request \<Rightarrow> bytes" where
  "cs_content b3 clock req = node_content show_int ''ChangeSet''
     (push_payload (b3 (base_content clock)) (clock 2) (pr_Updates req) (hex_encode (b3 (pack_content (pr_Pack req)))))"

text \<open>What is assumed of a repository that a pack is pushed to: it has no main branch, so that the change set is based on an empty
  snapshot, and the three objects are new to it, have different digests, and are of a size that fits 63 bits.\<close>

definition push_target :: "(bytes \<Rightarrow> bytes) \<Rightarrow> (nat \<Rightarrow> int) \<Rightarrow> push_request \<Rightarrow> repo_db \<Rightarrow> bool" where
  "push_target b3 clock req db \<longleftrightarrow> store_fresh db \<and> current_target db ''snap.main'' = None \<and> pr_Pack req \<noteq> [] \<and>
     list_all (\<lambda>x. length x < 2 ^ 63 \<and> b3 x \<noteq> [] \<and> \<not> HasObject db (b3 x))
       [base_content clock, pack_content (pr_Pack req), cs_content b3 clock req] \<and>
     distinct (map b3 [base_content clock, pack_content (pr_Pack req), cs_content b3 clock req])"

lemma push_objects_stored:
  assumes t: "push_target b3 clock req db"
  shows "\<exists>db'. push_objects b3 ck clock req db = (b3 (cs_content b3 clock req), db') \<and> store_fresh db' \<and> same_ref_rows db db' \<and>
    ExtractObjectFromDB db' (b3 (cs_content b3 clock req)) = Ok (cs_content b3 clock req, ''ChangeSet'') \<and>
    ExtractObjectFromDB db' (b3 (pack_content (pr_Pack req))) = Ok (pack_content (pr_Pack req), ''GitPack'') \<and>
    ExtractObjectFromDB db' (b3 (base_content clock)) = Ok (base_content clock, ''Snapshot'')"
proof -
  let ?b = "base_content clock" and ?p = "pack_content (pr_Pack req)" and ?c = "cs_content b3 clock req"
  have ne: "b3 ?b \<noteq> b3 ?p" "b3 ?b \<noteq> b3 ?c" "b3 ?p \<noteq> b3 ?c"
    using t by (simp_all add: push_target_def)
  have l: "length ?b < 2 ^ 63" "length ?p < 2 ^ 63" "length ?c < 2 ^ 63"
    and h: "\<not> HasObject db (b3 ?b)" "\<not> HasObject db (b3 ?p)" "\<not> HasObject db (b3 ?c)" and f: "store_fresh db"
    using t by (simp_all add: push_target_def)
  have g: "Sql_GetRef db ''snap.main'' = Err ErrRefNotFound"
    using t by (simp add: push_target_def Sql_GetRef_def GetRef_def current_target_def)
  define d1 where "d1 = store_object (clock 0) (b3 ?b) (b3 ?b) ''Snapshot'' ?b db"
  define d2 where "d2 = store_object (clock 1) ck (b3 ?p) ''GitPack'' ?p d1"
  define d3 where "d3 = store_object (clock 3) (b3 ?c) (b3 ?c) ''ChangeSet'' ?c d2"
  note s1 = store_object_row [OF f h(1) l(1), where ts = "clock 0" and ck = "b3 ?b" and kind = "''Snapshot''", folded d1_def]
  have h2: "\<not> HasObject d1 (b3 ?p)" "\<not> HasObject d1 (b3 ?c)" using s1(4) h ne by metis+
  note s2 = store_object_row [OF s1(3) h2(1) l(2), where ts = "clock 1" and ck = ck and kind = "''GitPack''", folded d2_def]
  have h3: "\<not> HasObject d2 (b3 ?c)" using s2(4) h2 ne by metis
  note s3 = store_object_row [OF s2(3) h3 l(3), where ts = "clock 3" and ck = "b3 ?c" and kind = "''ChangeSet''", folded d3_def]
  have base: "resolveBaseSnapshot b3 (clock 0) db = (b3 ?b, d1)"
    by (simp add: resolveBaseSnapshot_def g storeNodeObject_def NodeID_def CanonicalJSON_def d1_def base_content_def node_content_def Let_def)
  have raw: "storeRawObject b3 ck (clock 1) ''GitPack'' (pr_Pack req) d1 = (b3 ?p, d2)"
    by (simp add: storeRawObject_def d2_def pack_content_def Let_def)
  have "push_objects b3 ck clock req db = (b3 ?c, d3)"
    using t by (simp add: push_objects_def base raw [unfolded One_nat_def] push_node push_target_def cs_content_def d3_def Let_def)
  moreover have "same_ref_rows db d3" using s1(5) s2(5) s3(5) by (simp add: same_ref_rows_def)
  ultimately show ?thesis using s3(1,3) s3(2) [OF ne(2)] s3(2) [OF ne(3)] s2(1) s2(2) [OF ne(1)] s1(1) by simp
qed

lemma parse_pack_of:
  assumes "zlib_codec z c" and "\<And>x. length (sha x) = 20" and "length objs < 4294967296" and "\<forall>o' \<in> set objs. wf_object sha o'"
    and "writePack sha c objs = Ok p"
  shows "parseGitPackWithBases z sha p m = Ok (index_objects objs)" and "p \<noteq> []"
proof -
  have "\<forall>cand \<in> set (map whole objs). candidate_ok cand" using assms(4) by (auto simp: candidate_ok_def whole_def wf_object_def)
  then show "parseGitPackWithBases z sha p m = Ok (index_objects objs)"
    using parse_writePackWithDeltas [OF assms(1,2), where cands = "map whole objs" and p = p and existing = "Some m"] assms(3,4,5)
    by (simp add: writePack_whole fold_read_back_whole parseGitPackWithBases_def index_objects_def)
  show "p \<noteq> []" using assms(5) by (auto simp: writePack_def bind_go_Ok_iff seal_def pack_header_def)
qed

lemma update_all_id: "distinct (map fst m) \<Longrightarrow> foldl (\<lambda>m (k, v). AList.update k v m) [] m = m"
proof (induction m rule: rev_induct)
  case (snoc x m)
  have "AList.update k v l = l @ [(k, v)]" if "k \<notin> fst ` set l" for k v and l :: "('a \<times> 'b) list"
    using that by (induction l) auto
  then show ?case using snoc by (cases x) simp
qed simp

lemma index_objects_distinct: "distinct (map fst (index_objects objs))"
proof -
  have "distinct (map fst (fold (\<lambda>o'. AList.update (obj_oid o') o') objs m))" if "distinct (map fst m)" for m
    using that by (induction objs arbitrary: m) (simp_all add: distinct_update)
  then show ?thesis by (simp add: index_objects_def)
qed

lemma index_objects_empty: "index_objects objs = [] \<longleftrightarrow> objs = []"
proof -
  have "fold (\<lambda>o'. AList.update (obj_oid o') o') xs m \<noteq> []" if "m \<noteq> []" for xs and m :: "(string, git_object) gomap"
    using that by (induction xs arbitrary: m) (auto simp: neq_Nil_conv)
  then show ?thesis by (cases objs) (auto simp: index_objects_def)
qed

text \<open>The change set of such a push shows, for the branch that was pushed, exactly the objects of its own pack.\<close>

definition the_update :: "push_request \<Rightarrow> string \<Rightarrow> string \<Rightarrow> bool" where
  "the_update req ref oid \<longleftrightarrow> map_option pu_New (find (\<lambda>u. pu_Ref u = ref \<and> pu_New u \<noteq> [] \<and> pu_New u \<noteq> zero_oid) (pr_Updates req)) = Some oid \<and> oid \<noteq> []"

lemma hex_encode_empty: "hex_encode x = [] \<longleftrightarrow> x = []"
  using length_hex_encode [of x] by (metis length_0_conv mult_is_0 zero_neq_numeral)

lemma collect_cs:
  assumes "ExtractObjectFromDB db (b3 (cs_content b3 clock req)) = Ok (cs_content b3 clock req, ''ChangeSet'')"
    and "ExtractObjectFromDB db (b3 (base_content clock)) = Ok (base_content clock, ''Snapshot'')"
    and "b3 (pack_content (pr_Pack req)) \<noteq> []" and "b3 (base_content clock) \<noteq> []"
  shows "collect_packs db ref 20 (b3 (cs_content b3 clock req)) ([], []) =
    Ok (case update_commit ref (map update_members (pr_Updates req)) of Some c \<Rightarrow> c | None \<Rightarrow> [], [b3 (pack_content (pr_Pack req))])"
proof -
  have cs: "changeset_of (cs_content b3 clock req) = Some \<lparr>cs_GitPack = hex_encode (b3 (pack_content (pr_Pack req))),
      cs_GitUpdates = map update_members (pr_Updates req), cs_Head = hex_encode (b3 (base_content clock))\<rparr>"
    by (simp add: cs_content_def changeset_of_push)
  have "collect_packs db ref (Suc (Suc n)) (b3 (cs_content b3 clock req)) ([], []) =
    Ok (case update_commit ref (map update_members (pr_Updates req)) of Some c \<Rightarrow> c | None \<Rightarrow> [], [b3 (pack_content (pr_Pack req))])" for n
    using assms by (simp add: cs hex_encode_empty)
  moreover obtain n where "(20 :: nat) = Suc (Suc n)" by (rule that [of 18]) simp
  ultimately show ?thesis by metis
qed

lemma strip_pack: "p \<noteq> [] \<Longrightarrow> strip_pack_prefix (pack_content p) = p"
  by (simp add: strip_pack_prefix_def pack_content_def to_bytes_def)

lemma collect_reachable:
  assumes "object_db objects" and "map_of objects c = Some x" and "obj_type x = ObjectCommit"
  shows "\<exists>res. collectCommitObjects objects c = Ok res \<and> distinct (map obj_oid res) \<and>
    set res = {x. \<exists>k. reaches objects c k \<and> map_of objects k = Some x}"
proof -
  have "is_kind objects (\<lambda>t. t = ObjectCommit) c" using assms(2,3) by (simp add: is_kind_def)
  then show ?thesis by (rule reachable_from [OF assms(1)])
qed

text \<open>The pack of a push, as its objects.\<close>

definition pack_of :: "zlib \<Rightarrow> (bytes \<Rightarrow> bytes) \<Rightarrow> (bytes \<Rightarrow> bytes) \<Rightarrow> git_object list \<Rightarrow> bytes \<Rightarrow> bool" where
  "pack_of z sha c objs p \<longleftrightarrow> zlib_codec z c \<and> (\<forall>x. length (sha x) = 20) \<and> length objs < 4294967296 \<and>
     (\<forall>o' \<in> set objs. wf_object sha o') \<and> object_db (index_objects objs) \<and> writePack sha c objs = Ok p"

definition reachable_objects :: "git_object list \<Rightarrow> string \<Rightarrow> git_object set" where
  "reachable_objects objs oid = {x. \<exists>k. reaches (index_objects objs) oid k \<and> map_of (index_objects objs) k = Some x}"

lemma buildRef_pushed:
  assumes t: "push_target b3 clock req db" and "the_update req (MapRefName (RefName row)) oid"
    and p: "pack_of z sha c objs (pr_Pack req)" and c: "map_of (index_objects objs) oid = Some x" "obj_type x = ObjectCommit"
    and o: "push_objects b3 ck clock req db = (cs, db1)" "same_objects db1 db'" and r: "Target row = cs"
  shows "\<exists>rest. buildRef z sha db' row cache = Ok (\<lparr>rb_refName = MapRefName (RefName row), rb_commit = x, rb_objects = rest\<rparr>, cache) \<and>
    insert x (set rest) = reachable_objects objs oid"
proof -
  let ?cs = "cs_content b3 clock req" and ?p = "pack_content (pr_Pack req)" and ?m = "index_objects objs"
  have e: "cs = b3 ?cs" "ExtractObjectFromDB db' (b3 ?cs) = Ok (?cs, ''ChangeSet'')"
    "ExtractObjectFromDB db' (b3 ?p) = Ok (?p, ''GitPack'')"
    "ExtractObjectFromDB db' (b3 (base_content clock)) = Ok (base_content clock, ''Snapshot'')"
    using push_objects_stored [OF t, of ck] o(1) extract_same_objects [OF o(2)] by auto
  have ne: "b3 ?cs \<noteq> []" "b3 ?p \<noteq> []" "b3 (base_content clock) \<noteq> []" "pr_Pack req \<noteq> []" using t by (simp_all add: push_target_def)
  have col: "collect_packs db' (MapRefName (RefName row)) 20 (b3 ?cs) ([], []) = Ok (oid, [b3 ?p])"
    using collect_cs [OF e(2,4) ne(2,3)] assms(2) unfolding the_update_def update_commit_push [symmetric] by simp
  have parse: "parseGitPackWithBases z sha (pr_Pack req) [] = Ok ?m"
    using p parse_pack_of(1) [of z c sha objs "pr_Pack req" "[]"] by (simp add: pack_of_def)
  have load: "load_packs z sha db' [b3 ?p] [] = Ok ?m"
    by (simp add: e(3) strip_pack [OF ne(4)] parse update_all_id index_objects_distinct)
  obtain res where res: "collectCommitObjects ?m oid = Ok res" "distinct (map obj_oid res)" "set res = reachable_objects objs oid"
    using collect_reachable [OF _ c] p by (auto simp: pack_of_def reachable_objects_def)
  have oid: "oid \<noteq> []" using assms(2) by (simp add: the_update_def)
  have x: "obj_oid x = oid" using p c(1) by (simp add: pack_of_def object_db_def)
  have "x \<in> set res" unfolding res(3) reachable_objects_def using c(1) reaches.start by blast
  then have f: "filter (\<lambda>y. obj_oid y = oid) res = [x]" using res(2) x
    by (induction res) (auto simp: filter_empty_conv image_iff)
  have "?m \<noteq> []" using c(1) by auto
  then have "resolveGitPackObjects z sha db' cs (MapRefName (RefName row)) = Ok (res, oid)"
    by (simp add: resolveGitPackObjects_def e(1) ne col oid load res(1) del: load_packs.simps)
  then have "buildRef z sha db' row cache = Ok (\<lparr>rb_refName = MapRefName (RefName row), rb_commit = x,
      rb_objects = filter (\<lambda>y. obj_oid y \<noteq> oid) res\<rparr>, cache)"
    by (simp add: buildRef_def r split_commit_def f x oid)
  moreover have "insert x (set (filter (\<lambda>y. obj_oid y \<noteq> oid) res)) = set res"
  proof -
    have "y = x" if "y \<in> set res" "obj_oid y = oid" for y
    proof -
      have "y \<in> set (filter (\<lambda>y. obj_oid y = oid) res)" using that by simp
      then show ?thesis unfolding f by simp
    qed
    then show ?thesis using \<open>x \<in> set res\<close> by auto
  qed
  ultimately show ?thesis using res(3) by blast
qed

section \<open>Pushes are atomic\<close>

text \<open>What one update of an accepted push does to the targets of the refs.\<close>

definition push_effect :: "bytes \<Rightarrow> push_update \<Rightarrow> (string \<Rightarrow> bytes option) \<Rightarrow> string \<Rightarrow> bytes option" where
  "push_effect cs u m = (case MapGitRefName (pu_Ref u) of
     None \<Rightarrow> m | Some r \<Rightarrow> m(r := if isZeroOID (pu_New u) then None else Some cs))"

lemma moved_target: "moved b3 db name new db' \<Longrightarrow> new \<noteq> [] \<Longrightarrow> current_target db' = (current_target db)(name := Some new)"
  by (auto simp: moved_def)

lemma moved_distinct: "moved b3 db name new db' \<Longrightarrow> distinct (map RefName (refs db')) = distinct (map RefName (refs db))"
  by (simp add: moved_def)

lemmas sql_refs = Sql_DeleteRef_def Sql_SetRefFF_def Sql_ForceSetRef_def Sql_GetRef_def

lemma push_ref_effect:
  assumes "push_ref b3 ts cs u db = Ok (r, db')" and "cs \<noteq> []" and "distinct (map RefName (refs db))"
  shows "current_target db' = push_effect cs u (current_target db) \<and> distinct (map RefName (refs db')) \<and> same_objects db db' \<and>
    MapGitRefName (pu_Ref u) = Some r"
proof -
  obtain k where k: "MapGitRefName (pu_Ref u) = Some k" using assms(1) by (auto simp: push_ref_def split: option.splits)
  have ok: "map_err f x = Ok y \<longleftrightarrow> x = Ok y" for f and x :: "(store_error, repo_db) go" and y by (cases x) auto
  consider (del) "isZeroOID (pu_New u)" "DeleteRef b3 ts k None ''ssh'' ''git-receive-pack'' db = Ok db'"
    | (new) "\<not> isZeroOID (pu_New u)" "SetRefFF b3 ts k None cs ''ssh'' ''git-receive-pack'' db = Ok db'"
    | (force) "\<not> isZeroOID (pu_New u)" "ForceSetRef b3 ts k cs ''ssh'' ''git-receive-pack'' db = Ok db'"
    using assms(1) by (auto simp: push_ref_def k bind_go_Ok_iff sql_refs ok split: if_splits)
  then show ?thesis
  proof cases
    case del
    have m: "moved b3 db k [] db'" by (rule DeleteRef_moved [OF del(2) assms(3)])
    then have "current_target db' = (current_target db)(k := None)" by (auto simp: moved_def)
    then show ?thesis using del(1) moved_distinct [OF m] ref_writes_keep_objects(3) [OF del(2)] assms(1,3)
      by (auto simp: push_effect_def k push_ref_def bind_go_Ok_iff)
  next
    case new
    have m: "moved b3 db k cs db'" by (rule SetRefFF_moved [OF new(2) assms(2)])
    show ?thesis using moved_target [OF m assms(2)] new(1) moved_distinct [OF m] ref_writes_keep_objects(1) [OF new(2)] assms(1,3)
      by (auto simp: push_effect_def k push_ref_def bind_go_Ok_iff)
  next
    case force
    have m: "moved b3 db k cs db'" by (rule ForceSetRef_moved [OF force(2) assms(2)])
    show ?thesis using moved_target [OF m assms(2)] force(1) moved_distinct [OF m] ref_writes_keep_objects(2) [OF force(2)] assms(1,3)
      by (auto simp: push_effect_def k push_ref_def bind_go_Ok_iff)
  qed
qed

lemma same_objects_trans: "same_objects a b \<Longrightarrow> same_objects b c \<Longrightarrow> same_objects a c"
  by (simp add: same_objects_def)

lemma push_refs_effect:
  assumes "push_refs b3 clock cs us i db = Ok (rs, db')" and "cs \<noteq> []" and "distinct (map RefName (refs db))"
  shows "current_target db' = fold (push_effect cs) us (current_target db) \<and> distinct (map RefName (refs db')) \<and> same_objects db db' \<and>
    map (\<lambda>u. MapGitRefName (pu_Ref u)) us = map Some rs"
  using assms
proof (induction us arbitrary: i db rs)
  case (Cons u us)
  obtain r db1 rs' where s: "push_ref b3 (clock i) cs u db = Ok (r, db1)" "push_refs b3 clock cs us (Suc i) db1 = Ok (rs', db')" "rs = r # rs'"
    using Cons.prems(1) by (auto simp: bind_go_Ok_iff)
  note one = push_ref_effect [OF s(1) Cons.prems(2,3)]
  then have "distinct (map RefName (refs db1))" by simp
  from Cons.IH [OF s(2) Cons.prems(2) this] one show ?case by (auto simp: s(3) intro: same_objects_trans)
qed (auto simp: same_objects_def)

lemma store_object_refs: "same_ref_rows db (store_object ts ck d kind content db)"
  by (simp add: same_ref_rows_def store_object_def InsertSegmentTx_def InsertSegment_def InsertObjectTx_def InsertObject_def)

lemma push_objects_refs: "push_objects b3 ck clock req db = (cs, db') \<Longrightarrow> same_ref_rows db db'"
  using store_object_refs
  by (fastforce simp: push_objects_def resolveBaseSnapshot_def storeNodeObject_def storeRawObject_def Let_def same_ref_rows_def
      split: go.splits if_splits prod.splits)


section \<open>What is pushed can be fetched\<close>

text \<open>The history entry of the pushed branch and that of \<open>cs.latest\<close> are different texts.\<close>

lemma history_json_differ:
  "history_json t a name old new pid [] parent \<noteq> history_json t' a name' old' new' pid [(''force'', JBool True)] parent'"
proof (cases parent; cases parent')
qed (simp_all add: history_json_def marshal_map_def, simp_all add: json_string_def json_char_def Let_def)

lemma push_accepted:
  assumes "refs db = []" "ref_history db = []" and "pr_Updates req = [u]" and "isZeroOID (pu_Old u)" and "\<not> isZeroOID (pu_New u)"
    and "MapGitRefName (pu_Ref u) = Some k" and "inj b3"
  shows "\<exists>cs db1 db'. push_objects b3 ck clock req db = (cs, db1) \<and>
    createChangeSetFromPack b3 ck clock req db = (db', Ok (cs, [k, ''cs.latest'']))"
proof -
  obtain cs d where d: "push_objects b3 ck clock req db = (cs, d)" by (metis prod.exhaust)
  have r: "refs d = []" "ref_history d = []" using push_objects_refs [OF d] assms(1,2) by (simp_all add: same_ref_rows_def)
  have ff: "ff_read k None d = Ok None" by (simp add: ff_read_def current_target_def last_history_def r)
  obtain d1 where d1: "SetRefFF b3 (clock 4) k None cs ''ssh'' ''git-receive-pack'' d = Ok d1"
    "ref_history d1 = [\<lparr>h_seq = next_history d, h_id = b3 (to_bytes (history_json (clock 4) ''ssh'' k None cs ''git-receive-pack'' [] None)),
       h_parent = None, h_time = clock 4, h_actor = ''ssh'', h_ref = k, h_old = None, h_new = cs,
       h_meta = history_json (clock 4) ''ssh'' k None cs ''git-receive-pack'' [] None\<rparr>]"
    by (simp add: SetRefFF_def ff ff_write_def append_history_def r Let_def)
  have "b3 (to_bytes (history_json (clock 4) ''ssh'' k None cs ''git-receive-pack'' [] None)) \<noteq>
      b3 (to_bytes (history_json t ''ssh'' n old cs ''git-receive-pack'' [(''force'', JBool True)] parent))" for t n old parent
    using history_json_differ inj_to_bytes by (simp add: inj_eq [OF assms(7)] inj_eq)
  then obtain d2 where "ForceSetRef b3 (clock 5) ''cs.latest'' cs ''ssh'' ''git-receive-pack'' d1 = Ok d2"
    by (simp add: ForceSetRef_def append_history_def d1(2) Let_def)
  then have "createChangeSetFromPack b3 ck clock req db = (d2, Ok (cs, [k, ''cs.latest'']))"
    using assms(3-6) d1(1) by (simp add: createChangeSetFromPack_def d push_ref_def sql_refs)
  with d show ?thesis by blast
qed

lemma sorted_two: "sort_key RefName [a, b] = (if RefName a \<le> RefName b then [a, b] else [b, a])"
  by simp

lemma latest_first: "''cs.latest'' \<le> ''snap.'' @ b" "\<not> ''snap.'' @ b \<le> ''cs.latest''"
  by simp_all

text \<open>The synthetic commit of \<open>cs.latest\<close> in such a repository: an empty tree.\<close>

lemma head_of_push: "head_of (cs_content b3 clock req) = Some (hex_encode (b3 (base_content clock)))"
proof -
  have "changeset_of (cs_content b3 clock req) \<noteq> None" by (simp add: cs_content_def changeset_of_push)
  then show ?thesis
    using changeset_of_push [of "b3 (base_content clock)" "clock 2" "pr_Updates req" "hex_encode (b3 (pack_content (pr_Pack req)))"]
    by (auto simp: changeset_of_def head_of_def cs_content_def bind_eq_Some_conv)
qed

lemma snapshot_fields_empty: "snapshot_fields (base_content clock) = Some ([], [])"
proof -
  have ok: "json_ok show_int (empty_snapshot ts)" for ts by (auto simp: json_ok_def empty_snapshot_def show_int_number)
  obtain m where m: "empty_snapshot (clock 0) = VObj m" "m = [(''sourceType'', VStr ''git''), (''sourceRef'', VStr ''receive-pack''), (''fileCount'', VNum 0),
     (''fileDigests'', VArr []), (''files'', VArr []), (''createdAt'', VNum (clock 0))]" by (simp add: empty_snapshot_def)
  have p: "ParseObjectPayload (node_content show_int ''Snapshot'' (VObj m)) = Some (map (\<lambda>(k, v). (k, as_read show_int v)) (sort_key fst m))"
    by (rule payload_of_node) (use ok [of "clock 0"] m(1) in simp_all)
  show ?thesis unfolding snapshot_fields_def base_content_def m(1) p
    by (simp add: m(2) struct_field_def fold_eq_def to_lower_def)
qed

lemma synthetic_latest:
  assumes "ExtractObjectFromDB db (b3 (cs_content b3 clock req)) = Ok (cs_content b3 clock req, ''ChangeSet'')"
    and "ExtractObjectFromDB db (b3 (base_content clock)) = Ok (base_content clock, ''Snapshot'')"
    and "Target row = b3 (cs_content b3 clock req)" and "b3 (cs_content b3 clock req) \<noteq> []" and "b3 (base_content clock) \<noteq> []"
  shows "\<exists>c objs cache. synthetic_ref sha db row [] = Ok (\<lparr>rb_refName = MapRefName (RefName row), rb_commit = c, rb_objects = objs\<rparr>, cache)"
proof -
  have hex: "hex_encode (b3 (base_content clock)) \<noteq> []" using assms(5) by (simp add: hex_encode_empty)
  have "resolve_loop db (Suc (Suc n)) (b3 (cs_content b3 clock req)) = Ok (Some (b3 (base_content clock)))" for n
    using assms(1,2) hex by (simp add: head_of_push)
  moreover obtain n where "(10 :: nat) = Suc (Suc n)" by (rule that [of 8]) simp
  ultimately have "resolveSnapshotDigest db (Target row) = Ok (Some (b3 (base_content clock)))"
    using assms(3,4) by (simp only: resolveSnapshotDigest_def) auto
  moreover obtain x where "SnapshotObjects sha db (b3 (base_content clock)) = Ok x"
    by (simp add: SnapshotObjects_def getSnapshotFiles_def assms(2) snapshot_fields_empty buildTreeFromFiles_def empty_node_def make_tree_def)
  ultimately show ?thesis by (cases x) (simp add: synthetic_ref_def Let_def)
qed

lemma reachable_subset: "reachable_objects objs oid \<subseteq> set objs"
proof -
  have "\<exists>o' \<in> set objs. map_of (index_objects objs) k = Some x \<longrightarrow> x = o'" if "map_of (index_objects objs) k = Some x" for k x
  proof -
    have "map_of (fold (\<lambda>o'. AList.update (obj_oid o') o') os m) k = Some x \<Longrightarrow> x \<in> set os \<or> map_of m k = Some x" for os m
      by (induction os arbitrary: m) (fastforce split: if_splits)+
    then show ?thesis using that by (fastforce simp: index_objects_def)
  qed
  then show ?thesis by (fastforce simp: reachable_objects_def)
qed

lemma oid_of_reachable: "object_db (index_objects objs) \<Longrightarrow> x \<in> reachable_objects objs oid \<Longrightarrow> map_of (index_objects objs) (obj_oid x) = Some x"
  by (auto simp: reachable_objects_def object_db_def)

lemma build_pushed:
  assumes t: "push_target b3 clock req db" and e: "refs db = []" "ref_history db = []"
    and u: "pr_Updates req = [\<lparr>pu_Old = old, pu_New = oid, pu_Ref = ''refs/heads/'' @ b\<rparr>]" "b \<noteq> []" "isZeroOID old" "\<not> isZeroOID oid" "oid \<noteq> []"
    and i: "inj b3" and p: "pack_of z sha c objs (pr_Pack req)"
    and x: "map_of (index_objects objs) oid = Some x" "obj_type x = ObjectCommit"
  shows "\<exists>db' cs infos m rest. createChangeSetFromPack b3 ck clock req db = (db', Ok (cs, [''snap.'' @ b, ''cs.latest''])) \<and>
    buildRefCommits z sha db' = Ok (infos, m) \<and> map_of infos oid = Some \<lparr>commit = x, commit_objects = rest\<rparr> \<and>
    insert x (set rest) = reachable_objects objs oid"
proof -
  let ?u = "\<lparr>pu_Old = old, pu_New = oid, pu_Ref = ''refs/heads/'' @ b\<rparr>" and ?k = "''snap.'' @ b"
  have k: "MapGitRefName (''refs/heads/'' @ b) = Some ?k" using u(2) by (simp add: MapGitRefName_def HasPrefix_def TrimPrefix_def)
  have git: "MapRefName ?k = ''refs/heads/'' @ b" by (simp add: MapRefName_def HasPrefix_def TrimPrefix_def)
  have k': "MapGitRefName (pu_Ref ?u) = Some ?k" using k by simp
  obtain cs db1 db' where o: "push_objects b3 ck clock req db = (cs, db1)"
    "createChangeSetFromPack b3 ck clock req db = (db', Ok (cs, [?k, ''cs.latest'']))"
    using push_accepted [OF e u(1) _ _ k' i, of ck clock] u(3,4) by auto
  have cs: "cs = b3 (cs_content b3 clock req)" using push_objects_stored [OF t, of ck] o(1) by auto
  have r1: "refs db1 = []" using push_objects_refs [OF o(1)] e(1) by (simp add: same_ref_rows_def)
  have keep: "append_history h ts actor name old new pid extra parent a = Ok a' \<Longrightarrow> refs a' = refs a" for h ts actor name old new pid extra parent a a'
    by (blast dest: append_history_frame)
  have ok: "map_err f y = Ok v \<longleftrightarrow> y = Ok v" for f and y :: "(store_error, repo_db) go" and v by (cases y) auto
  obtain d where s: "SetRefFF b3 (clock 4) ?k None cs ''ssh'' ''git-receive-pack'' db1 = Ok d"
    "ForceSetRef b3 (clock 5) ''cs.latest'' cs ''ssh'' ''git-receive-pack'' d = Ok db'"
    using o u(3,4) by (auto simp: createChangeSetFromPack_def u(1) push_ref_def k [simplified] sql_refs bind_go_Ok_iff ok split: go.splits)
  define row1 where "row1 = \<lparr>RefName = ?k, Target = cs, UpdatedAt = clock 4, RefActor = ''ssh'', PushID = ''git-receive-pack''\<rparr>"
  define row2 where "row2 = \<lparr>RefName = ''cs.latest'', Target = cs, UpdatedAt = clock 5, RefActor = ''ssh'', PushID = ''git-receive-pack''\<rparr>"
  have d: "refs d = [row1]" using s(1) r1
    by (auto simp: SetRefFF_def ff_write_def bind_go_Ok_iff upsert_ref_def row1_def dest!: keep)
  have refs': "refs db' = [row1, row2]" using s(2) d
    by (auto simp: ForceSetRef_def Let_def upsert_ref_def row1_def row2_def dest!: keep)
  have same: "same_objects db1 db'" by (rule same_objects_trans [OF ref_writes_keep_objects(1) [OF s(1)] ref_writes_keep_objects(2) [OF s(2)]])
  have names: "RefName row1 = ?k" "RefName row2 = ''cs.latest''" "Target row1 = cs" "Target row2 = cs" by (simp_all add: row1_def row2_def)
  have sorted: "Sql_ListRefs db' [] = [row2, row1]" using latest_first [of b] by (simp add: Sql_ListRefs_def RefStore.ListRefs_def refs' names)
  have lat: "MapRefName ''cs.latest'' = ''refs/kai/cs/latest''" by (simp add: MapRefName_def HasPrefix_def TrimPrefix_def)
  have E: "ExtractObjectFromDB db' (b3 (cs_content b3 clock req)) = Ok (cs_content b3 clock req, ''ChangeSet'')"
    "ExtractObjectFromDB db' (b3 (base_content clock)) = Ok (base_content clock, ''Snapshot'')"
    using push_objects_stored [OF t, of ck] o(1) extract_same_objects [OF same] by auto
  have ne: "b3 (cs_content b3 clock req) \<noteq> []" "b3 (base_content clock) \<noteq> []" "b3 (pack_content (pr_Pack req)) \<noteq> []"
    using t by (simp_all add: push_target_def)
  obtain c2 objs2 cache where syn: "synthetic_ref sha db' row2 [] = Ok (\<lparr>rb_refName = MapRefName (RefName row2), rb_commit = c2, rb_objects = objs2\<rparr>, cache)"
    using synthetic_latest [OF E _ ne(1,2)] names(4) cs by blast
  have none: "update_commit ''refs/kai/cs/latest'' (map update_members (pr_Updates req)) = None"
    unfolding update_commit_push by (simp add: u(1))
  have col: "collect_packs db' ''refs/kai/cs/latest'' 20 (b3 (cs_content b3 clock req)) ([], []) = Ok ([], [b3 (pack_content (pr_Pack req))])"
    using collect_cs [OF E ne(3,2), of "''refs/kai/cs/latest''"] none by simp
  have b2: "buildRef z sha db' row2 [] = Ok (\<lparr>rb_refName = MapRefName (RefName row2), rb_commit = c2, rb_objects = objs2\<rparr>, cache)"
    using syn by (simp add: buildRef_def names lat resolveGitPackObjects_def cs ne(1) col)
  have upd: "the_update req (MapRefName (RefName row1)) oid"
    using u(4,5) by (auto simp: the_update_def u(1) names git [simplified] zero_oid_def isZeroOID_def list_all_iff)
  obtain rest where b1: "buildRef z sha db' row1 cache = Ok (\<lparr>rb_refName = MapRefName (RefName row1), rb_commit = x, rb_objects = rest\<rparr>, cache)"
    "insert x (set rest) = reachable_objects objs oid"
    using buildRef_pushed [OF t upd p x o(1) same names(3)] by blast
  have oid: "obj_oid x = oid" using p x(1) by (simp add: pack_of_def object_db_def)
  obtain infos m where "buildRefCommits z sha db' = Ok (infos, m)" "map_of infos oid = Some \<lparr>commit = x, commit_objects = rest\<rparr>"
    by (simp add: buildRefCommits_def sorted b2 b1(1) oid)
  with o(2) b1(2) show ?thesis by blast
qed


text \<open>C17: the server shows for a pushed branch only what came with the last push: in a repository without a main branch, and whatever the branch pointed
  to before, the objects offered for it are exactly those of the pack just pushed that the commit reaches. The change set
  of a push is chained to \<open>snap.main\<close> and not to the branch, so the parents that a client leaves out of a later pack,
  because the server has them, are not found again.\<close>

theorem branch_shows_last_pack:
  assumes t: "push_target b3 clock req db" and "distinct (map RefName (refs db))" and n: "\<And>x. b3 x \<noteq> []"
    and a: "createChangeSetFromPack b3 ck clock req db = (db', Ok (cs, rs))"
    and u: "pr_Updates req = [\<lparr>pu_Old = old, pu_New = oid, pu_Ref = ''refs/heads/'' @ b\<rparr>]" "b \<noteq> []" "\<not> isZeroOID oid" "oid \<noteq> []"
    and p: "pack_of z sha c objs (pr_Pack req)" and x: "map_of (index_objects objs) oid = Some x" "obj_type x = ObjectCommit"
  shows "\<exists>row rest. GetRef db' (''snap.'' @ b) = Ok row \<and>
    buildRef z sha db' row cache = Ok (\<lparr>rb_refName = ''refs/heads/'' @ b, rb_commit = x, rb_objects = rest\<rparr>, cache) \<and>
    insert x (set rest) = reachable_objects objs oid"
proof -
  let ?k = "''snap.'' @ b"
  have k: "MapGitRefName (''refs/heads/'' @ b) = Some ?k" using u(2) by (simp add: MapGitRefName_def HasPrefix_def TrimPrefix_def)
  have git: "MapRefName ?k = ''refs/heads/'' @ b" by (simp add: MapRefName_def HasPrefix_def TrimPrefix_def)
  have ok: "map_err f y = Ok v \<longleftrightarrow> y = Ok v" for f and y :: "(store_error, repo_db) go" and v by (cases y) auto
  obtain cs' db1 where o': "push_objects b3 ck clock req db = (cs', db1)" by (metis prod.exhaust)
  obtain rs' e where s: "push_refs b3 clock cs (pr_Updates req) 4 db1 = Ok (rs', e)"
    "ForceSetRef b3 (clock (4 + length rs')) ''cs.latest'' cs ''ssh'' ''git-receive-pack'' e = Ok db'" and o: "push_objects b3 ck clock req db = (cs, db1)"
    using a o' by (auto simp: createChangeSetFromPack_def bind_go_Ok_iff ok sql_refs split: go.splits)
  have cs: "cs \<noteq> []" using push_objects_stored [OF t, of ck] o n by auto
  have d: "distinct (map RefName (refs db1))" using push_objects_refs [OF o] assms(2) by (simp add: same_ref_rows_def)
  note eff = push_refs_effect [OF s(1) cs d]
  have "current_target db' ?k = Some cs"
    using moved_target [OF ForceSetRef_moved [OF s(2) cs] cs] eff u(3) k by (simp add: u(1) push_effect_def)
  then obtain row where f: "find (\<lambda>r. RefName r = ?k) (refs db') = Some row" "Target row = cs" unfolding current_target_def by blast
  have row: "GetRef db' ?k = Ok row" "RefName row = ?k" "Target row = cs"
    using f unfolding GetRef_def by (simp_all only: option.simps) (auto simp: find_Some_iff)
  have same: "same_objects db1 db'" by (rule same_objects_trans [OF _ ref_writes_keep_objects(2) [OF s(2)]]) (use eff in blast)
  have upd: "the_update req (MapRefName (RefName row)) oid"
    unfolding row(2) git using u(3,4) by (auto simp: the_update_def u(1) zero_oid_def isZeroOID_def list_all_iff)
  show ?thesis using buildRef_pushed [OF t upd p x o same row(3)] row(1) unfolding row(2) git by blast
qed

section \<open>Examples\<close>

text \<open>A repository that has just been created, and a push of a single commit to a branch.\<close>

definition ex_blake :: "bytes \<Rightarrow> bytes" where
  "ex_blake x = 1 # x"

definition ex_tip :: git_object where
  "ex_tip = makeGitObject ex_sha 1 [1]"

definition ex_push :: push_request where
  "ex_push = \<lparr>pr_Updates = [\<lparr>pu_Old = zero_oid, pu_New = obj_oid ex_tip, pu_Ref = ''refs/heads/x''\<rparr>],
     pr_Pack = (case writePack ex_sha ex_deflate [ex_tip] of Ok p \<Rightarrow> p | _ \<Rightarrow> []), pr_Caps = []\<rparr>"

lemma ex_pack: "\<exists>p. writePack ex_sha ex_deflate [ex_tip] = Ok p \<and> pr_Pack ex_push = p \<and> p \<noteq> [] \<and> length p < 100"
proof -
  have h: "encodeObjectHeader (Suc 0) (Suc 0) = [17]" by code_simp
  have "writePackObject ex_deflate ex_tip = Ok ([17] @ ex_deflate [1])"
    by (simp add: writePackObject_def ex_tip_def makeGitObject_def h)
  then show ?thesis
    by (simp add: writePack_def ex_push_def seal_def pack_header_def ex_deflate_def length_ex_sha)
qed

lemma ex_oid: "length (obj_oid ex_tip) = 40" "\<not> isZeroOID (obj_oid ex_tip)"
proof -
  have "\<exists>x. obj_oid ex_tip = hex_encode (ex_sha (x @ [0, 1]))"
    by (simp add: ex_tip_def makeGitObject_def computeGitOID_def) (metis append_assoc)
  then obtain x where o: "obj_oid ex_tip = hex_encode (ex_sha (x @ [0, 1]))" by (elim exE)
  then show "length (obj_oid ex_tip) = 40" by (simp add: length_ex_sha)
  obtain r where "ex_sha (x @ [0, 1]) = 1 # r" by (simp add: ex_sha_def)
  then have "obj_oid ex_tip = [CHR ''0'', CHR ''1''] @ hex_encode r"
    by (simp add: o hex_encode_def hex_digits_def)
  then show "\<not> isZeroOID (obj_oid ex_tip)" by (simp add: isZeroOID_def)
qed

lemma ex_index: "index_objects [ex_tip] = [(obj_oid ex_tip, ex_tip)]"
  by (simp add: index_objects_def)

lemma ex_pack_of: "pack_of ex_inflate ex_sha ex_deflate [ex_tip] (pr_Pack ex_push)"
proof -
  have "extractTreeOID (obj_data ex_tip) = (Ok [] :: (unit, string) go)" "extractParentOIDs (obj_data ex_tip) = []"
    by (simp_all add: ex_tip_def makeGitObject_def extractTreeOID_def extractParentOIDs_def commit_lines_def HasPrefix_def to_bytes_def)
  moreover have "obj_oid ex_tip \<noteq> []" using ex_oid(1) by auto
  ultimately have "object_db (index_objects [ex_tip])"
    by (simp add: object_db_def ex_index is_kind_def)
  moreover have "wf_object ex_sha ex_tip" unfolding ex_tip_def by (rule wf_object_make) (simp_all add: sizes_ok_def)
  ultimately show ?thesis using ex_pack ex_codec by (auto simp: pack_of_def length_ex_sha)
qed

lemma ex_target: "push_target ex_blake (\<lambda>i. 0) ex_push empty_db"
proof -
  let ?clock = "\<lambda>i. 0 :: int"
  have node: "length (node_content show_int kind v) \<le> length kind + 1 + weight show_int v" for kind and v :: "int json"
    using length_canonical [of show_int v] by (simp add: node_content_def)
  have z: "show_int 0 = ''0''" by code_simp
  have b: "length (base_content ?clock) \<le> 1000"
    using node [of "''Snapshot''" "empty_snapshot 0"] by (simp add: base_content_def empty_snapshot_def z)
  have p: "length (pack_content (pr_Pack ex_push)) \<le> 200" using ex_pack by (auto simp: pack_content_def)
  have c: "length (cs_content ex_blake ?clock ex_push) \<le> 100000"
    using node [of "''ChangeSet''" "push_payload (ex_blake (base_content ?clock)) 0 (pr_Updates ex_push) (hex_encode (ex_blake (pack_content (pr_Pack ex_push))))"]
      b p ex_oid(1)
    by (simp add: cs_content_def push_payload_def git_update_def ex_push_def z ex_blake_def zero_oid_def split: if_splits)
  have d: "base_content ?clock \<noteq> pack_content q" "base_content ?clock \<noteq> cs_content ex_blake ?clock ex_push" "pack_content q \<noteq> cs_content ex_blake ?clock ex_push" for q
    by (simp_all add: base_content_def pack_content_def cs_content_def node_content_def to_bytes_def)
  show ?thesis using b p c d ex_pack
    by (auto simp: push_target_def ex_blake_def store_fresh_def empty_db_def current_target_def HasObject_def)
qed


lemma ex_accepted: "\<exists>db' cs. createChangeSetFromPack ex_blake [] (\<lambda>i. 0) ex_push empty_db = (db', Ok (cs, [''snap.x'', ''cs.latest'']))"
proof -
  have "MapGitRefName ''refs/heads/x'' = Some ''snap.x''" by (simp add: MapGitRefName_def HasPrefix_def TrimPrefix_def)
  moreover have "isZeroOID zero_oid" by (simp add: isZeroOID_def zero_oid_def list_all_iff)
  ultimately show ?thesis
    using push_accepted [of empty_db ex_push _ "''snap.x''" ex_blake "[]" "\<lambda>i. 0"] ex_oid(2)
    by (auto simp: empty_db_def ex_push_def inj_def ex_blake_def)
qed


theorem branch_shows_last_pack_witness:
  "\<exists>db' row rest. GetRef db' (''snap.'' @ ''x'') = Ok row \<and>
    buildRef ex_inflate ex_sha db' row [] = Ok (\<lparr>rb_refName = ''refs/heads/'' @ ''x'', rb_commit = ex_tip, rb_objects = rest\<rparr>, []) \<and>
    insert ex_tip (set rest) = reachable_objects [ex_tip] (obj_oid ex_tip)"
proof -
  obtain db' cs where a: "createChangeSetFromPack ex_blake [] (\<lambda>i. 0) ex_push empty_db = (db', Ok (cs, [''snap.x'', ''cs.latest'']))"
    using ex_accepted by blast
  have d: "distinct (map RefName (refs empty_db))" and n: "ex_blake x \<noteq> []" for x by (simp_all add: empty_db_def ex_blake_def)
  have u: "pr_Updates ex_push = [\<lparr>pu_Old = zero_oid, pu_New = obj_oid ex_tip, pu_Ref = ''refs/heads/'' @ ''x''\<rparr>]" by (simp add: ex_push_def)
  have i: "map_of (index_objects [ex_tip]) (obj_oid ex_tip) = Some ex_tip" by (simp add: ex_index)
  have c: "obj_type ex_tip = ObjectCommit" by (simp add: ex_tip_def makeGitObject_def)
  have "obj_oid ex_tip \<noteq> []" using ex_oid(1) by auto
  then show ?thesis using branch_shows_last_pack [OF ex_target d n a u _ ex_oid(2) _ ex_pack_of i c] by blast
qed

end
