(* ===== verification/RefApi.thy ===== *)
theory RefApi
  imports Segment Json
begin

text \<open>
  The HTTP handlers of the data plane for objects, refs and the log (\<open>src/kailab/api/routes.go\<close>) and the check of
  change-set signatures (\<open>src/kailab/background/signature_verify.go\<close>). A handler takes the decoded request and the
  database and gives the answer, the database afterwards and what it hands to the notifier. The repository is always the
  one the request was routed to; the notifier is configured. The ssh library and the environment are parameters.
\<close>

section \<open>Answers\<close>

text \<open>An answer with status 200 and its body, an error with its status, and a handler that panicked: the server drops
  the connection.\<close>

datatype sign_error = LoadTarget store_error | ParseChangeset | SignatureRequired | SignatureUndecodable | KeysUnreadable | SignatureInvalid

datatype api_error = Message string | SignError sign_error

datatype 'a reply = Reply 'a | Fail nat api_error | Crash

record api_config =
  RequireSignedChangeSets :: bool
  MaxPackSize :: int

definition actor_header :: "string \<Rightarrow> string" where
  "actor_header h = (if h = [] then ''anonymous'' else h)"

section \<open>Signatures of change sets\<close>

text \<open>The ssh library, the environment and the key files.\<close>

record 'k ssh_api =
  sign_keys_env :: string
  read_key_file :: "string \<Rightarrow> bytes option"
  parse_authorized_key :: "bytes \<Rightarrow> ('k option \<times> bytes) option"
  fingerprint_sha256 :: "'k \<Rightarrow> string"
  key_verify :: "'k \<Rightarrow> bytes \<Rightarrow> string \<Rightarrow> bytes \<Rightarrow> bool"

definition splitList :: "string \<Rightarrow> string list" where
  "splitList val = filter (\<lambda>p. p \<noteq> []) (map TrimSpace (split_on (CHR '','') (map (\<lambda>c. if c = CHR '';'' then CHR '','' else c) val)))"

text \<open>A key file is read until a line cannot be parsed; every key takes at least a byte of it, so its length is enough
  fuel.\<close>

primrec parse_keys :: "'k ssh_api \<Rightarrow> nat \<Rightarrow> bytes \<Rightarrow> 'k list" where
  "parse_keys a 0 data = []"
| "parse_keys a (Suc n) data =
     (if data = [] then []
      else case parse_authorized_key a data of
        None \<Rightarrow> []
      | Some (k, data') \<Rightarrow> (case k of None \<Rightarrow> [] | Some k \<Rightarrow> [k]) @ parse_keys a n data')"

definition loadTrustedKeysFromEnv :: "'k ssh_api \<Rightarrow> 'k list option" where
  "loadTrustedKeysFromEnv a =
     map_option concat (those (map (\<lambda>path. map_option (\<lambda>data. parse_keys a (length data) data) (read_key_file a path))
       (splitList (sign_keys_env a))))"

definition base64_val :: "char \<Rightarrow> nat option" where
  "base64_val c = (let n = of_char c in
     if n \<ge> 65 \<and> n \<le> 90 then Some (n - 65)
     else if n \<ge> 97 \<and> n \<le> 122 then Some (n - 71)
     else if is_digit c then Some (n + 4)
     else if c = CHR ''+'' then Some 62 else if c = CHR ''/'' then Some 63 else None)"

fun base64_quads :: "string \<Rightarrow> bytes option" where
  "base64_quads [] = Some []"
| "base64_quads (a # b # c # d # r) =
     (case (base64_val a, base64_val b, base64_val c, base64_val d) of
        (Some a, Some b, Some c', Some d') \<Rightarrow>
          map_option (\<lambda>bs. word_of_nat (4 * a + b div 16) # word_of_nat (16 * (b mod 16) + c' div 4) # word_of_nat (64 * (c' mod 4) + d') # bs)
            (base64_quads r)
      | (Some a, Some b, Some c', None) \<Rightarrow>
          if d = CHR ''='' \<and> r = [] then Some [word_of_nat (4 * a + b div 16), word_of_nat (16 * (b mod 16) + c' div 4)] else None
      | (Some a, Some b, None, None) \<Rightarrow>
          if c = CHR ''='' \<and> d = CHR ''='' \<and> r = [] then Some [word_of_nat (4 * a + b div 16)] else None
      | _ \<Rightarrow> None)"
| "base64_quads _ = None"

text \<open>Line breaks are ignored.\<close>

definition base64_decode :: "string \<Rightarrow> bytes option" where
  "base64_decode s = base64_quads (filter (\<lambda>c. c \<noteq> CHR 0x0A \<and> c \<noteq> CHR 0x0D) s)"

text \<open>A decoded object is a Go map: the last of several members with one name stays.\<close>

fun go_value :: "'n json \<Rightarrow> 'n json" where
  "go_value (VArr vs) = VArr (map go_value vs)"
| "go_value (VObj m) = VObj (foldl (\<lambda>acc (k, v). AList.update k v acc) [] (map (\<lambda>(k, v). (k, go_value v)) m))"
| "go_value v = v"

definition cloneWithoutSignature :: "(string \<times> 'n json) list \<Rightarrow> (string \<times> 'n json) list" where
  "cloneWithoutSignature payload =
     filter (\<lambda>(k, v). k \<notin> {''signature'', ''sigFormat'', ''sigType'', ''signer'', ''signedAt''}) payload"

text \<open>The text that is signed. How a number of the payload is printed again is a parameter.\<close>

definition signed_text :: "(string \<Rightarrow> string) \<Rightarrow> (string \<times> string json) list \<Rightarrow> bytes" where
  "signed_text num payload = to_bytes (canonicalMarshal num (go_value (VObj (cloneWithoutSignature payload))))"

definition VerifyChangeSetSignature ::
  "'k ssh_api \<Rightarrow> (string \<Rightarrow> string) \<Rightarrow> (string \<times> string json) list \<Rightarrow> (sign_error, bool) go" where
  "VerifyChangeSetSignature a num payload =
     (let sigBlob = string_at payload ''signature''; sigFormat = string_at payload ''sigFormat'';
          signer = string_at payload ''signer''; sigType = string_at payload ''sigType''
      in if sigBlob = [] \<or> sigFormat = [] \<or> sigType \<noteq> ''ssh'' then Ok False
         else case loadTrustedKeysFromEnv a of
           None \<Rightarrow> Err KeysUnreadable
         | Some keys \<Rightarrow>
             if keys = [] then Ok False
             else case base64_decode sigBlob of
               None \<Rightarrow> Err SignatureUndecodable
             | Some rawSig \<Rightarrow>
                 Ok (\<exists>key \<in> set keys. (signer = [] \<or> fingerprint_sha256 a key = signer) \<and>
                       key_verify a key (signed_text num payload) sigFormat rawSig))"

text \<open>Objects are read from the repository's rows of the shared database.\<close>

definition ensureSignedChangeSet ::
  "'k ssh_api \<Rightarrow> (string \<Rightarrow> string) \<Rightarrow> api_config \<Rightarrow> blob_api \<Rightarrow> string \<Rightarrow> bytes \<Rightarrow> pg_db \<Rightarrow> (sign_error, unit) go" where
  "ensureSignedChangeSet a num cfg bs repo target db =
     (if \<not> RequireSignedChangeSets cfg \<or> target = [] then Ok ()
      else bind_go (map_err LoadTarget (PgExtractObjectFromDB bs db repo target)) (\<lambda>(content, kind).
        if kind \<noteq> ''ChangeSet'' then Ok ()
        else case ParseObjectPayload content of
          None \<Rightarrow> Err ParseChangeset
        | Some payload \<Rightarrow>
            if member payload ''signature'' \<in> {None, Some VNull} then Err SignatureRequired
            else bind_go (VerifyChangeSetSignature a num payload) (\<lambda>ok. if ok then Ok () else Err SignatureInvalid)))"

section \<open>Negotiation and objects\<close>

definition Negotiate :: "string \<Rightarrow> bytes list \<Rightarrow> pg_db \<Rightarrow> bytes list" where
  "Negotiate repo digests db =
     (let existing = PgHasObjects db repo digests in filter (\<lambda>d. hex_encode d \<notin> set existing) digests)"

definition IngestPack ::
  "pack_codec \<Rightarrow> blob_api \<Rightarrow> (bytes \<Rightarrow> bytes) \<Rightarrow> api_config \<Rightarrow> int \<Rightarrow> string \<Rightarrow> int \<Rightarrow> bytes \<Rightarrow> pg_db \<Rightarrow> (int \<times> nat) reply \<times> pg_db" where
  "IngestPack c bs blake3 cfg ts repo contentLength body db =
     (if contentLength > MaxPackSize cfg then (Fail 413 (Message ''pack too large''), db)
      else case PgIngestSegmentToDB c bs blake3 ts repo (take (nat (MaxPackSize cfg)) body) db of
        Ok (segmentID, indexed, db') \<Rightarrow> (Reply (segmentID, indexed), db')
      | Err e \<Rightarrow> (Fail 400 (Message ''failed to ingest pack''), db)
      | Panic \<Rightarrow> (Crash, db))"

definition h_GetObject :: "blob_api \<Rightarrow> string \<Rightarrow> string \<Rightarrow> pg_db \<Rightarrow> (bytes \<times> string) reply" where
  "h_GetObject bs repo digestHex db =
     (case hex_decode digestHex of
        None \<Rightarrow> Fail 400 (Message ''invalid digest'')
      | Some digest \<Rightarrow>
          (case PgExtractObjectFromDB bs db repo digest of
             Ok r \<Rightarrow> Reply r
           | Err e \<Rightarrow> if e = ErrObjectNotFound then Fail 404 (Message ''object not found'')
                      else Fail 500 (Message ''failed to get object'')
           | Panic \<Rightarrow> Crash))"

section \<open>Reading refs and the log\<close>

record ref_entry =
  re_Name :: string
  re_Target :: bytes
  re_UpdatedAt :: int
  re_Actor :: string

definition ref_entry_of :: "ref_row \<Rightarrow> ref_entry" where
  "ref_entry_of r = \<lparr>re_Name = RefName r, re_Target = Target r, re_UpdatedAt = UpdatedAt r, re_Actor = RefActor r\<rparr>"

definition h_ListRefs :: "string \<Rightarrow> string \<Rightarrow> pg_db \<Rightarrow> ref_entry list" where
  "h_ListRefs repo prefix db = map ref_entry_of (PgListRefs db repo prefix)"

definition h_GetRef :: "string \<Rightarrow> string \<Rightarrow> pg_db \<Rightarrow> ref_entry reply" where
  "h_GetRef repo name db = (case PgGetRef db repo name of
     Ok r \<Rightarrow> Reply (ref_entry_of r)
   | Err e \<Rightarrow> if e = ErrRefNotFound then Fail 404 (Message ''ref not found'') else Fail 500 (Message ''failed to get ref'')
   | Panic \<Rightarrow> Crash)"

text \<open>\<open>fmt.Sscanf(s, "%d", &n)\<close>: blanks, a sign and digits; what cannot be read or does not fit leaves the number.\<close>

definition sscan_int :: "int \<Rightarrow> string \<Rightarrow> int" where
  "sscan_int n s =
     (let s = dropWhile (\<lambda>c. is_space c \<and> c \<noteq> CHR 0x0A) s;
          neg = (s \<noteq> [] \<and> hd s = CHR ''-'');
          s = (if s \<noteq> [] \<and> hd s \<in> {CHR ''-'', CHR ''+''} then tl s else s);
          ds = takeWhile is_digit s;
          v = (if neg then - int (digits_value ds) else int (digits_value ds))
      in if ds = [] \<or> v < - (2 ^ 63) \<or> v \<ge> 2 ^ 63 then n else v)"

definition h_LogEntries :: "string \<Rightarrow> string \<Rightarrow> string \<Rightarrow> string \<Rightarrow> pg_db \<Rightarrow> history_row list" where
  "h_LogEntries repo refFilter after limit db =
     PgGetRefHistory db repo refFilter (sscan_int 0 after) (sscan_int 100 limit)"
section \<open>Transactions\<close>

text \<open>A Postgres transaction in which a statement failed takes no further statement and cannot be committed; a
  mismatch of the expected target is found by the code and leaves it alive. \<open>None\<close> is a failed transaction.\<close>

datatype tx_result = TxOk | TxMismatch | TxFailed

definition tx_exec :: "('db \<Rightarrow> (store_error, 'db) go) \<Rightarrow> 'db option \<Rightarrow> tx_result \<times> 'db option" where
  "tx_exec f tx = (case tx of
     None \<Rightarrow> (TxFailed, None)
   | Some db \<Rightarrow> (case f db of
        Ok db' \<Rightarrow> (TxOk, Some db')
      | Err e \<Rightarrow> if e = ErrRefMismatch then (TxMismatch, Some db) else (TxFailed, None)
      | Panic \<Rightarrow> (TxFailed, None)))"

section \<open>Writing refs\<close>

record ref_update =
  ru_Name :: string
  ru_Old :: "bytes option"
  ru_New :: bytes
  ru_Force :: bool

record ref_result =
  rr_Name :: string
  rr_OK :: bool
  rr_UpdatedAt :: int
  rr_Error :: "api_error option"

text \<open>The two writes of a ref store, as the handlers use them: at a time, the name, the expected target if any, and the
  new one.\<close>

record 'db ref_ops =
  op_set_ff :: "int \<Rightarrow> string \<Rightarrow> bytes option \<Rightarrow> bytes \<Rightarrow> 'db \<Rightarrow> (store_error, 'db) go"
  op_force :: "int \<Rightarrow> string \<Rightarrow> bytes \<Rightarrow> 'db \<Rightarrow> (store_error, 'db) go"

definition pg_ops :: "(bytes \<Rightarrow> bytes) \<Rightarrow> string \<Rightarrow> string \<Rightarrow> string \<Rightarrow> pg_db ref_ops" where
  "pg_ops blake3 repo actor pushID =
     \<lparr>op_set_ff = (\<lambda>ts name old new. PgSetRefFF blake3 ts repo name old new actor pushID),
      op_force = (\<lambda>ts name new. PgForceSetRef blake3 ts repo name new actor pushID)\<rparr>"

definition write_ref :: "'db ref_ops \<Rightarrow> int \<Rightarrow> ref_update \<Rightarrow> 'db option \<Rightarrow> tx_result \<times> 'db option" where
  "write_ref ops ts u = tx_exec (if ru_Force u then op_force ops ts (ru_Name u) (ru_New u)
                                 else op_set_ff ops ts (ru_Name u) (ru_Old u) (ru_New u))"

text \<open>When \<open>snap.latest\<close> was written, \<open>snap.main\<close> is written too, and an error of this is not looked at.\<close>

definition mirror_main :: "'db ref_ops \<Rightarrow> int \<Rightarrow> ref_update \<Rightarrow> tx_result \<times> 'db option \<Rightarrow> 'db option" where
  "mirror_main ops ts u r =
     (if fst r = TxOk \<and> ru_Name u = ''snap.latest'' then snd (tx_exec (op_force ops ts ''snap.main'' (ru_New u)) (snd r)) else snd r)"

text \<open>One update of a batch. The signature is checked, and the time of the update read, outside the transaction.\<close>

definition batch_update ::
  "(bytes \<Rightarrow> (sign_error, unit) go) \<Rightarrow> (string \<Rightarrow> int) \<Rightarrow> 'db ref_ops \<Rightarrow> int \<Rightarrow> int \<Rightarrow> ref_update \<Rightarrow> 'db option \<Rightarrow>
   (unit, ref_result \<times> 'db option) go" where
  "batch_update chk updated_at ops ts ts' u tx =
     (if ru_New u = [] then Ok (\<lparr>rr_Name = ru_Name u, rr_OK = False, rr_UpdatedAt = 0, rr_Error = Some (Message ''new target required'')\<rparr>, tx)
      else case chk (ru_New u) of
        Panic \<Rightarrow> Panic
      | Err e \<Rightarrow> Ok (\<lparr>rr_Name = ru_Name u, rr_OK = False, rr_UpdatedAt = 0, rr_Error = Some (SignError e)\<rparr>, tx)
      | Ok _ \<Rightarrow>
          let r = write_ref ops ts u tx; tx = mirror_main ops ts' u r in
          Ok (case fst r of
            TxOk \<Rightarrow> \<lparr>rr_Name = ru_Name u, rr_OK = True, rr_UpdatedAt = updated_at (ru_Name u), rr_Error = None\<rparr>
          | TxMismatch \<Rightarrow> \<lparr>rr_Name = ru_Name u, rr_OK = False, rr_UpdatedAt = 0, rr_Error = Some (Message ''ref mismatch (not fast-forward)'')\<rparr>
          | TxFailed \<Rightarrow> \<lparr>rr_Name = ru_Name u, rr_OK = False, rr_UpdatedAt = 0, rr_Error = Some (Message ''failed to update ref'')\<rparr>, tx))"

fun batch_updates ::
  "(bytes \<Rightarrow> (sign_error, unit) go) \<Rightarrow> (string \<Rightarrow> int) \<Rightarrow> 'db ref_ops \<Rightarrow> (nat \<Rightarrow> int) \<Rightarrow> nat \<Rightarrow> ref_update list \<Rightarrow> 'db option \<Rightarrow>
   (unit, ref_result list \<times> 'db option) go" where
  "batch_updates chk updated_at ops clock i [] tx = Ok ([], tx)"
| "batch_updates chk updated_at ops clock i (u # us) tx =
     bind_go (batch_update chk updated_at ops (clock i) (clock (Suc i)) u tx) (\<lambda>(r, tx).
     bind_go (batch_updates chk updated_at ops clock (i + 2) us tx) (\<lambda>(rs, tx). Ok (r # rs, tx)))"

definition pg_updated_at :: "pg_db \<Rightarrow> string \<Rightarrow> string \<Rightarrow> int" where
  "pg_updated_at db repo name = (case PgGetRef db repo name of Ok r \<Rightarrow> UpdatedAt r | _ \<Rightarrow> 0)"

section \<open>Notifications\<close>

text \<open>What is handed to the notifier after a write, in order, and whether all refs were looked at: a panic of a read
  ends the handler. \<open>Err\<close> stands for \<open>continue\<close>.\<close>

fun collect_events :: "('a \<Rightarrow> (unit, 'e list) go) \<Rightarrow> 'a list \<Rightarrow> 'e list \<times> bool" where
  "collect_events f [] = ([], True)"
| "collect_events f (x # xs) = (case f x of
     Panic \<Rightarrow> ([], False)
   | Err _ \<Rightarrow> collect_events f xs
   | Ok es \<Rightarrow> (let (es', ok) = collect_events f xs in (es @ es', ok)))"

datatype ci_event =
    ReviewCreated (ev_repo: string) (ev_review: string) (ev_title: string) (ev_author: string) (ev_reviewers: "string list")
  | ReviewCI (ev_repo: string) (ev_ref: string) (ev_sha: string) (ev_review: string) (ev_title: string) (ev_author: string) (ev_state: string)
  | PushCI (ev_repo: string) (ev_gitref: string) (ev_sha: string) (ev_ref: string) (ev_message: string) (ev_actor: string)

definition review_payload :: "bytes \<Rightarrow> (string \<times> string \<times> string \<times> string list) option" where
  "review_payload content =
     Option.bind (ParseObjectPayload content) (\<lambda>m.
     Option.bind (struct_field string_value [] ''title'' m) (\<lambda>t.
     Option.bind (struct_field string_value [] ''state'' m) (\<lambda>s.
     Option.bind (struct_field string_value [] ''author'' m) (\<lambda>a.
     Option.bind (struct_field (list_value (string_value [])) [] ''reviewers'' m) (\<lambda>rs. Some (t, s, a, rs))))))"

definition notifyReviewCreated :: "blob_api \<Rightarrow> string \<Rightarrow> string \<Rightarrow> pg_db \<Rightarrow> string \<Rightarrow> (unit, ci_event list) go" where
  "notifyReviewCreated bs repo fullName db refName =
     (if \<not> HasPrefix refName ''review.'' then Err ()
      else case split_on (CHR ''.'') refName of
        [_, reviewID] \<Rightarrow>
          (case PgGetRef db repo refName of
             Ok ref \<Rightarrow>
               (case PgExtractObjectFromDB bs db repo (Target ref) of
                  Panic \<Rightarrow> Panic
                | Err _ \<Rightarrow> Err ()
                | Ok (content, kind) \<Rightarrow>
                    if kind \<noteq> ''Review'' then Err ()
                    else case review_payload content of
                      None \<Rightarrow> Err ()
                    | Some (title, state, author, reviewers) \<Rightarrow>
                        if state \<noteq> ''draft'' \<and> state \<noteq> ''open'' then Err ()
                        else Ok [ReviewCreated fullName reviewID title author reviewers,
                                 ReviewCI fullName refName (hex_encode (Target ref)) reviewID title author state])
           | _ \<Rightarrow> Err ())
      | _ \<Rightarrow> Err ())"

text \<open>The branch of a snapshot ref; refs named by a time are skipped.\<close>

definition push_branch :: "string \<Rightarrow> string option" where
  "push_branch refName =
     (if \<not> HasPrefix refName ''snap.'' then None
      else let b = TrimPrefix refName ''snap.'' in
        if b \<noteq> [] \<and> is_digit (hd b) then None
        else Some (''refs/heads/'' @ (if b = ''latest'' then ''main'' else b)))"

text \<open>The intent of the latest change set, when there is one.\<close>

definition latest_intent :: "blob_api \<Rightarrow> string \<Rightarrow> pg_db \<Rightarrow> (unit, string) go" where
  "latest_intent bs repo db =
     (case PgGetRef db repo ''cs.latest'' of
        Ok csRef \<Rightarrow>
          (case PgExtractObjectFromDB bs db repo (Target csRef) of
             Panic \<Rightarrow> Panic
           | Err _ \<Rightarrow> Ok []
           | Ok (content, kind) \<Rightarrow>
               if kind = ''ChangeSet'' \<and> 10 \<in> set content
               then (case ParseObjectPayload content of Some m \<Rightarrow> Ok (string_at m ''intent'') | None \<Rightarrow> Ok [])
               else Ok [])
      | _ \<Rightarrow> Ok [])"

fun notifyPushCI :: "blob_api \<Rightarrow> string \<Rightarrow> string \<Rightarrow> string \<Rightarrow> string \<Rightarrow> pg_db \<Rightarrow> string list \<Rightarrow> string list \<Rightarrow> ci_event list \<times> bool" where
  "notifyPushCI bs repo fullName actor pushMessage db triggered [] = ([], True)"
| "notifyPushCI bs repo fullName actor pushMessage db triggered (refName # rns) =
     (case (push_branch refName, PgGetRef db repo refName) of
        (Some gitRef, Ok ref) \<Rightarrow>
          if gitRef \<in> set triggered then notifyPushCI bs repo fullName actor pushMessage db triggered rns
          else (case (if pushMessage = [] then latest_intent bs repo db else Ok pushMessage) of
            Ok message \<Rightarrow>
              (let (es, ok) = notifyPushCI bs repo fullName actor pushMessage db (gitRef # triggered) rns in
               (PushCI fullName gitRef (hex_encode (Target ref)) refName message actor # es, ok))
          | _ \<Rightarrow> ([], False))
      | _ \<Rightarrow> notifyPushCI bs repo fullName actor pushMessage db triggered rns)"

section \<open>The handlers that write refs\<close>

record 'k ref_api =
  ra_ssh :: "'k ssh_api"
  ra_num :: "string \<Rightarrow> string"
  ra_cfg :: api_config
  ra_blobs :: blob_api
  ra_blake3 :: "bytes \<Rightarrow> bytes"

text \<open>The answer, the database afterwards, and the events. The reply's time is that of the ref once the transaction is
  committed.\<close>

definition UpdateRef ::
  "'k ref_api \<Rightarrow> int \<Rightarrow> string \<Rightarrow> string \<Rightarrow> string \<Rightarrow> string \<Rightarrow> ref_update \<Rightarrow> pg_db \<Rightarrow>
   (string \<times> int) reply \<times> pg_db \<times> ci_event list" where
  "UpdateRef a ts repo fullName hdr pushID req db =
     (if ru_New req = [] then (Fail 400 (Message ''new target required''), db, [])
      else case ensureSignedChangeSet (ra_ssh a) (ra_num a) (ra_cfg a) (ra_blobs a) repo (ru_New req) db of
        Panic \<Rightarrow> (Crash, db, [])
      | Err e \<Rightarrow> (Fail 403 (SignError e), db, [])
      | Ok _ \<Rightarrow>
          (case write_ref (pg_ops (ra_blake3 a) repo (actor_header hdr) pushID) ts req (Some db) of
             (TxOk, Some db') \<Rightarrow>
               (case collect_events (notifyReviewCreated (ra_blobs a) repo fullName db') [ru_Name req] of
                  (es, ok) \<Rightarrow> (if ok then Reply (pushID, pg_updated_at db' repo (ru_Name req)) else Crash, db', es))
           | (TxMismatch, _) \<Rightarrow> (Fail 409 (Message ''ref mismatch (not fast-forward)''), db, [])
           | _ \<Rightarrow> (Fail 500 (Message ''failed to update ref''), db, [])))"

definition BatchUpdateRefs ::
  "'k ref_api \<Rightarrow> (nat \<Rightarrow> int) \<Rightarrow> string \<Rightarrow> string \<Rightarrow> string \<Rightarrow> string \<Rightarrow> string \<Rightarrow> ref_update list \<Rightarrow> pg_db \<Rightarrow>
   (string \<times> ref_result list) reply \<times> pg_db \<times> ci_event list" where
  "BatchUpdateRefs a clock repo fullName hdr pushMessage pushID updates db =
     (if updates = [] then (Fail 400 (Message ''no updates provided''), db, [])
      else case batch_updates (\<lambda>t. ensureSignedChangeSet (ra_ssh a) (ra_num a) (ra_cfg a) (ra_blobs a) repo t db)
             (pg_updated_at db repo) (pg_ops (ra_blake3 a) repo (actor_header hdr) pushID) clock 0 updates (Some db) of
        Ok (results, Some db') \<Rightarrow>
          (let synced = map rr_Name (filter rr_OK results);
               (es, ok) = collect_events (notifyReviewCreated (ra_blobs a) repo fullName db') synced;
               (es', ok') = (if ok then notifyPushCI (ra_blobs a) repo fullName (actor_header hdr) pushMessage db' [] synced else ([], False))
           in (if ok' then Reply (pushID, results) else Crash, db', es @ es'))
      | Ok (results, None) \<Rightarrow> (Fail 500 (Message ''failed to commit''), db, [])
      | _ \<Rightarrow> (Crash, db, []))"
section \<open>What a batch means\<close>

text \<open>An update is accepted when its target is given and its signature, if needed, is good, and it is forced or expects
  the target the ref has after the updates before it. Refused updates do nothing.\<close>

definition accepts :: "(bytes \<Rightarrow> bool) \<Rightarrow> (string \<Rightarrow> bytes option) \<Rightarrow> ref_update \<Rightarrow> bool" where
  "accepts chk m u \<longleftrightarrow> ru_New u \<noteq> [] \<and> chk (ru_New u) \<and> (ru_Force u \<or> ru_Old u = m (ru_Name u))"

definition moved_by :: "(string \<Rightarrow> bytes option) \<Rightarrow> ref_update \<Rightarrow> string \<Rightarrow> bytes option" where
  "moved_by m u = (if ru_Name u = ''snap.latest'' then m(''snap.latest'' \<mapsto> ru_New u, ''snap.main'' \<mapsto> ru_New u) else m(ru_Name u \<mapsto> ru_New u))"

fun batch_spec :: "(bytes \<Rightarrow> bool) \<Rightarrow> (string \<Rightarrow> bytes option) \<Rightarrow> ref_update list \<Rightarrow> bool list \<times> (string \<Rightarrow> bytes option)" where
  "batch_spec chk m [] = ([], m)"
| "batch_spec chk m (u # us) =
     (let ok = accepts chk m u; (oks, m') = batch_spec chk (if ok then moved_by m u else m) us in (ok # oks, m'))"

locale ref_store =
  fixes tgt :: "'db \<Rightarrow> string \<Rightarrow> bytes option"
    and same_elsewhere :: "'db \<Rightarrow> 'db \<Rightarrow> bool"
    and ops :: "'db ref_ops"
  assumes set_ff_Ok: "op_set_ff ops ts n old new db = Ok db' \<Longrightarrow> old = tgt db n \<and> tgt db' = (tgt db)(n \<mapsto> new) \<and> same_elsewhere db db'"
    and set_ff_mismatch: "op_set_ff ops ts n old new db = Err ErrRefMismatch \<longleftrightarrow> old \<noteq> tgt db n"
    and force_Ok: "op_force ops ts n new db = Ok db' \<Longrightarrow> tgt db' = (tgt db)(n \<mapsto> new) \<and> same_elsewhere db db'"
    and force_no_mismatch: "op_force ops ts n new db \<noteq> Err ErrRefMismatch"
    and elsewhere_refl: "same_elsewhere db db"
    and elsewhere_trans: "same_elsewhere db db' \<Longrightarrow> same_elsewhere db' db'' \<Longrightarrow> same_elsewhere db db''"
begin

lemma write_ref_cases:
  "write_ref ops ts u (Some db) = (TxOk, tx) \<Longrightarrow>
     (ru_Force u \<or> ru_Old u = tgt db (ru_Name u)) \<and> (\<exists>db'. tx = Some db' \<and> tgt db' = (tgt db)(ru_Name u \<mapsto> ru_New u) \<and> same_elsewhere db db')"
  "write_ref ops ts u (Some db) = (TxMismatch, tx) \<Longrightarrow> \<not> ru_Force u \<and> ru_Old u \<noteq> tgt db (ru_Name u) \<and> tx = Some db"
  "write_ref ops ts u (Some db) = (TxFailed, tx) \<Longrightarrow> tx = None"
  using force_no_mismatch [of ts "ru_Name u" "ru_New u" db] set_ff_mismatch [of ts "ru_Name u" "ru_Old u" "ru_New u" db]
  by (auto simp: write_ref_def tx_exec_def split: if_splits go.splits dest!: force_Ok dest: set_ff_Ok)

lemma failed_stays: "batch_updates chk at ops clock i us None = Ok (rs, tx) \<Longrightarrow> tx = None"
proof (induction us arbitrary: i rs tx)
  case (Cons u us)
  have w: "write_ref ops ts u None = (TxFailed, None)" for ts by (simp add: write_ref_def tx_exec_def)
  from Cons.prems obtain r where "batch_update chk at ops (clock i) (clock (Suc i)) u None = Ok (r, None)"
      and "\<exists>rs'. batch_updates chk at ops clock (i + 2) us None = Ok (rs', tx)"
    by (auto simp: batch_update_def bind_go_Ok_iff mirror_main_def w Let_def split: go.splits if_splits)
  then show ?case using Cons.IH by blast
qed simp

lemma batch_update_step:
  assumes "batch_update chk at ops ts ts' u (Some db) = Ok (r, Some db')"
  defines "ok \<equiv> accepts (\<lambda>t. chk t = Ok ()) (tgt db) u"
  shows "rr_OK r = ok \<and> rr_Name r = ru_Name u \<and> tgt db' = (if ok then moved_by (tgt db) u else tgt db) \<and> same_elsewhere db db'"
proof (cases "ru_New u = [] \<or> chk (ru_New u) \<noteq> Ok ()")
  case True
  then show ?thesis using assms(1) elsewhere_refl
    by (auto simp: batch_update_def ok_def accepts_def split: if_splits go.splits)
next
  case False
  obtain res tx where w: "write_ref ops ts u (Some db) = (res, tx)" by fastforce
  have s: "chk (ru_New u) = Ok ()" and n: "ru_New u \<noteq> []" using False by auto
  show ?thesis
  proof (cases res)
    case TxOk
    from write_ref_cases(1) [OF w [unfolded TxOk]] obtain db1 where
      d: "ru_Force u \<or> ru_Old u = tgt db (ru_Name u)" "tx = Some db1" "tgt db1 = (tgt db)(ru_Name u \<mapsto> ru_New u)" "same_elsewhere db db1"
      by blast
    have ok: "ok" using d(1) s n by (auto simp: ok_def accepts_def)
    show ?thesis
    proof (cases "ru_Name u = ''snap.latest''")
      case True
      then have f: "op_force ops ts' ''snap.main'' (ru_New u) db1 = Ok db'"
        using assms(1) s n force_no_mismatch by (auto simp: batch_update_def w TxOk d(2) mirror_main_def Let_def tx_exec_def split: go.splits if_splits)
      show ?thesis
        using assms(1) s n ok force_Ok [OF f] d elsewhere_trans
        by (auto simp: batch_update_def w TxOk mirror_main_def Let_def moved_by_def True)
    next
      case False
      then show ?thesis using assms(1) s n ok d by (auto simp: batch_update_def w TxOk mirror_main_def Let_def moved_by_def)
    qed
  next
    case TxMismatch
    then show ?thesis using assms(1) s n write_ref_cases(2) [OF w [unfolded TxMismatch]] elsewhere_refl
      by (auto simp: batch_update_def w mirror_main_def Let_def ok_def accepts_def)
  next
    case TxFailed
    then show ?thesis using assms(1) s n write_ref_cases(3) [OF w [unfolded TxFailed]]
      by (auto simp: batch_update_def w mirror_main_def Let_def)
  qed
qed

lemma batch_updates_spec:
  "batch_updates chk at ops clock i us (Some db) = Ok (rs, Some db') \<Longrightarrow>
   batch_spec (\<lambda>t. chk t = Ok ()) (tgt db) us = (map rr_OK rs, tgt db') \<and> map rr_Name rs = map ru_Name us \<and> same_elsewhere db db'"
proof (induction us arbitrary: i db rs)
  case Nil
  then show ?case using elsewhere_refl by simp
next
  case (Cons u us)
  from Cons.prems obtain r tx rs' where
    u: "batch_update chk at ops (clock i) (clock (Suc i)) u (Some db) = Ok (r, tx)"
    and us: "batch_updates chk at ops clock (i + 2) us tx = Ok (rs', Some db')" and rs: "rs = r # rs'"
    by (auto simp: bind_go_Ok_iff)
  have "tx \<noteq> None"
  proof
    assume "tx = None"
    from failed_stays [OF us [unfolded this]] show False by simp
  qed
  then obtain db1 where db1: "tx = Some db1" by blast
  show ?case
    using batch_update_step [OF u [unfolded db1]] Cons.IH [OF us [unfolded db1]] rs elsewhere_trans
    by (auto simp: Let_def split: prod.splits)
qed

end

definition lite_ops :: "(bytes \<Rightarrow> bytes) \<Rightarrow> string \<Rightarrow> string \<Rightarrow> repo_db ref_ops" where
  "lite_ops blake3 actor pushID =
     \<lparr>op_set_ff = (\<lambda>ts name old new. SetRefFF blake3 ts name old new actor pushID),
      op_force = (\<lambda>ts name new. ForceSetRef blake3 ts name new actor pushID)\<rparr>"

definition other_repos_same :: "string \<Rightarrow> pg_db \<Rightarrow> pg_db \<Rightarrow> bool" where
  "other_repos_same repo db db' \<longleftrightarrow> (\<forall>r. r \<noteq> repo \<longrightarrow> same_rows (repo_view r db) (repo_view r db'))"

lemma lite_write:
  "SetRefFF h ts n old new actor push v = Ok v' \<Longrightarrow> old = current_target v n \<and> current_target v' = (current_target v)(n \<mapsto> new)"
  "ForceSetRef h ts n new actor push v = Ok v' \<Longrightarrow> current_target v' = (current_target v)(n \<mapsto> new)"
  by (auto simp: SetRefFF_def ForceSetRef_def ff_read_def ff_write_def bind_go_Ok_iff Let_def current_target_history
      current_target_upsert fun_eq_iff split: if_splits elim!: append_history_Ok)

lemma lite_mismatch:
  "SetRefFF h ts n old new actor push v = Err ErrRefMismatch \<longleftrightarrow> old \<noteq> current_target v n"
  "ForceSetRef h ts n new actor push v \<noteq> Err ErrRefMismatch"
  by (simp_all add: SetRefFF_def ForceSetRef_def ff_read_def ff_write_def append_history_def Let_def)

interpretation lite: ref_store current_target "\<lambda>_ _. True" "lite_ops h actor push" for h actor push
  by unfold_locales (auto simp: lite_ops_def lite_mismatch dest: lite_write)

interpretation pg: ref_store "\<lambda>db. pg_target db repo" "other_repos_same repo" "pg_ops h repo actor push" for h repo actor push
proof
  fix ts n old new db
  have a: "agrees repo db (PgSetRefFF h ts repo n old new actor push db) (SetRefFF h ts n old new actor push (repo_view repo db))"
    "agrees repo db (PgForceSetRef h ts repo n new actor push db) (ForceSetRef h ts n new actor push (repo_view repo db))"
    by (rule agrees_ops)+
  have t: "pg_target db' repo = current_target v" if "same_rows v (repo_view repo db')" for db' v
    using that by (auto simp: pg_reads same_rows_def current_target_def)
  show "old = pg_target db repo n \<and> pg_target db' repo = (pg_target db repo)(n \<mapsto> new) \<and> other_repos_same repo db db'"
    if "op_set_ff (pg_ops h repo actor push) ts n old new db = Ok db'" for db'
    using a(1) that t by (auto simp: pg_ops_def agrees_def other_repos_same_def pg_reads fun_eq_iff dest!: lite_write)
  show "op_set_ff (pg_ops h repo actor push) ts n old new db = Err ErrRefMismatch \<longleftrightarrow> old \<noteq> pg_target db repo n"
    using a(1) lite_mismatch(1) [of h ts n old new actor push "repo_view repo db"]
    by (auto simp: pg_ops_def agrees_def pg_reads split: go.splits)
  show "pg_target db' repo = (pg_target db repo)(n \<mapsto> new) \<and> other_repos_same repo db db'"
    if "op_force (pg_ops h repo actor push) ts n new db = Ok db'" for db'
    using a(2) that t by (auto simp: pg_ops_def agrees_def other_repos_same_def pg_reads fun_eq_iff dest!: lite_write)
  show "op_force (pg_ops h repo actor push) ts n new db \<noteq> Err ErrRefMismatch"
    using a(2) by (auto simp: pg_ops_def agrees_def lite_mismatch split: go.splits)
qed (auto simp: other_repos_same_def same_rows_def)
lemma verified_payload:
  assumes "VerifyChangeSetSignature a num payload = Ok True"
  shows "\<exists>keys key sig. loadTrustedKeysFromEnv a = Some keys \<and> key \<in> set keys \<and> base64_decode (string_at payload ''signature'') = Some sig \<and>
    key_verify a key (signed_text num payload) (string_at payload ''sigFormat'') sig"
  using assms by (auto simp: VerifyChangeSetSignature_def Let_def split: if_splits option.splits)

text \<open>What signing is about: the object, if it is a change set, carries a signature by a trusted key of its payload
  without the signature's own members.\<close>

definition signed_by_trusted :: "'k ssh_api \<Rightarrow> (string \<Rightarrow> string) \<Rightarrow> blob_api \<Rightarrow> string \<Rightarrow> pg_db \<Rightarrow> bytes \<Rightarrow> bool" where
  "signed_by_trusted a num bs repo db target \<longleftrightarrow>
     (\<forall>content. PgExtractObjectFromDB bs db repo target = Ok (content, ''ChangeSet'') \<longrightarrow>
        (\<exists>payload keys key sig. ParseObjectPayload content = Some payload \<and> loadTrustedKeysFromEnv a = Some keys \<and> key \<in> set keys \<and>
           base64_decode (string_at payload ''signature'') = Some sig \<and>
           key_verify a key (signed_text num payload) (string_at payload ''sigFormat'') sig))"

lemma ensured_signed:
  assumes "ensureSignedChangeSet a num cfg bs repo target db = Ok ()" and "RequireSignedChangeSets cfg" "target \<noteq> []"
  shows "signed_by_trusted a num bs repo db target"
  using assms by (auto simp: ensureSignedChangeSet_def signed_by_trusted_def bind_go_Ok_iff split: if_splits option.splits
      dest!: verified_payload)

lemma batch_spec_accepted:
  "batch_spec chk m us = (oks, m') \<Longrightarrow> m' name \<noteq> m name \<Longrightarrow>
     \<exists>u \<in> set us. m' name = Some (ru_New u) \<and> chk (ru_New u) \<and> ru_New u \<noteq> [] \<and> (ru_Name u = name \<or> ru_Name u = ''snap.latest'' \<and> name = ''snap.main'')"
proof (induction us arbitrary: m oks)
  case (Cons u us)
  let ?m = "if accepts chk m u then moved_by m u else m"
  obtain oks' where r: "batch_spec chk ?m us = (oks', m')" using Cons.prems(1) by (auto simp: Let_def split: prod.splits)
  show ?case
  proof (cases "m' name = ?m name")
    case True
    then show ?thesis using Cons.prems(2) by (auto simp: accepts_def moved_by_def split: if_splits)
  next
    case False
    from Cons.IH [OF r this] show ?thesis by auto
  qed
qed simp

lemma BatchUpdateRefs_cases:
  assumes "BatchUpdateRefs a clock repo fullName hdr msg pushID updates db = (r, db', es)"
  obtains (nothing) "db' = db" "es = []" "\<forall>x. r \<noteq> Reply x"
  | (committed) rs where "batch_updates (\<lambda>t. ensureSignedChangeSet (ra_ssh a) (ra_num a) (ra_cfg a) (ra_blobs a) repo t db)
             (pg_updated_at db repo) (pg_ops (ra_blake3 a) repo (actor_header hdr) pushID) clock 0 updates (Some db) = Ok (rs, Some db')"
     "r = Reply (pushID, rs) \<or> r = Crash"
  using assms by (auto simp: BatchUpdateRefs_def Let_def split: if_splits go.splits option.splits prod.splits)

text \<open>The effect of a batch that is committed.\<close>

definition batch_effect :: "'k ref_api \<Rightarrow> string \<Rightarrow> ref_update list \<Rightarrow> pg_db \<Rightarrow> ref_result list \<Rightarrow> pg_db \<Rightarrow> bool" where
  "batch_effect a repo updates db rs db' \<longleftrightarrow>
     batch_spec (\<lambda>t. ensureSignedChangeSet (ra_ssh a) (ra_num a) (ra_cfg a) (ra_blobs a) repo t db = Ok ()) (pg_target db repo) updates =
       (map rr_OK rs, pg_target db' repo) \<and>
     map rr_Name rs = map ru_Name updates \<and> other_repos_same repo db db'"


text \<open>C20: where change sets must be signed, no ref that a batch moves points to a change set without a signature by a
  trusted key.\<close>

theorem BatchUpdateRefs_signed:
  assumes "RequireSignedChangeSets (ra_cfg a)"
    and "BatchUpdateRefs a clock repo fullName hdr msg pushID updates db = (r, db', es)"
    and "pg_target db' repo name \<noteq> pg_target db repo name"
  shows "\<exists>target. pg_target db' repo name = Some target \<and> signed_by_trusted (ra_ssh a) (ra_num a) (ra_blobs a) repo db target"
  using assms(2)
proof (cases rule: BatchUpdateRefs_cases)
  case (committed rs)
  from batch_spec_accepted [OF conjunct1 [OF pg.batch_updates_spec [OF committed(1)]] assms(3)] show ?thesis
    using ensured_signed assms(1) by blast
qed (use assms(3) in simp)
section \<open>An example\<close>

definition ex_changeset :: "(string \<times> int json) list" where
  "ex_changeset = [(''sigFormat'', VStr ''f''), (''sigType'', VStr ''ssh''), (''signature'', VStr ''QUJD''), (''title'', VStr ''t'')]"

definition ex_change :: bytes where
  "ex_change = node_content show_int ''ChangeSet'' (VObj ex_changeset)"

definition ex_ref_db :: pg_db where
  "ex_ref_db = \<lparr>t_segments = [(''a'', \<lparr>seg_id = 1, seg_ts = 0, seg_checksum = [], seg_size = 9, seg_blob = ex_change\<rparr>)],
     t_next_segment = 2, t_objects = [(''a'', \<lparr>Digest = [7], SegmentID = 1, Off = 0, Len = 74, ObjKind = ''ChangeSet'', CreatedAt = 0\<rparr>)],
     t_refs = [], t_history = [], t_next_history = 1, t_publish = [], t_next_publish = 1, t_enrich = [], t_next_enrich = 1,
     t_edges = [], t_authorship = []\<rparr>"

text \<open>One key, which signs a text with the signature ABC.\<close>

definition ex_ref_api :: "unit ref_api" where
  "ex_ref_api = \<lparr>ra_ssh = \<lparr>sign_keys_env = ''k'', read_key_file = (\<lambda>_. Some [1]), parse_authorized_key = (\<lambda>_. Some (Some (), [])),
       fingerprint_sha256 = (\<lambda>_. ''x''), key_verify = (\<lambda>_ data format sig. data \<noteq> [] \<and> format = ''f'' \<and> sig = [65, 66, 67])\<rparr>,
     ra_num = id, ra_cfg = \<lparr>RequireSignedChangeSets = True, MaxPackSize = 100\<rparr>, ra_blobs = InlineStore, ra_blake3 = id\<rparr>"

definition ex_batch :: "ref_update list" where
  "ex_batch = [\<lparr>ru_Name = ''cs.latest'', ru_Old = None, ru_New = [7], ru_Force = False\<rparr>,
               \<lparr>ru_Name = ''cs.latest'', ru_Old = None, ru_New = [7], ru_Force = False\<rparr>]"

lemma ex_change_length: "length ex_change = 74"
  by (simp add: ex_change_def ex_changeset_def node_content_def) code_simp

lemma ex_extract: "PgExtractObjectFromDB InlineStore ex_ref_db ''a'' [7] = Ok (ex_change, ''ChangeSet'')"
  using ex_change_length by (simp add: PgExtractObjectFromDB_def PgGetObjectInfo_def PgGetSegmentBlobByID_def ex_ref_db_def pg_find_def at_repo_def InlineStore_def
    slice64_def slice_def)

lemma ex_payload: "ParseObjectPayload ex_change = Some (map (\<lambda>(k, v). (k, as_read show_int v)) ex_changeset)"
proof -
  have "sort_key fst ex_changeset = ex_changeset" by (simp add: ex_changeset_def) 
  then show ?thesis
    unfolding ex_change_def by (subst payload_of_node) (simp_all add: json_ok_def ex_changeset_def)
qed

lemma ex_ensured: "ensureSignedChangeSet (ra_ssh ex_ref_api) (ra_num ex_ref_api) (ra_cfg ex_ref_api) (ra_blobs ex_ref_api) ''a'' [7] ex_ref_db = Ok ()"
proof -
  have b: "base64_decode ''QUJD'' = Some [65, 66, 67]" by code_simp
  have l: "splitList ''k'' = [''k'']" by code_simp
  have s: "signed_text id p \<noteq> []" for p by (simp add: signed_text_def to_bytes_def canonical_VObj marshalSortedMap_def)
  show ?thesis
    by (simp add: ensureSignedChangeSet_def ex_ref_api_def ex_extract ex_payload ex_changeset_def member_def string_at_def
      VerifyChangeSetSignature_def loadTrustedKeysFromEnv_def b l s)
qed

lemma ex_write:
  "\<exists>db. PgSetRefFF id 0 ''a'' ''cs.latest'' None [7] ''anonymous'' ''p'' ex_ref_db = Ok db \<and> pg_target db ''a'' ''cs.latest'' = Some [7] \<and>
     PgSetRefFF id 2 ''a'' ''cs.latest'' None [7] ''anonymous'' ''p'' db = Err ErrRefMismatch"
  by (simp add: PgSetRefFF_def pg_append_history_def Let_def ex_ref_db_def pg_target_def pg_upsert_ref_def pg_find_def at_repo_def)

lemma ex_batch_run:
  "\<exists>db. BatchUpdateRefs ex_ref_api int ''a'' ''o/a'' [] [] ''p'' ex_batch ex_ref_db =
     (Reply (''p'', [\<lparr>rr_Name = ''cs.latest'', rr_OK = True, rr_UpdatedAt = 0, rr_Error = None\<rparr>,
                   \<lparr>rr_Name = ''cs.latest'', rr_OK = False, rr_UpdatedAt = 0, rr_Error = Some (Message ''ref mismatch (not fast-forward)'')\<rparr>]), db, []) \<and>
     pg_target db ''a'' ''cs.latest'' = Some [7]"
proof -
  obtain db where w: "PgSetRefFF id 0 ''a'' ''cs.latest'' None [7] ''anonymous'' ''p'' ex_ref_db = Ok db"
      "PgSetRefFF id 2 ''a'' ''cs.latest'' None [7] ''anonymous'' ''p'' db = Err ErrRefMismatch"
      "pg_target db ''a'' ''cs.latest'' = Some [7]"
    using ex_write by blast
  have t: "pg_updated_at ex_ref_db ''a'' n = 0" for n by (simp add: pg_updated_at_def PgGetRef_def ex_ref_db_def pg_find_def)
  have o: "op_set_ff (pg_ops (ra_blake3 ex_ref_api) ''a'' (actor_header []) ''p'') = (\<lambda>ts name old new. PgSetRefFF id ts ''a'' name old new ''anonymous'' ''p'')"
    by (simp add: pg_ops_def ex_ref_api_def actor_header_def)
  have n: "notifyReviewCreated bs r f d ''cs.latest'' = Err ()" "push_branch ''cs.latest'' = None" for bs r f d
    by (simp_all add: notifyReviewCreated_def push_branch_def HasPrefix_def)
  show ?thesis
    by (simp add: BatchUpdateRefs_def ex_batch_def batch_update_def ex_ensured t write_ref_def o tx_exec_def w mirror_main_def n Let_def)
qed

theorem BatchUpdateRefs_signed_witness:
  "\<exists>db rs es target. BatchUpdateRefs ex_ref_api int ''a'' ''o/a'' [] [] ''p'' ex_batch ex_ref_db = (Reply (''p'', rs), db, es) \<and>
     map rr_OK rs = [True, False] \<and> pg_target db ''a'' ''cs.latest'' = Some target \<and>
     signed_by_trusted (ra_ssh ex_ref_api) (ra_num ex_ref_api) (ra_blobs ex_ref_api) ''a'' ex_ref_db target"
proof -
  obtain db rs where b: "BatchUpdateRefs ex_ref_api int ''a'' ''o/a'' [] [] ''p'' ex_batch ex_ref_db = (Reply (''p'', rs), db, [])"
      "map rr_OK rs = [True, False]" "pg_target db ''a'' ''cs.latest'' = Some [7]"
    using ex_batch_run by auto
  have "pg_target db ''a'' ''cs.latest'' \<noteq> pg_target ex_ref_db ''a'' ''cs.latest''"
    using b(3) by (auto simp: pg_target_def pg_find_def ex_ref_db_def)
  from BatchUpdateRefs_signed [OF _ b(1) this] show ?thesis using b by (auto simp: ex_ref_api_def)
qed

end
