(* ===== verification/Review.thy ===== *)
theory Review
  imports RefApi SshPush
begin

text \<open>
  Code reviews (\<open>src/kailab/api/routes.go\<close>, from \<open>CreateReview\<close> on). A review is an object of the
  repository, a payload of JSON, that the ref \<open>review.<id>\<close> points to; every update stores a new object and
  moves the ref. Comments are objects too, tied to the review's object by an edge. Handlers take the decoded request; the
  clock and the random ids are parameters.
\<close>

section \<open>Payloads\<close>

text \<open>Decoding into a map: \<open>None\<close> is an error, \<open>Some None\<close> the nil map of a JSON null. A number stays
  the text it was written as; \<open>num\<close> prints it again.\<close>

type_synonym payload = "(string \<times> string json) list"

definition go_members :: "(string \<times> 'n json) list \<Rightarrow> (string \<times> 'n json) list" where
  "go_members m = foldl (\<lambda>acc (k, v). AList.update k v acc) [] (map (\<lambda>(k, v). (k, go_value v)) m)"

definition payload_map :: "bytes \<Rightarrow> payload option option" where
  "payload_map content = (case Unmarshal (of_bytes (parsePayload content)) of
     Some (VObj m) \<Rightarrow> Some (Some (go_members m)) | Some VNull \<Rightarrow> Some None | _ \<Rightarrow> None)"

definition strings_or_null :: "string list option \<Rightarrow> 'n json" where
  "strings_or_null xs = (case xs of None \<Rightarrow> VNull | Some xs \<Rightarrow> VArr (map VStr xs))"

text \<open>What a handler stores: the raw content as a segment of its own, and the object that is all of it.\<close>

definition store_node :: "blob_api \<Rightarrow> (bytes \<Rightarrow> bytes) \<Rightarrow> int \<Rightarrow> string \<Rightarrow> string \<Rightarrow> bytes \<Rightarrow> pg_db \<Rightarrow> pg_db" where
  "store_node bs blake3 ts repo kind content db =
     (case PgInsertSegmentTx bs ts repo (blake3 content) content db of
        (segmentID, _, db) \<Rightarrow> PgInsertObjectTx ts repo (blake3 content) segmentID 0 (word_of_nat (length content)) kind db)"

definition review_ref :: "string \<Rightarrow> string" where
  "review_ref reviewID = ''review.'' @ reviewID"

section \<open>Creating a review\<close>

record review_request =
  rq_Title :: string
  rq_Description :: string
  rq_Author :: string
  rq_Reviewers :: "string list option"
  rq_Assignees :: "string list option"
  rq_TargetID :: string
  rq_TargetKind :: string

definition new_review :: "int \<Rightarrow> review_request \<Rightarrow> payload" where
  "new_review ts req =
     [(''title'', VStr (rq_Title req)), (''description'', VStr (rq_Description req)), (''state'', VStr ''draft''),
      (''author'', VStr (rq_Author req)), (''reviewers'', strings_or_null (rq_Reviewers req)),
      (''assignees'', strings_or_null (rq_Assignees req)), (''targetId'', VStr (rq_TargetID req)),
      (''targetKind'', VStr (if rq_TargetKind req = [] then ''ChangeSet'' else rq_TargetKind req)),
      (''createdAt'', VNum (show_int ts)), (''updatedAt'', VNum (show_int ts))]"

record review_api =
  rv_blobs :: blob_api
  rv_blake3 :: "bytes \<Rightarrow> bytes"
  rv_num :: "string \<Rightarrow> string"

definition review_content :: "review_api \<Rightarrow> payload \<Rightarrow> bytes" where
  "review_content a payload = node_content (rv_num a) ''Review'' (VObj payload)"

definition CreateReview ::
  "review_api \<Rightarrow> int \<Rightarrow> bytes \<Rightarrow> string \<Rightarrow> review_request \<Rightarrow> pg_db \<Rightarrow> (string \<times> string) reply \<times> pg_db" where
  "CreateReview a ts idBytes repo req db =
     (if rq_Title req = [] then (Fail 400 (Message ''title is required''), db)
      else if rq_TargetID req = [] then (Fail 400 (Message ''targetId is required''), db)
      else let reviewID = hex_encode idBytes; content = review_content a (new_review ts req);
               refName = review_ref reviewID;
               db1 = store_node (rv_blobs a) (rv_blake3 a) ts repo ''Review'' content db
           in case PgForceSetRef (rv_blake3 a) ts repo refName (rv_blake3 a content) [] [] db1 of
                Ok db' \<Rightarrow> (Reply (reviewID, refName), db')
              | Err _ \<Rightarrow> (Fail 500 (Message ''failed to create ref''), db)
              | Panic \<Rightarrow> (Crash, db))"

section \<open>Listing reviews\<close>

record review_entry =
  rve_ID :: string
  rve_RefName :: string
  rve_Title :: string
  rve_Description :: string
  rve_State :: string
  rve_Author :: string
  rve_Reviewers :: "string list"
  rve_TargetID :: string
  rve_TargetKind :: string
  rve_CreatedAt :: int
  rve_UpdatedAt :: int

fun number_value :: "'n option \<Rightarrow> 'n json \<Rightarrow> 'n option option" where
  "number_value old (VNum n) = Some (Some n)"
| "number_value old VNull = Some old"
| "number_value old _ = None"

text \<open>The number is read as a float and cut to an integer, as a parameter.\<close>

definition review_entry_of :: "(string \<Rightarrow> int) \<Rightarrow> string \<Rightarrow> string \<Rightarrow> bytes \<Rightarrow> review_entry option" where
  "review_entry_of to_int reviewID refName content =
     Option.bind (ParseObjectPayload content) (\<lambda>m.
     Option.bind (struct_field string_value [] ''title'' m) (\<lambda>t.
     Option.bind (struct_field string_value [] ''description'' m) (\<lambda>d.
     Option.bind (struct_field string_value [] ''state'' m) (\<lambda>s.
     Option.bind (struct_field string_value [] ''author'' m) (\<lambda>au.
     Option.bind (struct_field (list_value (string_value [])) [] ''reviewers'' m) (\<lambda>rs.
     Option.bind (struct_field string_value [] ''targetId'' m) (\<lambda>ti.
     Option.bind (struct_field string_value [] ''targetKind'' m) (\<lambda>tk.
     Option.bind (struct_field number_value None ''createdAt'' m) (\<lambda>ca.
     Option.bind (struct_field number_value None ''updatedAt'' m) (\<lambda>ua.
       Some \<lparr>rve_ID = reviewID, rve_RefName = refName, rve_Title = t, rve_Description = d, rve_State = s, rve_Author = au,
         rve_Reviewers = rs, rve_TargetID = ti, rve_TargetKind = tk, rve_CreatedAt = case_option 0 to_int ca,
         rve_UpdatedAt = case_option 0 to_int ua\<rparr>))))))))))"

fun list_reviews :: "(string \<Rightarrow> int) \<Rightarrow> blob_api \<Rightarrow> string \<Rightarrow> pg_db \<Rightarrow> ref_row list \<Rightarrow> (unit, review_entry list) go" where
  "list_reviews to_int bs repo db [] = Ok []"
| "list_reviews to_int bs repo db (ref # rs) =
     (case split_on (CHR ''.'') (RefName ref) of
        [_, reviewID] \<Rightarrow>
          (case PgExtractObjectFromDB bs db repo (Target ref) of
             Panic \<Rightarrow> Panic
           | Err _ \<Rightarrow> list_reviews to_int bs repo db rs
           | Ok (content, kind) \<Rightarrow>
               if kind \<noteq> ''Review'' then list_reviews to_int bs repo db rs
               else (case review_entry_of to_int reviewID (RefName ref) content of
                  None \<Rightarrow> list_reviews to_int bs repo db rs
                | Some e \<Rightarrow> bind_go (list_reviews to_int bs repo db rs) (\<lambda>es. Ok (e # es))))
      | _ \<Rightarrow> list_reviews to_int bs repo db rs)"

definition ListReviews :: "(string \<Rightarrow> int) \<Rightarrow> blob_api \<Rightarrow> string \<Rightarrow> pg_db \<Rightarrow> review_entry list reply" where
  "ListReviews to_int bs repo db =
     (case list_reviews to_int bs repo db (PgListRefs db repo ''review.'') of Ok es \<Rightarrow> Reply es | _ \<Rightarrow> Crash)"

section \<open>The state of a review\<close>

definition validStates :: "string list" where
  "validStates = [''draft'', ''open'', ''approved'', ''changes_requested'', ''merged'', ''abandoned'']"

definition validTransitions :: "(string \<times> string list) list" where
  "validTransitions =
     [(''draft'', [''open'', ''abandoned'']),
      (''open'', [''approved'', ''changes_requested'', ''merged'', ''abandoned'']),
      (''approved'', [''merged'', ''changes_requested'', ''abandoned'']),
      (''changes_requested'', [''open'', ''approved'', ''abandoned''])]"

text \<open>A state that is none of the six may be left for any state.\<close>

definition transition_error :: "string \<Rightarrow> string \<Rightarrow> string option" where
  "transition_error current new =
     (case map_of validTransitions current of
        Some allowed \<Rightarrow> if new \<in> set allowed then None
          else Some (''cannot transition from '' @ [CHR 0x22] @ current @ [CHR 0x22] @ '' to '' @ [CHR 0x22] @ new @ [CHR 0x22])
      | None \<Rightarrow> if current \<in> {''merged'', ''abandoned''}
          then Some (''review is in terminal state '' @ [CHR 0x22] @ current @ [CHR 0x22] @ '' and cannot be updated'') else None)"

record state_request =
  sq_State :: string
  sq_Summary :: string
  sq_Actor :: string
  sq_Comments :: "(string \<times> int \<times> string) list"

definition state_payload :: "int \<Rightarrow> state_request \<Rightarrow> payload \<Rightarrow> payload" where
  "state_payload ts req payload =
     (let p = AList.update ''updatedAt'' (VNum (show_int ts)) (AList.update ''state'' (VStr (sq_State req)) payload) in
      if sq_State req = ''changes_requested''
      then let p = (if sq_Summary req \<noteq> [] then AList.update ''changesRequestedSummary'' (VStr (sq_Summary req)) p else p)
           in (if sq_Actor req \<noteq> [] then AList.update ''changesRequestedBy'' (VStr (sq_Actor req)) p else p)
      else AList.delete ''changesRequestedBy'' (AList.delete ''changesRequestedSummary'' p))"

text \<open>The review a handler works on, and the digest its ref has.\<close>

definition load_review :: "blob_api \<Rightarrow> string \<Rightarrow> string \<Rightarrow> pg_db \<Rightarrow> payload option reply" where
  "load_review bs repo reviewID db =
     (case PgGetRef db repo (review_ref reviewID) of
        Panic \<Rightarrow> Crash
      | Err _ \<Rightarrow> Fail 404 (Message ''review not found'')
      | Ok ref \<Rightarrow>
          (case PgExtractObjectFromDB bs db repo (Target ref) of
             Panic \<Rightarrow> Crash
           | Err _ \<Rightarrow> Fail 500 (Message ''failed to get review'')
           | Ok (content, kind) \<Rightarrow>
               if kind \<noteq> ''Review'' then Fail 400 (Message ''not a review object'')
               else (case payload_map content of
                  None \<Rightarrow> Fail 500 (Message ''failed to parse review'')
                | Some p \<Rightarrow> Reply p)))"

text \<open>The head of the change set a merged review is about, read outside the transaction.\<close>

definition merge_head :: "blob_api \<Rightarrow> string \<Rightarrow> pg_db \<Rightarrow> payload \<Rightarrow> (unit, bytes option) go" where
  "merge_head bs repo db payload =
     (let targetID = string_at payload ''targetId'' in
      if targetID = [] then Ok None
      else case hex_decode targetID of
        None \<Rightarrow> Ok None
      | Some csDigest \<Rightarrow>
          (case PgExtractObjectFromDB bs db repo csDigest of
             Panic \<Rightarrow> Panic
           | Err _ \<Rightarrow> Ok None
           | Ok (content, kind) \<Rightarrow>
               if kind \<noteq> ''ChangeSet'' then Ok None
               else (case Option.bind (ParseObjectPayload content) (struct_field string_value [] ''head'') of
                  None \<Rightarrow> Ok None
                | Some h \<Rightarrow> Ok (if h = [] then None else hex_decode h))))"

datatype review_event =
    StateEvent (rvv_repo: string) (rvv_id: string) (rvv_title: string) (rvv_author: string) (rvv_actor: string)
      (rvv_state: string) (rvv_branch: string) (rvv_reviewers: "string list")
  | ChangesEvent (rvv_repo: string) (rvv_id: string) (rvv_title: string) (rvv_author: string) (rvv_actor: string)
      (rvv_comments: "(string \<times> int \<times> string) list")

definition state_event :: "string \<Rightarrow> string \<Rightarrow> state_request \<Rightarrow> payload \<Rightarrow> review_event list" where
  "state_event fullName reviewID req payload =
     (let title = string_at payload ''title''; author = string_at payload ''author''; branch = string_at payload ''targetBranch'';
          reviewers = (case member payload ''assignees'' of
            Some (VArr vs) \<Rightarrow> concat (map (\<lambda>v. case v of VStr s \<Rightarrow> [s] | _ \<Rightarrow> []) vs) | _ \<Rightarrow> []);
          s = sq_State req
      in if s \<in> {''merged'', ''abandoned'', ''approved''}
         then [StateEvent fullName reviewID title author (sq_Actor req) s branch reviewers]
         else if s = ''open'' then [StateEvent fullName reviewID title author (sq_Actor req) ''ready'' branch reviewers]
         else if s = ''changes_requested'' then [ChangesEvent fullName reviewID title author (sq_Actor req) (sq_Comments req)]
         else [])"

text \<open>The transaction: the new object, the ref, and \<open>snap.main\<close> when a head is given, whose errors are not looked
  at.\<close>

definition write_review ::
  "review_api \<Rightarrow> int \<Rightarrow> string \<Rightarrow> string \<Rightarrow> payload \<Rightarrow> bytes option \<Rightarrow> pg_db \<Rightarrow> tx_result \<times> pg_db option" where
  "write_review a ts repo reviewID payload head db =
     (let content = review_content a payload; newDigest = rv_blake3 a content;
          db1 = store_node (rv_blobs a) (rv_blake3 a) ts repo ''Review'' content db;
          r = tx_exec (PgForceSetRef (rv_blake3 a) ts repo (review_ref reviewID) newDigest [] []) (Some db1)
      in case head of
           None \<Rightarrow> r
         | Some h \<Rightarrow> if fst r = TxOk then (TxOk, snd (tx_exec (PgForceSetRef (rv_blake3 a) ts repo ''snap.main'' h [] []) (snd r))) else r)"

definition UpdateReviewState ::
  "review_api \<Rightarrow> int \<Rightarrow> string \<Rightarrow> string \<Rightarrow> string \<Rightarrow> state_request \<Rightarrow> pg_db \<Rightarrow> string reply \<times> pg_db \<times> review_event list" where
  "UpdateReviewState a ts repo fullName reviewID req db =
     (if reviewID = [] then (Fail 400 (Message ''review id required''), db, [])
      else if sq_State req \<notin> set validStates then (Fail 400 (Message ''invalid state''), db, [])
      else case load_review (rv_blobs a) repo reviewID db of
        Crash \<Rightarrow> (Crash, db, [])
      | Fail c e \<Rightarrow> (Fail c e, db, [])
      | Reply p \<Rightarrow>
          (case transition_error (case p of Some m \<Rightarrow> string_at m ''state'' | None \<Rightarrow> []) (sq_State req) of
             Some msg \<Rightarrow> (Fail 400 (Message msg), db, [])
           | None \<Rightarrow>
               (case p of
                  None \<Rightarrow> (Crash, db, [])
                | Some m \<Rightarrow>
                    let payload = state_payload ts req m in
                    (case (if sq_State req = ''merged'' then merge_head (rv_blobs a) repo db payload else Ok None) of
                       Ok head \<Rightarrow>
                         (case write_review a ts repo reviewID payload head db of
                            (TxOk, Some db') \<Rightarrow> (Reply (sq_State req), db', state_event fullName reviewID req payload)
                          | (TxOk, None) \<Rightarrow> (Fail 500 (Message ''failed to commit''), db, [])
                          | _ \<Rightarrow> (Fail 500 (Message ''failed to update ref''), db, []))
                     | _ \<Rightarrow> (Crash, db, [])))))"

section \<open>Other updates\<close>

record update_request =
  uq_Assignees :: "string list option"
  uq_Title :: string
  uq_Description :: string

definition update_payload :: "int \<Rightarrow> update_request \<Rightarrow> payload \<Rightarrow> payload" where
  "update_payload ts req payload =
     (let p = (case uq_Assignees req of None \<Rightarrow> payload | Some as \<Rightarrow> AList.update ''assignees'' (VArr (map VStr as)) payload);
          p = (if uq_Title req \<noteq> [] then AList.update ''title'' (VStr (uq_Title req)) p else p);
          p = (if uq_Description req \<noteq> [] then AList.update ''description'' (VStr (uq_Description req)) p else p)
      in AList.update ''updatedAt'' (VNum (show_int ts)) p)"

definition UpdateReview ::
  "review_api \<Rightarrow> int \<Rightarrow> string \<Rightarrow> string \<Rightarrow> update_request \<Rightarrow> pg_db \<Rightarrow> string list option reply \<times> pg_db" where
  "UpdateReview a ts repo reviewID req db =
     (if reviewID = [] then (Fail 400 (Message ''review id required''), db)
      else case load_review (rv_blobs a) repo reviewID db of
        Crash \<Rightarrow> (Crash, db)
      | Fail c e \<Rightarrow> (Fail c e, db)
      | Reply None \<Rightarrow> (Crash, db)
      | Reply (Some m) \<Rightarrow>
          (case write_review a ts repo reviewID (update_payload ts req m) None db of
             (TxOk, Some db') \<Rightarrow> (Reply (uq_Assignees req), db')
           | _ \<Rightarrow> (Fail 500 (Message ''failed to update ref''), db)))"

section \<open>Comments\<close>

text \<open>Edges are kept in the order of their creation, the order of the listing.\<close>

definition comment_digests :: "string \<Rightarrow> bytes \<Rightarrow> pg_db \<Rightarrow> bytes list" where
  "comment_digests repo target db = map Dst (pg_select repo (\<lambda>e. Src e = target \<and> EdgeType e = ''HAS_COMMENT'') (t_edges db))"

fun read_comments :: "blob_api \<Rightarrow> string \<Rightarrow> pg_db \<Rightarrow> bytes list \<Rightarrow> (unit, payload option list) go" where
  "read_comments bs repo db [] = Ok []"
| "read_comments bs repo db (d # ds) =
     (case PgExtractObjectFromDB bs db repo d of
        Panic \<Rightarrow> Panic
      | Err _ \<Rightarrow> read_comments bs repo db ds
      | Ok (content, kind) \<Rightarrow>
          if kind \<noteq> ''ReviewComment'' then read_comments bs repo db ds
          else (case payload_map content of
             None \<Rightarrow> read_comments bs repo db ds
           | Some c \<Rightarrow> bind_go (read_comments bs repo db ds) (\<lambda>cs. Ok (c # cs))))"

definition ListReviewComments :: "blob_api \<Rightarrow> string \<Rightarrow> string \<Rightarrow> pg_db \<Rightarrow> payload option list reply" where
  "ListReviewComments bs repo reviewID db =
     (if reviewID = [] then Fail 400 (Message ''review id required'')
      else case PgGetRef db repo (review_ref reviewID) of
        Ok ref \<Rightarrow> (case read_comments bs repo db (comment_digests repo (Target ref) db) of Ok cs \<Rightarrow> Reply cs | _ \<Rightarrow> Crash)
      | _ \<Rightarrow> Fail 404 (Message ''review not found''))"

record comment_request =
  cq_Body :: string
  cq_Author :: string
  cq_FilePath :: string
  cq_Line :: int
  cq_ParentID :: string

definition new_comment :: "int \<Rightarrow> string \<Rightarrow> comment_request \<Rightarrow> payload" where
  "new_comment ts commentID req =
     [(''id'', VStr commentID), (''body'', VStr (cq_Body req)), (''author'', VStr (cq_Author req)), (''createdAt'', VNum (show_int ts))] @
     (if cq_FilePath req \<noteq> [] then [(''filePath'', VStr (cq_FilePath req))] else []) @
     (if cq_Line req > 0 then [(''line'', VNum (show_int (cq_Line req)))] else []) @
     (if cq_ParentID req \<noteq> [] then [(''parentId'', VStr (cq_ParentID req))] else [])"

fun find_comment_author :: "blob_api \<Rightarrow> string \<Rightarrow> pg_db \<Rightarrow> string \<Rightarrow> bytes list \<Rightarrow> string" where
  "find_comment_author bs repo db commentID [] = []"
| "find_comment_author bs repo db commentID (d # ds) =
     (case PgExtractObjectFromDB bs db repo d of
        Ok (content, kind) \<Rightarrow>
          if kind \<noteq> ''ReviewComment'' then find_comment_author bs repo db commentID ds
          else (case Option.bind (ParseObjectPayload content) (\<lambda>m.
                  Option.bind (struct_field string_value [] ''id'' m) (\<lambda>i.
                  Option.bind (struct_field string_value [] ''author'' m) (\<lambda>au. Some (i, au)))) of
             Some (i, au) \<Rightarrow> if i = commentID then au else find_comment_author bs repo db commentID ds
           | None \<Rightarrow> find_comment_author bs repo db commentID ds)
      | _ \<Rightarrow> find_comment_author bs repo db commentID ds)"

definition findCommentAuthor :: "blob_api \<Rightarrow> pg_db \<Rightarrow> string \<Rightarrow> bytes \<Rightarrow> string \<Rightarrow> string" where
  "findCommentAuthor bs db repo reviewTarget commentID = find_comment_author bs repo db commentID (comment_digests repo reviewTarget db)"

definition mention_char :: "char \<Rightarrow> bool" where
  "mention_char c \<longleftrightarrow> (let n = of_char c :: nat in n \<ge> 97 \<and> n \<le> 122 \<or> n \<ge> 65 \<and> n \<le> 90) \<or> is_digit c \<or> c \<in> {CHR ''_'', CHR ''-''}"

text \<open>The names after \<open>@\<close>, each at its first place.\<close>

function mentions_of :: "string \<Rightarrow> string list" where
  "mentions_of [] = []"
| "mentions_of (c # cs) =
     (let w = takeWhile mention_char cs in
      if c = CHR ''@'' \<and> w \<noteq> [] then w # mentions_of (dropWhile mention_char cs) else mentions_of cs)"
  by pat_completeness auto
termination by (relation "measure length") (auto simp: le_imp_less_Suc length_dropWhile_le)

definition extractMentions :: "string \<Rightarrow> string list" where
  "extractMentions text = rev (remdups (rev (mentions_of text)))"

text \<open>The notification of a comment; it is sent only when a control plane is configured, and looks for the author of the
  parent after the transaction.\<close>

record comment_event =
  ce_Review :: string
  ce_Title :: string
  ce_ReviewAuthor :: string
  ce_Author :: string
  ce_Body :: string
  ce_Parent :: string
  ce_Mentions :: "string list"

definition review_title_author :: "bytes \<Rightarrow> string \<times> string" where
  "review_title_author content =
     (case Option.bind (ParseObjectPayload content) (\<lambda>m.
        Option.bind (struct_field string_value [] ''title'' m) (\<lambda>t.
        Option.bind (struct_field string_value [] ''author'' m) (\<lambda>au. Some (t, au)))) of
        Some x \<Rightarrow> x | None \<Rightarrow> ([], []))"

definition comment_edge :: "bytes \<Rightarrow> bytes \<Rightarrow> edge" where
  "comment_edge target digest = \<lparr>Src = target, EdgeType = ''HAS_COMMENT'', Dst = digest, At = Some []\<rparr>"

definition CreateReviewComment ::
  "review_api \<Rightarrow> int \<Rightarrow> string \<Rightarrow> string \<Rightarrow> bool \<Rightarrow> string \<Rightarrow> comment_request \<Rightarrow> pg_db \<Rightarrow>
   payload reply \<times> pg_db \<times> comment_event list" where
  "CreateReviewComment a ts repo commentID control_plane reviewID req db =
     (if reviewID = [] then (Fail 400 (Message ''review id required''), db, [])
      else if cq_Body req = [] then (Fail 400 (Message ''comment body required''), db, [])
      else case PgGetRef db repo (review_ref reviewID) of
        Ok ref \<Rightarrow>
          (case PgExtractObjectFromDB (rv_blobs a) db repo (Target ref) of
             Panic \<Rightarrow> (Crash, db, [])
           | r \<Rightarrow>
               let (title, author) = (case r of Ok (content, kind) \<Rightarrow> if kind = ''Review'' then review_title_author content else ([], []) | _ \<Rightarrow> ([], []));
                   comment = new_comment ts commentID req;
                   content = node_content (rv_num a) ''ReviewComment'' (VObj comment);
                   db1 = store_node (rv_blobs a) (rv_blake3 a) ts repo ''ReviewComment'' content db
               in (case PgInsertEdge repo (comment_edge (Target ref) (rv_blake3 a content)) db1 of
                     Ok db' \<Rightarrow>
                       (Reply comment, db',
                        if control_plane
                        then [\<lparr>ce_Review = reviewID, ce_Title = title, ce_ReviewAuthor = author, ce_Author = cq_Author req, ce_Body = cq_Body req,
                               ce_Parent = (if cq_ParentID req \<noteq> [] then findCommentAuthor (rv_blobs a) db' repo (Target ref) (cq_ParentID req) else []),
                               ce_Mentions = extractMentions (cq_Body req)\<rparr>]
                        else [])
                   | Err _ \<Rightarrow> (Fail 500 (Message ''failed to create edge''), db, [])
                   | Panic \<Rightarrow> (Crash, db, [])))
      | _ \<Rightarrow> (Fail 404 (Message ''review not found''), db, []))"
section \<open>Members of a payload\<close>

lemma map_of_fold_update: "map_of (foldl (\<lambda>acc (k, v). AList.update k v acc) acc xs) = map_of acc ++ map_of (rev xs)"
proof (induction xs arbitrary: acc)
  case (Cons x xs)
  obtain k v where x: "x = (k, v)" by fastforce
  show ?case by (simp add: x Cons.IH AList.update_conv' map_add_def fun_eq_iff split: option.split)
qed simp

lemma distinct_fold_update:
  "distinct (map fst acc) \<Longrightarrow> distinct (map fst (foldl (\<lambda>acc (k, v). AList.update k v acc) acc xs))"
  by (induction xs arbitrary: acc) (auto simp: distinct_update)

lemma map_of_same_set: "distinct (map fst a) \<Longrightarrow> distinct (map fst b) \<Longrightarrow> set a = set b \<Longrightarrow> map_of a = map_of b"
  by (simp add: map_of_inject_set)

lemma member_distinct: "distinct (map fst m) \<Longrightarrow> member m k = map_of m k"
  using map_of_same_set [of "rev m" m] by (simp add: member_def rev_map [symmetric])

lemma map_of_go_members: "map_of (go_members m) k = map_option go_value (member m k)"
  by (simp add: go_members_def map_of_fold_update member_def rev_map map_of_map)

lemma distinct_go_members: "distinct (map fst (go_members m))"
  by (simp add: go_members_def distinct_fold_update)

definition text_at :: "payload \<Rightarrow> string \<Rightarrow> string" where
  "text_at p k = (case map_of p k of Some (VStr s) \<Rightarrow> s | _ \<Rightarrow> [])"

lemma string_at_distinct: "distinct (map fst p) \<Longrightarrow> string_at p k = text_at p k"
  by (simp add: string_at_def text_at_def member_distinct)

lemma text_at_update [simp]: "text_at (AList.update k v p) k' = (if k' = k then (case v of VStr s \<Rightarrow> s | _ \<Rightarrow> []) else text_at p k')"
  by (simp add: text_at_def AList.update_conv')

lemma text_at_delete [simp]: "k' \<noteq> k \<Longrightarrow> text_at (AList.delete k p) k' = text_at p k'"
  by (simp add: text_at_def AList.delete_conv')

lemma go_value_VStr: "(case go_value v of VStr s \<Rightarrow> s | _ \<Rightarrow> []) = (case v of VStr s \<Rightarrow> s | _ \<Rightarrow> [])"
  by (cases v) simp_all

lemma as_read_VStr: "(case as_read num v of VStr s \<Rightarrow> s | _ \<Rightarrow> []) = (case v of VStr s \<Rightarrow> s | _ \<Rightarrow> [])"
  by (cases v) (simp_all add: as_read_VObj)

text \<open>A stored payload is read back with the same texts.\<close>

lemma payload_map_node:
  assumes num: "\<forall>s. valid_number (num s)" and k: "CHR 0x0A \<notin> set kind" and d: "distinct (map fst p)"
  obtains p' where "payload_map (node_content num kind (VObj p)) = Some (Some p')" "distinct (map fst p')" "text_at p' = text_at p"
proof
  let ?m = "map (\<lambda>(k, v). (k, as_read num v)) (sort_key fst p)"
  have "json_ok num (VObj p)" using num by (simp add: json_ok_def)
  then show "payload_map (node_content num kind (VObj p)) = Some (Some (go_members ?m))"
    using Unmarshal_canonical [of num "VObj p"] k
    by (simp add: payload_map_def parsePayload_node as_read_VObj del: canonicalMarshal.simps)
  show "distinct (map fst (go_members ?m))" by (rule distinct_go_members)
  have s: "distinct (map fst (sort_key fst p))"
    using d by (metis distinct_map distinct_sort inj_on_cong set_sort)
  then have "distinct (map fst ?m)" by (simp add: comp_def case_prod_unfold)
  then have "member ?m k = map_option (as_read num) (map_of p k)" for k
    using map_of_same_set [OF s d] by (simp add: member_distinct map_of_map)
  then show "text_at (go_members ?m) = text_at p"
    by (auto simp: text_at_def map_of_go_members go_value_VStr as_read_VStr fun_eq_iff split: option.split)
qed

lemma state_payload_members:
  assumes "distinct (map fst p)"
  shows "distinct (map fst (state_payload ts req p))" "text_at (state_payload ts req p) ''state'' = sq_State req"
    "text_at (state_payload ts req p) ''targetId'' = text_at p ''targetId''"
  using assms by (auto simp: state_payload_def Let_def distinct_update distinct_delete)

lemma update_payload_members:
  assumes "distinct (map fst p)"
  shows "distinct (map fst (update_payload ts req p))" "text_at (update_payload ts req p) ''state'' = text_at p ''state''"
  using assms by (auto simp: update_payload_def Let_def distinct_update split: option.split)

lemma payload_map_distinct: "payload_map content = Some (Some p) \<Longrightarrow> distinct (map fst p)"
  by (auto simp: payload_map_def distinct_go_members split: option.splits json.splits)

section \<open>The store\<close>

lemma pg_extract_view: "\<not> IsExternal bs \<Longrightarrow> PgExtractObjectFromDB bs db repo d = ExtractObjectFromDB (repo_view repo db) d"
  by (auto simp: PgExtractObjectFromDB_def ExtractObjectFromDB_def PgGetObjectInfo_def GetObjectInfo_def GetObject_def
      PgGetSegmentBlobByID_def GetSegmentBlobByID_def GetSegmentBlob_def pg_rows intro!: bind_go_cong split: option.split)

lemma store_node_view: "repo_view repo (store_node bs h ts repo kind c db) = store_object ts (h c) (h c) kind c (repo_view repo db)"
  by (auto simp: store_node_def PgInsertSegmentTx_def PgInsertObjectTx_def store_object_def InsertSegmentTx_def InsertSegment_def
      InsertObjectTx_def InsertObject_def repo_view_def pg_rows Let_def find_None_iff)
section \<open>Well-formed stores\<close>

text \<open>Every stored object can be read, its digest is its hash, and its first line is its kind.\<close>

definition object_ok :: "(bytes \<Rightarrow> bytes) \<Rightarrow> bytes \<Rightarrow> bytes \<times> string \<Rightarrow> bool" where
  "object_ok blake3 d x \<longleftrightarrow> blake3 (fst x) = d \<and> CHR 0x0A \<notin> set (snd x) \<and> (\<exists>rest. fst x = to_bytes (snd x @ CHR 0x0A # rest))"

definition objects_typed :: "(bytes \<Rightarrow> bytes) \<Rightarrow> repo_db \<Rightarrow> bool" where
  "objects_typed blake3 v \<longleftrightarrow> store_fresh v \<and>
     (\<forall>d. HasObject v d \<longrightarrow> (\<exists>x. ExtractObjectFromDB v d = Ok x \<and> object_ok blake3 d x))"

definition segments_fit :: "repo_db \<Rightarrow> bool" where
  "segments_fit v \<longleftrightarrow> (\<forall>s \<in> set (segments v). length (seg_blob s) < 2 ^ 63)"

text \<open>\<open>v'\<close> has everything \<open>v\<close> has.\<close>

definition extends :: "repo_db \<Rightarrow> repo_db \<Rightarrow> bool" where
  "extends v v' \<longleftrightarrow> set (segments v) \<subseteq> set (segments v') \<and>
     (\<forall>d x. HasObject v d \<longrightarrow> ExtractObjectFromDB v d = Ok x \<longrightarrow> HasObject v' d \<and> ExtractObjectFromDB v' d = Ok x)"

lemma extends_refl: "extends v v"
  by (simp add: extends_def)

lemma extends_trans: "extends a b \<Longrightarrow> extends b c \<Longrightarrow> extends a c"
  by (auto simp: extends_def)

lemma extract_has: "ExtractObjectFromDB v d = Ok x \<Longrightarrow> HasObject v d"
  by (auto simp: extract_defs HasObject_def bind_go_Ok_iff find_Some_iff split: option.splits)

lemma first_line_unique:
  assumes "to_bytes (k @ CHR 0x0A # r) = to_bytes (k' @ CHR 0x0A # r')" and "CHR 0x0A \<notin> set k" "CHR 0x0A \<notin> set k'"
  shows "k = k'"
proof -
  have "k @ CHR 0x0A # r = k' @ CHR 0x0A # r'" using assms(1) inj_to_bytes by (metis injD)
  then have "takeWhile (\<lambda>c. c \<noteq> CHR 0x0A) (k @ CHR 0x0A # r) = takeWhile (\<lambda>c. c \<noteq> CHR 0x0A) (k' @ CHR 0x0A # r')" by simp
  then show ?thesis using assms(2,3) by (subst (asm) (1 2) takeWhile_append2) auto
qed

lemma store_object_typed:
  fixes ts :: int and ck :: bytes
  assumes v: "objects_typed blake3 v" and inj: "inj blake3" and c: "content = to_bytes (kind @ CHR 0x0A # rest)" "CHR 0x0A \<notin> set kind"
    and len: "length content < 2 ^ 63"
  defines "v' \<equiv> store_object ts ck (blake3 content) kind content v"
  shows "objects_typed blake3 v' \<and> extends v v' \<and> ExtractObjectFromDB v' (blake3 content) = Ok (content, kind)"
proof (cases "HasObject v (blake3 content)")
  case True
  let ?seg = "\<lparr>seg_id = next_segment v, seg_ts = ts, seg_checksum = ck, seg_size = int (length content), seg_blob = content\<rparr>"
  have fresh: "store_fresh v" using v by (simp add: objects_typed_def)
  have new: "segments v' = segments v @ [?seg]" "object_rows v' = object_rows v" "next_segment v' = next_segment v + 1"
    using True by (auto simp: v'_def store_object_def InsertSegmentTx_def InsertSegment_def InsertObjectTx_def InsertObject_def HasObject_def
        split: if_splits)
  have keep: "ExtractObjectFromDB v' d = ExtractObjectFromDB v d" for d
  proof (cases "find (\<lambda>r. Digest r = d) (object_rows v)")
    case (Some r)
    then have "SegmentID r < next_segment v" using fresh by (auto simp: store_fresh_def find_Some_iff)
    then show ?thesis using Some by (auto simp: extract_defs new find_append split: option.splits)
  qed (simp add: extract_defs new)
  have has: "HasObject v' d = HasObject v d" for d by (simp add: HasObject_def new)
  from True v obtain c' k' where x: "ExtractObjectFromDB v (blake3 content) = Ok (c', k')" "object_ok blake3 (blake3 content) (c', k')"
    by (auto simp: objects_typed_def)
  then have "c' = content" using inj by (auto simp: object_ok_def dest: injD)
  then have "k' = kind" using x(2) c first_line_unique by (auto simp: object_ok_def)
  moreover have "store_fresh v'" using fresh by (fastforce simp: store_fresh_def new)
  ultimately show ?thesis using v x \<open>c' = content\<close> by (auto simp: objects_typed_def extends_def keep has new)
next
  case False
  have fresh: "store_fresh v" using v by (simp add: objects_typed_def)
  note row = store_object_row [OF fresh False len, where ts = ts and ck = ck and kind = kind, folded v'_def]
  have seg: "set (segments v) \<subseteq> set (segments v')"
    by (auto simp: v'_def store_object_def InsertSegmentTx_def InsertSegment_def InsertObjectTx_def InsertObject_def)
  have "object_ok blake3 (blake3 content) (content, kind)" using c by (auto simp: object_ok_def)
  moreover have "e \<noteq> blake3 content" if "HasObject v e" for e using that False by blast
  ultimately show ?thesis using v row seg by (auto simp: objects_typed_def extends_def)
qed

lemma store_object_segment: "\<exists>s \<in> set (segments (store_object ts ck d kind content v)). seg_blob s = content"
  by (auto simp: store_object_def InsertSegmentTx_def InsertSegment_def InsertObjectTx_def InsertObject_def)

text \<open>A ref write leaves objects and edges alone.\<close>

lemma PgForceSetRef_frame:
  assumes "PgForceSetRef h ts repo name new actor push db = Ok db'"
  shows "t_segments db' = t_segments db" "t_next_segment db' = t_next_segment db" "t_objects db' = t_objects db" "t_edges db' = t_edges db"
  using assms by (auto simp: PgForceSetRef_def pg_append_history_def pg_upsert_ref_def Let_def split: if_splits)

lemma PgForceSetRef_no_mismatch: "PgForceSetRef h ts repo name new actor push db \<noteq> Err ErrRefMismatch"
  using pg.force_no_mismatch [of h repo actor push ts name new db] by (simp add: pg_ops_def)

lemma PgForceSetRef_target:
  "PgForceSetRef h ts repo name new actor push db = Ok db' \<Longrightarrow> pg_target db' repo = (pg_target db repo)(name \<mapsto> new)"
  using pg.force_Ok [of h repo actor push ts name new db db'] by (simp add: pg_ops_def)

lemma PgForceSetRef_objects:
  assumes "PgForceSetRef h ts repo name new actor push db = Ok db'"
  shows "ExtractObjectFromDB (repo_view repo db') d = ExtractObjectFromDB (repo_view repo db) d"
    "objects_typed b3 (repo_view repo db') = objects_typed b3 (repo_view repo db)"
    "segments (repo_view repo db') = segments (repo_view repo db)"
    "HasObject (repo_view repo db') d = HasObject (repo_view repo db) d"
proof -
  note f = PgForceSetRef_frame [OF assms]
  show e: "ExtractObjectFromDB (repo_view repo db') d = ExtractObjectFromDB (repo_view repo db) d" for d by (simp add: extract_defs f)
  show h: "HasObject (repo_view repo db') d = HasObject (repo_view repo db) d" for d by (simp add: HasObject_def f)
  show "segments (repo_view repo db') = segments (repo_view repo db)" by (simp add: f)
  show "objects_typed b3 (repo_view repo db') = objects_typed b3 (repo_view repo db)"
    by (simp add: objects_typed_def e h store_fresh_def f)
qed

lemma store_node_frame: "t_refs (store_node bs h ts repo kind c db) = t_refs db" "t_edges (store_node bs h ts repo kind c db) = t_edges db"
  by (simp_all add: store_node_def PgInsertSegmentTx_def PgInsertObjectTx_def Let_def)
section \<open>What the handlers do to reviews\<close>

definition review_state :: "blob_api \<Rightarrow> string \<Rightarrow> string \<Rightarrow> pg_db \<Rightarrow> string option" where
  "review_state bs repo reviewID db =
     (case load_review bs repo reviewID db of Reply (Some m) \<Rightarrow> Some (string_at m ''state'') | _ \<Rightarrow> None)"

lemma load_review_Reply:
  assumes "\<not> IsExternal bs"
  shows "load_review bs repo i db = Reply p \<longleftrightarrow>
    (\<exists>t content. pg_target db repo (review_ref i) = Some t \<and> ExtractObjectFromDB (repo_view repo db) t = Ok (content, ''Review'') \<and> payload_map content = Some p)"
  by (auto simp: load_review_def PgGetRef_def pg_target_def pg_extract_view [OF assms] split: option.splits go.splits if_splits)

lemma review_state_Some:
  assumes "\<not> IsExternal bs"
  shows "review_state bs repo i db = Some s \<longleftrightarrow>
    (\<exists>t content m. pg_target db repo (review_ref i) = Some t \<and> ExtractObjectFromDB (repo_view repo db) t = Ok (content, ''Review'') \<and>
       payload_map content = Some (Some m) \<and> s = text_at m ''state'')"
proof -
  have "review_state bs repo i db = Some s \<longleftrightarrow> (\<exists>m. load_review bs repo i db = Reply (Some m) \<and> s = string_at m ''state'')"
    by (auto simp: review_state_def split: reply.splits option.splits)
  then show ?thesis unfolding load_review_Reply [OF assms]
    by (metis payload_map_distinct string_at_distinct)
qed

text \<open>A review is the same when its ref is and nothing was lost.\<close>

lemma review_kept:
  assumes "\<not> IsExternal bs" and "extends (repo_view repo db) (repo_view repo db')"
    and "pg_target db' repo (review_ref i) = pg_target db repo (review_ref i)" and "review_state bs repo i db = Some s"
  shows "review_state bs repo i db' = Some s"
proof -
  obtain t content m where r: "pg_target db repo (review_ref i) = Some t" "ExtractObjectFromDB (repo_view repo db) t = Ok (content, ''Review'')"
      "payload_map content = Some (Some m)" "s = text_at m ''state''"
    using assms(4) unfolding review_state_Some [OF assms(1)] by blast
  have "ExtractObjectFromDB (repo_view repo db') t = Ok (content, ''Review'')"
    using assms(2) r(2) extract_has [OF r(2)] unfolding extends_def by blast
  then show ?thesis unfolding review_state_Some [OF assms(1)] using assms(3) r by auto
qed

lemma review_ref_inj [simp]: "review_ref i = review_ref j \<longleftrightarrow> i = j"
  by (simp add: review_ref_def)

lemma review_ref_main [simp]: "review_ref i \<noteq> ''snap.main''" "''snap.main'' \<noteq> review_ref i"
  by (simp_all add: review_ref_def)

text \<open>What the proofs assume of the parameters.\<close>

definition api_ok :: "review_api \<Rightarrow> bool" where
  "api_ok a \<longleftrightarrow> inj (rv_blake3 a) \<and> (\<forall>s. valid_number (rv_num a s)) \<and> \<not> IsExternal (rv_blobs a)"

definition good_store :: "review_api \<Rightarrow> string \<Rightarrow> pg_db \<Rightarrow> bool" where
  "good_store a repo db \<longleftrightarrow> objects_typed (rv_blake3 a) (repo_view repo db)"

definition fits :: "string \<Rightarrow> pg_db \<Rightarrow> bool" where
  "fits repo db \<longleftrightarrow> segments_fit (repo_view repo db)"

definition grows :: "string \<Rightarrow> pg_db \<Rightarrow> pg_db \<Rightarrow> bool" where
  "grows repo db db' \<longleftrightarrow> extends (repo_view repo db) (repo_view repo db')"

lemma fits_grows: "grows repo db db' \<Longrightarrow> fits repo db' \<Longrightarrow> fits repo db"
  by (auto simp: grows_def fits_def extends_def segments_fit_def)

text \<open>Storing a node and pointing a review's ref at it.\<close>

lemma node_bytes: "node_content num kind v = to_bytes (kind @ CHR 0x0A # canonicalMarshal num v)"
  by (simp add: node_content_def)

lemma store_node_good:
  assumes "api_ok a" and "good_store a repo db" and "kind \<in> {''Review'', ''ReviewComment''}"
    and "segments_fit (repo_view repo (store_node bs (rv_blake3 a) ts repo kind (node_content (rv_num a) kind v) db))"
  defines "c \<equiv> node_content (rv_num a) kind v"
  defines "db1 \<equiv> store_node bs (rv_blake3 a) ts repo kind c db"
  shows "good_store a repo db1 \<and> grows repo db db1 \<and> ExtractObjectFromDB (repo_view repo db1) (rv_blake3 a c) = Ok (c, kind) \<and>
    pg_target db1 repo = pg_target db repo"
proof -
  obtain s where "s \<in> set (segments (repo_view repo db1))" "seg_blob s = c"
    using store_object_segment by (metis db1_def store_node_view)
  then have "length c < 2 ^ 63" using assms(4) by (auto simp: segments_fit_def c_def db1_def)
  moreover have "CHR 0x0A \<notin> set kind" using assms(3) by auto
  ultimately show ?thesis
    using store_object_typed [of "rv_blake3 a" "repo_view repo db" c kind "canonicalMarshal (rv_num a) v" ts "rv_blake3 a c"] assms(1,2)
    by (simp add: good_store_def grows_def api_ok_def db1_def store_node_view c_def node_bytes pg_target_def store_node_frame fun_eq_iff)
qed

lemma force_good:
  assumes "PgForceSetRef h ts repo name new actor push db = Ok db'"
  shows "good_store a repo db' = good_store a repo db" "grows repo db db'" "fits repo db' = fits repo db"
    "ExtractObjectFromDB (repo_view repo db') d = ExtractObjectFromDB (repo_view repo db) d"
    "pg_target db' repo = (pg_target db repo)(name \<mapsto> new)"
  using PgForceSetRef_objects [OF assms] PgForceSetRef_target [OF assms]
  by (auto simp: good_store_def grows_def fits_def segments_fit_def extends_def)

lemma grows_trans: "grows repo a b \<Longrightarrow> grows repo b c \<Longrightarrow> grows repo a c"
  by (auto simp: grows_def intro: extends_trans)

lemma write_review_effect:
  assumes a: "api_ok a" "good_store a repo db" and p: "distinct (map fst payload)"
    and w: "write_review a ts repo i payload head db = (TxOk, Some db')" and f: "fits repo db'"
  shows "good_store a repo db' \<and> grows repo db db' \<and> review_state (rv_blobs a) repo i db' = Some (text_at payload ''state'') \<and>
    pg_target db' repo = (case head of None \<Rightarrow> pg_target db repo | Some h \<Rightarrow> (pg_target db repo)(''snap.main'' \<mapsto> h))
      (review_ref i \<mapsto> rv_blake3 a (review_content a payload))"
proof -
  let ?c = "review_content a payload"
  let ?d = "rv_blake3 a ?c"
  let ?db1 = "store_node (rv_blobs a) (rv_blake3 a) ts repo ''Review'' ?c db"
  obtain db2 where db2: "PgForceSetRef (rv_blake3 a) ts repo (review_ref i) ?d [] [] ?db1 = Ok db2"
      and db': "case head of None \<Rightarrow> db' = db2 | Some h \<Rightarrow> PgForceSetRef (rv_blake3 a) ts repo ''snap.main'' h [] [] db2 = Ok db'"
    using w by (auto simp: write_review_def Let_def tx_exec_def PgForceSetRef_no_mismatch split: option.splits go.splits if_splits)
  have l: "good_store a repo db' = good_store a repo db2 \<and> grows repo db2 db' \<and> fits repo db' = fits repo db2 \<and>
      (\<forall>d. ExtractObjectFromDB (repo_view repo db') d = ExtractObjectFromDB (repo_view repo db2) d) \<and>
      pg_target db' repo = (case head of None \<Rightarrow> pg_target db2 repo | Some h \<Rightarrow> (pg_target db2 repo)(''snap.main'' \<mapsto> h))"
  proof (cases head)
    case None
    then show ?thesis using db' by (simp add: grows_def extends_refl)
  next
    case (Some h)
    then have "PgForceSetRef (rv_blake3 a) ts repo ''snap.main'' h [] [] db2 = Ok db'" using db' by simp
    from force_good [OF this] show ?thesis by (simp add: Some)
  qed
  note m = force_good [OF db2]
  have fit1: "segments_fit (repo_view repo ?db1)" using f l m(3) by (simp add: fits_def)
  note s = store_node_good [OF a insertI1 fit1 [unfolded review_content_def], folded review_content_def]
  have e: "ExtractObjectFromDB (repo_view repo db') ?d = Ok (?c, ''Review'')" using s m(4) l by simp
  have t: "pg_target db' repo (review_ref i) = Some ?d" using l m(5) by (simp split: option.split)
  obtain p' where p': "payload_map ?c = Some (Some p')" "text_at p' = text_at payload"
    using payload_map_node [of "rv_num a" "''Review''" payload] a(1) p unfolding review_content_def api_ok_def by auto
  have "review_state (rv_blobs a) repo i db' = Some (text_at payload ''state'')"
    using a(1) e t p' by (subst review_state_Some) (auto simp: api_ok_def)
  moreover have "grows repo db db'" using s m(2) l grows_trans by blast
  ultimately show ?thesis using s m l by (auto simp: fun_eq_iff split: option.split)
qed
text \<open>What a request to change the state must satisfy, and its effect on refs.\<close>

definition transition_ok :: "string \<Rightarrow> string \<Rightarrow> bool" where
  "transition_ok s s' \<longleftrightarrow> s' \<in> set validStates \<and> transition_error s s' = None"

lemma UpdateReviewState_cases:
  assumes "UpdateReviewState a ts repo fullName i req db = (r, db', es)"
  obtains (nothing) "db' = db" "es = []" "\<forall>s. r \<noteq> Reply s"
  | (written) m head where "r = Reply (sq_State req)" "load_review (rv_blobs a) repo i db = Reply (Some m)"
      "transition_ok (string_at m ''state'') (sq_State req)"
      "(if sq_State req = ''merged'' then merge_head (rv_blobs a) repo db (state_payload ts req m) else Ok None) = Ok head"
      "write_review a ts repo i (state_payload ts req m) head db = (TxOk, Some db')"
  using assms by (auto simp: UpdateReviewState_def transition_ok_def Let_def split: if_splits reply.splits option.splits go.splits prod.splits tx_result.splits)

lemma UpdateReview_cases:
  assumes "UpdateReview a ts repo i req db = (r, db')"
  obtains (nothing) "db' = db"
  | (written) m where "load_review (rv_blobs a) repo i db = Reply (Some m)" "write_review a ts repo i (update_payload ts req m) None db = (TxOk, Some db')"
  using assms by (auto simp: UpdateReview_def split: if_splits reply.splits option.splits prod.splits tx_result.splits)

lemma PgInsertEdge_frame:
  assumes "PgInsertEdge repo e db = Ok db'"
  shows "repo_view repo db' = (repo_view repo db)\<lparr>edges := rows_of repo (t_edges db')\<rparr>" "t_refs db' = t_refs db"
  using assms by (auto simp: PgInsertEdge_def repo_view_def split: if_splits)

lemma CreateReviewComment_cases:
  assumes "CreateReviewComment a ts repo cid cp i req db = (r, db', es)"
  obtains (nothing) "db' = db"
  | (written) ref where "PgGetRef db repo (review_ref i) = Ok ref"
      "PgInsertEdge repo (comment_edge (Target ref) (rv_blake3 a (node_content (rv_num a) ''ReviewComment'' (VObj (new_comment ts cid req)))))
        (store_node (rv_blobs a) (rv_blake3 a) ts repo ''ReviewComment'' (node_content (rv_num a) ''ReviewComment'' (VObj (new_comment ts cid req))) db) = Ok db'"
  using assms by (auto simp: CreateReviewComment_def Let_def split: if_splits go.splits prod.splits)

lemma load_review_distinct: "api_ok a \<Longrightarrow> load_review (rv_blobs a) repo i db = Reply (Some m) \<Longrightarrow> distinct (map fst m)"
  by (auto simp: load_review_Reply api_ok_def dest: payload_map_distinct)

lemma UpdateReviewState_step:
  assumes a: "api_ok a" "good_store a repo db" "fits repo db'"
    and u: "UpdateReviewState a ts repo fullName i req db = (Reply s, db', es)"
  shows "s = sq_State req \<and> (\<exists>old. review_state (rv_blobs a) repo i db = Some old \<and> transition_ok old s) \<and>
    review_state (rv_blobs a) repo i db' = Some s \<and> good_store a repo db' \<and> grows repo db db' \<and>
    (\<forall>n. n \<noteq> review_ref i \<longrightarrow> n \<noteq> ''snap.main'' \<longrightarrow> pg_target db' repo n = pg_target db repo n)"
  using u
proof (cases rule: UpdateReviewState_cases)
  case (written m head)
  note d = load_review_distinct [OF a(1) written(2)]
  note w = write_review_effect [OF a(1,2) state_payload_members(1) [OF d] written(5) a(3)]
  show ?thesis using w written(1,2,3) state_payload_members(2) [OF d]
    by (auto simp: review_state_def split: option.split)
qed simp


section \<open>Runs of the review handlers\<close>

datatype review_op =
    OpCreate int bytes review_request
  | OpState int string string state_request
  | OpUpdate int string update_request
  | OpComment int string bool string comment_request

primrec review_apply :: "review_api \<Rightarrow> string \<Rightarrow> review_op \<Rightarrow> pg_db \<Rightarrow> pg_db" where
  "review_apply a repo (OpCreate ts idBytes req) db = snd (CreateReview a ts idBytes repo req db)"
| "review_apply a repo (OpState ts fullName i req) db = fst (snd (UpdateReviewState a ts repo fullName i req db))"
| "review_apply a repo (OpUpdate ts i req) db = snd (UpdateReview a ts repo i req db)"
| "review_apply a repo (OpComment ts c cp i req) db = fst (snd (CreateReviewComment a ts repo c cp i req db))"

definition review_run :: "review_api \<Rightarrow> string \<Rightarrow> review_op list \<Rightarrow> pg_db \<Rightarrow> pg_db" where
  "review_run a repo ops db = foldl (\<lambda>db op1. review_apply a repo op1 db) db ops"

definition creates :: "string \<Rightarrow> review_op \<Rightarrow> bool" where
  "creates i op1 \<longleftrightarrow> (case op1 of OpCreate ts idBytes req \<Rightarrow> hex_encode idBytes = i | _ \<Rightarrow> False)"

definition transitions :: "(string \<times> string) set" where
  "transitions = {(s, s'). transition_ok s s'}"

text \<open>The effect of one operation on the review of a given id.\<close>

definition review_moves :: "review_api \<Rightarrow> string \<Rightarrow> string \<Rightarrow> pg_db \<Rightarrow> pg_db \<Rightarrow> bool" where
  "review_moves a repo i db db' \<longleftrightarrow> good_store a repo db' \<and> grows repo db db' \<and>
     (\<forall>s. review_state (rv_blobs a) repo i db = Some s \<longrightarrow>
        (\<exists>s'. review_state (rv_blobs a) repo i db' = Some s' \<and> (s, s') \<in> transitions\<^sup>*))"

lemma review_moves_refl: "good_store a repo db \<Longrightarrow> review_moves a repo i db db"
  by (auto simp: review_moves_def grows_def extends_refl)

lemma review_moves_other:
  assumes "api_ok a" "good_store a repo db'" "grows repo db db'" "pg_target db' repo (review_ref i) = pg_target db repo (review_ref i)"
  shows "review_moves a repo i db db'"
  using assms review_kept [of "rv_blobs a" repo db db' i] by (auto simp: review_moves_def api_ok_def grows_def)

lemma review_apply_moves:
  assumes a: "api_ok a" "good_store a repo db" and f: "fits repo (review_apply a repo op1 db)" and c: "\<not> creates i op1"
  shows "review_moves a repo i db (review_apply a repo op1 db)"
proof (cases op1)
  case (OpCreate ts idBytes req)
  let ?db' = "review_apply a repo op1 db"
  show ?thesis
  proof (cases "?db' = db")
    case False
    let ?c = "review_content a (new_review ts req)"
    have w: "PgForceSetRef (rv_blake3 a) ts repo (review_ref (hex_encode idBytes)) (rv_blake3 a ?c) [] []
        (store_node (rv_blobs a) (rv_blake3 a) ts repo ''Review'' ?c db) = Ok ?db'"
      using False by (auto simp: OpCreate CreateReview_def Let_def split: if_splits go.splits)
    note m = force_good [OF w]
    have "segments_fit (repo_view repo (store_node (rv_blobs a) (rv_blake3 a) ts repo ''Review'' ?c db))" using f m(3) by (simp add: fits_def)
    note s = store_node_good [OF a insertI1 this [unfolded review_content_def], folded review_content_def]
    have "i \<noteq> hex_encode idBytes" using c by (auto simp: creates_def OpCreate)
    moreover have "grows repo db ?db'" using s m(2) grows_trans by blast
    ultimately show ?thesis using s m by (intro review_moves_other [OF a(1)]) simp_all
  qed (use review_moves_refl [OF a(2)] in simp)
next
  case (OpState ts fullName j req)
  obtain r es where u: "UpdateReviewState a ts repo fullName j req db = (r, review_apply a repo op1 db, es)"
    by (cases "UpdateReviewState a ts repo fullName j req db") (auto simp: OpState)
  show ?thesis
  proof (cases "\<exists>s. r = Reply s")
    case True
    then obtain s where "r = Reply s" by blast
    note s = UpdateReviewState_step [OF a f u [unfolded this]]
    show ?thesis
    proof (cases "j = i")
      case True
      then show ?thesis using s by (auto simp: review_moves_def transitions_def intro: r_into_rtrancl)
    next
      case False
      then show ?thesis using s by (intro review_moves_other [OF a(1)]) auto
    qed
  next
    case False
    from u have "review_apply a repo op1 db = db" by (cases rule: UpdateReviewState_cases) (use False in auto)
    then show ?thesis using review_moves_refl [OF a(2)] by simp
  qed
next
  case (OpUpdate ts j req)
  obtain r where u: "UpdateReview a ts repo j req db = (r, review_apply a repo op1 db)"
    by (cases "UpdateReview a ts repo j req db") (auto simp: OpUpdate)
  then show ?thesis
  proof (cases rule: UpdateReview_cases)
    case nothing
    then show ?thesis using review_moves_refl [OF a(2)] by simp
  next
    case (written m)
    note d = load_review_distinct [OF a(1) written(1)]
    note w = write_review_effect [OF a update_payload_members(1) [OF d] written(2) f]
    show ?thesis
    proof (cases "j = i")
      case True
      have "review_state (rv_blobs a) repo i db = Some (text_at m ''state'')"
        using written(1) True string_at_distinct [OF d] by (simp add: review_state_def)
      then show ?thesis using w True update_payload_members(2) [OF d] by (auto simp: review_moves_def)
    next
      case False
      then show ?thesis using w by (intro review_moves_other [OF a(1)]) simp_all
    qed
  qed
next
  case (OpComment ts cid cp j req)
  let ?db' = "review_apply a repo op1 db"
  obtain r es where u: "CreateReviewComment a ts repo cid cp j req db = (r, ?db', es)"
    by (cases "CreateReviewComment a ts repo cid cp j req db") (auto simp: OpComment)
  then show ?thesis
  proof (cases rule: CreateReviewComment_cases)
    case (written ref)
    let ?c = "node_content (rv_num a) ''ReviewComment'' (VObj (new_comment ts cid req))"
    let ?db1 = "store_node (rv_blobs a) (rv_blake3 a) ts repo ''ReviewComment'' ?c db"
    note e = PgInsertEdge_frame [OF written(2)]
    have x: "ExtractObjectFromDB (repo_view repo ?db') d = ExtractObjectFromDB (repo_view repo ?db1) d"
      "HasObject (repo_view repo ?db') d = HasObject (repo_view repo ?db1) d" "segments (repo_view repo ?db') = segments (repo_view repo ?db1)"
      "store_fresh (repo_view repo ?db') = store_fresh (repo_view repo ?db1)" for d
      using e(1) by (simp_all add: extract_defs HasObject_def store_fresh_def)
    have "segments_fit (repo_view repo ?db1)" using f x(3) by (simp add: fits_def segments_fit_def)
    note s = store_node_good [OF a insertI2 [OF singletonI] this]
    have "good_store a repo ?db'" using s by (simp add: good_store_def objects_typed_def x)
    moreover have "grows repo db ?db'" using s unfolding grows_def extends_def x by blast
    moreover have "pg_target ?db' repo = pg_target db repo" using s by (simp add: pg_target_def e(2) fun_eq_iff)
    ultimately show ?thesis by (intro review_moves_other [OF a(1)]) simp_all
  qed (use review_moves_refl [OF a(2)] in simp)
qed

lemma review_moves_trans: "review_moves a repo i x y \<Longrightarrow> review_moves a repo i y z \<Longrightarrow> review_moves a repo i x z"
  by (auto simp: review_moves_def intro: grows_trans) (meson rtrancl_trans)

text \<open>Segments are never lost, whatever is stored.\<close>

lemma store_node_segments: "set (segments (repo_view repo db)) \<subseteq> set (segments (repo_view repo (store_node bs h ts repo k c db)))"
  by (auto simp: store_node_view store_object_def InsertSegmentTx_def InsertSegment_def InsertObjectTx_def InsertObject_def)

lemma write_review_segments:
  assumes "write_review a ts repo i payload head db = (TxOk, Some db')"
  shows "set (segments (repo_view repo db)) \<subseteq> set (segments (repo_view repo db'))"
proof -
  let ?db1 = "store_node (rv_blobs a) (rv_blake3 a) ts repo ''Review'' (review_content a payload) db"
  have "t_segments db' = t_segments ?db1"
    using assms by (auto simp: write_review_def Let_def tx_exec_def PgForceSetRef_no_mismatch dest!: PgForceSetRef_frame(1)
        split: option.splits go.splits if_splits)
  then show ?thesis using store_node_segments [of repo db "rv_blobs a" "rv_blake3 a" ts "''Review''" "review_content a payload"] by simp
qed

lemma write_review_edges: "write_review a ts repo i payload head db = (TxOk, Some db') \<Longrightarrow> t_edges db' = t_edges db"
  by (auto simp: write_review_def Let_def tx_exec_def PgForceSetRef_no_mismatch store_node_frame dest!: PgForceSetRef_frame(4)
      split: option.splits go.splits if_splits)

lemma review_apply_segments: "set (segments (repo_view repo db)) \<subseteq> set (segments (repo_view repo (review_apply a repo op1 db)))"
proof (cases op1)
  case (OpCreate ts idBytes req)
  then show ?thesis
    using store_node_segments [of repo db "rv_blobs a" "rv_blake3 a" ts "''Review''" "review_content a (new_review ts req)"]
    by (auto simp: CreateReview_def Let_def dest!: PgForceSetRef_objects(3) split: go.split)
next
  case (OpState ts fullName j req)
  obtain r es where u: "UpdateReviewState a ts repo fullName j req db = (r, review_apply a repo op1 db, es)"
    by (cases "UpdateReviewState a ts repo fullName j req db") (auto simp: OpState)
  then show ?thesis by (cases rule: UpdateReviewState_cases) (simp, rule write_review_segments)
next
  case (OpUpdate ts j req)
  obtain r where u: "UpdateReview a ts repo j req db = (r, review_apply a repo op1 db)"
    by (cases "UpdateReview a ts repo j req db") (auto simp: OpUpdate)
  then show ?thesis by (cases rule: UpdateReview_cases) (simp, rule write_review_segments)
next
  case (OpComment ts cid cp j req)
  obtain r es where u: "CreateReviewComment a ts repo cid cp j req db = (r, review_apply a repo op1 db, es)"
    by (cases "CreateReviewComment a ts repo cid cp j req db") (auto simp: OpComment)
  then show ?thesis
  proof (cases rule: CreateReviewComment_cases)
    case (written ref)
    then show ?thesis using PgInsertEdge_frame(1) [OF written(2)] store_node_segments [of repo db] by simp
  qed simp
qed

lemma review_run_Cons: "review_run a repo (op1 # ops) db = review_run a repo ops (review_apply a repo op1 db)"
  by (simp add: review_run_def)

lemma review_run_segments: "set (segments (repo_view repo db)) \<subseteq> set (segments (repo_view repo (review_run a repo ops db)))"
proof (induction ops arbitrary: db)
  case (Cons op1 ops)
  show ?case unfolding review_run_Cons by (rule subset_trans [OF review_apply_segments Cons.IH])
qed (simp add: review_run_def)

lemma review_run_moves:
  assumes "api_ok a" "good_store a repo db" "fits repo (review_run a repo ops db)" "\<forall>op1 \<in> set ops. \<not> creates i op1"
  shows "review_moves a repo i db (review_run a repo ops db)"
  using assms(2-4)
proof (induction ops arbitrary: db)
  case (Cons op1 ops)
  let ?mid = "review_apply a repo op1 db"
  have f: "fits repo ?mid"
    using Cons.prems(2) review_run_segments [of repo ?mid a ops] by (auto simp: review_run_Cons fits_def segments_fit_def)
  have m: "review_moves a repo i db ?mid" by (rule review_apply_moves) (use assms(1) Cons.prems f in auto)
  moreover have "review_moves a repo i ?mid (review_run a repo ops ?mid)"
    by (rule Cons.IH) (use m Cons.prems in \<open>auto simp: review_moves_def review_run_Cons\<close>)
  ultimately show ?case unfolding review_run_Cons by (rule review_moves_trans)
qed (simp add: review_run_def review_moves_refl)

lemma terminal_stays: "s \<in> {''merged'', ''abandoned''} \<Longrightarrow> (s, s') \<in> transitions\<^sup>* \<Longrightarrow> s' = s"
proof -
  assume s: "s \<in> {''merged'', ''abandoned''}" and r: "(s, s') \<in> transitions\<^sup>*"
  have "(s, t) \<notin> transitions" for t
    using s by (auto simp: transitions_def transition_ok_def transition_error_def validTransitions_def)
  then show "s' = s" using r by (metis converse_rtranclE)
qed


section \<open>An example\<close>

definition ex_review_api :: review_api where
  "ex_review_api = \<lparr>rv_blobs = InlineStore, rv_blake3 = id, rv_num = (\<lambda>s. if valid_number s then s else ''0'')\<rparr>"

definition ex_review :: payload where
  "ex_review = [(''state'', VStr ''open''), (''title'', VStr ''t'')]"

definition ex_review_content :: bytes where
  "ex_review_content = review_content ex_review_api ex_review"

definition ex_review_db :: pg_db where
  "ex_review_db = \<lparr>t_segments = [(''a'', \<lparr>seg_id = 1, seg_ts = 0, seg_checksum = [], seg_size = 9, seg_blob = ex_review_content\<rparr>)],
     t_next_segment = 2, t_objects = [(''a'', \<lparr>Digest = ex_review_content, SegmentID = 1, Off = 0,
       Len = word_of_nat (length ex_review_content), ObjKind = ''Review'', CreatedAt = 0\<rparr>)],
     t_refs = [(''a'', \<lparr>RefName = ''review.1'', Target = ex_review_content, UpdatedAt = 0, RefActor = [], PushID = []\<rparr>)],
     t_history = [], t_next_history = 1, t_publish = [], t_next_publish = 1, t_enrich = [], t_next_enrich = 1,
     t_edges = [(''a'', comment_edge ex_review_content ex_review_content)], t_authorship = []\<rparr>"

definition ex_state_request :: state_request where
  "ex_state_request = \<lparr>sq_State = ''approved'', sq_Summary = [], sq_Actor = ''x'', sq_Comments = []\<rparr>"

lemma ex_review_api_ok: "api_ok ex_review_api"
proof -
  have "valid_number ''0''" by code_simp
  then show ?thesis by (simp add: api_ok_def ex_review_api_def InlineStore_def)
qed

lemma ex_content_text: "ex_review_content = to_bytes (''Review'' @ CHR 0x0A # canonicalMarshal (rv_num ex_review_api) (VObj ex_review))"
  by (simp add: ex_review_content_def review_content_def node_content_def)

lemma ex_content_short: "length ex_review_content < 2 ^ 63"
proof -
  have "length (canonicalMarshal (rv_num ex_review_api) (VObj ex_review)) < 100" by code_simp
  then show ?thesis by (simp add: ex_content_text)
qed

lemma ex_review_good: "good_store ex_review_api ''a'' ex_review_db" "fits ''a'' ex_review_db"
proof -
  have b: "rv_blake3 ex_review_api = id" by (simp add: ex_review_api_def)
  have "\<exists>rest. ex_review_content = to_bytes ''Review'' @ 10 # to_bytes rest"
    using ex_content_text unfolding to_bytes_append to_bytes_line by blast
  then show "good_store ex_review_api ''a'' ex_review_db"
    by (auto simp: good_store_def objects_typed_def store_fresh_def ex_review_db_def rows_of_def HasObject_def extract_defs
        slice64_whole [OF ex_content_short] object_ok_def b)
  show "fits ''a'' ex_review_db" using ex_content_short by (simp add: fits_def segments_fit_def ex_review_db_def rows_of_def)
qed

lemma ex_review_loaded: "load_review (rv_blobs ex_review_api) ''a'' ''1'' ex_review_db = Reply (Some ex_review)"
proof -
  have p: "payload_map ex_review_content = Some (Some ex_review)"
  proof -
    have k: "CHR 0x0A \<notin> set ''Review''" by simp
    have "json_ok (rv_num ex_review_api) (VObj ex_review)" by (simp add: json_ok_def ex_review_def)
    from Unmarshal_canonical [OF this] show ?thesis
      by (simp add: payload_map_def ex_review_content_def review_content_def parsePayload_node [OF k] as_read_VObj del: canonicalMarshal.simps)
        (simp add: ex_review_def go_members_def)
  qed
  show ?thesis
    using p ex_review_api_ok
    by (simp add: load_review_Reply api_ok_def) (simp add: pg_target_def pg_find_def at_repo_def ex_review_db_def review_ref_def extract_defs rows_of_def
      slice64_whole [OF ex_content_short])
qed

lemma force_first: "t_history db = [] \<Longrightarrow> \<exists>db'. PgForceSetRef h ts repo n new actor push db = Ok db'"
  by (simp add: PgForceSetRef_def pg_append_history_def pg_upsert_ref_def pg_find_def Let_def)

lemma ex_update:
  obtains db' es where "UpdateReviewState ex_review_api 5 ''a'' ''o/a'' ''1'' ex_state_request ex_review_db = (Reply ''approved'', db', es)"
    "fits ''a'' db'" "pg_target db' ''a'' ''review.1'' = Some (review_content ex_review_api (state_payload 5 ex_state_request ex_review))"
proof -
  let ?p = "state_payload 5 ex_state_request ex_review"
  let ?c = "review_content ex_review_api ?p"
  let ?db1 = "store_node (rv_blobs ex_review_api) (rv_blake3 ex_review_api) 5 ''a'' ''Review'' ?c ex_review_db"
  have h: "t_history ?db1 = []" by (simp add: store_node_def PgInsertSegmentTx_def PgInsertObjectTx_def ex_review_db_def Let_def)
  obtain db' where d: "PgForceSetRef (rv_blake3 ex_review_api) 5 ''a'' (review_ref ''1'') (rv_blake3 ex_review_api ?c) [] [] ?db1 = Ok db'"
    using force_first [OF h] by blast
  then have w: "write_review ex_review_api 5 ''a'' ''1'' ?p None ex_review_db = (TxOk, Some db')"
    by (simp add: write_review_def Let_def tx_exec_def)
  have t: "transition_error (string_at ex_review ''state'') ''approved'' = None" by code_simp
  have "UpdateReviewState ex_review_api 5 ''a'' ''o/a'' ''1'' ex_state_request ex_review_db =
      (Reply ''approved'', db', state_event ''o/a'' ''1'' ex_state_request ?p)"
    using w t by (simp add: UpdateReviewState_def ex_review_loaded ex_state_request_def validStates_def Let_def)
  moreover have "length ?c < 2 ^ 63"
  proof -
    have "length (canonicalMarshal (rv_num ex_review_api) (VObj ?p)) < 200" by code_simp
    then show ?thesis by (simp add: review_content_def node_content_def)
  qed
  then have "fits ''a'' db'"
    using ex_review_good(2) unfolding force_good(3) [OF d] by (auto simp: fits_def segments_fit_def store_node_def PgInsertSegmentTx_def PgInsertObjectTx_def Let_def pg_rows)
  moreover have "rv_blake3 ex_review_api ?c = ?c" by (simp add: ex_review_api_def)
  ultimately show ?thesis using force_good(5) [OF d] that by (simp add: review_ref_def)
qed




end
