(* ===== verification/Accounts.thy ===== *)
theory Accounts
  imports PgStore "HOL-Library.List_Lexorder" "HOL-Library.Char_ord"
begin

text \<open>
  The database of the control plane: users, sessions, organizations, memberships, repositories, tokens, keys, webhooks and
  signups (\<open>src/kailab-control/internal/db/db.go\<close>, \<open>schema/*.sql\<close>) and the roles and scopes of
  \<open>model/models.go\<close>. The same code runs on SQLite and on Postgres. A table is the list of its rows in the order of
  insertion; constraints of the schema are errors of the insert or the update. New ids are parameters, and so is the time, in
  seconds. Errors of the connection are left out here; \<open>ControlApi\<close> has them where the code reacts to them.
\<close>

section \<open>Roles and scopes\<close>

definition RoleHierarchy :: "(string \<times> int) list" where
  "RoleHierarchy = [(''guest'', 0), (''reporter'', 1), (''developer'', 2), (''maintainer'', 3), (''admin'', 4), (''owner'', 5)]"

text \<open>A map gives zero for a key it does not have.\<close>

definition role_rank :: "string \<Rightarrow> int" where
  "role_rank role = (case map_of RoleHierarchy role of Some n \<Rightarrow> n | None \<Rightarrow> 0)"

definition HasAtLeastRole :: "string \<Rightarrow> string \<Rightarrow> bool" where
  "HasAtLeastRole role required \<longleftrightarrow> role_rank role \<ge> role_rank required"

definition HasScope :: "string list \<Rightarrow> string \<Rightarrow> bool" where
  "HasScope scopes required \<longleftrightarrow> list_ex (\<lambda>s. s = required) scopes"

section \<open>Tables\<close>

datatype driver = SQLite | Postgres

datatype account_error = NotFound | InvalidRole | UniqueViolation | ForeignKeyViolation | CheckViolation | DbFailure

record user_row =
  us_ID :: string
  us_Email :: string
  us_Name :: string
  us_CIAccess :: bool
  us_CIRequested :: bool
  us_CreatedAt :: int
  us_LastLogin :: "int option"

record session_row =
  se_ID :: string
  se_UserID :: string
  se_RefreshHash :: string
  se_UserAgent :: string
  se_IP :: string
  se_CreatedAt :: int
  se_ExpiresAt :: int

record link_row =
  ml_ID :: string
  ml_Email :: string
  ml_TokenHash :: string
  ml_CreatedAt :: int
  ml_ExpiresAt :: int
  ml_UsedAt :: "int option"

record org_row =
  or_ID :: string
  or_Slug :: string
  or_Name :: string
  or_OwnerID :: string
  or_Plan :: string
  or_CreatedAt :: int

record member_row =
  mb_UserID :: string
  mb_OrgID :: string
  mb_Role :: string
  mb_CreatedAt :: int

record repo_row =
  rp_ID :: string
  rp_OrgID :: string
  rp_Name :: string
  rp_Visibility :: string
  rp_ShardHint :: string
  rp_CreatedBy :: string
  rp_CreatedAt :: int

record token_row =
  tk_ID :: string
  tk_UserID :: string
  tk_OrgID :: "string option"
  tk_Name :: string
  tk_Hash :: string
  tk_Scopes :: "string list"
  tk_CreatedAt :: int
  tk_LastUsed :: "int option"

record audit_row =
  au_ID :: string
  au_OrgID :: "string option"
  au_ActorID :: "string option"
  au_Action :: string
  au_TargetType :: string
  au_TargetID :: string
  au_Data :: "(string \<times> string) list"
  au_TS :: int

record key_row =
  ky_ID :: string
  ky_UserID :: string
  ky_Name :: string
  ky_Fingerprint :: string
  ky_PublicKey :: string
  ky_CreatedAt :: int
  ky_LastUsed :: "int option"

record hook_row =
  hk_ID :: string
  hk_RepoID :: string
  hk_URL :: string
  hk_Secret :: string
  hk_Events :: string
  hk_Active :: bool
  hk_CreatedAt :: int
  hk_UpdatedAt :: int

record delivery_row =
  dl_ID :: string
  dl_HookID :: string
  dl_Event :: string
  dl_Payload :: string
  dl_Status :: string
  dl_Response :: "(int \<times> string) option"
  dl_Attempts :: int
  dl_CreatedAt :: int
  dl_DeliveredAt :: "int option"

record signup_row =
  sg_ID :: string
  sg_Name :: string
  sg_Email :: string
  sg_Company :: string
  sg_RepoURL :: string
  sg_AIUsage :: string
  sg_Status :: string
  sg_Notes :: string
  sg_SubmittedAt :: int
  sg_UpdatedAt :: "int option"

record control_db =
  c_driver :: driver
  c_users :: "user_row list"
  c_sessions :: "session_row list"
  c_links :: "link_row list"
  c_orgs :: "org_row list"
  c_members :: "member_row list"
  c_repos :: "repo_row list"
  c_tokens :: "token_row list"
  c_audit :: "audit_row list"
  c_keys :: "key_row list"
  c_hooks :: "hook_row list"
  c_deliveries :: "delivery_row list"
  c_signups :: "signup_row list"

type_synonym 'a control_op = "control_db \<Rightarrow> (account_error, 'a) go \<times> control_db"

definition find_row :: "('r \<Rightarrow> bool) \<Rightarrow> 'r list \<Rightarrow> (account_error, 'r) go" where
  "find_row P t = (case find P t of Some r \<Rightarrow> Ok r | None \<Rightarrow> Err NotFound)"

definition set_where :: "('r \<Rightarrow> bool) \<Rightarrow> ('r \<Rightarrow> 'r) \<Rightarrow> 'r list \<Rightarrow> 'r list" where
  "set_where P f t = map (\<lambda>r. if P r then f r else r) t"

text \<open>\<open>ORDER BY n DESC\<close> and \<open>LIMIT\<close>.\<close>

definition newest :: "('r \<Rightarrow> int) \<Rightarrow> 'r list \<Rightarrow> 'r list" where
  "newest f t = sort_key (\<lambda>r. - f r) t"

section \<open>Users\<close>

text \<open>SQLite's column ignores the case of letters, Postgres' does not; the lookup ignores it on both.\<close>

definition fold_case :: "string \<Rightarrow> string" where
  "fold_case s = map to_lower s"

definition same_email :: "driver \<Rightarrow> string \<Rightarrow> string \<Rightarrow> bool" where
  "same_email drv a b \<longleftrightarrow> (case drv of SQLite \<Rightarrow> fold_case a = fold_case b | Postgres \<Rightarrow> a = b)"

definition GetUserByID :: "control_db \<Rightarrow> string \<Rightarrow> (account_error, user_row) go" where
  "GetUserByID db uid = find_row (\<lambda>u. us_ID u = uid) (c_users db)"

definition GetUserByEmail :: "control_db \<Rightarrow> string \<Rightarrow> (account_error, user_row) go" where
  "GetUserByEmail db email = find_row (\<lambda>u. fold_case (us_Email u) = fold_case email) (c_users db)"

definition CreateUser :: "int \<Rightarrow> string \<Rightarrow> string \<Rightarrow> string \<Rightarrow> user_row control_op" where
  "CreateUser ts uid email name db =
     (if \<exists>u \<in> set (c_users db). us_ID u = uid \<or> same_email (c_driver db) (us_Email u) email then (Err UniqueViolation, db)
      else let u = \<lparr>us_ID = uid, us_Email = email, us_Name = name, us_CIAccess = False, us_CIRequested = False, us_CreatedAt = ts, us_LastLogin = None\<rparr>
           in (Ok u, db\<lparr>c_users := c_users db @ [u]\<rparr>))"

definition GetOrCreateUser :: "int \<Rightarrow> string \<Rightarrow> string \<Rightarrow> string \<Rightarrow> (user_row \<times> bool) control_op" where
  "GetOrCreateUser ts uid email name db =
     (case GetUserByEmail db email of
        Ok u \<Rightarrow> (Ok (u, False), db)
      | Err e \<Rightarrow> (if e \<noteq> NotFound then (Err e, db)
          else case CreateUser ts uid email name db of
            (Ok u, db') \<Rightarrow> (Ok (u, True), db') | (Err e, db') \<Rightarrow> (Err e, db') | (Panic, db') \<Rightarrow> (Panic, db'))
      | Panic \<Rightarrow> (Panic, db))"

definition UpdateUserCIAccess :: "string \<Rightarrow> bool \<Rightarrow> control_db \<Rightarrow> control_db" where
  "UpdateUserCIAccess uid ciAccess db = db\<lparr>c_users := set_where (\<lambda>u. us_ID u = uid) (us_CIAccess_update (\<lambda>_. ciAccess)) (c_users db)\<rparr>"

text \<open>The latest login first; users who never logged in are first on Postgres and last on SQLite.\<close>

definition login_order :: "driver \<Rightarrow> user_row \<Rightarrow> int list" where
  "login_order drv u = (case us_LastLogin u of
     None \<Rightarrow> [case drv of Postgres \<Rightarrow> 0 | SQLite \<Rightarrow> 2] | Some t \<Rightarrow> [1, - t])"

definition ListCIRequests :: "control_db \<Rightarrow> user_row list" where
  "ListCIRequests db = sort_key (login_order (c_driver db)) (filter us_CIRequested (c_users db))"

definition db_RequestCIAccess :: "string \<Rightarrow> control_db \<Rightarrow> control_db" where
  "db_RequestCIAccess uid db = db\<lparr>c_users := set_where (\<lambda>u. us_ID u = uid) (us_CIRequested_update (\<lambda>_. True)) (c_users db)\<rparr>"

definition UpdateLastLogin :: "int \<Rightarrow> string \<Rightarrow> control_db \<Rightarrow> control_db" where
  "UpdateLastLogin ts uid db = db\<lparr>c_users := set_where (\<lambda>u. us_ID u = uid) (us_LastLogin_update (\<lambda>_. Some ts)) (c_users db)\<rparr>"

definition user_exists :: "control_db \<Rightarrow> string \<Rightarrow> bool" where
  "user_exists db uid \<longleftrightarrow> (\<exists>u \<in> set (c_users db). us_ID u = uid)"

section \<open>Magic links and sessions\<close>

definition CreateMagicLink :: "int \<Rightarrow> string \<Rightarrow> string \<Rightarrow> string \<Rightarrow> int \<Rightarrow> unit control_op" where
  "CreateMagicLink ts lid email tokenHash expiresAt db =
     (if \<exists>l \<in> set (c_links db). ml_ID l = lid \<or> ml_TokenHash l = tokenHash then (Err UniqueViolation, db)
      else (Ok (), db\<lparr>c_links := c_links db @ [\<lparr>ml_ID = lid, ml_Email = email, ml_TokenHash = tokenHash, ml_CreatedAt = ts,
        ml_ExpiresAt = expiresAt, ml_UsedAt = None\<rparr>]\<rparr>))"

definition GetMagicLink :: "control_db \<Rightarrow> string \<Rightarrow> (account_error, link_row) go" where
  "GetMagicLink db tokenHash = find_row (\<lambda>l. ml_TokenHash l = tokenHash) (c_links db)"

definition UseMagicLink :: "int \<Rightarrow> string \<Rightarrow> control_db \<Rightarrow> control_db" where
  "UseMagicLink ts lid db = db\<lparr>c_links := set_where (\<lambda>l. ml_ID l = lid) (ml_UsedAt_update (\<lambda>_. Some ts)) (c_links db)\<rparr>"

definition CleanupExpiredMagicLinks :: "int \<Rightarrow> control_db \<Rightarrow> control_db" where
  "CleanupExpiredMagicLinks ts db = db\<lparr>c_links := filter (\<lambda>l. \<not> ml_ExpiresAt l < ts) (c_links db)\<rparr>"

definition CreateSession :: "int \<Rightarrow> string \<Rightarrow> string \<Rightarrow> string \<Rightarrow> string \<Rightarrow> string \<Rightarrow> int \<Rightarrow> session_row control_op" where
  "CreateSession ts sid uid refreshHash userAgent ip expiresAt db =
     (if \<exists>s \<in> set (c_sessions db). se_ID s = sid then (Err UniqueViolation, db)
      else if \<not> user_exists db uid then (Err ForeignKeyViolation, db)
      else let s = \<lparr>se_ID = sid, se_UserID = uid, se_RefreshHash = refreshHash, se_UserAgent = userAgent, se_IP = ip, se_CreatedAt = ts, se_ExpiresAt = expiresAt\<rparr>
           in (Ok s, db\<lparr>c_sessions := c_sessions db @ [s]\<rparr>))"

definition GetSession :: "control_db \<Rightarrow> string \<Rightarrow> (account_error, session_row) go" where
  "GetSession db sid = find_row (\<lambda>s. se_ID s = sid) (c_sessions db)"

definition GetSessionByRefreshHash :: "control_db \<Rightarrow> string \<Rightarrow> (account_error, session_row) go" where
  "GetSessionByRefreshHash db hash = find_row (\<lambda>s. se_RefreshHash s = hash) (c_sessions db)"

definition DeleteSession :: "string \<Rightarrow> control_db \<Rightarrow> control_db" where
  "DeleteSession sid db = db\<lparr>c_sessions := filter (\<lambda>s. se_ID s \<noteq> sid) (c_sessions db)\<rparr>"

definition DeleteUserSessions :: "string \<Rightarrow> control_db \<Rightarrow> control_db" where
  "DeleteUserSessions uid db = db\<lparr>c_sessions := filter (\<lambda>s. se_UserID s \<noteq> uid) (c_sessions db)\<rparr>"

section \<open>Organizations and members\<close>

definition org_exists :: "control_db \<Rightarrow> string \<Rightarrow> bool" where
  "org_exists db oid \<longleftrightarrow> (\<exists>o' \<in> set (c_orgs db). or_ID o' = oid)"

definition GetOrgByID :: "control_db \<Rightarrow> string \<Rightarrow> (account_error, org_row) go" where
  "GetOrgByID db oid = find_row (\<lambda>r. or_ID r = oid) (c_orgs db)"

definition GetOrgBySlug :: "control_db \<Rightarrow> string \<Rightarrow> (account_error, org_row) go" where
  "GetOrgBySlug db slug = find_row (\<lambda>r. or_Slug r = slug) (c_orgs db)"

text \<open>The organization and the membership of its owner are written one after the other, not in a transaction.\<close>

definition CreateOrg :: "int \<Rightarrow> string \<Rightarrow> string \<Rightarrow> string \<Rightarrow> string \<Rightarrow> org_row control_op" where
  "CreateOrg ts oid slug name ownerID db =
     (if \<exists>r \<in> set (c_orgs db). or_ID r = oid \<or> or_Slug r = slug then (Err UniqueViolation, db)
      else if \<not> user_exists db ownerID then (Err ForeignKeyViolation, db)
      else let r = \<lparr>or_ID = oid, or_Slug = slug, or_Name = name, or_OwnerID = ownerID, or_Plan = ''free'', or_CreatedAt = ts\<rparr>;
               db = db\<lparr>c_orgs := c_orgs db @ [r]\<rparr>
           in if \<exists>m \<in> set (c_members db). mb_UserID m = ownerID \<and> mb_OrgID m = oid then (Err UniqueViolation, db)
              else (Ok r, db\<lparr>c_members := c_members db @ [\<lparr>mb_UserID = ownerID, mb_OrgID = oid, mb_Role = ''owner'', mb_CreatedAt = ts\<rparr>]\<rparr>))"

text \<open>The organizations of a user with the role in them and the number of their members, by name.\<close>

definition ListUserOrgs :: "control_db \<Rightarrow> string \<Rightarrow> (org_row \<times> string \<times> nat) list" where
  "ListUserOrgs db uid = sort_key (\<lambda>(r, _). or_Name r)
     [(r, mb_Role m, length (filter (\<lambda>m'. mb_OrgID m' = or_ID r) (c_members db))). r \<leftarrow> c_orgs db, m \<leftarrow> c_members db, mb_OrgID m = or_ID r \<and> mb_UserID m = uid]"

text \<open>An upsert: Postgres changes the role of the row, SQLite replaces the row.\<close>

definition AddMember :: "int \<Rightarrow> string \<Rightarrow> string \<Rightarrow> string \<Rightarrow> unit control_op" where
  "AddMember ts oid uid role db =
     (if role \<notin> fst ` set RoleHierarchy then (Err InvalidRole, db)
      else if \<not> user_exists db uid \<or> \<not> org_exists db oid then (Err ForeignKeyViolation, db)
      else let here = (\<lambda>m. mb_UserID m = uid \<and> mb_OrgID m = oid);
               row = \<lparr>mb_UserID = uid, mb_OrgID = oid, mb_Role = role, mb_CreatedAt = ts\<rparr>
           in (Ok (), db\<lparr>c_members :=
             (if c_driver db = Postgres \<and> (\<exists>m \<in> set (c_members db). here m) then set_where here (mb_Role_update (\<lambda>_. role)) (c_members db)
              else filter (\<lambda>m. \<not> here m) (c_members db) @ [row])\<rparr>))"

definition RemoveMember :: "string \<Rightarrow> string \<Rightarrow> control_db \<Rightarrow> control_db" where
  "RemoveMember oid uid db = db\<lparr>c_members := filter (\<lambda>m. \<not> (mb_OrgID m = oid \<and> mb_UserID m = uid)) (c_members db)\<rparr>"

definition GetMembership :: "control_db \<Rightarrow> string \<Rightarrow> string \<Rightarrow> (account_error, member_row) go" where
  "GetMembership db oid uid = find_row (\<lambda>m. mb_OrgID m = oid \<and> mb_UserID m = uid) (c_members db)"

definition ListOrgMembers :: "control_db \<Rightarrow> string \<Rightarrow> member_row list" where
  "ListOrgMembers db oid = filter (\<lambda>m. mb_OrgID m = oid) (c_members db)"

section \<open>Repositories\<close>

definition visibilities :: "string list" where
  "visibilities = [''private'', ''public'', ''internal'']"

definition GetRepoByID :: "control_db \<Rightarrow> string \<Rightarrow> (account_error, repo_row) go" where
  "GetRepoByID db rid = find_row (\<lambda>r. rp_ID r = rid) (c_repos db)"

definition GetRepoByOrgAndName :: "control_db \<Rightarrow> string \<Rightarrow> string \<Rightarrow> (account_error, repo_row) go" where
  "GetRepoByOrgAndName db oid name = find_row (\<lambda>r. rp_OrgID r = oid \<and> rp_Name r = name) (c_repos db)"

definition ListOrgRepos :: "control_db \<Rightarrow> string \<Rightarrow> repo_row list" where
  "ListOrgRepos db oid = sort_key rp_Name (filter (\<lambda>r. rp_OrgID r = oid) (c_repos db))"

definition CreateRepo :: "int \<Rightarrow> string \<Rightarrow> string \<Rightarrow> string \<Rightarrow> string \<Rightarrow> string \<Rightarrow> string \<Rightarrow> repo_row control_op" where
  "CreateRepo ts rid oid name visibility shardHint createdBy db =
     (if visibility \<notin> set visibilities then (Err CheckViolation, db)
      else if \<exists>r \<in> set (c_repos db). rp_ID r = rid \<or> rp_OrgID r = oid \<and> rp_Name r = name then (Err UniqueViolation, db)
      else if \<not> org_exists db oid \<or> \<not> user_exists db createdBy then (Err ForeignKeyViolation, db)
      else let r = \<lparr>rp_ID = rid, rp_OrgID = oid, rp_Name = name, rp_Visibility = visibility, rp_ShardHint = shardHint,
                 rp_CreatedBy = createdBy, rp_CreatedAt = ts\<rparr>
           in (Ok r, db\<lparr>c_repos := c_repos db @ [r]\<rparr>))"

definition UpdateRepo :: "string \<Rightarrow> string \<Rightarrow> string \<Rightarrow> repo_row control_op" where
  "UpdateRepo rid name visibility db =
     (case GetRepoByID db rid of
        Ok r \<Rightarrow>
          (if visibility \<notin> set visibilities then (Err CheckViolation, db)
           else if \<exists>r' \<in> set (c_repos db). rp_ID r' \<noteq> rid \<and> rp_OrgID r' = rp_OrgID r \<and> rp_Name r' = name then (Err UniqueViolation, db)
           else let db = db\<lparr>c_repos := set_where (\<lambda>r. rp_ID r = rid) (\<lambda>r. r\<lparr>rp_Name := name, rp_Visibility := visibility\<rparr>) (c_repos db)\<rparr>
                in (GetRepoByID db rid, db))
      | _ \<Rightarrow> (Err NotFound, db))"

text \<open>The webhooks of the repository and their deliveries go with it.\<close>

definition DeleteRepo :: "string \<Rightarrow> control_db \<Rightarrow> control_db" where
  "DeleteRepo rid db =
     (let gone = map hk_ID (filter (\<lambda>h. hk_RepoID h = rid) (c_hooks db)) in
      db\<lparr>c_repos := filter (\<lambda>r. rp_ID r \<noteq> rid) (c_repos db), c_hooks := filter (\<lambda>h. hk_RepoID h \<noteq> rid) (c_hooks db),
         c_deliveries := filter (\<lambda>d. dl_HookID d \<notin> set gone) (c_deliveries db)\<rparr>)"

section \<open>Tokens, audit and keys\<close>

text \<open>The scopes are stored as a JSON array and read back, as a list here.\<close>

definition GetAPIToken :: "control_db \<Rightarrow> string \<Rightarrow> (account_error, token_row) go" where
  "GetAPIToken db tid = find_row (\<lambda>t. tk_ID t = tid) (c_tokens db)"

definition GetAPITokenByHash :: "control_db \<Rightarrow> string \<Rightarrow> (account_error, token_row) go" where
  "GetAPITokenByHash db hash = find_row (\<lambda>t. tk_Hash t = hash) (c_tokens db)"

definition CreateAPIToken :: "int \<Rightarrow> string \<Rightarrow> string \<Rightarrow> string \<Rightarrow> string \<Rightarrow> string \<Rightarrow> string list \<Rightarrow> token_row control_op" where
  "CreateAPIToken ts tid uid oid name hash scopes db =
     (if \<exists>t \<in> set (c_tokens db). tk_ID t = tid then (Err UniqueViolation, db)
      else if \<not> user_exists db uid then (Err ForeignKeyViolation, db)
      else let t = \<lparr>tk_ID = tid, tk_UserID = uid, tk_OrgID = (if oid = [] then None else Some oid), tk_Name = name, tk_Hash = hash,
                 tk_Scopes = scopes, tk_CreatedAt = ts, tk_LastUsed = None\<rparr>
           in (Ok t, db\<lparr>c_tokens := c_tokens db @ [t]\<rparr>))"

definition ListUserAPITokens :: "control_db \<Rightarrow> string \<Rightarrow> token_row list" where
  "ListUserAPITokens db uid = newest tk_CreatedAt (filter (\<lambda>t. tk_UserID t = uid) (c_tokens db))"

definition DeleteAPIToken :: "string \<Rightarrow> control_db \<Rightarrow> control_db" where
  "DeleteAPIToken tid db = db\<lparr>c_tokens := filter (\<lambda>t. tk_ID t \<noteq> tid) (c_tokens db)\<rparr>"

definition UpdateAPITokenLastUsed :: "int \<Rightarrow> string \<Rightarrow> control_db \<Rightarrow> control_db" where
  "UpdateAPITokenLastUsed ts tid db = db\<lparr>c_tokens := set_where (\<lambda>t. tk_ID t = tid) (tk_LastUsed_update (\<lambda>_. Some ts)) (c_tokens db)\<rparr>"

definition WriteAudit ::
  "int \<Rightarrow> string \<Rightarrow> string option \<Rightarrow> string option \<Rightarrow> string \<Rightarrow> string \<Rightarrow> string \<Rightarrow> (string \<times> string) list \<Rightarrow> unit control_op" where
  "WriteAudit ts aid oid actor action targetType targetID data db =
     (if \<exists>e \<in> set (c_audit db). au_ID e = aid then (Err UniqueViolation, db)
      else (Ok (), db\<lparr>c_audit := c_audit db @ [\<lparr>au_ID = aid, au_OrgID = oid, au_ActorID = actor, au_Action = action,
        au_TargetType = targetType, au_TargetID = targetID, au_Data = data, au_TS = ts\<rparr>]\<rparr>))"

definition ListOrgAudit :: "control_db \<Rightarrow> string \<Rightarrow> nat \<Rightarrow> audit_row list" where
  "ListOrgAudit db oid limit = take limit (newest au_TS (filter (\<lambda>e. au_OrgID e = Some oid) (c_audit db)))"

definition GetSSHKeyByID :: "control_db \<Rightarrow> string \<Rightarrow> (account_error, key_row) go" where
  "GetSSHKeyByID db kid = find_row (\<lambda>k. ky_ID k = kid) (c_keys db)"

definition GetSSHKeyByFingerprint :: "control_db \<Rightarrow> string \<Rightarrow> (account_error, key_row) go" where
  "GetSSHKeyByFingerprint db fp = find_row (\<lambda>k. ky_Fingerprint k = fp) (c_keys db)"

definition db_CreateSSHKey :: "int \<Rightarrow> string \<Rightarrow> string \<Rightarrow> string \<Rightarrow> string \<Rightarrow> string \<Rightarrow> key_row control_op" where
  "db_CreateSSHKey ts kid uid name fp publicKey db =
     (if \<exists>k \<in> set (c_keys db). ky_ID k = kid \<or> ky_Fingerprint k = fp then (Err UniqueViolation, db)
      else if \<not> user_exists db uid then (Err ForeignKeyViolation, db)
      else let k = \<lparr>ky_ID = kid, ky_UserID = uid, ky_Name = name, ky_Fingerprint = fp, ky_PublicKey = publicKey, ky_CreatedAt = ts, ky_LastUsed = None\<rparr>
           in (Ok k, db\<lparr>c_keys := c_keys db @ [k]\<rparr>))"

definition ListUserSSHKeys :: "control_db \<Rightarrow> string \<Rightarrow> key_row list" where
  "ListUserSSHKeys db uid = newest ky_CreatedAt (filter (\<lambda>k. ky_UserID k = uid) (c_keys db))"

definition db_DeleteSSHKey :: "string \<Rightarrow> control_db \<Rightarrow> control_db" where
  "db_DeleteSSHKey kid db = db\<lparr>c_keys := filter (\<lambda>k. ky_ID k \<noteq> kid) (c_keys db)\<rparr>"

definition UpdateSSHKeyLastUsed :: "int \<Rightarrow> string \<Rightarrow> control_db \<Rightarrow> control_db" where
  "UpdateSSHKeyLastUsed ts kid db = db\<lparr>c_keys := set_where (\<lambda>k. ky_ID k = kid) (ky_LastUsed_update (\<lambda>_. Some ts)) (c_keys db)\<rparr>"

section \<open>Webhooks\<close>

text \<open>The events are joined with commas.\<close>

fun join_events :: "string list \<Rightarrow> string" where
  "join_events [] = []"
| "join_events [e] = e"
| "join_events (e # es) = e @ CHR '','' # join_events es"

definition hook_events :: "hook_row \<Rightarrow> string list" where
  "hook_events h = split_on (CHR '','') (hk_Events h)"

definition db_CreateWebhook :: "int \<Rightarrow> string \<Rightarrow> string \<Rightarrow> string \<Rightarrow> string \<Rightarrow> string list \<Rightarrow> hook_row control_op" where
  "db_CreateWebhook ts hid rid url secret events db =
     (if \<exists>h \<in> set (c_hooks db). hk_ID h = hid then (Err UniqueViolation, db)
      else if \<not> (\<exists>r \<in> set (c_repos db). rp_ID r = rid) then (Err ForeignKeyViolation, db)
      else let h = \<lparr>hk_ID = hid, hk_RepoID = rid, hk_URL = url, hk_Secret = secret, hk_Events = join_events events, hk_Active = True,
                 hk_CreatedAt = ts, hk_UpdatedAt = ts\<rparr>
           in (Ok h, db\<lparr>c_hooks := c_hooks db @ [h]\<rparr>))"

definition GetWebhookByID :: "control_db \<Rightarrow> string \<Rightarrow> (account_error, hook_row) go" where
  "GetWebhookByID db hid = find_row (\<lambda>h. hk_ID h = hid) (c_hooks db)"

definition ListRepoWebhooks :: "control_db \<Rightarrow> string \<Rightarrow> hook_row list" where
  "ListRepoWebhooks db rid = newest hk_CreatedAt (filter (\<lambda>h. hk_RepoID h = rid) (c_hooks db))"

definition control_like :: "driver \<Rightarrow> string \<Rightarrow> string \<Rightarrow> bool" where
  "control_like drv = (case drv of SQLite \<Rightarrow> like | Postgres \<Rightarrow> pg_like)"

definition ListActiveWebhooksForEvent :: "control_db \<Rightarrow> string \<Rightarrow> string \<Rightarrow> hook_row list" where
  "ListActiveWebhooksForEvent db rid event =
     filter (\<lambda>h. hk_RepoID h = rid \<and> hk_Active h \<and>
       (control_like (c_driver db) (event @ '',%'') (hk_Events h) \<or> control_like (c_driver db) (''%,'' @ event @ '',%'') (hk_Events h) \<or>
        control_like (c_driver db) (''%,'' @ event) (hk_Events h) \<or> hk_Events h = event)) (c_hooks db)"

definition db_UpdateWebhook :: "int \<Rightarrow> string \<Rightarrow> string \<Rightarrow> string \<Rightarrow> string list \<Rightarrow> bool \<Rightarrow> control_db \<Rightarrow> control_db" where
  "db_UpdateWebhook ts hid url secret events active db =
     db\<lparr>c_hooks := set_where (\<lambda>h. hk_ID h = hid) (\<lambda>h. h\<lparr>hk_URL := url, hk_Secret := secret, hk_Events := join_events events,
       hk_Active := active, hk_UpdatedAt := ts\<rparr>) (c_hooks db)\<rparr>"

definition db_DeleteWebhook :: "string \<Rightarrow> control_db \<Rightarrow> control_db" where
  "db_DeleteWebhook hid db = db\<lparr>c_hooks := filter (\<lambda>h. hk_ID h \<noteq> hid) (c_hooks db),
     c_deliveries := filter (\<lambda>d. dl_HookID d \<noteq> hid) (c_deliveries db)\<rparr>"

definition CreateWebhookDelivery :: "int \<Rightarrow> string \<Rightarrow> string \<Rightarrow> string \<Rightarrow> string \<Rightarrow> delivery_row control_op" where
  "CreateWebhookDelivery ts did hid event payload db =
     (if \<exists>d \<in> set (c_deliveries db). dl_ID d = did then (Err UniqueViolation, db)
      else if \<not> (\<exists>h \<in> set (c_hooks db). hk_ID h = hid) then (Err ForeignKeyViolation, db)
      else let d = \<lparr>dl_ID = did, dl_HookID = hid, dl_Event = event, dl_Payload = payload, dl_Status = ''pending'', dl_Response = None,
                 dl_Attempts = 0, dl_CreatedAt = ts, dl_DeliveredAt = None\<rparr>
           in (Ok d, db\<lparr>c_deliveries := c_deliveries db @ [d]\<rparr>))"

definition UpdateWebhookDelivery :: "int \<Rightarrow> string \<Rightarrow> string \<Rightarrow> int \<Rightarrow> string \<Rightarrow> int \<Rightarrow> control_db \<Rightarrow> control_db" where
  "UpdateWebhookDelivery ts did status code body attempts db =
     db\<lparr>c_deliveries := set_where (\<lambda>d. dl_ID d = did) (\<lambda>d. d\<lparr>dl_Status := status, dl_Response := Some (code, body),
       dl_Attempts := attempts, dl_DeliveredAt := Some ts\<rparr>) (c_deliveries db)\<rparr>"

definition ListWebhookDeliveries :: "control_db \<Rightarrow> string \<Rightarrow> nat \<Rightarrow> delivery_row list" where
  "ListWebhookDeliveries db hid limit = take limit (newest dl_CreatedAt (filter (\<lambda>d. dl_HookID d = hid) (c_deliveries db)))"

definition GetPendingDeliveries :: "control_db \<Rightarrow> nat \<Rightarrow> delivery_row list" where
  "GetPendingDeliveries db limit = take limit (sort_key dl_CreatedAt (filter (\<lambda>d. dl_Status d = ''pending'' \<and> dl_Attempts d < 3) (c_deliveries db)))"

section \<open>Signups\<close>

definition GetSignupByID :: "control_db \<Rightarrow> string \<Rightarrow> (account_error, signup_row) go" where
  "GetSignupByID db sid = find_row (\<lambda>s. sg_ID s = sid) (c_signups db)"

definition GetSignupByEmail :: "control_db \<Rightarrow> string \<Rightarrow> (account_error, signup_row) go" where
  "GetSignupByEmail db email = find_row (\<lambda>s. sg_Email s = email) (c_signups db)"

definition CreateSignup :: "int \<Rightarrow> string \<Rightarrow> string \<Rightarrow> string \<Rightarrow> string \<Rightarrow> string \<Rightarrow> string \<Rightarrow> signup_row control_op" where
  "CreateSignup ts sid name email company repoURL aiUsage db =
     (if \<exists>s \<in> set (c_signups db). sg_ID s = sid then (Err UniqueViolation, db)
      else let s = \<lparr>sg_ID = sid, sg_Name = name, sg_Email = email, sg_Company = company, sg_RepoURL = repoURL, sg_AIUsage = aiUsage,
                 sg_Status = ''pending_review'', sg_Notes = [], sg_SubmittedAt = ts, sg_UpdatedAt = None\<rparr>
           in (Ok s, db\<lparr>c_signups := c_signups db @ [s]\<rparr>))"

definition db_ListSignups :: "control_db \<Rightarrow> string \<Rightarrow> signup_row list" where
  "db_ListSignups db status = newest sg_SubmittedAt (filter (\<lambda>s. status = [] \<or> sg_Status s = status) (c_signups db))"

definition UpdateSignupStatus :: "int \<Rightarrow> string \<Rightarrow> string \<Rightarrow> string \<Rightarrow> control_db \<Rightarrow> control_db" where
  "UpdateSignupStatus ts sid status notes db =
     db\<lparr>c_signups := set_where (\<lambda>s. sg_ID s = sid) (\<lambda>s. s\<lparr>sg_Status := status, sg_Notes := notes, sg_UpdatedAt := Some ts\<rparr>) (c_signups db)\<rparr>"

section \<open>Roles as an order\<close>

text \<open>The roles, with the order the hierarchy gives them.\<close>

datatype role = Guest | Reporter | Developer | Maintainer | Admin | Owner

primrec role_level :: "role \<Rightarrow> nat" where
  "role_level Guest = 0"
| "role_level Reporter = 1"
| "role_level Developer = 2"
| "role_level Maintainer = 3"
| "role_level Admin = 4"
| "role_level Owner = 5"

instantiation role :: linorder
begin

definition less_eq_role :: "role \<Rightarrow> role \<Rightarrow> bool" where
  "less_eq_role a b \<longleftrightarrow> role_level a \<le> role_level b"

definition less_role :: "role \<Rightarrow> role \<Rightarrow> bool" where
  "less_role a b \<longleftrightarrow> role_level a < role_level b"

instance
proof
  fix a b c :: role
  show "a < b \<longleftrightarrow> a \<le> b \<and> \<not> b \<le> a" by (auto simp: less_role_def less_eq_role_def)
  show "a \<le> a" by (simp add: less_eq_role_def)
  show "a \<le> b \<Longrightarrow> b \<le> c \<Longrightarrow> a \<le> c" by (simp add: less_eq_role_def)
  show "a \<le> b \<Longrightarrow> b \<le> a \<Longrightarrow> a = b" by (cases a; cases b) (simp_all add: less_eq_role_def)
  show "a \<le> b \<or> b \<le> a" by (auto simp: less_eq_role_def)
qed

end

primrec role_name :: "role \<Rightarrow> string" where
  "role_name Guest = ''guest''"
| "role_name Reporter = ''reporter''"
| "role_name Developer = ''developer''"
| "role_name Maintainer = ''maintainer''"
| "role_name Admin = ''admin''"
| "role_name Owner = ''owner''"

lemma role_rank_name: "role_rank (role_name r) = int (role_level r)"
  by (cases r) (simp_all add: role_rank_def RoleHierarchy_def)

lemma HasAtLeastRole_order: "HasAtLeastRole (role_name a) (role_name b) \<longleftrightarrow> b \<le> a"
  by (simp add: HasAtLeastRole_def role_rank_name less_eq_role_def)

lemma role_names: "s \<in> fst ` set RoleHierarchy \<longleftrightarrow> (\<exists>r. s = role_name r)"
proof
  assume "s \<in> fst ` set RoleHierarchy"
  then show "\<exists>r. s = role_name r"
    by (auto simp: RoleHierarchy_def intro: exI [of _ Guest] exI [of _ Reporter] exI [of _ Developer] exI [of _ Maintainer] exI [of _ Admin] exI [of _ Owner])
next
  assume "\<exists>r. s = role_name r"
  then obtain r where "s = role_name r" ..
  then show "s \<in> fst ` set RoleHierarchy" by (cases r) (simp_all add: RoleHierarchy_def)
qed

lemma role_name_inj: "role_name a = role_name b \<longleftrightarrow> a = b"
  by (cases a; cases b) simp_all

section \<open>Well-typed databases\<close>

text \<open>The constraints of the schema: primary and unique keys, foreign keys, and the values of the checked columns.\<close>

definition keys_ok :: "control_db \<Rightarrow> bool" where
  "keys_ok db \<longleftrightarrow> distinct (map us_ID (c_users db)) \<and> distinct (map or_ID (c_orgs db)) \<and> distinct (map or_Slug (c_orgs db)) \<and>
     distinct (map (\<lambda>m. (mb_UserID m, mb_OrgID m)) (c_members db)) \<and> distinct (map rp_ID (c_repos db)) \<and>
     distinct (map (\<lambda>r. (rp_OrgID r, rp_Name r)) (c_repos db)) \<and> distinct (map ky_ID (c_keys db)) \<and> distinct (map ky_Fingerprint (c_keys db)) \<and>
     distinct (map ml_ID (c_links db)) \<and> distinct (map ml_TokenHash (c_links db)) \<and> distinct (map se_ID (c_sessions db)) \<and>
     distinct (map tk_ID (c_tokens db)) \<and> distinct (map hk_ID (c_hooks db)) \<and> distinct (map dl_ID (c_deliveries db))"

definition emails_ok :: "control_db \<Rightarrow> bool" where
  "emails_ok db \<longleftrightarrow> distinct (map (\<lambda>u. case c_driver db of SQLite \<Rightarrow> fold_case (us_Email u) | Postgres \<Rightarrow> us_Email u) (c_users db))"

definition refs_ok :: "control_db \<Rightarrow> bool" where
  "refs_ok db \<longleftrightarrow>
     (\<forall>r \<in> set (c_orgs db). user_exists db (or_OwnerID r)) \<and>
     (\<forall>m \<in> set (c_members db). user_exists db (mb_UserID m) \<and> org_exists db (mb_OrgID m)) \<and>
     (\<forall>r \<in> set (c_repos db). org_exists db (rp_OrgID r) \<and> user_exists db (rp_CreatedBy r)) \<and>
     (\<forall>k \<in> set (c_keys db). user_exists db (ky_UserID k)) \<and> (\<forall>s \<in> set (c_sessions db). user_exists db (se_UserID s)) \<and>
     (\<forall>t \<in> set (c_tokens db). user_exists db (tk_UserID t)) \<and>
     (\<forall>h \<in> set (c_hooks db). \<exists>r \<in> set (c_repos db). rp_ID r = hk_RepoID h) \<and>
     (\<forall>d \<in> set (c_deliveries db). \<exists>h \<in> set (c_hooks db). hk_ID h = dl_HookID d)"

definition values_ok :: "control_db \<Rightarrow> bool" where
  "values_ok db \<longleftrightarrow> (\<forall>m \<in> set (c_members db). \<exists>r. mb_Role m = role_name r) \<and> (\<forall>r \<in> set (c_repos db). rp_Visibility r \<in> set visibilities)"

definition well_typed :: "control_db \<Rightarrow> bool" where
  "well_typed db \<longleftrightarrow> keys_ok db \<and> emails_ok db \<and> refs_ok db \<and> values_ok db"

text \<open>The operations that write.\<close>

datatype control_write =
    WUser int string string string
  | WGetUser int string string string
  | WCIAccess string bool
  | WCIRequest string
  | WLogin int string
  | WLink int string string string int
  | WUseLink int string
  | WCleanLinks int
  | WSession int string string string string string int
  | WDelSession string
  | WDelSessions string
  | WOrg int string string string string
  | WMember int string string string
  | WDelMember string string
  | WRepo int string string string string string string
  | WUpdRepo string string string
  | WDelRepo string
  | WToken int string string string string string "string list"
  | WDelToken string
  | WUseToken int string
  | WAudit int string "string option" "string option" string string string "(string \<times> string) list"
  | WKey int string string string string string
  | WDelKey string
  | WUseKey int string
  | WHook int string string string string "string list"
  | WUpdHook int string string string "string list" bool
  | WDelHook string
  | WDelivery int string string string string
  | WUpdDelivery int string string int string int
  | WSignup int string string string string string string
  | WUpdSignup int string string string

primrec control_apply :: "control_write \<Rightarrow> control_db \<Rightarrow> control_db" where
  "control_apply (WUser ts i e n) db = snd (CreateUser ts i e n db)"
| "control_apply (WGetUser ts i e n) db = snd (GetOrCreateUser ts i e n db)"
| "control_apply (WCIAccess i b) db = UpdateUserCIAccess i b db"
| "control_apply (WCIRequest i) db = db_RequestCIAccess i db"
| "control_apply (WLogin ts i) db = UpdateLastLogin ts i db"
| "control_apply (WLink ts i e h x) db = snd (CreateMagicLink ts i e h x db)"
| "control_apply (WUseLink ts i) db = UseMagicLink ts i db"
| "control_apply (WCleanLinks ts) db = CleanupExpiredMagicLinks ts db"
| "control_apply (WSession ts i u h a p x) db = snd (CreateSession ts i u h a p x db)"
| "control_apply (WDelSession i) db = DeleteSession i db"
| "control_apply (WDelSessions u) db = DeleteUserSessions u db"
| "control_apply (WOrg ts i s n u) db = snd (CreateOrg ts i s n u db)"
| "control_apply (WMember ts o' u r) db = snd (AddMember ts o' u r db)"
| "control_apply (WDelMember o' u) db = RemoveMember o' u db"
| "control_apply (WRepo ts i o' n v s u) db = snd (CreateRepo ts i o' n v s u db)"
| "control_apply (WUpdRepo i n v) db = snd (UpdateRepo i n v db)"
| "control_apply (WDelRepo i) db = DeleteRepo i db"
| "control_apply (WToken ts i u o' n h sc) db = snd (CreateAPIToken ts i u o' n h sc db)"
| "control_apply (WDelToken i) db = DeleteAPIToken i db"
| "control_apply (WUseToken ts i) db = UpdateAPITokenLastUsed ts i db"
| "control_apply (WAudit ts i o' a c t ti d) db = snd (WriteAudit ts i o' a c t ti d db)"
| "control_apply (WKey ts i u n f k) db = snd (db_CreateSSHKey ts i u n f k db)"
| "control_apply (WDelKey i) db = db_DeleteSSHKey i db"
| "control_apply (WUseKey ts i) db = UpdateSSHKeyLastUsed ts i db"
| "control_apply (WHook ts i r u s es) db = snd (db_CreateWebhook ts i r u s es db)"
| "control_apply (WUpdHook ts i u s es b) db = db_UpdateWebhook ts i u s es b db"
| "control_apply (WDelHook i) db = db_DeleteWebhook i db"
| "control_apply (WDelivery ts i h e p) db = snd (CreateWebhookDelivery ts i h e p db)"
| "control_apply (WUpdDelivery ts i s c b a) db = UpdateWebhookDelivery ts i s c b a db"
| "control_apply (WSignup ts i n e c r a) db = snd (CreateSignup ts i n e c r a db)"
| "control_apply (WUpdSignup ts i s n) db = UpdateSignupStatus ts i s n db"

section \<open>Every write keeps the database well-typed\<close>

named_theorems control_defs \<open>the operations of the control database\<close>

lemmas [control_defs] = CreateUser_def GetOrCreateUser_def GetUserByEmail_def UpdateUserCIAccess_def db_RequestCIAccess_def UpdateLastLogin_def
  CreateMagicLink_def UseMagicLink_def CleanupExpiredMagicLinks_def CreateSession_def DeleteSession_def DeleteUserSessions_def
  CreateOrg_def AddMember_def RemoveMember_def CreateRepo_def UpdateRepo_def DeleteRepo_def GetRepoByID_def
  CreateAPIToken_def DeleteAPIToken_def UpdateAPITokenLastUsed_def WriteAudit_def db_CreateSSHKey_def db_DeleteSSHKey_def UpdateSSHKeyLastUsed_def
  db_CreateWebhook_def db_UpdateWebhook_def db_DeleteWebhook_def CreateWebhookDelivery_def UpdateWebhookDelivery_def CreateSignup_def
  UpdateSignupStatus_def Let_def

lemma map_set_where [simp]: "(\<And>r. f (g r) = f r) \<Longrightarrow> map f (set_where P g t) = map f t"
  by (simp add: set_where_def)

lemma in_set_where: "x \<in> set (set_where P g t) \<longleftrightarrow> (\<exists>r \<in> set t. x = (if P r then g r else r))"
  by (auto simp: set_where_def)

lemma distinct_map_filter_rows [simp]: "distinct (map f t) \<Longrightarrow> distinct (map f (filter P t))"
  by (rule distinct_map_filter)

lemma user_exists_ids: "user_exists db i \<longleftrightarrow> i \<in> set (map us_ID (c_users db))"
  by (auto simp: user_exists_def)

lemma org_exists_ids: "org_exists db i \<longleftrightarrow> i \<in> set (map or_ID (c_orgs db))"
  by (auto simp: org_exists_def)

lemma repo_exists_ids: "(\<exists>r \<in> set t. rp_ID r = i) \<longleftrightarrow> i \<in> set (map rp_ID t)"
  by auto

lemma hook_exists_ids: "(\<exists>r \<in> set t. hk_ID r = i) \<longleftrightarrow> i \<in> set (map hk_ID t)"
  by auto

lemma find_row_cases: "find_row P t = Err e \<Longrightarrow> e = NotFound" "find_row P t \<noteq> Panic"
  by (auto simp: find_row_def split: option.splits)

lemma distinct_append_row [simp]: "distinct (map f (t @ [r])) \<longleftrightarrow> distinct (map f t) \<and> f r \<notin> f ` set t"
  by auto

lemma apply_keys: "keys_ok db \<Longrightarrow> keys_ok (control_apply w db)"
proof (cases w)
  case (WUpdRepo i n v)
  assume k: "keys_ok db"
  show ?thesis
  proof (cases "control_apply w db = db")
    case False
    then obtain r where r: "find (\<lambda>r. rp_ID r = i) (c_repos db) = Some r" "\<forall>r' \<in> set (c_repos db). rp_ID r' \<noteq> i \<longrightarrow> rp_OrgID r' = rp_OrgID r \<longrightarrow> rp_Name r' \<noteq> n"
      and db': "control_apply w db = db\<lparr>c_repos := set_where (\<lambda>r. rp_ID r = i) (\<lambda>r. r\<lparr>rp_Name := n, rp_Visibility := v\<rparr>) (c_repos db)\<rparr>"
      by (auto simp: WUpdRepo control_defs find_row_def split: option.splits if_splits)
    have one: "rp_ID x = i \<Longrightarrow> x \<in> set (c_repos db) \<Longrightarrow> x = r" for x
      using r(1) k by (auto simp: find_Some_iff keys_ok_def distinct_map inj_on_def)
    have "distinct (map (\<lambda>r. (rp_OrgID r, rp_Name r)) (set_where (\<lambda>r. rp_ID r = i) (\<lambda>r. r\<lparr>rp_Name := n, rp_Visibility := v\<rparr>) (c_repos db)))"
      unfolding set_where_def map_map
    proof (subst distinct_map, intro conjI inj_onI)
      show "distinct (c_repos db)" using k by (simp add: keys_ok_def distinct_map)
      fix x y assume xy: "x \<in> set (c_repos db)" "y \<in> set (c_repos db)"
        "((\<lambda>r. (rp_OrgID r, rp_Name r)) \<circ> (\<lambda>r. if rp_ID r = i then r\<lparr>rp_Name := n, rp_Visibility := v\<rparr> else r)) x =
         ((\<lambda>r. (rp_OrgID r, rp_Name r)) \<circ> (\<lambda>r. if rp_ID r = i then r\<lparr>rp_Name := n, rp_Visibility := v\<rparr> else r)) y"
      have "inj_on (\<lambda>r. (rp_OrgID r, rp_Name r)) (set (c_repos db))" using k by (simp add: keys_ok_def distinct_map)
      then show "x = y" using xy one r(2) by (auto simp: inj_on_def split: if_splits)
    qed
    then show ?thesis using k by (simp add: db' keys_ok_def)
  qed (use k in simp)
next
  case (WMember ts oid uid role)
  assume k: "keys_ok db"
  then show ?thesis
    by (auto simp: WMember control_defs keys_ok_def image_iff)
qed (auto simp: keys_ok_def control_defs image_iff split: go.splits)

definition email_key :: "driver \<Rightarrow> user_row \<Rightarrow> string" where
  "email_key drv u = (case drv of SQLite \<Rightarrow> fold_case (us_Email u) | Postgres \<Rightarrow> us_Email u)"

lemma emails_ok_key: "emails_ok db \<longleftrightarrow> distinct (map (email_key (c_driver db)) (c_users db))"
  by (simp add: emails_ok_def email_key_def [abs_def])

lemma same_email_key: "same_email drv (us_Email u) e \<longleftrightarrow> email_key drv u = (case drv of SQLite \<Rightarrow> fold_case e | Postgres \<Rightarrow> e)"
  by (cases drv) (simp_all add: same_email_def email_key_def)

lemma email_key_simps [simp]:
  "email_key drv (us_CIAccess_update f u) = email_key drv u" "email_key drv (us_CIRequested_update g u) = email_key drv u"
  "email_key drv (us_LastLogin_update h u) = email_key drv u"
  by (cases drv; simp add: email_key_def)+

lemma apply_emails: "emails_ok db \<Longrightarrow> emails_ok (control_apply w db)"
  by (cases w) (auto simp: emails_ok_key control_defs same_email_key image_iff email_key_def split: go.splits driver.splits)

lemma apply_values: "values_ok db \<Longrightarrow> values_ok (control_apply w db)"
  by (cases w) (auto simp: values_ok_def control_defs in_set_where role_names role_name_inj role_name.simps(6) [symmetric] simp del: role_name.simps(6) split: go.splits)

text \<open>Rows refer to the ids of the tables, which writes only add to, except for the repositories and webhooks they remove.\<close>

lemma refs_ok_ids:
  "refs_ok db \<longleftrightarrow>
     or_OwnerID ` set (c_orgs db) \<subseteq> us_ID ` set (c_users db) \<and>
     mb_UserID ` set (c_members db) \<subseteq> us_ID ` set (c_users db) \<and> mb_OrgID ` set (c_members db) \<subseteq> or_ID ` set (c_orgs db) \<and>
     rp_OrgID ` set (c_repos db) \<subseteq> or_ID ` set (c_orgs db) \<and> rp_CreatedBy ` set (c_repos db) \<subseteq> us_ID ` set (c_users db) \<and>
     ky_UserID ` set (c_keys db) \<subseteq> us_ID ` set (c_users db) \<and> se_UserID ` set (c_sessions db) \<subseteq> us_ID ` set (c_users db) \<and>
     tk_UserID ` set (c_tokens db) \<subseteq> us_ID ` set (c_users db) \<and> hk_RepoID ` set (c_hooks db) \<subseteq> rp_ID ` set (c_repos db) \<and>
     dl_HookID ` set (c_deliveries db) \<subseteq> hk_ID ` set (c_hooks db)"
  unfolding refs_ok_def user_exists_ids org_exists_ids repo_exists_ids hook_exists_ids by (auto simp: image_subset_iff)

lemma image_set_where [simp]: "(\<And>r. f (g r) = f r) \<Longrightarrow> f ` set (set_where P g t) = f ` set t"
  by (metis list.set_map map_set_where)

lemma image_filter_sub: "f ` set t \<subseteq> A \<Longrightarrow> f ` (set t \<inter> B) \<subseteq> A"
  by auto

lemma apply_refs: "refs_ok db \<Longrightarrow> refs_ok (control_apply w db)"
proof (cases w)
  case (WDelRepo i)
  assume r: "refs_ok db"
  have "dl_HookID d \<in> hk_ID ` {h \<in> set (c_hooks db). hk_RepoID h \<noteq> i}"
    if "d \<in> set (c_deliveries db)" "dl_HookID d \<notin> hk_ID ` {h \<in> set (c_hooks db). hk_RepoID h = i}" for d
  proof -
    have "dl_HookID d \<in> hk_ID ` set (c_hooks db)" using r that(1) unfolding refs_ok_ids by blast
    then show ?thesis using that(2) by blast
  qed
  then show ?thesis using r by (auto simp: WDelRepo refs_ok_ids control_defs)
qed (auto simp: refs_ok_ids control_defs user_exists_ids org_exists_ids split: go.splits)

lemma apply_typed: "well_typed db \<Longrightarrow> well_typed (control_apply w db)"
  by (simp add: well_typed_def apply_keys apply_emails apply_refs apply_values)

definition empty_control :: "driver \<Rightarrow> control_db" where
  "empty_control drv = \<lparr>c_driver = drv, c_users = [], c_sessions = [], c_links = [], c_orgs = [], c_members = [], c_repos = [], c_tokens = [],
     c_audit = [], c_keys = [], c_hooks = [], c_deliveries = [], c_signups = []\<rparr>"

lemma empty_typed: "well_typed (empty_control drv)"
  by (simp add: well_typed_def keys_ok_def emails_ok_def refs_ok_def values_ok_def empty_control_def)


end
