(* ===== verification/ControlApi.thy ===== *)
theory ControlApi
  imports Accounts RefApi SshHandler
begin

text \<open>
  The control plane's HTTP handlers for accounts (\<open>src/kailab-control/internal/api\<close>: \<open>middleware.go\<close>, \<open>auth.go\<close>,
  \<open>orgs.go\<close>, \<open>repos.go\<close>, \<open>ssh_keys.go\<close>, \<open>signups.go\<close>, \<open>webhooks.go\<close>, \<open>proxy.go\<close>), the choice of a
  shard (\<open>routing/picker.go\<close>), and the authorizer of the git server that asks the control plane
  (\<open>src/kailab/sshserver/authorizer_control.go\<close>). Requests are decoded and their texts valid UTF-8; random tokens and new ids are parameters, as are the
  hash of tokens and the library that checks a JWT. Time is in nanoseconds. Mails and the calls to the shards are left out,
  and so is the case of letters outside ASCII.
  The last sections show who may push, fetch and use the proxy.
\<close>

section \<open>Tokens\<close>

record claims =
  cl_UserID :: string
  cl_Email :: string
  cl_Scopes :: "string list"

record auth_api =
  HashToken :: "string \<Rightarrow> string"
  ValidateAccessToken :: "string \<Rightarrow> claims option"

definition unix :: "int \<Rightarrow> int" where
  "unix now = now div 1000000000"

text \<open>\<open>now.After(time.Unix(t, 0))\<close>.\<close>

definition after_unix :: "int \<Rightarrow> int \<Rightarrow> bool" where
  "after_unix now t \<longleftrightarrow> now > t * 1000000000"

definition ExtractBearerToken :: "string \<Rightarrow> string" where
  "ExtractBearerToken authHeader = (case cut_at (CHR '' '') authHeader of
     Some (scheme, tok) \<Rightarrow> if fold_case scheme = ''bearer'' then tok else []
   | None \<Rightarrow> [])"

definition IsPAT :: "string \<Rightarrow> bool" where
  "IsPAT tok \<longleftrightarrow> HasPrefix tok ''klc_''"

text \<open>The header first, then the cookie.\<close>

definition request_token :: "string \<Rightarrow> string option \<Rightarrow> string" where
  "request_token hdr cookie = (let tok = ExtractBearerToken hdr in if tok = [] then case_option [] id cookie else tok)"

definition pat_claims :: "user_row \<Rightarrow> token_row \<Rightarrow> claims" where
  "pat_claims u t = \<lparr>cl_UserID = us_ID u, cl_Email = us_Email u, cl_Scopes = tk_Scopes t\<rparr>"

section \<open>Middleware\<close>

definition WithAuth :: "auth_api \<Rightarrow> int \<Rightarrow> string \<Rightarrow> string option \<Rightarrow> control_db \<Rightarrow> (user_row \<times> claims) reply \<times> control_db" where
  "WithAuth a now hdr cookie db =
     (let tok = request_token hdr cookie in
      if tok = [] then (Fail 401 (Message ''missing authorization''), db)
      else if IsPAT tok then
        (case GetAPITokenByHash db (HashToken a tok) of
           Ok t \<Rightarrow>
             (case GetUserByID db (tk_UserID t) of
                Ok u \<Rightarrow> (Reply (u, pat_claims u t), UpdateAPITokenLastUsed (unix now) (tk_ID t) db)
              | _ \<Rightarrow> (Fail 401 (Message ''invalid token''), db))
         | _ \<Rightarrow> (Fail 401 (Message ''invalid token''), db))
      else case ValidateAccessToken a tok of
        None \<Rightarrow> (Fail 401 (Message ''invalid token''), db)
      | Some c \<Rightarrow>
          (case GetUserByID db (cl_UserID c) of
             Ok u \<Rightarrow> (Reply (u, c), db)
           | _ \<Rightarrow> (Fail 401 (Message ''user not found''), db)))"

text \<open>With an optional token, the user of a personal token is not looked at before its fields are read.\<close>

definition WithOptionalAuth :: "auth_api \<Rightarrow> int \<Rightarrow> string \<Rightarrow> string option \<Rightarrow> control_db \<Rightarrow> (user_row \<times> claims) option reply \<times> control_db" where
  "WithOptionalAuth a now hdr cookie db =
     (let tok = request_token hdr cookie in
      if tok = [] then (Reply None, db)
      else if IsPAT tok then
        (case GetAPITokenByHash db (HashToken a tok) of
           Ok t \<Rightarrow>
             let db' = UpdateAPITokenLastUsed (unix now) (tk_ID t) db in
             (case GetUserByID db (tk_UserID t) of
                Ok u \<Rightarrow> (Reply (Some (u, pat_claims u t)), db')
              | _ \<Rightarrow> (Crash, db'))
         | _ \<Rightarrow> (Reply None, db))
      else case ValidateAccessToken a tok of
        None \<Rightarrow> (Reply None, db)
      | Some c \<Rightarrow> (case GetUserByID db (cl_UserID c) of Ok u \<Rightarrow> (Reply (Some (u, c)), db) | _ \<Rightarrow> (Reply None, db)))"

definition WithOrg :: "string \<Rightarrow> control_db \<Rightarrow> org_row reply" where
  "WithOrg orgSlug db =
     (if orgSlug = [] then Fail 400 (Message ''org required'')
      else case GetOrgBySlug db orgSlug of
        Ok r \<Rightarrow> Reply r
      | Err e \<Rightarrow> if e = NotFound then Fail 404 (Message ''org not found'') else Fail 500 (Message ''failed to get org'')
      | Panic \<Rightarrow> Crash)"

definition WithRepo :: "org_row \<Rightarrow> string \<Rightarrow> control_db \<Rightarrow> repo_row reply" where
  "WithRepo org repoName db =
     (if repoName = [] then Fail 400 (Message ''repo required'')
      else case GetRepoByOrgAndName db (or_ID org) repoName of
        Ok r \<Rightarrow> Reply r
      | Err e \<Rightarrow> if e = NotFound then Fail 404 (Message ''repo not found'') else Fail 500 (Message ''failed to get repo'')
      | Panic \<Rightarrow> Crash)"

definition RequireMembership :: "string \<Rightarrow> user_row option \<Rightarrow> org_row \<Rightarrow> control_db \<Rightarrow> unit reply" where
  "RequireMembership minRole user org db =
     (case user of
        None \<Rightarrow> Fail 401 (Message ''authentication required'')
      | Some u \<Rightarrow>
          (case GetMembership db (or_ID org) (us_ID u) of
             Ok m \<Rightarrow> if HasAtLeastRole (mb_Role m) minRole then Reply () else Fail 403 (Message ''insufficient permissions'')
           | Err e \<Rightarrow> if e = NotFound then Fail 403 (Message ''not a member of this org'') else Fail 500 (Message ''failed to check membership'')
           | Panic \<Rightarrow> Crash))"

definition isReadOnlyRequest :: "string \<Rightarrow> bool" where
  "isReadOnlyRequest meth \<longleftrightarrow> meth \<in> {''GET'', ''HEAD'', ''OPTIONS''}"

definition isPublicRepoReadAllowed :: "repo_row option \<Rightarrow> bool" where
  "isPublicRepoReadAllowed repo \<longleftrightarrow> (case repo of Some r \<Rightarrow> rp_Visibility r = ''public'' | None \<Rightarrow> False)"

definition RequirePublicRepoOrMembership :: "string \<Rightarrow> string \<Rightarrow> user_row option \<Rightarrow> org_row \<Rightarrow> repo_row option \<Rightarrow> control_db \<Rightarrow> unit reply" where
  "RequirePublicRepoOrMembership minRole meth user org repo db =
     (case user of
        None \<Rightarrow> if isReadOnlyRequest meth \<and> isPublicRepoReadAllowed repo then Reply () else Fail 401 (Message ''authentication required'')
      | Some u \<Rightarrow> RequireMembership minRole (Some u) org db)"

definition RequireScope :: "string \<Rightarrow> claims option \<Rightarrow> unit reply" where
  "RequireScope scope cl =
     (case cl of
        None \<Rightarrow> Fail 401 (Message ''authentication required'')
      | Some c \<Rightarrow> if HasScope (cl_Scopes c) scope then Reply () else Fail 403 (Message (''missing required scope: '' @ scope)))"

definition slug_char :: "char \<Rightarrow> bool" where
  "slug_char c \<longleftrightarrow> (let n = of_char c :: nat in n \<ge> 97 \<and> n \<le> 122) \<or> is_digit c"

text \<open>Letters, digits, and inside also underscores, hyphens and dots.\<close>

definition ValidateSlug :: "string \<Rightarrow> bool" where
  "ValidateSlug slug \<longleftrightarrow> length slug \<ge> 1 \<and> length slug \<le> 63 \<and> slug_char (hd slug) \<and> slug_char (last slug) \<and>
     list_all (\<lambda>c. slug_char c \<or> c \<in> {CHR ''_'', CHR ''-'', CHR ''.''}) slug"

definition NormalizeSlug :: "string \<Rightarrow> string" where
  "NormalizeSlug slug = fold_case slug"

section \<open>Login\<close>

record control_config =
  AdminEmail :: string
  MagicLinkTTL :: int
  RefreshTokenTTL :: int

definition SendMagicLink :: "auth_api \<Rightarrow> control_config \<Rightarrow> int \<Rightarrow> string \<Rightarrow> string \<Rightarrow> string \<Rightarrow> control_db \<Rightarrow> unit reply \<times> control_db" where
  "SendMagicLink a cfg now lid tok email db =
     (if email = [] then (Fail 400 (Message ''email required''), db)
      else if (case GetUserByEmail db email of Ok _ \<Rightarrow> False
               | _ \<Rightarrow> (case GetSignupByEmail db email of Ok s \<Rightarrow> sg_Status s \<noteq> ''approved'' | _ \<Rightarrow> True))
        then (Fail 403 (Message ''please request early access first''), db)
      else case CreateMagicLink (unix now) lid email (HashToken a tok) (unix (now + MagicLinkTTL cfg)) db of
        (Ok _, db') \<Rightarrow> (Reply (), db')
      | (_, db') \<Rightarrow> (Fail 500 (Message ''failed to create magic link''), db'))"

definition user_slugs :: "control_db \<Rightarrow> string \<Rightarrow> string list" where
  "user_slugs db uid = map (\<lambda>(r, _). or_Slug r) (ListUserOrgs db uid)"

definition login_scopes :: "string list" where
  "login_scopes = [''repo:read'', ''repo:write'', ''org:read'', ''org:write'']"

record token_response =
  tr_User :: user_row
  tr_Orgs :: "string list"
  tr_Scopes :: "string list"
  tr_Refresh :: "string option"

text \<open>The answer is who the new access token is for, and the refresh token. The random parts and ids are given.\<close>

definition ExchangeToken ::
  "auth_api \<Rightarrow> control_config \<Rightarrow> int \<Rightarrow> string \<Rightarrow> string \<Rightarrow> string \<Rightarrow> string \<times> string \<Rightarrow> string \<Rightarrow> control_db \<Rightarrow> token_response reply \<times> control_db" where
  "ExchangeToken a cfg now uid sid refreshToken agent tok db =
     (if tok = [] then (Fail 400 (Message ''magic_token required''), db)
      else case GetMagicLink db (HashToken a tok) of
        Panic \<Rightarrow> (Crash, db)
      | Err e \<Rightarrow> (if e = NotFound then Fail 401 (Message ''invalid or expired token'') else Fail 500 (Message ''failed to verify token''), db)
      | Ok l \<Rightarrow>
          if after_unix now (ml_ExpiresAt l) then (Fail 401 (Message ''token expired''), db)
          else if ml_UsedAt l \<noteq> None then (Fail 401 (Message ''token already used''), db)
          else let db = UseMagicLink (unix now) (ml_ID l) db in
            case GetOrCreateUser (unix now) uid (ml_Email l) [] db of
              (Ok (u, created), db) \<Rightarrow>
                (let db = UpdateLastLogin (unix now) (us_ID u) db in
                 case CreateSession (unix now) sid (us_ID u) (HashToken a refreshToken) (fst agent) (snd agent) (unix (now + RefreshTokenTTL cfg)) db of
                   (Ok _, db) \<Rightarrow> (Reply \<lparr>tr_User = u, tr_Orgs = user_slugs db (us_ID u), tr_Scopes = login_scopes, tr_Refresh = Some refreshToken\<rparr>, db)
                 | (_, db) \<Rightarrow> (Fail 500 (Message ''failed to create session''), db))
            | (_, db) \<Rightarrow> (Fail 500 (Message ''failed to get/create user''), db))"

definition RefreshToken :: "auth_api \<Rightarrow> int \<Rightarrow> string \<Rightarrow> control_db \<Rightarrow> token_response reply \<times> control_db" where
  "RefreshToken a now refreshToken db =
     (if refreshToken = [] then (Fail 400 (Message ''refresh_token required''), db)
      else case GetSessionByRefreshHash db (HashToken a refreshToken) of
        Panic \<Rightarrow> (Crash, db)
      | Err e \<Rightarrow> (if e = NotFound then Fail 401 (Message ''invalid refresh token'') else Fail 500 (Message ''failed to verify token''), db)
      | Ok s \<Rightarrow>
          if after_unix now (se_ExpiresAt s) then (Fail 401 (Message ''refresh token expired''), DeleteSession (se_ID s) db)
          else (case GetUserByID db (se_UserID s) of
            Ok u \<Rightarrow> (Reply \<lparr>tr_User = u, tr_Orgs = user_slugs db (us_ID u), tr_Scopes = login_scopes, tr_Refresh = None\<rparr>, db)
          | _ \<Rightarrow> (Fail 401 (Message ''user not found''), db)))"

definition Logout :: "user_row option \<Rightarrow> control_db \<Rightarrow> unit reply \<times> control_db" where
  "Logout user db = (case user of None \<Rightarrow> (Fail 401 (Message ''not authenticated''), db) | Some u \<Rightarrow> (Reply (), DeleteUserSessions (us_ID u) db))"

text \<open>Whether the administrator or an approved user may use CI, and the organizations with the roles in them.\<close>

definition GetMe :: "control_config \<Rightarrow> user_row \<Rightarrow> control_db \<Rightarrow> bool \<times> (string \<times> string \<times> string \<times> string) list" where
  "GetMe cfg u db = (us_CIAccess u \<or> us_Email u = AdminEmail cfg,
     map (\<lambda>(r, role, _). (or_ID r, or_Slug r, or_Name r, role)) (ListUserOrgs db (us_ID u)))"

definition RequestCIAccess :: "user_row option \<Rightarrow> control_db \<Rightarrow> string reply \<times> control_db" where
  "RequestCIAccess user db = (case user of
     None \<Rightarrow> (Fail 401 (Message ''not authenticated''), db)
   | Some u \<Rightarrow>
       if us_CIAccess u then (Reply ''already_granted'', db)
       else if us_CIRequested u then (Reply ''already_requested'', db)
       else (Reply ''requested'', db_RequestCIAccess (us_ID u) db))"

definition CreateToken :: "auth_api \<Rightarrow> int \<Rightarrow> string \<Rightarrow> string \<Rightarrow> user_row option \<Rightarrow> string \<Rightarrow> string \<Rightarrow> string list \<Rightarrow> control_db \<Rightarrow> (token_row \<times> string) reply \<times> control_db" where
  "CreateToken a now tid tok user orgID name scopes db = (case user of
     None \<Rightarrow> (Fail 401 (Message ''not authenticated''), db)
   | Some u \<Rightarrow>
       if name = [] then (Fail 400 (Message ''name required''), db)
       else case CreateAPIToken (unix now) tid (us_ID u) orgID name (HashToken a tok) (if scopes = [] then [''repo:read'', ''repo:write''] else scopes) db of
         (Ok t, db') \<Rightarrow> (Reply (t, tok), db')
       | (_, db') \<Rightarrow> (Fail 500 (Message ''failed to create token''), db'))"

definition DeleteToken :: "user_row option \<Rightarrow> string \<Rightarrow> control_db \<Rightarrow> unit reply \<times> control_db" where
  "DeleteToken user tokenID db = (case user of
     None \<Rightarrow> (Fail 401 (Message ''not authenticated''), db)
   | Some u \<Rightarrow>
       if tokenID = [] then (Fail 400 (Message ''invalid token id''), db)
       else case GetAPIToken db tokenID of
         Err e \<Rightarrow> (if e = NotFound then Fail 404 (Message ''token not found'') else Fail 500 (Message ''failed to get token''), db)
       | Panic \<Rightarrow> (Crash, db)
       | Ok t \<Rightarrow> if tk_UserID t \<noteq> us_ID u then (Fail 403 (Message ''not your token''), db) else (Reply (), DeleteAPIToken tokenID db))"

section \<open>Signups\<close>

definition SubmitSignup :: "int \<Rightarrow> string \<Rightarrow> string \<Rightarrow> string \<Rightarrow> string \<Rightarrow> string \<Rightarrow> string \<Rightarrow> control_db \<Rightarrow> signup_row reply \<times> control_db" where
  "SubmitSignup now sid name email company repoURL aiUsage db =
     (if name = [] then (Fail 400 (Message ''name required''), db)
      else if email = [] then (Fail 400 (Message ''email required''), db)
      else case CreateSignup (unix now) sid name email company repoURL aiUsage db of
        (Ok s, db') \<Rightarrow> (Reply s, db')
      | (_, db') \<Rightarrow> (Fail 500 (Message ''failed to create signup''), db'))"

definition is_admin :: "control_config \<Rightarrow> user_row option \<Rightarrow> bool" where
  "is_admin cfg user \<longleftrightarrow> (case user of Some u \<Rightarrow> us_Email u = AdminEmail cfg | None \<Rightarrow> False)"

definition ListSignups :: "control_config \<Rightarrow> user_row option \<Rightarrow> string \<Rightarrow> control_db \<Rightarrow> signup_row list reply" where
  "ListSignups cfg user status db =
     (if \<not> is_admin cfg user then Fail 403 (Message ''admin access required'') else Reply (db_ListSignups db status))"

text \<open>The answer says whether the mail of approval is sent.\<close>

definition UpdateSignup :: "control_config \<Rightarrow> int \<Rightarrow> user_row option \<Rightarrow> string \<Rightarrow> string \<Rightarrow> string \<Rightarrow> control_db \<Rightarrow> bool reply \<times> control_db" where
  "UpdateSignup cfg now user sid status notes db =
     (if \<not> is_admin cfg user then (Fail 403 (Message ''admin access required''), db)
      else if sid = [] then (Fail 400 (Message ''id required''), db)
      else if status \<notin> {''pending_review'', ''approved'', ''rejected'', ''contacted''} then (Fail 400 (Message ''invalid status''), db)
      else case GetSignupByID db sid of
        Ok s \<Rightarrow> (Reply (status = ''approved'' \<and> sg_Status s \<noteq> ''approved''), UpdateSignupStatus (unix now) sid status notes db)
      | _ \<Rightarrow> (Fail 404 (Message ''signup not found''), db))"

definition h_ListCIRequests :: "control_config \<Rightarrow> user_row option \<Rightarrow> control_db \<Rightarrow> user_row list reply" where
  "h_ListCIRequests cfg user db =
     (if \<not> is_admin cfg user then Fail 403 (Message ''admin access required'') else Reply (ListCIRequests db))"

definition SetUserCIAccess :: "control_config \<Rightarrow> user_row option \<Rightarrow> string \<Rightarrow> string \<Rightarrow> bool \<Rightarrow> control_db \<Rightarrow> unit reply \<times> control_db" where
  "SetUserCIAccess cfg user uid email access db =
     (if \<not> is_admin cfg user then (Fail 403 (Message ''admin access required''), db)
      else if uid = [] \<and> email \<noteq> [] then
        (case GetUserByEmail db email of
           Ok u \<Rightarrow> if us_ID u = [] then (Fail 400 (Message ''user_id or email required''), db) else (Reply (), UpdateUserCIAccess (us_ID u) access db)
         | _ \<Rightarrow> (Fail 404 (Message ''user not found''), db))
      else if uid = [] then (Fail 400 (Message ''user_id or email required''), db)
      else (Reply (), UpdateUserCIAccess uid access db))"

section \<open>Shards\<close>

text \<open>\<open>routing/picker.go\<close>. The names are in the order Go's map gave them.\<close>

record shard_picker =
  pk_shards :: "(string \<times> string) list"
  pk_names :: "string list"
  pk_next :: nat

definition NewShardPicker :: "(string \<times> string) list \<Rightarrow> shard_picker" where
  "NewShardPicker shards = \<lparr>pk_shards = shards, pk_names = map fst shards, pk_next = 0\<rparr>"

definition UpdateShards :: "(string \<times> string) list \<Rightarrow> shard_picker \<Rightarrow> shard_picker" where
  "UpdateShards shards p = p\<lparr>pk_shards := shards, pk_names := map fst shards\<rparr>"

definition GetShardURL :: "shard_picker \<Rightarrow> string \<Rightarrow> string" where
  "GetShardURL p shardName = case_option [] id (map_of (pk_shards p) shardName)"

definition PickShardRoundRobin :: "shard_picker \<Rightarrow> (unit, string) go \<times> shard_picker" where
  "PickShardRoundRobin p =
     (if pk_names p = [] then (Ok ''default'', p)
      else if pk_next p \<ge> length (pk_names p) then (Panic, p)
      else (Ok (pk_names p ! pk_next p), p\<lparr>pk_next := (pk_next p + 1) mod length (pk_names p)\<rparr>))"

text \<open>The 64-bit FNV-1a hash.\<close>

definition fnv64a :: "string \<Rightarrow> 64 word" where
  "fnv64a s = foldl (\<lambda>h c. (h XOR of_nat (of_char c)) * 1099511628211) 14695981039346656037 s"

definition PickShardByHash :: "shard_picker \<Rightarrow> string \<Rightarrow> string" where
  "PickShardByHash p orgID =
     (if pk_names p = [] then ''default''
      else pk_names p ! unat (fnv64a orgID mod of_nat (length (pk_names p))))"

section \<open>Organizations and members\<close>

text \<open>Failures to write the audit are ignored. The handlers get the id of its row.\<close>

definition audit :: "int \<Rightarrow> string \<Rightarrow> string option \<Rightarrow> user_row \<Rightarrow> string \<Rightarrow> string \<Rightarrow> string \<Rightarrow> (string \<times> string) list \<Rightarrow> control_db \<Rightarrow> control_db" where
  "audit now aid oid actor action targetType targetID data db =
     snd (WriteAudit (unix now) aid oid (Some (us_ID actor)) action targetType targetID data db)"

definition h_CreateOrg :: "int \<Rightarrow> string \<Rightarrow> string \<Rightarrow> user_row option \<Rightarrow> string \<Rightarrow> string \<Rightarrow> control_db \<Rightarrow> org_row reply \<times> control_db" where
  "h_CreateOrg now oid aid user slug name db = (case user of
     None \<Rightarrow> (Fail 401 (Message ''not authenticated''), db)
   | Some u \<Rightarrow>
       let slug = NormalizeSlug slug in
       if \<not> ValidateSlug slug then (Fail 400 (Message ''invalid slug: must be 1-63 lowercase letters, numbers, hyphens, underscores''), db)
       else case CreateOrg (unix now) oid slug (if name = [] then slug else name) (us_ID u) db of
         (Ok r, db') \<Rightarrow> (Reply r, audit now aid (Some (or_ID r)) u ''org.create'' ''org'' (or_ID r) [(''slug'', or_Slug r)] db')
       | (_, db') \<Rightarrow> (Fail 500 (Message ''failed to create org''), db'))"

definition ListOrgs :: "user_row option \<Rightarrow> control_db \<Rightarrow> (org_row \<times> string \<times> nat) list reply" where
  "ListOrgs user db = (case user of None \<Rightarrow> Fail 401 (Message ''not authenticated'') | Some u \<Rightarrow> Reply (ListUserOrgs db (us_ID u)))"

text \<open>Members whose user is gone are left out.\<close>

definition ListMembers :: "org_row \<Rightarrow> control_db \<Rightarrow> (member_row \<times> user_row) list" where
  "ListMembers org db = List.map_filter (\<lambda>m. case GetUserByID db (mb_UserID m) of Ok u \<Rightarrow> Some (m, u) | _ \<Rightarrow> None) (ListOrgMembers db (or_ID org))"

definition h_AddMember :: "int \<Rightarrow> string \<Rightarrow> string \<Rightarrow> user_row \<Rightarrow> org_row \<Rightarrow> string \<Rightarrow> string \<Rightarrow> control_db \<Rightarrow> (user_row \<times> string) reply \<times> control_db" where
  "h_AddMember now uid aid actor org email role db =
     (if email = [] then (Fail 400 (Message ''email required''), db)
      else if role \<notin> fst ` set RoleHierarchy then (Fail 400 (Message ''invalid role''), db)
      else case GetOrCreateUser (unix now) uid email [] db of
        (Ok (u, _), db') \<Rightarrow>
          (case AddMember (unix now) (or_ID org) (us_ID u) role db' of
             (Ok _, db'') \<Rightarrow> (Reply (u, role),
                audit now aid (Some (or_ID org)) actor ''member.add'' ''user'' (us_ID u) [(''email'', email), (''role'', role)] db'')
           | (_, db'') \<Rightarrow> (Fail 500 (Message ''failed to add member''), db''))
      | (_, db') \<Rightarrow> (Fail 500 (Message ''failed to get/create user''), db'))"

text \<open>The owner's row is the one that cannot be removed.\<close>

definition h_RemoveMember :: "int \<Rightarrow> string \<Rightarrow> user_row \<Rightarrow> org_row \<Rightarrow> string \<Rightarrow> control_db \<Rightarrow> unit reply \<times> control_db" where
  "h_RemoveMember now aid actor org uid db =
     (if uid = [] then (Fail 400 (Message ''invalid user_id''), db)
      else if uid = or_OwnerID org then (Fail 400 (Message ''cannot remove the owner''), db)
      else (Reply (), audit now aid (Some (or_ID org)) actor ''member.remove'' ''user'' uid [] (RemoveMember (or_ID org) uid db)))"

text \<open>At most ten members whose address or name begins with the query.\<close>

definition search_match :: "string \<Rightarrow> user_row \<Rightarrow> bool" where
  "search_match query u \<longleftrightarrow> (let q = fold_case query; email = fold_case (us_Email u) in
     HasPrefix email q \<or> HasPrefix (hd (split_on (CHR ''@'') email)) q \<or> HasPrefix (fold_case (us_Name u)) q)"

definition SearchMembers :: "org_row \<Rightarrow> string \<Rightarrow> control_db \<Rightarrow> user_row list" where
  "SearchMembers org query db =
     (if query = [] then [] else take 10 (filter (search_match query) (map snd (ListMembers org db))))"

section \<open>Repositories\<close>

text \<open>A shard is asked to create or delete the repository too, and the answer is ignored.\<close>

definition h_CreateRepo ::
  "shard_picker \<Rightarrow> int \<Rightarrow> string \<Rightarrow> string \<Rightarrow> user_row \<Rightarrow> org_row \<Rightarrow> string \<Rightarrow> string \<Rightarrow> control_db \<Rightarrow> repo_row reply \<times> control_db" where
  "h_CreateRepo shards now rid aid user org name visibility db =
     (let name = NormalizeSlug name; visibility = (if visibility = [] then ''private'' else visibility) in
      if \<not> ValidateSlug name then (Fail 400 (Message ''invalid repo name: must be 1-63 lowercase letters, numbers, hyphens, underscores, dots''), db)
      else if visibility \<notin> set visibilities then (Fail 400 (Message ''invalid visibility: must be private, public, or internal''), db)
      else let shardHint = PickShardByHash shards (or_ID org) in
        case CreateRepo (unix now) rid (or_ID org) name visibility shardHint (us_ID user) db of
          (Ok r, db') \<Rightarrow> (Reply r, audit now aid (Some (or_ID org)) user ''repo.create'' ''repo'' (rp_ID r)
             [(''name'', rp_Name r), (''visibility'', rp_Visibility r), (''shard'', shardHint)] db')
        | (_, db') \<Rightarrow> (Fail 500 (Message ''failed to create repo''), db'))"

definition h_UpdateRepo :: "int \<Rightarrow> string \<Rightarrow> user_row \<Rightarrow> org_row \<Rightarrow> repo_row \<Rightarrow> string \<Rightarrow> string \<Rightarrow> control_db \<Rightarrow> repo_row reply \<times> control_db" where
  "h_UpdateRepo now aid user org repo newName newVisibility db =
     (let name = (if newName = [] then rp_Name repo else NormalizeSlug newName);
          visibility = (if newVisibility = [] then rp_Visibility repo else newVisibility) in
      if newName \<noteq> [] \<and> \<not> ValidateSlug name then (Fail 400 (Message ''invalid repo name: must be 1-63 lowercase letters, numbers, hyphens, underscores, dots''), db)
      else if newVisibility \<noteq> [] \<and> visibility \<notin> set visibilities then (Fail 400 (Message ''invalid visibility: must be private, public, or internal''), db)
      else case UpdateRepo (rp_ID repo) name visibility db of
        (Ok r, db') \<Rightarrow> (Reply r, audit now aid (Some (or_ID org)) user ''repo.update'' ''repo'' (rp_ID repo) [(''name'', name), (''visibility'', visibility)] db')
      | (_, db') \<Rightarrow> (Fail 500 (Message ''failed to update repo''), db'))"

definition h_DeleteRepo :: "int \<Rightarrow> string \<Rightarrow> user_row \<Rightarrow> org_row \<Rightarrow> repo_row \<Rightarrow> control_db \<Rightarrow> unit reply \<times> control_db" where
  "h_DeleteRepo now aid user org repo db =
     (Reply (), audit now aid (Some (or_ID org)) user ''repo.delete'' ''repo'' (rp_ID repo) [(''name'', rp_Name repo)] (DeleteRepo (rp_ID repo) db))"

section \<open>Keys\<close>

text \<open>The parser of a key and its fingerprint are given; the name is required, so the comment of the key is never used.\<close>

definition CreateSSHKey ::
  "(string \<Rightarrow> string option) \<Rightarrow> int \<Rightarrow> string \<Rightarrow> string \<Rightarrow> user_row option \<Rightarrow> string \<Rightarrow> string \<Rightarrow> control_db \<Rightarrow> key_row reply \<times> control_db" where
  "CreateSSHKey fingerprint now kid aid user name publicKey db = (case user of
     None \<Rightarrow> (Fail 401 (Message ''not authenticated''), db)
   | Some u \<Rightarrow>
       if name = [] then (Fail 400 (Message ''name is required''), db)
       else if publicKey = [] then (Fail 400 (Message ''public_key is required''), db)
       else case fingerprint publicKey of
         None \<Rightarrow> (Fail 400 (Message ''invalid SSH public key''), db)
       | Some fp \<Rightarrow>
           (case db_CreateSSHKey (unix now) kid (us_ID u) name fp (TrimSpace publicKey) db of
              (Ok k, db') \<Rightarrow> (Reply k, audit now aid None u ''ssh_key.create'' ''ssh_key'' (ky_ID k) [(''name'', ky_Name k), (''fingerprint'', ky_Fingerprint k)] db')
            | (Err e, db') \<Rightarrow> (if e = UniqueViolation then Fail 409 (Message ''SSH key already exists'') else Fail 500 (Message ''failed to create SSH key''), db')
            | (Panic, db') \<Rightarrow> (Crash, db')))"

definition DeleteSSHKey :: "int \<Rightarrow> string \<Rightarrow> user_row option \<Rightarrow> string \<Rightarrow> control_db \<Rightarrow> unit reply \<times> control_db" where
  "DeleteSSHKey now aid user keyID db = (case user of
     None \<Rightarrow> (Fail 401 (Message ''not authenticated''), db)
   | Some u \<Rightarrow>
       if keyID = [] then (Fail 400 (Message ''key id required''), db)
       else case GetSSHKeyByID db keyID of
         Err e \<Rightarrow> (if e = NotFound then Fail 404 (Message ''SSH key not found'') else Fail 500 (Message ''failed to get SSH key''), db)
       | Panic \<Rightarrow> (Crash, db)
       | Ok k \<Rightarrow>
           if ky_UserID k \<noteq> us_ID u then (Fail 403 (Message ''not authorized to delete this key''), db)
           else (Reply (), audit now aid None u ''ssh_key.delete'' ''ssh_key'' keyID [(''name'', ky_Name k), (''fingerprint'', ky_Fingerprint k)] (db_DeleteSSHKey keyID db)))"

definition roleToPermission :: "string \<Rightarrow> string" where
  "roleToPermission role =
     (if role \<in> {''owner'', ''admin''} then ''admin'' else if role \<in> {''maintainer'', ''developer''} then ''write'' else ''read'')"

record ssh_verify_response =
  vr_Allowed :: bool
  vr_UserID :: string
  vr_UserEmail :: string
  vr_Permission :: string
  vr_Reason :: string

definition vr_deny :: "string \<Rightarrow> ssh_verify_response" where
  "vr_deny reason = \<lparr>vr_Allowed = False, vr_UserID = [], vr_UserEmail = [], vr_Permission = [], vr_Reason = reason\<rparr>"

definition vr_allow :: "user_row \<Rightarrow> string \<Rightarrow> ssh_verify_response" where
  "vr_allow u permission = \<lparr>vr_Allowed = True, vr_UserID = us_ID u, vr_UserEmail = us_Email u, vr_Permission = permission, vr_Reason = []\<rparr>"

definition vr_missing :: "string \<Rightarrow> account_error \<Rightarrow> ssh_verify_response" where
  "vr_missing reason e = vr_deny (if e = NotFound then reason else ''internal error'')"

text \<open>The permission of a user on \<open>org/repo\<close>. Without a path it is write.\<close>

definition verify_repo :: "control_db \<Rightarrow> user_row \<Rightarrow> string \<Rightarrow> ssh_verify_response" where
  "verify_repo db u repo =
     (if repo = [] then vr_allow u ''write''
      else let repoPath = TrimSuffix repo ''.git'' in
        case str_index repoPath ''/'' of
          None \<Rightarrow> vr_deny ''invalid repo format''
        | Some i \<Rightarrow>
            (case GetOrgBySlug db (take i repoPath) of
               Err e \<Rightarrow> vr_missing ''org not found'' e
             | Panic \<Rightarrow> vr_deny ''internal error''
             | Ok org \<Rightarrow>
                 (case GetRepoByOrgAndName db (or_ID org) (drop (Suc i) repoPath) of
                    Err e \<Rightarrow> vr_missing ''repo not found'' e
                  | Panic \<Rightarrow> vr_deny ''internal error''
                  | Ok r \<Rightarrow>
                      (case GetMembership db (or_ID org) (us_ID u) of
                         Err e \<Rightarrow> if e = NotFound \<and> rp_Visibility r = ''public'' then vr_allow u ''read'' else vr_missing ''not a member of this org'' e
                       | Panic \<Rightarrow> vr_deny ''internal error''
                       | Ok m \<Rightarrow> vr_allow u (roleToPermission (mb_Role m))))))"

definition VerifySSHKey :: "int \<Rightarrow> string \<Rightarrow> string \<Rightarrow> control_db \<Rightarrow> ssh_verify_response \<times> control_db" where
  "VerifySSHKey now fingerprint repo db =
     (if fingerprint = [] then (vr_deny ''fingerprint required'', db)
      else case GetSSHKeyByFingerprint db fingerprint of
        Err e \<Rightarrow> (vr_missing ''unknown key'' e, db)
      | Panic \<Rightarrow> (vr_deny ''internal error'', db)
      | Ok k \<Rightarrow>
          (case GetUserByID db (ky_UserID k) of
             Ok u \<Rightarrow> (verify_repo db u repo, UpdateSSHKeyLastUsed (unix now) (ky_ID k) db)
           | _ \<Rightarrow> (vr_deny ''user not found'', db)))"

text \<open>The git server's side. The control plane answers or not; a path that is not UTF-8 would change in the request, and
  is left out.\<close>

definition ControlAuthorize ::
  "(string \<Rightarrow> string \<Rightarrow> ssh_verify_response option) \<Rightarrow> string option \<Rightarrow> git_command \<Rightarrow> (ssh_error, unit) go" where
  "ControlAuthorize verify key cmd = (case key of
     None \<Rightarrow> Err (AccessDenied ''SSH key required'')
   | Some fingerprint \<Rightarrow>
       (case verify fingerprint (gc_Repo cmd) of
          None \<Rightarrow> Err (AccessDenied ''control plane unavailable'')
        | Some v \<Rightarrow>
            if \<not> vr_Allowed v then Err (AccessDenied (if vr_Reason v = [] then ''access denied'' else vr_Reason v))
            else if gc_Type cmd = GitReceivePack \<and> vr_Permission v = ''read'' then Err (AccessDenied ''read-only access'')
            else Ok ()))"

section \<open>The proxy\<close>

text \<open>Shards, tokens for them, and which addresses parse.\<close>

record proxy_env =
  px_auth :: auth_api
  px_shards :: shard_picker
  px_token :: "string \<Rightarrow> string \<Rightarrow> string \<Rightarrow> string list \<Rightarrow> string option"
  px_url_ok :: "string \<Rightarrow> bool"

record downstream =
  ds_URL :: string
  ds_Token :: "string option"
  ds_Actor :: string

text \<open>An invalid token is as none; a personal token of a user who is gone is not.\<close>

definition proxy_user :: "auth_api \<Rightarrow> int \<Rightarrow> string \<Rightarrow> control_db \<Rightarrow> (user_row \<times> claims) option reply \<times> control_db" where
  "proxy_user a now tok db =
     (if tok = [] then (Reply None, db)
      else if IsPAT tok then
        (case GetAPITokenByHash db (HashToken a tok) of
           Ok t \<Rightarrow> let db' = UpdateAPITokenLastUsed (unix now) (tk_ID t) db in
             (case GetUserByID db (tk_UserID t) of Ok u \<Rightarrow> (Reply (Some (u, pat_claims u t)), db') | _ \<Rightarrow> (Crash, db'))
         | _ \<Rightarrow> (Reply None, db))
      else case ValidateAccessToken a tok of
        None \<Rightarrow> (Reply None, db)
      | Some c \<Rightarrow> (case GetUserByID db (cl_UserID c) of Ok u \<Rightarrow> (Reply (Some (u, c)), db) | _ \<Rightarrow> (Reply None, db)))"

text \<open>What the lookup of the membership gives is a parameter: only a user who is not a member is stopped.\<close>

definition proxy_check ::
  "bool \<Rightarrow> bool \<Rightarrow> (user_row \<times> claims) option \<Rightarrow> (string \<Rightarrow> (account_error, member_row) go) \<Rightarrow> unit reply" where
  "proxy_check isReadOnly isPublic who membership = (case who of
     None \<Rightarrow> if \<not> isPublic \<or> \<not> isReadOnly then Fail 401 (Message ''authentication required'') else Reply ()
   | Some (u, c) \<Rightarrow>
       let m = membership (us_ID u);
           (role, scope) = (if isReadOnly then (''reporter'', ''repo:read'') else (''developer'', ''repo:write'')) in
       if m = Err NotFound \<and> (\<not> isPublic \<or> \<not> isReadOnly) then Fail 403 (Message ''not a member of this org'')
       else if (case m of Ok r \<Rightarrow> \<not> HasAtLeastRole (mb_Role r) role | _ \<Rightarrow> False) then Fail 403 (Message ''insufficient permissions'')
       else if \<not> HasScope (cl_Scopes c) scope then Fail 403 (Message (''missing scope: '' @ scope))
       else Reply ())"

definition proxy_forward :: "proxy_env \<Rightarrow> bool \<Rightarrow> string \<Rightarrow> repo_row \<Rightarrow> (user_row \<times> claims) option \<Rightarrow> downstream reply" where
  "proxy_forward e isReadOnly orgSlug repo who =
     (let shardURL = GetShardURL (px_shards e) (rp_ShardHint repo) in
      if shardURL = [] then Fail 500 (Message ''shard not available'')
      else let go_on = (\<lambda>tok actor. if px_url_ok e shardURL then Reply \<lparr>ds_URL = shardURL, ds_Token = tok, ds_Actor = actor\<rparr>
                                    else Fail 500 (Message ''invalid shard URL'')) in
        case who of
          None \<Rightarrow> go_on None ''anonymous''
        | Some (u, _) \<Rightarrow>
            (case px_token e (us_ID u) (us_Email u) orgSlug ([''repo:read''] @ (if isReadOnly then [] else [''repo:write''])) of
               None \<Rightarrow> Fail 500 (Message ''failed to generate downstream token'')
             | Some tok \<Rightarrow> go_on (Some tok) (us_Email u)))"

definition ProxyHandler ::
  "proxy_env \<Rightarrow> (string \<Rightarrow> string \<Rightarrow> (account_error, member_row) go) \<Rightarrow> int \<Rightarrow> string \<Rightarrow> string \<Rightarrow> string option \<Rightarrow> string \<Rightarrow> string \<Rightarrow>
     control_db \<Rightarrow> downstream reply \<times> control_db" where
  "ProxyHandler e membership now meth hdr cookie orgSlug repoName db =
     (if orgSlug = [] \<or> repoName = [] then (Fail 400 (Message ''org and repo required''), db)
      else case WithOrg orgSlug db of
        Fail c m \<Rightarrow> (Fail c m, db) | Crash \<Rightarrow> (Crash, db)
      | Reply org \<Rightarrow>
          (case WithRepo org repoName db of
             Fail c m \<Rightarrow> (Fail c m, db) | Crash \<Rightarrow> (Crash, db)
           | Reply repo \<Rightarrow>
               (case proxy_user (px_auth e) now (request_token hdr cookie) db of
                  (Fail c m, db') \<Rightarrow> (Fail c m, db') | (Crash, db') \<Rightarrow> (Crash, db')
                | (Reply who, db') \<Rightarrow>
                    (case proxy_check (isReadOnlyRequest meth) (rp_Visibility repo = ''public'') who (membership (or_ID org)) of
                       Fail c m \<Rightarrow> (Fail c m, db') | Crash \<Rightarrow> (Crash, db')
                     | Reply _ \<Rightarrow> (proxy_forward e (isReadOnlyRequest meth) orgSlug repo who, db')))))"

section \<open>Webhooks\<close>

definition AllWebhookEvents :: "string list" where
  "AllWebhookEvents = [''push'', ''branch_create'', ''branch_delete'', ''tag_create'', ''tag_delete'']"

text \<open>Every handler of webhooks checks the request itself: a maintainer of the organization, and a repository of it.\<close>

definition webhook_access :: "user_row option \<Rightarrow> string \<Rightarrow> string \<Rightarrow> control_db \<Rightarrow> (user_row \<times> org_row \<times> repo_row) reply" where
  "webhook_access user orgSlug repoName db = (case user of
     None \<Rightarrow> Fail 401 (Message ''not authenticated'')
   | Some u \<Rightarrow>
       (case GetOrgBySlug db orgSlug of
          Err e \<Rightarrow> if e = NotFound then Fail 404 (Message ''org not found'') else Fail 500 (Message ''failed to get org'')
        | Panic \<Rightarrow> Crash
        | Ok org \<Rightarrow>
            (case GetMembership db (or_ID org) (us_ID u) of
               Err _ \<Rightarrow> Fail 403 (Message ''not a member of this org'')
             | Panic \<Rightarrow> Crash
             | Ok m \<Rightarrow>
                 if \<not> HasAtLeastRole (mb_Role m) ''maintainer'' then Fail 403 (Message ''insufficient permissions'')
                 else (case GetRepoByOrgAndName db (or_ID org) repoName of
                    Err e \<Rightarrow> if e = NotFound then Fail 404 (Message ''repo not found'') else Fail 500 (Message ''failed to get repo'')
                  | Panic \<Rightarrow> Crash
                  | Ok r \<Rightarrow> Reply (u, org, r)))))"

text \<open>The webhook of a request, which must belong to the repository.\<close>

definition webhook_of :: "repo_row \<Rightarrow> string \<Rightarrow> control_db \<Rightarrow> hook_row reply" where
  "webhook_of repo hid db = (case GetWebhookByID db hid of
     Err e \<Rightarrow> if e = NotFound then Fail 404 (Message ''webhook not found'') else Fail 500 (Message ''failed to get webhook'')
   | Panic \<Rightarrow> Crash
   | Ok h \<Rightarrow> if hk_RepoID h \<noteq> rp_ID repo then Fail 404 (Message ''webhook not found'') else Reply h)"

definition webhook_url_ok :: "string \<Rightarrow> bool" where
  "webhook_url_ok url \<longleftrightarrow> HasPrefix url ''http://'' \<or> HasPrefix url ''https://''"

definition invalid_event :: "string list \<Rightarrow> string option" where
  "invalid_event events = find (\<lambda>e. e \<notin> set AllWebhookEvents) events"

definition h_ListWebhooks :: "user_row option \<Rightarrow> string \<Rightarrow> string \<Rightarrow> control_db \<Rightarrow> hook_row list reply" where
  "h_ListWebhooks user orgSlug repoName db = (case webhook_access user orgSlug repoName db of
     Reply (_, _, repo) \<Rightarrow> Reply (ListRepoWebhooks db (rp_ID repo)) | Fail c m \<Rightarrow> Fail c m | Crash \<Rightarrow> Crash)"

definition CreateWebhook ::
  "int \<Rightarrow> string \<Rightarrow> string \<Rightarrow> user_row option \<Rightarrow> string \<Rightarrow> string \<Rightarrow> string \<Rightarrow> string \<Rightarrow> string list \<Rightarrow> control_db \<Rightarrow> hook_row reply \<times> control_db" where
  "CreateWebhook now hid aid user orgSlug repoName url secret events db = (case webhook_access user orgSlug repoName db of
     Fail c m \<Rightarrow> (Fail c m, db) | Crash \<Rightarrow> (Crash, db)
   | Reply (u, org, repo) \<Rightarrow>
       if url = [] then (Fail 400 (Message ''url is required''), db)
       else if \<not> webhook_url_ok url then (Fail 400 (Message ''url must start with http:// or https://''), db)
       else let events = (if events = [] then [''push''] else events) in
         case invalid_event events of
           Some e \<Rightarrow> (Fail 400 (Message (''invalid event: '' @ e)), db)
         | None \<Rightarrow>
             (case db_CreateWebhook (unix now) hid (rp_ID repo) url secret events db of
                (Ok h, db') \<Rightarrow> (Reply h, audit now aid (Some (or_ID org)) u ''webhook.create'' ''webhook'' (hk_ID h)
                   [(''url'', hk_URL h), (''events'', join_events (hook_events h))] db')
              | (_, db') \<Rightarrow> (Fail 500 (Message ''failed to create webhook''), db')))"

text \<open>Empty fields of the request keep what is stored, the events as they are read back.\<close>

definition UpdateWebhook ::
  "int \<Rightarrow> string \<Rightarrow> user_row option \<Rightarrow> string \<Rightarrow> string \<Rightarrow> string \<Rightarrow> string \<Rightarrow> string \<Rightarrow> string list \<Rightarrow> bool option \<Rightarrow> control_db \<Rightarrow>
     hook_row reply \<times> control_db" where
  "UpdateWebhook now aid user orgSlug repoName hid url secret events active db = (case webhook_access user orgSlug repoName db of
     Fail c m \<Rightarrow> (Fail c m, db) | Crash \<Rightarrow> (Crash, db)
   | Reply (u, org, repo) \<Rightarrow>
       (case webhook_of repo hid db of
          Fail c m \<Rightarrow> (Fail c m, db) | Crash \<Rightarrow> (Crash, db)
        | Reply h \<Rightarrow>
            if url \<noteq> [] \<and> \<not> webhook_url_ok url then (Fail 400 (Message ''url must start with http:// or https://''), db)
            else case invalid_event events of
              Some e \<Rightarrow> (Fail 400 (Message (''invalid event: '' @ e)), db)
            | None \<Rightarrow>
                let db' = audit now aid (Some (or_ID org)) u ''webhook.update'' ''webhook'' hid []
                      (db_UpdateWebhook (unix now) hid (if url = [] then hk_URL h else url) (if secret = [] then hk_Secret h else secret)
                        (if events = [] then hook_events h else events) (case active of None \<Rightarrow> hk_Active h | Some b \<Rightarrow> b) db)
                in (case GetWebhookByID db' hid of Ok h' \<Rightarrow> (Reply h', db') | _ \<Rightarrow> (Crash, db'))))"

definition DeleteWebhook :: "int \<Rightarrow> string \<Rightarrow> user_row option \<Rightarrow> string \<Rightarrow> string \<Rightarrow> string \<Rightarrow> control_db \<Rightarrow> unit reply \<times> control_db" where
  "DeleteWebhook now aid user orgSlug repoName hid db = (case webhook_access user orgSlug repoName db of
     Fail c m \<Rightarrow> (Fail c m, db) | Crash \<Rightarrow> (Crash, db)
   | Reply (u, org, repo) \<Rightarrow>
       (case webhook_of repo hid db of
          Fail c m \<Rightarrow> (Fail c m, db) | Crash \<Rightarrow> (Crash, db)
        | Reply _ \<Rightarrow> (Reply (), audit now aid (Some (or_ID org)) u ''webhook.delete'' ''webhook'' hid [] (db_DeleteWebhook hid db))))"

definition h_ListWebhookDeliveries :: "user_row option \<Rightarrow> string \<Rightarrow> string \<Rightarrow> string \<Rightarrow> control_db \<Rightarrow> delivery_row list reply" where
  "h_ListWebhookDeliveries user orgSlug repoName hid db = (case webhook_access user orgSlug repoName db of
     Fail c m \<Rightarrow> Fail c m | Crash \<Rightarrow> Crash
   | Reply (_, _, repo) \<Rightarrow> (case webhook_of repo hid db of
        Fail c m \<Rightarrow> Fail c m | Crash \<Rightarrow> Crash | Reply _ \<Rightarrow> Reply (ListWebhookDeliveries db hid 50)))"

text \<open>The deliveries of an event, one for each webhook whose row could be written; \<open>ids\<close> are the new ids. How the payload
  is printed is a parameter, since its members are those of the request over the ones given here.\<close>

definition queue_deliveries :: "int \<Rightarrow> string \<Rightarrow> string \<Rightarrow> (string \<times> hook_row) list \<Rightarrow> control_db \<Rightarrow> (hook_row \<times> delivery_row) list \<times> control_db" where
  "queue_deliveries now event payload hooks db =
     foldl (\<lambda>(ds, db) (did, h). case CreateWebhookDelivery (unix now) did (hk_ID h) event payload db of
        (Ok d, db') \<Rightarrow> (ds @ [(h, d)], db') | (_, db') \<Rightarrow> (ds, db')) ([], db) hooks"

definition TriggerWebhooks ::
  "(org_row \<Rightarrow> repo_row \<Rightarrow> string \<Rightarrow> string) \<Rightarrow> int \<Rightarrow> (nat \<Rightarrow> string) \<Rightarrow> string \<Rightarrow> string \<Rightarrow> control_db \<Rightarrow>
     (string, (hook_row \<times> delivery_row) list) go \<times> control_db" where
  "TriggerWebhooks body now ids repo event db =
     (if repo = [] \<or> event = [] then (Err ''repo and event required'', db)
      else case str_index repo ''/'' of
        None \<Rightarrow> (Err ''invalid repo format'', db)
      | Some i \<Rightarrow>
          let orgSlug = take i repo; repoName = TrimSuffix (drop (Suc i) repo) ''.git'' in
          (case GetOrgBySlug db orgSlug of
             Ok org \<Rightarrow>
               (case GetRepoByOrgAndName db (or_ID org) repoName of
                  Ok r \<Rightarrow>
                    let hooks = ListActiveWebhooksForEvent db (rp_ID r) event;
                        (ds, db') = queue_deliveries now event (body org r (orgSlug @ ''/'' @ repoName)) (zip (map ids [0..<length hooks]) hooks) db
                    in (Ok ds, db')
                | _ \<Rightarrow> (Err ''repo not found'', db))
           | _ \<Rightarrow> (Err ''org not found'', db)))"

text \<open>A delivery, with what the transport answered: an error or a status and a body, of which at most ten thousand bytes are
  kept. It is signed when the webhook has a secret.\<close>

definition delivery_headers :: "(string \<Rightarrow> string \<Rightarrow> string) \<Rightarrow> hook_row \<Rightarrow> delivery_row \<Rightarrow> (string \<times> string) list" where
  "delivery_headers computeHMAC h d =
     [(''Content-Type'', ''application/json''), (''User-Agent'', ''Kailab-Webhook/1.0''), (''X-Kailab-Event'', dl_Event d), (''X-Kailab-Delivery'', dl_ID d)] @
     (if hk_Secret h \<noteq> [] then [(''X-Kailab-Signature-256'', ''sha256='' @ computeHMAC (dl_Payload d) (hk_Secret h))] else [])"

definition deliverWebhook :: "int \<Rightarrow> delivery_row \<Rightarrow> string + int \<times> string \<Rightarrow> control_db \<Rightarrow> control_db" where
  "deliverWebhook now d answer db = (case answer of
     Inl err \<Rightarrow> UpdateWebhookDelivery (unix now) (dl_ID d) ''failed'' 0 err (dl_Attempts d + 1) db
   | Inr (code, body) \<Rightarrow> UpdateWebhookDelivery (unix now) (dl_ID d) (if code \<ge> 400 then ''failed'' else ''success'') code (take 10000 body) (dl_Attempts d + 1) db)"

section \<open>Names\<close>

text \<open>Organizations and repositories have valid names when they were made by the handlers.\<close>

definition names_ok :: "control_db \<Rightarrow> bool" where
  "names_ok db \<longleftrightarrow> (\<forall>r \<in> set (c_orgs db). ValidateSlug (or_Slug r)) \<and> (\<forall>r \<in> set (c_repos db). ValidateSlug (rp_Name r))"

lemma audit_frame [simp]:
  "c_orgs (audit now aid oid u a t ti d db) = c_orgs db" "c_repos (audit now aid oid u a t ti d db) = c_repos db"
  "c_members (audit now aid oid u a t ti d db) = c_members db" "c_users (audit now aid oid u a t ti d db) = c_users db"
  by (simp_all add: audit_def WriteAudit_def)

lemma CreateOrg_rows:
  "CreateOrg ts oid slug name u db = (r, db') \<Longrightarrow>
     c_repos db' = c_repos db \<and> (\<forall>x \<in> set (c_orgs db'). x \<in> set (c_orgs db) \<or> or_Slug x = slug)"
  by (auto simp: CreateOrg_def Let_def split: if_splits)

lemma CreateOrg_names: "names_ok db \<Longrightarrow> names_ok (snd (h_CreateOrg now oid aid user slug name db))"
proof (cases user)
  case (Some u)
  assume n: "names_ok db"
  obtain r db' where c: "CreateOrg (unix now) oid (NormalizeSlug slug) (if name = [] then NormalizeSlug slug else name) (us_ID u) db = (r, db')" by fastforce
  show ?thesis using n CreateOrg_rows [OF c] unfolding h_CreateOrg_def Let_def Some option.case c
    by (auto simp: names_ok_def split: go.splits)
qed (simp add: h_CreateOrg_def)

lemma CreateRepo_rows:
  "CreateRepo ts rid oid name v sh u db = (r, db') \<Longrightarrow>
     c_orgs db' = c_orgs db \<and> (\<forall>x \<in> set (c_repos db'). x \<in> set (c_repos db) \<or> rp_Name x = name)"
  by (auto simp: CreateRepo_def Let_def split: if_splits)

lemma CreateRepo_names: "names_ok db \<Longrightarrow> names_ok (snd (h_CreateRepo shards now rid aid user org name visibility db))"
proof -
  assume n: "names_ok db"
  obtain r db' where c: "CreateRepo (unix now) rid (or_ID org) (NormalizeSlug name) (if visibility = [] then ''private'' else visibility)
    (PickShardByHash shards (or_ID org)) (us_ID user) db = (r, db')" by fastforce
  show ?thesis using n CreateRepo_rows [OF c] unfolding h_CreateRepo_def Let_def c
    by (auto simp: names_ok_def split: go.splits)
qed

lemma UpdateRepo_rows:
  "UpdateRepo rid name v db = (r, db') \<Longrightarrow>
     c_orgs db' = c_orgs db \<and> (\<forall>x \<in> set (c_repos db'). x \<in> set (c_repos db) \<or> rp_Name x = name)"
  by (auto simp: UpdateRepo_def Let_def in_set_where split: go.splits if_splits)

lemma UpdateRepo_names:
  "\<lbrakk>names_ok db; ValidateSlug (rp_Name repo)\<rbrakk> \<Longrightarrow> names_ok (snd (h_UpdateRepo now aid user org repo newName newVisibility db))"
proof -
  assume n: "names_ok db" "ValidateSlug (rp_Name repo)"
  define name where "name = (if newName = [] then rp_Name repo else NormalizeSlug newName)"
  define v where "v = (if newVisibility = [] then rp_Visibility repo else newVisibility)"
  obtain r db' where c: "UpdateRepo (rp_ID repo) name v db = (r, db')" by fastforce
  have "newName \<noteq> [] \<and> \<not> ValidateSlug name \<or> ValidateSlug name" using n(2) by (auto simp: name_def)
  moreover have "ValidateSlug name \<Longrightarrow> names_ok db'" using n(1) UpdateRepo_rows [OF c] by (auto simp: names_ok_def)
  moreover have "names_ok db' \<Longrightarrow> names_ok (audit now aid x user a t ti d db')" for x a t ti d by (simp add: names_ok_def)
  ultimately show ?thesis
    using n(1) unfolding h_UpdateRepo_def Let_def name_def [symmetric] v_def [symmetric] c by (auto split: go.split)
qed

lemma DeleteRepo_names: "names_ok db \<Longrightarrow> names_ok (snd (h_DeleteRepo now aid user org repo db))"
  by (auto simp: names_ok_def h_DeleteRepo_def DeleteRepo_def Let_def)

lemma slug_no_slash: "ValidateSlug s \<Longrightarrow> CHR ''/'' \<notin> set s"
  by (auto simp: ValidateSlug_def slug_char_def is_digit_def list_all_iff)

lemma find_row_Ok: "find_row P t = Ok r \<Longrightarrow> r \<in> set t \<and> P r"
  by (auto simp: find_row_def find_Some_iff split: option.splits)

lemma slug_nonempty: "ValidateSlug s \<Longrightarrow> s \<noteq> []"
  by (auto simp: ValidateSlug_def)

lemma org_slug:
  assumes "names_ok db" "GetOrgBySlug db s = Ok r"
  shows "or_Slug r = s \<and> s \<noteq> [] \<and> CHR ''/'' \<notin> set s"
proof -
  have "r \<in> set (c_orgs db) \<and> or_Slug r = s" using assms(2) unfolding GetOrgBySlug_def by (rule find_row_Ok)
  then show ?thesis using assms(1) slug_no_slash slug_nonempty by (auto simp: names_ok_def)
qed

lemma repo_name:
  assumes "names_ok db" "GetRepoByOrgAndName db oid n = Ok r"
  shows "rp_Name r = n \<and> n \<noteq> [] \<and> CHR ''/'' \<notin> set n"
proof -
  have "r \<in> set (c_repos db) \<and> rp_OrgID r = oid \<and> rp_Name r = n" using assms(2) unfolding GetRepoByOrgAndName_def by (rule find_row_Ok)
  then show ?thesis using assms(1) slug_no_slash slug_nonempty by (auto simp: names_ok_def)
qed

section \<open>Who may use the git server\<close>

text \<open>The organization and repository that the git server serves for a path.\<close>

definition served :: "control_db \<Rightarrow> string \<Rightarrow> (org_row \<times> repo_row) option" where
  "served db path = (case splitRepo path of
     None \<Rightarrow> None
   | Some (s, n) \<Rightarrow> (case GetOrgBySlug db s of
        Ok r \<Rightarrow> (case GetRepoByOrgAndName db (or_ID r) n of Ok p \<Rightarrow> Some (r, p) | _ \<Rightarrow> None) | _ \<Rightarrow> None))"

definition may_access :: "control_db \<Rightarrow> user_row \<Rightarrow> org_row \<Rightarrow> repo_row \<Rightarrow> command_type \<Rightarrow> bool" where
  "may_access db u r p t \<longleftrightarrow> (case GetMembership db (or_ID r) (us_ID u) of
     Ok m \<Rightarrow> t = GitUploadPack \<or> HasAtLeastRole (mb_Role m) ''developer''
   | _ \<Rightarrow> t = GitUploadPack \<and> rp_Visibility p = ''public'')"

text \<open>The control plane as the git server asks it.\<close>

definition ask_control :: "int \<Rightarrow> control_db \<Rightarrow> string \<Rightarrow> string \<Rightarrow> ssh_verify_response option" where
  "ask_control now db fp path = Some (fst (VerifySSHKey now fp path db))"

definition vr_permits :: "command_type \<Rightarrow> ssh_verify_response \<Rightarrow> bool" where
  "vr_permits t v \<longleftrightarrow> vr_Allowed v \<and> (t = GitReceivePack \<longrightarrow> vr_Permission v \<noteq> ''read'')"

lemma vr_simps [simp]:
  "\<not> vr_permits t (vr_deny reason)" "\<not> vr_permits t (vr_missing reason e)"
  "vr_permits t (vr_allow u p) \<longleftrightarrow> (t = GitReceivePack \<longrightarrow> p \<noteq> ''read'')"
  by (simp_all add: vr_permits_def vr_deny_def vr_missing_def vr_allow_def)

lemma ControlAuthorize_permits:
  "ControlAuthorize verify (Some fp) cmd = Ok () \<longleftrightarrow> (\<exists>v. verify fp (gc_Repo cmd) = Some v \<and> vr_permits (gc_Type cmd) v)"
  by (auto simp: ControlAuthorize_def vr_permits_def split: option.splits)

lemma roleToPermission_write: "roleToPermission role \<noteq> ''read'' \<longleftrightarrow> HasAtLeastRole role ''developer''"
  by (simp add: roleToPermission_def HasAtLeastRole_def role_rank_def RoleHierarchy_def)

lemma lookups_total [simp]:
  "GetOrgBySlug db s \<noteq> Panic" "GetRepoByOrgAndName db i n \<noteq> Panic" "GetMembership db i u \<noteq> Panic"
  by (simp_all add: GetOrgBySlug_def GetRepoByOrgAndName_def GetMembership_def find_row_cases)

lemma GetMembership_Err: "GetMembership db i u = Err e \<Longrightarrow> e = NotFound"
  unfolding GetMembership_def by (rule find_row_cases)

lemma HasPrefix_slash: "HasPrefix p ''/'' \<longleftrightarrow> (\<exists>q. p = CHR ''/'' # q)"
  by (auto simp: HasPrefix_iff)

lemma TrimSuffix_slash: "HasPrefix p ''/'' \<Longrightarrow> str_index (TrimSuffix p ''.git'') ''/'' = Some 0"
proof -
  assume "HasPrefix p ''/''"
  then obtain q where p: "p = CHR ''/'' # q" by (auto simp: HasPrefix_slash)
  have "length q \<noteq> 3 \<or> \<not> HasSuffix p ''.git''" by (auto simp: p HasSuffix_def)
  then have "HasSuffix p ''.git'' \<Longrightarrow> length q > 3" by (auto simp: p HasSuffix_def)
  then have "\<exists>t. TrimSuffix p ''.git'' = CHR ''/'' # t"
    by (auto simp: p TrimSuffix_def take_Cons')
  then show ?thesis by (auto simp: HasPrefix_def)
qed

lemma splitRepo_plain:
  assumes "\<not> HasPrefix p ''/''"
  shows "splitRepo p = (case str_index (TrimSuffix p ''.git'') ''/'' of None \<Rightarrow> None
    | Some i \<Rightarrow> if take i (TrimSuffix p ''.git'') = [] \<or> drop (Suc i) (TrimSuffix p ''.git'') = [] then None
        else Some (take i (TrimSuffix p ''.git''), drop (Suc i) (TrimSuffix p ''.git'')))"
  using assms unfolding splitRepo_def TrimPrefix_def Let_def by simp

lemma verify_repo_permits:
  assumes n: "names_ok db" and p: "path \<noteq> []"
  shows "vr_permits t (verify_repo db u path) \<longleftrightarrow>
    \<not> HasPrefix path ''/'' \<and> (\<exists>r p. served db path = Some (r, p) \<and> may_access db u r p t)"
proof (cases "HasPrefix path ''/''")
  case True
  have "GetOrgBySlug db [] \<noteq> Ok r" for r using org_slug [OF n] by blast
  then show ?thesis using p True
    by (auto simp: verify_repo_def TrimSuffix_slash Let_def split: go.splits)
next
  case False
  show ?thesis
  proof (cases "str_index (TrimSuffix path ''.git'') ''/''")
    case None
    then show ?thesis using p False by (simp add: verify_repo_def served_def splitRepo_plain Let_def)
  next
    case (Some i)
    let ?s = "take i (TrimSuffix path ''.git'')" and ?n = "drop (Suc i) (TrimSuffix path ''.git'')"
    show ?thesis
    proof (cases "GetOrgBySlug db ?s")
      case (Ok org)
      note org = Ok
      have s: "?s \<noteq> []" using org_slug [OF n org] by simp
      show ?thesis
      proof (cases "GetRepoByOrgAndName db (or_ID org) ?n")
        case (Ok repo)
        have "?n \<noteq> []" using repo_name [OF n Ok] by simp
        then have sv: "served db path = Some (org, repo)"
          using s org Ok Some False by (simp add: served_def splitRepo_plain)
        show ?thesis
        proof (cases "GetMembership db (or_ID org) (us_ID u)")
          case (Ok m)
          then show ?thesis using sv p False Some org \<open>GetRepoByOrgAndName _ _ _ = _\<close>
            by (cases t) (auto simp: verify_repo_def may_access_def Let_def roleToPermission_write)
        next
          case (Err e)
          then show ?thesis using sv p False Some org \<open>GetRepoByOrgAndName _ _ _ = _\<close> GetMembership_Err [OF Err]
            by (cases t) (auto simp: verify_repo_def may_access_def Let_def)
        qed simp
      qed (use p False Some org s in \<open>auto simp: verify_repo_def served_def splitRepo_plain Let_def\<close>)
    qed (use p False Some in \<open>auto simp: verify_repo_def served_def splitRepo_plain Let_def\<close>)
  qed
qed

lemma ParseGitCommand_repo: "ParseGitCommand raw = Ok cmd \<Longrightarrow> gc_Repo cmd \<noteq> []"
  by (auto simp: ParseGitCommand_def Let_def split: if_splits option.splits)

text \<open>C24: a command over SSH is allowed exactly when the key is known and belongs to a user, and the repository the
  git server will serve exists and is open to the user: for a push a member with at least the role of developer, for a fetch
  a member or anyone if it is public. The path that is checked and the path that is served name the same repository.\<close>

theorem ssh_access_decision:
  assumes "names_ok db" and "ParseGitCommand raw = Ok cmd"
  shows "ControlAuthorize (ask_control now db) (Some fp) cmd = Ok () \<longleftrightarrow>
    fp \<noteq> [] \<and> \<not> HasPrefix (gc_Repo cmd) ''/'' \<and>
    (\<exists>k u r p. GetSSHKeyByFingerprint db fp = Ok k \<and> GetUserByID db (ky_UserID k) = Ok u \<and>
       served db (gc_Repo cmd) = Some (r, p) \<and> may_access db u r p (gc_Type cmd))"
proof -
  note v = verify_repo_permits [OF assms(1) ParseGitCommand_repo [OF assms(2)]]
  show ?thesis
    unfolding ControlAuthorize_permits ask_control_def VerifySSHKey_def
    by (auto simp: v split: go.splits)
qed

section \<open>SSH and the proxy\<close>

text \<open>The requests that reach the shard of the repository, when there is one.\<close>

definition shard_ready :: "proxy_env \<Rightarrow> repo_row \<Rightarrow> bool" where
  "shard_ready e p \<longleftrightarrow> GetShardURL (px_shards e) (rp_ShardHint p) \<noteq> [] \<and> px_url_ok e (GetShardURL (px_shards e) (rp_ShardHint p)) \<and>
     (\<forall>i m s sc. px_token e i m s sc \<noteq> None)"

definition forwarded :: "downstream reply \<Rightarrow> bool" where
  "forwarded r \<longleftrightarrow> (case r of Reply _ \<Rightarrow> True | _ \<Rightarrow> False)"

lemma proxy_forward_ready: "shard_ready e p \<Longrightarrow> forwarded (proxy_forward e ro s p who)"
  by (auto simp: shard_ready_def forwarded_def proxy_forward_def Let_def split: option.splits) (metis option.distinct(1))+

lemma ProxyHandler_forwards:
  assumes "s \<noteq> []" "n \<noteq> []" "GetOrgBySlug db s = Ok r" "GetRepoByOrgAndName db (or_ID r) n = Ok p" "shard_ready e p"
    and "fst (proxy_user (px_auth e) now (request_token hdr cookie) db) = Reply who"
  shows "forwarded (fst (ProxyHandler e mem now meth hdr cookie s n db)) \<longleftrightarrow>
    proxy_check (isReadOnlyRequest meth) (rp_Visibility p = ''public'') who (mem (or_ID r)) = Reply ()"
proof -
  obtain db' where u: "proxy_user (px_auth e) now (request_token hdr cookie) db = (Reply who, db')" using assms(6) by (metis prod.collapse)
  show ?thesis
    using assms(1-4) proxy_forward_ready [OF assms(5)]
    by (cases "proxy_check (isReadOnlyRequest meth) (rp_Visibility p = ''public'') who (mem (or_ID r))")
       (simp_all add: ProxyHandler_def WithOrg_def WithRepo_def u forwarded_def)
qed

lemma proxy_check_member:
  assumes "HasScope (cl_Scopes c) ''repo:read''" "HasScope (cl_Scopes c) ''repo:write''"
  shows "proxy_check ro pub (Some (u, c)) (GetMembership db i) = Reply () \<longleftrightarrow>
    (case GetMembership db i (us_ID u) of
       Ok m \<Rightarrow> HasAtLeastRole (mb_Role m) (if ro then ''reporter'' else ''developer'')
     | _ \<Rightarrow> ro \<and> pub)"
proof (cases "GetMembership db i (us_ID u)")
  case (Err e)
  then show ?thesis using assms GetMembership_Err [OF Err] by (auto simp: proxy_check_def Let_def)
qed (use assms in \<open>auto simp: proxy_check_def Let_def\<close>)

lemma str_index_path: "CHR ''/'' \<notin> set s \<Longrightarrow> str_index (s @ CHR ''/'' # n) ''/'' = Some (length s)"
  by (rule str_index_char)

lemma TrimSuffix_append [simp]: "TrimSuffix (s @ t) t = s"
  by (simp add: TrimSuffix_def HasSuffix_def)

lemma served_path:
  assumes "names_ok db" "GetOrgBySlug db s = Ok r" "GetRepoByOrgAndName db (or_ID r) n = Ok p"
  shows "served db (s @ ''/'' @ n @ ''.git'') = Some (r, p) \<and> \<not> HasPrefix (s @ ''/'' @ n @ ''.git'') ''/''"
proof -
  note s = org_slug [OF assms(1,2)] and n = repo_name [OF assms(1,3)]
  have t: "TrimSuffix (s @ ''/'' @ n @ ''.git'') ''.git'' = s @ CHR ''/'' # n"
    using TrimSuffix_append [of "s @ CHR ''/'' # n" "''.git''"] by simp
  have h: "\<not> HasPrefix (s @ ''/'' @ n @ ''.git'') ''/''"
    using s by (cases s) (auto simp: HasPrefix_slash)
  have "splitRepo (s @ ''/'' @ n @ ''.git'') = Some (s, n)"
    unfolding splitRepo_plain [OF h] t using s n by (simp add: str_index_path)
  then show ?thesis using assms(2,3) h by (simp add: served_def)
qed


section \<open>Other facts\<close>

text \<open>Only a lookup that finds no membership stops a user: when it fails otherwise, the proxy lets a write through.\<close>

lemma proxy_fails_open:
  "HasScope (cl_Scopes c) ''repo:write'' \<Longrightarrow> proxy_check False False (Some (u, c)) (\<lambda>_. Err DbFailure) = Reply ()"
  by (simp add: proxy_check_def)

text \<open>A user who is not a member may not read a public repository over the API, though anyone without a token may.\<close>

lemma public_repo_needs_no_user:
  assumes "rp_Visibility p = ''public''" "isReadOnlyRequest meth" "GetMembership db (or_ID r) (us_ID u) = Err NotFound"
  shows "RequirePublicRepoOrMembership role meth None r (Some p) db = Reply ()"
    and "RequirePublicRepoOrMembership role meth (Some u) r (Some p) db = Fail 403 (Message ''not a member of this org'')"
  using assms by (simp_all add: RequirePublicRepoOrMembership_def RequireMembership_def isPublicRepoReadAllowed_def)

lemma optional_auth_proxy: "WithOptionalAuth a now hdr cookie db = proxy_user a now (request_token hdr cookie) db"
  by (simp add: WithOptionalAuth_def proxy_user_def Let_def)

text \<open>The shard of an organization is one of those configured.\<close>

lemma PickShardByHash_configured: "pk_names p \<noteq> [] \<Longrightarrow> length (pk_names p) < 2 ^ 64 \<Longrightarrow> PickShardByHash p i \<in> set (pk_names p)"
  by (simp add: PickShardByHash_def unat_mod_distrib unsigned_of_nat take_bit_eq_mod)

lemma round_robin_safe:
  "pk_next p < length (pk_names p) \<Longrightarrow> \<exists>n p'. PickShardRoundRobin p = (Ok n, p') \<and> n \<in> set (pk_names p) \<and> pk_next p' < length (pk_names p')"
  by (auto simp: PickShardRoundRobin_def)

text \<open>The next index is kept when the shards are replaced by fewer.\<close>

lemma round_robin_panics:
  "fst (PickShardRoundRobin (UpdateShards [(''a'', ''x'')] (snd (PickShardRoundRobin (NewShardPicker [(''a'', ''x''), (''b'', ''y'')]))))) = Panic"
  by (simp add: PickShardRoundRobin_def UpdateShards_def NewShardPicker_def)

text \<open>A magic link logs in once.\<close>

lemma find_row_set_where:
  assumes "find_row P t = Ok r" "\<And>x. P (f x) = P x"
  shows "find_row P (set_where Q f t) = Ok (if Q r then f r else r)"
proof -
  have "find P t = Some r" using assms(1) by (simp add: find_row_def split: option.splits)
  then have "find P (set_where Q f t) = Some (if Q r then f r else r)"
    using assms(2) by (induction t) (auto simp: set_where_def split: if_splits)
  then show ?thesis unfolding find_row_def by (simp only: option.case)
qed

lemma login_links:
  "c_links (snd (GetOrCreateUser ts uid email name db)) = c_links db" "c_links (UpdateLastLogin ts uid db) = c_links db"
  "c_links (snd (CreateSession ts sid uid h ua ip x db)) = c_links db"
  by (auto simp: GetOrCreateUser_def CreateUser_def UpdateLastLogin_def CreateSession_def Let_def split: go.splits)

lemma magic_link_once:
  assumes "ExchangeToken a cfg now uid sid ref agent tok db = (Reply r, db')"
  shows "\<exists>msg. fst (ExchangeToken a cfg now' uid' sid' ref' agent' tok db') = Fail 401 msg"
proof -
  obtain l where l: "GetMagicLink db (HashToken a tok) = Ok l" "tok \<noteq> []"
    and db': "c_links db' = c_links (UseMagicLink (unix now) (ml_ID l) db)"
    using assms login_links(1,3) unfolding ExchangeToken_def
    by (auto simp: Let_def login_links(2) split: if_splits go.splits prod.splits) (metis login_links snd_conv)+
  have "GetMagicLink db' (HashToken a tok) = Ok (ml_UsedAt_update (\<lambda>_. Some (unix now)) l)"
    using l(1) unfolding GetMagicLink_def db' UseMagicLink_def by (simp add: find_row_set_where)
  then show ?thesis using l(2) by (simp add: ExchangeToken_def)
qed

text \<open>Adding a member sets the role, also of one who is a member already, and of the owner.\<close>

lemma AddMember_role:
  assumes "AddMember ts oid uid role db = (Ok (), db')"
  shows "\<exists>m. GetMembership db' oid uid = Ok m \<and> mb_Role m = role"
proof -
  let ?here = "\<lambda>m. mb_UserID m = uid \<and> mb_OrgID m = oid" and ?row = "\<lparr>mb_UserID = uid, mb_OrgID = oid, mb_Role = role, mb_CreatedAt = ts\<rparr>"
  have "c_members db' = set_where ?here (mb_Role_update (\<lambda>_. role)) (c_members db) \<and> (\<exists>m \<in> set (c_members db). ?here m) \<or>
      c_members db' = filter (\<lambda>m. \<not> ?here m) (c_members db) @ [?row]"
    using assms by (auto simp: AddMember_def Let_def split: if_splits)
  then have "(\<exists>m \<in> set (c_members db'). ?here m) \<and> (\<forall>m \<in> set (c_members db'). ?here m \<longrightarrow> mb_Role m = role)"
  proof
    assume a: "c_members db' = set_where ?here (mb_Role_update (\<lambda>_. role)) (c_members db) \<and> (\<exists>m \<in> set (c_members db). ?here m)"
    then obtain m where m: "m \<in> set (c_members db)" "?here m" by blast
    have "m\<lparr>mb_Role := role\<rparr> \<in> set (c_members db')" using a m by (auto simp: in_set_where intro!: bexI [of _ m])
    moreover have "?here (m\<lparr>mb_Role := role\<rparr>)" using m by simp
    ultimately have "\<exists>m \<in> set (c_members db'). ?here m" by blast
    moreover have "mb_Role x = role" if "x \<in> set (c_members db')" "?here x" for x
    proof -
      note x = that
      obtain y where "x = (if ?here y then y\<lparr>mb_Role := role\<rparr> else y)" using x(1) unfolding conjunct1 [OF a] in_set_where by blast
      then show ?thesis using x(2) by (cases "?here y") simp_all
    qed
    ultimately show ?thesis by blast
  qed auto
  then show ?thesis unfolding GetMembership_def find_row_def
    by (auto split: option.splits simp: find_None_iff find_Some_iff)
qed

section \<open>An example\<close>

text \<open>A developer of an organization with one private repository, a key and a login.\<close>

definition ex_user :: user_row where
  "ex_user = \<lparr>us_ID = ''u1'', us_Email = ''dev@acme.io'', us_Name = [], us_CIAccess = False, us_CIRequested = False, us_CreatedAt = 0, us_LastLogin = None\<rparr>"

definition ex_org :: org_row where
  "ex_org = \<lparr>or_ID = ''o1'', or_Slug = ''acme'', or_Name = ''acme'', or_OwnerID = ''u1'', or_Plan = ''free'', or_CreatedAt = 0\<rparr>"

definition ex_repo :: repo_row where
  "ex_repo = \<lparr>rp_ID = ''r1'', rp_OrgID = ''o1'', rp_Name = ''tools'', rp_Visibility = ''private'', rp_ShardHint = ''main'', rp_CreatedBy = ''u1'', rp_CreatedAt = 0\<rparr>"

definition ex_key :: key_row where
  "ex_key = \<lparr>ky_ID = ''k1'', ky_UserID = ''u1'', ky_Name = ''laptop'', ky_Fingerprint = ''SHA256:F'', ky_PublicKey = ''ssh-ed25519 F'', ky_CreatedAt = 0, ky_LastUsed = None\<rparr>"

definition ex_control :: control_db where
  "ex_control = (empty_control SQLite)\<lparr>c_users := [ex_user], c_orgs := [ex_org], c_repos := [ex_repo], c_keys := [ex_key],
     c_members := [\<lparr>mb_UserID = ''u1'', mb_OrgID = ''o1'', mb_Role = ''developer'', mb_CreatedAt = 0\<rparr>]\<rparr>"

definition ex_claims :: claims where
  "ex_claims = \<lparr>cl_UserID = ''u1'', cl_Email = ''dev@acme.io'', cl_Scopes = login_scopes\<rparr>"

definition ex_env :: proxy_env where
  "ex_env = \<lparr>px_auth = \<lparr>HashToken = (\<lambda>t. t), ValidateAccessToken = (\<lambda>t. if t = ''jwt'' then Some ex_claims else None)\<rparr>,
     px_shards = NewShardPicker [(''main'', ''http://shard'')], px_token = (\<lambda>i m s sc. Some ''down''), px_url_ok = (\<lambda>_. True)\<rparr>"

definition ex_push :: git_command where
  "ex_push = \<lparr>gc_Type = GitReceivePack, gc_Repo = ''acme/tools.git'', gc_Raw = ''git-receive-pack acme/tools.git''\<rparr>"

lemma ex_names: "names_ok ex_control"
  by (simp add: names_ok_def ex_control_def ex_org_def ex_repo_def ValidateSlug_def slug_char_def is_digit_def empty_control_def Let_def)

lemma ex_parse: "ParseGitCommand ''git-receive-pack acme/tools.git'' = Ok ex_push"
  by (simp add: ex_push_def) code_simp

lemma ex_lookups:
  "GetSSHKeyByFingerprint ex_control ''SHA256:F'' = Ok ex_key" "GetUserByID ex_control (ky_UserID ex_key) = Ok ex_user"
  "GetOrgBySlug ex_control ''acme'' = Ok ex_org" "GetRepoByOrgAndName ex_control (or_ID ex_org) ''tools'' = Ok ex_repo"
  "GetMembership ex_control (or_ID ex_org) (us_ID ex_user) = Ok \<lparr>mb_UserID = ''u1'', mb_OrgID = ''o1'', mb_Role = ''developer'', mb_CreatedAt = 0\<rparr>"
  by (simp_all add: GetSSHKeyByFingerprint_def GetUserByID_def GetOrgBySlug_def GetRepoByOrgAndName_def GetMembership_def find_row_def
    ex_control_def ex_key_def ex_user_def ex_org_def ex_repo_def)

lemma ex_served: "served ex_control (gc_Repo ex_push) = Some (ex_org, ex_repo) \<and> \<not> HasPrefix (gc_Repo ex_push) ''/''"
  using served_path [OF ex_names ex_lookups(3,4)] by (simp add: ex_push_def)

lemma ex_developer: "HasAtLeastRole ''developer'' ''developer''" "HasAtLeastRole ''developer'' ''reporter''"
  by (simp_all add: HasAtLeastRole_def role_rank_def RoleHierarchy_def)

lemma ex_token: "fst (proxy_user (px_auth ex_env) 0 (request_token ''Bearer jwt'' None) ex_control) = Reply (Some (ex_user, ex_claims))"
proof -
  have t: "request_token ''Bearer jwt'' None = ''jwt''" by code_simp
  have "GetUserByID ex_control ''u1'' = Ok ex_user" using ex_lookups(2) by (simp add: ex_key_def)
  then show ?thesis unfolding t by (simp add: proxy_user_def IsPAT_def HasPrefix_def ex_env_def ex_claims_def)
qed

theorem ssh_access_decision_witness: "ControlAuthorize (ask_control 0 ex_control) (Some ''SHA256:F'') ex_push = Ok ()"
  using ssh_access_decision [OF ex_names ex_parse, of 0 "''SHA256:F''"] ex_lookups ex_served ex_developer
  by (simp add: may_access_def)


end
