(* ===== verification/Workflow.thy ===== *)
theory Workflow
  imports GoText "HOL-Library.List_Lexorder" "HOL-Library.Char_ord" "HOL-Library.Multiset"
begin

text \<open>
  Workflow definitions of the control plane: the data and validation of
  \<open>src/kailab-control/internal/workflow/parser.go\<close> and the order of jobs of \<open>matrix.go\<close>. YAML and JSON
  decoding are not part of this code: a workflow is what they produce, with the fields that the
  modelled functions read. A Go map is a list with distinct keys, in the order in which an
  iteration visits it.
\<close>

section \<open>Data\<close>

text \<open>A value of a matrix (\<open>interface{}\<close>), with the numbers of the decoder in \<open>'n\<close>.\<close>

datatype 'n mval = MStr string | MNum 'n | MBool bool | MNull | MList "'n mval list" | MObj "(string \<times> 'n mval) list"

record 'n matrix =
  Include :: "(string, 'n mval) gomap list"
  Exclude :: "(string, 'n mval) gomap list"
  Values :: "(string, 'n mval list) gomap"

record wf_step =
  step_name :: string
  step_uses :: string
  step_run :: string

record 'n wf_job =
  job_title :: string
  RunsOn :: "string list"
  job_uses :: string
  job_with :: "(string, string) gomap"
  Needs :: "string list"
  Steps :: "wf_step list"
  job_env :: "(string, string) gomap"
  Strategy :: "'n matrix option"

record push_trigger =
  Branches :: "string list"
  BranchesIgnore :: "string list"
  Tags :: "string list"
  TagsIgnore :: "string list"
  Paths :: "string list"
  PathsIgnore :: "string list"

record pull_request_trigger =
  pr_branches :: "string list"
  pr_branches_ignore :: "string list"
  pr_paths :: "string list"
  pr_paths_ignore :: "string list"
  pr_types :: "string list"

record workflow_trigger =
  on_push :: "push_trigger option"
  on_pull_request :: "pull_request_trigger option"
  on_review :: "string list option"
  on_dispatch :: bool
  on_call :: bool
  on_schedule :: "string list"

record concurrency =
  conc_group :: string
  CancelInProgress :: bool

record 'n workflow =
  wf_name :: string
  On :: workflow_trigger
  Concurrency :: "concurrency option"
  Jobs :: "(string, 'n wf_job) gomap"

definition no_trigger :: workflow_trigger where
  "no_trigger = \<lparr>on_push = None, on_pull_request = None, on_review = None, on_dispatch = False, on_call = False, on_schedule = []\<rparr>"

section \<open>Triggers and names\<close>

definition parse_event :: "workflow_trigger \<Rightarrow> string \<Rightarrow> workflow_trigger" where
  "parse_event t event =
     (if event = ''push'' then t\<lparr>on_push := Some \<lparr>Branches = [], BranchesIgnore = [], Tags = [], TagsIgnore = [], Paths = [], PathsIgnore = []\<rparr>\<rparr>
      else if event = ''pull_request'' then
        t\<lparr>on_pull_request := Some \<lparr>pr_branches = [], pr_branches_ignore = [], pr_paths = [], pr_paths_ignore = [], pr_types = []\<rparr>\<rparr>
      else if event = ''review'' then t\<lparr>on_review := Some []\<rparr>
      else if event = ''workflow_dispatch'' then t\<lparr>on_dispatch := True\<rparr>
      else if event = ''workflow_call'' then t\<lparr>on_call := True\<rparr>
      else t)"

definition parseSimple :: "workflow_trigger \<Rightarrow> string list \<Rightarrow> workflow_trigger" where
  "parseSimple = foldl parse_event"

definition GetTriggerTypes :: "'n workflow \<Rightarrow> string list" where
  "GetTriggerTypes w =
     (if on_push (On w) \<noteq> None then [''push''] else []) @
     (if on_pull_request (On w) \<noteq> None then [''pull_request''] else []) @
     (if on_review (On w) \<noteq> None then [''review''] else []) @
     (if on_dispatch (On w) then [''workflow_dispatch''] else []) @
     (if on_call (On w) then [''workflow_call''] else []) @
     (if on_schedule (On w) \<noteq> [] then [''schedule''] else [])"

definition GetDisplayName :: "wf_step \<Rightarrow> nat \<Rightarrow> string" where
  "GetDisplayName s index =
     (if step_name s \<noteq> [] then step_name s
      else if step_uses s \<noteq> [] then step_uses s
      else if step_run s \<noteq> [] then
        (let run = TrimSpace (step_run s);
             run = (if length run > 50 then take 47 run @ ''...'' else run)
         in ''Run '' @ run)
      else ''Step '' @ show_nat (index + 1))"

definition GetJobDisplayName :: "'n wf_job \<Rightarrow> string \<Rightarrow> string" where
  "GetJobDisplayName j key = (if job_title j \<noteq> [] then job_title j else key)"

text \<open>In Go, \<open>&&\<close> binds tighter than \<open>||\<close>.\<close>

definition IsReusableWorkflowCall :: "'n wf_job \<Rightarrow> bool" where
  "IsReusableWorkflowCall j \<longleftrightarrow> job_uses j \<noteq> [] \<and> HasSuffix (job_uses j) ''.yml'' \<or> HasSuffix (job_uses j) ''.yaml''"

section \<open>Validation\<close>

datatype wf_error = NameRequired | NoJobs | UsesWithSteps string | RunsOnRequired string | NoSteps string
  | StepEmpty string | StepBoth string | MissingJob string string | CircularDependency string | CircularOrder

definition step_Validate :: "string \<Rightarrow> wf_step \<Rightarrow> wf_error option" where
  "step_Validate name s =
     (if step_uses s = [] \<and> step_run s = [] then Some (StepEmpty name)
      else if step_uses s \<noteq> [] \<and> step_run s \<noteq> [] then Some (StepBoth name)
      else None)"

text \<open>The first error of a loop.\<close>

fun first_error :: "('a \<Rightarrow> 'e option) \<Rightarrow> 'a list \<Rightarrow> 'e option" where
  "first_error f [] = None"
| "first_error f (x # xs) = (case f x of Some e \<Rightarrow> Some e | None \<Rightarrow> first_error f xs)"

definition job_Validate :: "string \<times> 'n wf_job \<Rightarrow> wf_error option" where
  "job_Validate = (\<lambda>(name, j).
     if IsReusableWorkflowCall j then (if Steps j \<noteq> [] then Some (UsesWithSteps name) else None)
     else if RunsOn j = [] then Some (RunsOnRequired name)
     else if Steps j = [] then Some (NoSteps name)
     else first_error (step_Validate name) (Steps j))"

text \<open>The adjacency map: the needs of a job, empty for a name that is no job.\<close>

definition deps :: "'n workflow \<Rightarrow> string \<Rightarrow> string list" where
  "deps w name = (case map_of (Jobs w) name of Some j \<Rightarrow> Needs j | None \<Rightarrow> [])"

text \<open>The depth-first search \<open>hasCycle\<close>. The pending work of its recursion is a stack: a dependency to
  look at, or the end of the call for a node, which takes it off \<open>recStack\<close>.\<close>

datatype dfs_item = Visit string | Leave string

definition dfs_cost :: "dfs_item list \<Rightarrow> nat" where
  "dfs_cost k = sum_list (map (\<lambda>i. case i of Visit _ \<Rightarrow> 2 | Leave _ \<Rightarrow> 1) k)"

function dfs :: "'n workflow \<Rightarrow> dfs_item list \<Rightarrow> string list \<Rightarrow> string list \<Rightarrow> string list option" where
  "dfs w [] visited recStack = Some visited"
| "dfs w (Leave n # k) visited recStack = dfs w k visited (filter (\<lambda>x. x \<noteq> n) recStack)"
| "dfs w (Visit d # k) visited recStack =
     (if d \<notin> set visited then dfs w (map Visit (deps w d) @ Leave d # k) (d # visited) (d # recStack)
      else if d \<in> set recStack then None
      else dfs w k visited recStack)"
  by pat_completeness auto

termination
proof (relation "measures [\<lambda>(w, k, v, r). card (fst ` set (Jobs w) - set v), \<lambda>(w, k, v, r). dfs_cost k]", goal_cases)
  case (3 w d k v r)
  show ?case
  proof (cases "d \<in> fst ` set (Jobs w)")
    case True
    then have "fst ` set (Jobs w) - set (d # v) \<subset> fst ` set (Jobs w) - set v" using 3 by auto
    then have "card (fst ` set (Jobs w) - set (d # v)) < card (fst ` set (Jobs w) - set v)"
      by (intro psubset_card_mono) auto
    then show ?thesis by simp
  next
    case False
    then have "fst ` set (Jobs w) - set (d # v) = fst ` set (Jobs w) - set v" "map_of (Jobs w) d = None"
      by (auto simp: map_of_eq_None_iff)
    then have "fst ` set (Jobs w) - set (d # v) = fst ` set (Jobs w) - set v" "deps w d = []"
      by (simp_all add: deps_def)
    then show ?thesis by (simp add: dfs_cost_def)
  qed
qed (auto simp: dfs_cost_def)

text \<open>The outer loop starts the search at every name not yet visited; the state is the visited names.\<close>

definition visit_all :: "'n workflow \<Rightarrow> string list \<Rightarrow> wf_error option" where
  "visit_all w names = (let start = (\<lambda>st name. case st of
       Inl e \<Rightarrow> Inl e
     | Inr visited \<Rightarrow> if name \<in> set visited then Inr visited
         else (case dfs w [Visit name] visited [] of None \<Rightarrow> Inl (CircularDependency name) | Some v \<Rightarrow> Inr v))
     in case foldl start (Inr []) names of Inl e \<Rightarrow> Some e | Inr _ \<Rightarrow> None)"

definition validateDependencies :: "'n workflow \<Rightarrow> wf_error option" where
  "validateDependencies w =
     (case first_error (\<lambda>(name, j). first_error (\<lambda>need. if map_of (Jobs w) need = None then Some (MissingJob name need) else None) (Needs j)) (Jobs w) of
        Some e \<Rightarrow> Some e
      | None \<Rightarrow> visit_all w (map fst (Jobs w)))"

definition Validate :: "'n workflow \<Rightarrow> wf_error option" where
  "Validate w =
     (if wf_name w = [] then Some NameRequired
      else if Jobs w = [] then Some NoJobs
      else case first_error job_Validate (Jobs w) of
        Some e \<Rightarrow> Some e
      | None \<Rightarrow> validateDependencies w)"

section \<open>The order of jobs\<close>

text \<open>Kahn's algorithm: \<open>dependents\<close> is the reverse adjacency list of a name, \<open>inDegree\<close> counts the needs
  of a job that are not yet in the result.\<close>

definition dependents :: "'n workflow \<Rightarrow> string \<Rightarrow> string list" where
  "dependents w need = concat (map (\<lambda>(name, j). map (\<lambda>_. name) (filter (\<lambda>x. x = need) (Needs j))) (Jobs w))"

definition get0 :: "(string, int) gomap \<Rightarrow> string \<Rightarrow> int" where
  "get0 m k = (case map_of m k of Some v \<Rightarrow> v | None \<Rightarrow> 0)"

fun reduce :: "(string, int) gomap \<Rightarrow> string list \<Rightarrow> (string, int) gomap \<times> string list" where
  "reduce m [] = (m, [])"
| "reduce m (d # ds) =
     (let v = get0 m d - 1; (m', ready) = reduce (AList.update d v m) ds
      in (m', if v = 0 then d # ready else ready))"

definition weight :: "(string, int) gomap \<Rightarrow> nat" where
  "weight m = (\<Sum>k \<in> dom (map_of m). nat (get0 m k))"

lemma get0_update: "get0 (AList.update d v m) k = (if k = d then v else get0 m k)"
  by (simp add: get0_def)

lemma weight_update: "weight (AList.update d v m) + nat (get0 m d) = weight m + nat v"
proof -
  let ?D = "dom (map_of m)"
  have "weight (AList.update d v m) = nat v + (\<Sum>k \<in> ?D - {d}. nat (get0 m k))"
    by (simp add: weight_def sum.insert_remove [of ?D] finite_dom_map_of get0_update
        cong: sum.cong_simp)
  moreover have "weight m = nat (get0 m d) + (\<Sum>k \<in> ?D - {d}. nat (get0 m k))"
  proof (cases "d \<in> ?D")
    case True
    then show ?thesis by (simp add: weight_def sum.remove finite_dom_map_of)
  next
    case False
    then have "get0 m d = 0" "?D - {d} = ?D" by (auto simp: get0_def dom_def)
    then show ?thesis by (simp add: weight_def)
  qed
  ultimately show ?thesis by simp
qed

lemma weight_reduce: "reduce m ds = (m', ready) \<Longrightarrow> weight m' + length ready \<le> weight m"
proof (induction m ds arbitrary: m' ready rule: reduce.induct)
  case (2 m d ds)
  define v where "v = get0 m d - 1"
  obtain r where r: "reduce (AList.update d v m) ds = (m', r)" and ready: "ready = (if v = 0 then d # r else r)"
    using 2 by (auto simp: v_def Let_def split: prod.splits)
  have "weight m' + length r \<le> weight (AList.update d v m)"
    using 2(1) [OF refl, folded v_def, OF r] by simp
  moreover have "weight (AList.update d v m) + nat (get0 m d) = weight m + nat v" by (rule weight_update)
  ultimately show ?case using ready by (auto simp: v_def)
qed simp

function kahn :: "'n workflow \<Rightarrow> string list \<Rightarrow> (string, int) gomap \<Rightarrow> string list \<Rightarrow> string list" where
  "kahn w [] inDegree result = result"
| "kahn w (name # queue) inDegree result =
     (let (inDegree, ready) = reduce inDegree (sort (dependents w name))
      in kahn w (queue @ ready) inDegree (result @ [name]))"
  by pat_completeness auto
termination
  by (relation "measure (\<lambda>(w, q, m, r). length q + weight m)") (auto dest: weight_reduce [OF sym])

definition GetJobOrder :: "'n workflow \<Rightarrow> (wf_error, string list) go" where
  "GetJobOrder w =
     (let inDegree = map (\<lambda>(name, j). (name, int (length (Needs j)))) (Jobs w);
          queue = sort (map fst (filter (\<lambda>(name, degree). degree = 0) inDegree));
          result = kahn w queue inDegree []
      in if length result \<noteq> length (Jobs w) then Err CircularOrder else Ok result)"

section \<open>The search finds every cycle\<close>

text \<open>A name is grounded when no infinite chain of needs starts at it.\<close>

abbreviation grounded :: "'n workflow \<Rightarrow> string set" where
  "grounded w \<equiv> Wellfounded.acc {(d, n). d \<in> set (deps w n)}"

lemma groundedI: "(\<And>d. d \<in> set (deps w n) \<Longrightarrow> d \<in> grounded w) \<Longrightarrow> n \<in> grounded w"
  by (rule accI) simp

definition leaves :: "dfs_item list \<Rightarrow> string list" where
  "leaves k = List.map_filter (\<lambda>i. case i of Leave n \<Rightarrow> Some n | _ \<Rightarrow> None) k"

lemma leaves_simps [simp]:
  "leaves [] = []" "leaves (Leave n # k) = n # leaves k" "leaves (Visit n # k) = leaves k"
  "leaves (map Visit ds @ k) = leaves k"
  by (induction ds) (simp_all add: leaves_def map_filter_simps)

text \<open>Every dependency of a node whose call has not ended is done, or ahead of its end on the stack.\<close>

definition dfs_inv :: "'n workflow \<Rightarrow> dfs_item list \<Rightarrow> string list \<Rightarrow> string list \<Rightarrow> bool" where
  "dfs_inv w k v r \<longleftrightarrow> set r = set (leaves k) \<and> distinct (leaves k) \<and> set r \<subseteq> set v \<and> set v - set r \<subseteq> grounded w \<and>
     (\<forall>pre n post. k = pre @ Leave n # post \<longrightarrow>
        (\<forall>d \<in> set (deps w n). d \<in> set v - set r \<or> Visit d \<in> set pre \<or> d \<in> set (leaves pre)))"

lemma dfs_inv_leave:
  assumes "dfs_inv w (Leave n # k) v r"
  shows "dfs_inv w k v (filter (\<lambda>x. x \<noteq> n) r)"
proof -
  have ahead: "d \<in> set v - set r \<or> Visit d \<in> set pre \<or> d \<in> set (leaves pre)"
    if "Leave n # k = pre @ Leave m # post" "d \<in> set (deps w m)" for pre m post d
    using assms that unfolding dfs_inv_def by blast
  have n: "n \<in> grounded w"
    by (rule groundedI) (use ahead [of "[]" n k] assms in \<open>auto simp: dfs_inv_def\<close>)
  have "d \<in> set v - set (filter (\<lambda>x. x \<noteq> n) r) \<or> Visit d \<in> set pre \<or> d \<in> set (leaves pre)"
    if "k = pre @ Leave m # post" "d \<in> set (deps w m)" for pre m post d
    using ahead [of "Leave n # pre" m post d] that assms by (auto simp: dfs_inv_def)
  then show ?thesis using assms n by (auto simp: dfs_inv_def)
qed

lemma leaves_ahead:
  assumes "map Visit ds @ Leave d # k = pre @ Leave m # post"
  shows "(pre = map Visit ds \<and> m = d \<and> post = k) \<or> (\<exists>pre'. pre = map Visit ds @ Leave d # pre' \<and> k = pre' @ Leave m # post)"
  using assms
proof (induction ds arbitrary: pre)
  case Nil
  then show ?case by (cases pre) auto
next
  case (Cons x ds)
  then show ?case by (cases pre) auto
qed

lemma dfs_inv_enter:
  assumes i: "dfs_inv w (Visit d # k) v r" and d: "d \<notin> set v"
  shows "dfs_inv w (map Visit (deps w d) @ Leave d # k) (d # v) (d # r)"
proof -
  have ahead: "e \<in> set v - set r \<or> Visit e \<in> set (Visit d # pre) \<or> e \<in> set (leaves pre)"
    if "k = pre @ Leave m # post" "e \<in> set (deps w m)" for pre m post e
  proof -
    have "Visit d # k = (Visit d # pre) @ Leave m # post" using that by simp
    then show ?thesis using i that(2) unfolding dfs_inv_def by (metis leaves_simps(3))
  qed
  have "e \<in> set (d # v) - set (d # r) \<or> Visit e \<in> set pre \<or> e \<in> set (leaves pre)"
    if "map Visit (deps w d) @ Leave d # k = pre @ Leave m # post" "e \<in> set (deps w m)" for pre m post e
    using leaves_ahead [OF that(1)] ahead [of _ m post e] that(2) d by auto
  then show ?thesis using i d by (auto simp: dfs_inv_def)
qed

lemma dfs_inv_skip:
  assumes i: "dfs_inv w (Visit d # k) v r" and d: "d \<in> set v" "d \<notin> set r"
  shows "dfs_inv w k v r"
proof -
  have "e \<in> set v - set r \<or> Visit e \<in> set pre \<or> e \<in> set (leaves pre)"
    if "k = pre @ Leave m # post" "e \<in> set (deps w m)" for pre m post e
  proof -
    have "Visit d # k = (Visit d # pre) @ Leave m # post" using that by simp
    then have "e \<in> set v - set r \<or> Visit e \<in> set (Visit d # pre) \<or> e \<in> set (leaves (Visit d # pre))"
      using i that(2) unfolding dfs_inv_def by blast
    then show ?thesis using d by auto
  qed
  then show ?thesis using i by (auto simp: dfs_inv_def)
qed

lemma dfs_grounded:
  "dfs w k v r = Some v' \<Longrightarrow> dfs_inv w k v r \<Longrightarrow>
     set v' \<subseteq> grounded w \<and> set v \<subseteq> set v' \<and> (\<forall>d. Visit d \<in> set k \<longrightarrow> d \<in> set v')"
proof (induction w k v r rule: dfs.induct)
  case (1 w v r)
  then show ?case by (auto simp: dfs_inv_def)
next
  case (2 w n k v r)
  then show ?case using dfs_inv_leave by fastforce
next
  case (3 w d k v r)
  show ?case
  proof (cases "d \<in> set v")
    case False
    then have "set v' \<subseteq> grounded w \<and> set (d # v) \<subseteq> set v' \<and>
        (\<forall>e. Visit e \<in> set (map Visit (deps w d) @ Leave d # k) \<longrightarrow> e \<in> set v')"
      using 3 dfs_inv_enter [OF "3.prems"(2)] by simp
    then show ?thesis by auto
  next
    case True
    then have r: "d \<notin> set r" using "3.prems"(1) by auto
    then have "set v' \<subseteq> grounded w \<and> set v \<subseteq> set v' \<and> (\<forall>e. Visit e \<in> set k \<longrightarrow> e \<in> set v')"
      using 3 True dfs_inv_skip [OF "3.prems"(2)] by simp
    then show ?thesis using True by auto
  qed
qed

lemma visit_all_grounded:
  assumes "visit_all w names = None"
  shows "set names \<subseteq> grounded w"
proof -
  define start where "start = (\<lambda>st name. case st of
       Inl e \<Rightarrow> Inl e
     | Inr visited \<Rightarrow> if name \<in> set visited then Inr visited
         else (case dfs w [Visit name] visited [] of None \<Rightarrow> Inl (CircularDependency name) | Some v \<Rightarrow> Inr v))"
  have err: "foldl start (Inl e) ns = Inl e" for e ns
    by (induction ns) (simp_all add: start_def)
  have "set v \<subseteq> grounded w \<Longrightarrow> foldl start (Inr v) ns = Inr v' \<Longrightarrow>
      set v' \<subseteq> grounded w \<and> set v \<subseteq> set v' \<and> set ns \<subseteq> set v'" for v v' ns
  proof (induction ns arbitrary: v)
    case (Cons n ns)
    show ?case
    proof (cases "n \<in> set v")
      case True
      then show ?thesis using Cons.IH [OF Cons.prems(1)] Cons.prems(2) by (auto simp: start_def)
    next
      case False
      obtain u where u: "dfs w [Visit n] v [] = Some u" "foldl start (Inr u) ns = Inr v'"
        using Cons.prems(2) False err by (auto simp: start_def split: option.splits)
      have "dfs_inv w [Visit n] v []" using Cons.prems(1) by (auto simp: dfs_inv_def Cons_eq_append_conv)
      from dfs_grounded [OF u(1) this] have "set u \<subseteq> grounded w" "set v \<subseteq> set u" "n \<in> set u" by auto
      then show ?thesis using Cons.IH [OF _ u(2)] by auto
    qed
  qed simp
  note * = this
  have "(case foldl start (Inr []) names of Inl e \<Rightarrow> Some e | Inr _ \<Rightarrow> None) = None"
    using assms unfolding visit_all_def start_def [symmetric] Let_def .
  then obtain u where "foldl start (Inr []) names = Inr u" by (auto split: sum.splits)
  with * [of "[]" names u] show ?thesis by auto
qed

section \<open>The order is topological\<close>

lemma count_dependents:
  assumes "distinct (map fst (Jobs w))" and "n \<in> fst ` set (Jobs w)"
  shows "count_list (dependents w name) n = count_list (deps w n) name"
proof -
  have c: "count_list (map (\<lambda>_. k) (filter (\<lambda>x. x = name) ns)) n = (if k = n then count_list ns name else 0)" for k ns
    by (induction ns) auto
  have "distinct (map fst js) \<Longrightarrow>
      count_list (concat (map (\<lambda>(k, j). map (\<lambda>_. k) (filter (\<lambda>x. x = name) (Needs j))) js)) n =
      (case map_of js n of Some j \<Rightarrow> count_list (Needs j) name | None \<Rightarrow> 0)" for js :: "(string \<times> 'a wf_job) list"
  proof (induction js)
    case (Cons p js)
    obtain k j where p: "p = (k, j)" by (cases p)
    have "k = n \<Longrightarrow> map_of js n = None" using Cons.prems p by (auto simp: map_of_eq_None_iff)
    then show ?case using Cons by (auto simp: p c split: option.splits)
  qed simp
  from this [OF assms(1)] show ?thesis by (auto simp: dependents_def deps_def split: option.splits)
qed

lemma set_dependents: "set (dependents w name) = {n. \<exists>j. (n, j) \<in> set (Jobs w) \<and> name \<in> set (Needs j)}"
  by (auto simp: dependents_def)

lemma reduce_spec:
  "reduce m ds = (m', ready) \<Longrightarrow> (\<forall>n. get0 m' n = get0 m n - int (count_list ds n)) \<and>
    ((\<forall>n. get0 m n \<ge> int (count_list ds n)) \<longrightarrow>
      distinct ready \<and> set ready = {n \<in> set ds. get0 m n = int (count_list ds n)})"
proof (induction m ds arbitrary: m' ready rule: reduce.induct)
  case (2 m d ds)
  define v where "v = get0 m d - 1"
  obtain r where r: "reduce (AList.update d v m) ds = (m', r)" and ready: "ready = (if v = 0 then d # r else r)"
    using 2(2) by (auto simp: v_def Let_def split: prod.splits)
  note hyp = 2(1) [OF refl, folded v_def, OF r]
  have IH: "get0 m' n = (if n = d then v else get0 m n) - int (count_list ds n)" for n
    using hyp [THEN conjunct1, rule_format, of n] by (simp only: get0_update)
  have IH2: "(\<forall>n. (if n = d then v else get0 m n) \<ge> int (count_list ds n)) \<longrightarrow>
      distinct r \<and> set r = {n \<in> set ds. (if n = d then v else get0 m n) = int (count_list ds n)}"
    using hyp [THEN conjunct2] by (simp only: get0_update)
  have "distinct ready \<and> set ready = {n \<in> set (d # ds). get0 m n = int (count_list (d # ds) n)}"
    if a: "\<forall>n. get0 m n \<ge> int (count_list (d # ds) n)"
  proof -
    have "\<forall>n. (if n = d then v else get0 m n) \<ge> int (count_list ds n)"
    proof
      fix n show "(if n = d then v else get0 m n) \<ge> int (count_list ds n)"
        using a [rule_format, of n] by (auto simp: v_def)
    qed
    with IH2 have r: "distinct r" "set r = {n \<in> set ds. (if n = d then v else get0 m n) = int (count_list ds n)}" by auto
    have v0: "d \<notin> set ds" if "v = 0"
      using a [rule_format, of d] that by (simp add: v_def count_list_0_iff)
    show ?thesis
    proof (cases "v = 0")
      case True
      then have "d \<notin> set ds" "get0 m d = 1" using v0 by (simp_all add: v_def)
      then show ?thesis using r True by (auto simp: ready)
    next
      case False
      have "x \<in> set r \<longleftrightarrow> x \<in> set (d # ds) \<and> get0 m x = int (count_list (d # ds) x)" for x
      proof (cases "x = d")
        case True
        have "d \<in> set r \<longleftrightarrow> d \<in> set ds \<and> v = int (count_list ds d)" by (simp add: r(2))
        moreover have "d \<notin> set ds \<Longrightarrow> v \<noteq> int (count_list ds d)" using False by simp
        moreover have "get0 m d = int (count_list (d # ds) d) \<longleftrightarrow> v = int (count_list ds d)" by (simp add: v_def) linarith
        ultimately show ?thesis using True by auto
      qed (simp add: r(2))
      then show ?thesis using r(1) False by (auto simp: ready simp del: count_list.simps)
    qed
  qed
  then show ?case using IH by (simp add: v_def)
qed simp

definition left :: "'n workflow \<Rightarrow> string list \<Rightarrow> string \<Rightarrow> nat" where
  "left w result n = length (filter (\<lambda>x. x \<notin> set result) (deps w n))"

lemma left_0: "left w result n = 0 \<longleftrightarrow> set (deps w n) \<subseteq> set result"
  by (auto simp: left_def filter_empty_conv)

lemma left_snoc: "name \<notin> set result \<Longrightarrow> left w (result @ [name]) n + count_list (deps w n) name = left w result n"
proof -
  assume a: "name \<notin> set result"
  have "length (filter (\<lambda>x. x \<notin> set (result @ [name])) ds) + count_list ds name = length (filter (\<lambda>x. x \<notin> set result) ds)" for ds
    using a by (induction ds) auto
  then show ?thesis by (simp add: left_def)
qed

definition ordered :: "'n workflow \<Rightarrow> string list \<Rightarrow> bool" where
  "ordered w order \<longleftrightarrow> (\<forall>i < length order. set (deps w (order ! i)) \<subseteq> set (take i order))"

lemma ordered_snoc: "ordered w (xs @ [x]) \<longleftrightarrow> ordered w xs \<and> set (deps w x) \<subseteq> set xs"
  by (auto simp: ordered_def nth_append less_Suc_eq)

definition kahn_inv :: "'n workflow \<Rightarrow> string list \<Rightarrow> (string, int) gomap \<Rightarrow> string list \<Rightarrow> bool" where
  "kahn_inv w q m res \<longleftrightarrow> distinct (res @ q) \<and> set (res @ q) \<subseteq> fst ` set (Jobs w) \<and> ordered w res \<and>
     (\<forall>n. get0 m n = (if n \<in> fst ` set (Jobs w) then int (left w res n) else 0)) \<and>
     (\<forall>n \<in> fst ` set (Jobs w). n \<in> set (res @ q) \<longleftrightarrow> left w res n = 0)"

lemma kahn_inv_step:
  assumes i: "kahn_inv w (name # q) m res" and d: "distinct (map fst (Jobs w))"
    and r: "reduce m (sort (dependents w name)) = (m', ready)"
  shows "kahn_inv w (q @ ready) m' (res @ [name])"
proof -
  let ?N = "fst ` set (Jobs w)"
  have name: "name \<notin> set res" "name \<in> ?N" "left w res name = 0" using i by (auto simp: kahn_inv_def)
  have cs: "count_list (sort ds) n = count_list ds n" for ds :: "string list" and n
    by (simp add: count_mset [symmetric])
  have count: "count_list (sort (dependents w name)) n = (if n \<in> ?N then count_list (deps w n) name else 0)" for n
  proof (cases "n \<in> ?N")
    case False
    then have "n \<notin> set (dependents w name)" by (force simp: set_dependents)
    then show ?thesis using False by (simp add: cs)
  qed (simp add: cs count_dependents [OF d])
  have snoc: "left w (res @ [name]) n + count_list (deps w n) name = left w res n" for n
    by (rule left_snoc [OF name(1)])
  have m: "get0 m n = (if n \<in> ?N then int (left w res n) else 0)" for n using i by (simp add: kahn_inv_def)
  have ge: "\<forall>n. get0 m n \<ge> int (count_list (sort (dependents w name)) n)"
  proof
    fix n show "get0 m n \<ge> int (count_list (sort (dependents w name)) n)"
      using snoc [of n] by (simp add: m count)
  qed
  have ready: "distinct ready" "set ready = {n \<in> set (dependents w name). left w (res @ [name]) n = 0 \<and> n \<in> ?N}"
    and m': "get0 m' n = (if n \<in> ?N then int (left w (res @ [name]) n) else 0)" for n
  proof -
    show "distinct ready" using reduce_spec [OF r] ge by blast
    have "set ready = {n \<in> set (dependents w name). get0 m n = int (count_list (sort (dependents w name)) n)}"
      using reduce_spec [OF r] ge by simp
    moreover have "get0 m n = int (count_list (sort (dependents w name)) n) \<longleftrightarrow> left w (res @ [name]) n = 0"
      if "n \<in> set (dependents w name)" for n
    proof -
      have "n \<in> ?N" using that by (force simp: set_dependents)
      then show ?thesis using snoc [of n] by (auto simp: m count)
    qed
    ultimately show "set ready = {n \<in> set (dependents w name). left w (res @ [name]) n = 0 \<and> n \<in> ?N}"
      by (force simp: set_dependents)
    show "get0 m' n = (if n \<in> ?N then int (left w (res @ [name]) n) else 0)"
      using reduce_spec [OF r] snoc [of n] by (simp add: m count)
  qed
  have dep: "n \<in> set (dependents w name) \<longleftrightarrow> name \<in> set (deps w n)" if n: "n \<in> ?N" for n
  proof -
    from n obtain j where j: "(n, j) \<in> set (Jobs w)" by auto
    then have "map_of (Jobs w) n = Some j" using d by simp
    moreover have "n \<in> set (dependents w name) \<longleftrightarrow> name \<in> set (Needs j)"
      unfolding set_dependents using j eq_key_imp_eq_value [OF d j] by blast
    ultimately show ?thesis by (simp add: deps_def)
  qed
  have fresh: "n \<notin> set (res @ name # q)" if "n \<in> set ready" for n
  proof -
    have "n \<in> ?N" "name \<in> set (deps w n)" using that ready(2) dep by auto
    then have "left w res n \<noteq> 0" using name(1) by (auto simp: left_0)
    then show ?thesis using i \<open>n \<in> ?N\<close> by (auto simp: kahn_inv_def)
  qed
  have mem: "n \<in> set ((res @ [name]) @ q @ ready) \<longleftrightarrow> left w (res @ [name]) n = 0" if n: "n \<in> ?N" for n
  proof (cases "name \<in> set (deps w n)")
    case True
    then have "left w res n \<noteq> 0" using name(1) by (auto simp: left_0)
    then have "n \<notin> set (res @ name # q)" using i n by (auto simp: kahn_inv_def)
    then show ?thesis using ready(2) dep [OF n] True n by auto
  next
    case False
    then have "left w (res @ [name]) n = left w res n" using snoc [of n] by simp
    moreover have "n \<notin> set ready" using False ready(2) dep [OF n] by auto
    ultimately show ?thesis using i n by (auto simp: kahn_inv_def)
  qed
  have "ordered w (res @ [name])" using i name(3) by (auto simp: ordered_snoc kahn_inv_def left_0)
  moreover have "distinct ((res @ [name]) @ q @ ready)"
    using i ready(1) fresh by (auto simp: kahn_inv_def)
  moreover have "set ready \<subseteq> ?N" using ready(2) by blast
  then have "set ((res @ [name]) @ q @ ready) \<subseteq> ?N" using i by (auto simp: kahn_inv_def)
  ultimately show ?thesis unfolding kahn_inv_def by (intro conjI allI ballI m' mem)
qed

lemma kahn_result:
  "kahn_inv w q m res \<Longrightarrow> distinct (map fst (Jobs w)) \<Longrightarrow> \<exists>m'. kahn_inv w [] m' (kahn w q m res)"
proof (induction w q m res rule: kahn.induct)
  case (2 w name q m res)
  obtain m' ready where r: "reduce m (sort (dependents w name)) = (m', ready)" by fastforce
  from 2(1) [OF r [symmetric] refl kahn_inv_step [OF 2(2,3) r] 2(3)] show ?case by (simp add: r)
qed auto

definition start_degree :: "'n workflow \<Rightarrow> (string, int) gomap" where
  "start_degree w = map (\<lambda>(name, j). (name, int (length (Needs j)))) (Jobs w)"

lemma kahn_inv_start:
  assumes d: "distinct (map fst (Jobs w))"
  shows "kahn_inv w (sort (map fst (filter (\<lambda>(name, degree). degree = 0) (start_degree w)))) (start_degree w) []"
proof -
  have dm: "map_of (start_degree w) n = map_option (\<lambda>j. int (length (Needs j))) (map_of (Jobs w) n)" for n
    unfolding start_degree_def by (simp add: map_of_map)
  have g: "get0 (start_degree w) n = (if n \<in> fst ` set (Jobs w) then int (left w [] n) else 0)" for n
  proof (cases "map_of (Jobs w) n")
    case None
    then show ?thesis by (auto simp: get0_def dm map_of_eq_None_iff [THEN iffD1])
  next
    case (Some j)
    then have "n \<in> fst ` set (Jobs w)" by (metis image_eqI fst_conv map_of_SomeD)
    with Some show ?thesis by (simp add: get0_def dm left_def deps_def)
  qed
  have q: "set (map fst (filter (\<lambda>(name, degree). degree = 0) (start_degree w))) = {n \<in> fst ` set (Jobs w). left w [] n = 0}"
  proof -
    have "deps w n = Needs j" if "(n, j) \<in> set (Jobs w)" for n j using that d by (simp add: deps_def)
    then show ?thesis by (force simp: start_degree_def left_def)
  qed
  have "distinct (map fst (filter (\<lambda>(name, degree). degree = 0) (start_degree w)))"
    using d by (auto simp: start_degree_def comp_def case_prod_beta intro!: distinct_map_filter)
  then show ?thesis using g q by (auto simp: kahn_inv_def ordered_def)
qed

lemma GetJobOrder_Ok:
  assumes "GetJobOrder w = Ok order" and d: "distinct (map fst (Jobs w))"
  shows "distinct order \<and> set order = fst ` set (Jobs w) \<and> ordered w order"
proof -
  let ?q = "sort (map fst (filter (\<lambda>(name, degree). degree = 0) (start_degree w)))"
  have o: "order = kahn w ?q (start_degree w) []" and l: "length order = length (Jobs w)"
    using assms(1) by (auto simp: GetJobOrder_def start_degree_def Let_def split: if_splits)
  obtain m' where i: "kahn_inv w [] m' order" using kahn_result [OF kahn_inv_start [OF d] d] o by blast
  then have "distinct order" "set order \<subseteq> fst ` set (Jobs w)" "ordered w order" by (simp_all add: kahn_inv_def)
  moreover have "card (set order) = card (fst ` set (Jobs w))"
    using \<open>distinct order\<close> d l by (simp add: distinct_card) (metis distinct_card length_map set_map)
  ultimately show ?thesis by (simp add: card_subset_eq)
qed

lemma GetJobOrder_grounded:
  assumes d: "distinct (map fst (Jobs w))" and g: "fst ` set (Jobs w) \<subseteq> grounded w"
    and ex: "\<And>n. set (deps w n) \<subseteq> fst ` set (Jobs w)"
  shows "\<exists>order. GetJobOrder w = Ok order"
proof -
  let ?q = "sort (map fst (filter (\<lambda>(name, degree). degree = 0) (start_degree w)))"
  define order where "order = kahn w ?q (start_degree w) []"
  obtain m' where i: "kahn_inv w [] m' order" using kahn_result [OF kahn_inv_start [OF d] d] order_def by blast
  have "n \<in> fst ` set (Jobs w) \<longrightarrow> n \<in> set order" if "n \<in> grounded w" for n
    using that
  proof (rule acc_induct, intro impI)
    fix n
    assume IH: "\<forall>d. (d, n) \<in> {(d, n). d \<in> set (deps w n)} \<longrightarrow> d \<in> fst ` set (Jobs w) \<longrightarrow> d \<in> set order"
      and n: "n \<in> fst ` set (Jobs w)"
    have "set (deps w n) \<subseteq> set order" using IH ex [of n] by auto
    then have "left w order n = 0" by (simp add: left_0)
    then show "n \<in> set order" using i n by (auto simp: kahn_inv_def)
  qed
  then have "set order = fst ` set (Jobs w)" using g i by (auto simp: kahn_inv_def)
  moreover have "distinct order" using i by (simp add: kahn_inv_def)
  ultimately have "length order = length (Jobs w)" using d by (metis distinct_card length_map set_map)
  then have "GetJobOrder w = Ok order" by (simp add: GetJobOrder_def order_def start_degree_def Let_def)
  then show ?thesis by blast
qed

lemma first_error_None: "first_error f xs = None \<longleftrightarrow> (\<forall>x \<in> set xs. f x = None)"
  by (induction xs) (auto split: option.splits)

text \<open>C33: a workflow that passes validation can be scheduled: its needs name its own jobs and have no
  cycle (the depth-first search misses none), so \<open>GetJobOrder\<close> returns, and what it returns has
  every job once, after all the jobs it needs.\<close>

theorem validated_workflow_has_order:
  assumes d: "distinct (map fst (Jobs w))" and v: "Validate w = None"
  shows "\<exists>order. GetJobOrder w = Ok order \<and> distinct order \<and> set order = fst ` set (Jobs w) \<and>
    (\<forall>i < length order. set (deps w (order ! i)) \<subseteq> set (take i order))"
proof -
  have v': "validateDependencies w = None" using v by (auto simp: Validate_def split: if_splits option.splits)
  then have g: "fst ` set (Jobs w) \<subseteq> grounded w"
    using visit_all_grounded [of w "map fst (Jobs w)"] by (auto simp: validateDependencies_def split: option.splits)
  have "set (deps w n) \<subseteq> fst ` set (Jobs w)" for n
  proof (cases "map_of (Jobs w) n")
    case (Some j)
    have "\<forall>p \<in> set (Jobs w). (\<lambda>(name, j). first_error (\<lambda>need. if map_of (Jobs w) need = None
        then Some (MissingJob name need) else None) (Needs j)) p = None"
      using v' unfolding first_error_None [symmetric] by (simp add: validateDependencies_def split: option.splits)
    then have "first_error (\<lambda>need. if map_of (Jobs w) need = None then Some (MissingJob n need) else None) (Needs j) = None"
      using map_of_SomeD [OF Some] by fastforce
    then have "\<forall>x \<in> set (Needs j). map_of (Jobs w) x \<noteq> None" by (simp add: first_error_None split: if_splits)
    then show ?thesis using Some by (auto simp: deps_def map_of_eq_None_iff)
  qed (simp add: deps_def)
  then obtain order where o: "GetJobOrder w = Ok order" using GetJobOrder_grounded [OF d g] by blast
  show ?thesis using GetJobOrder_Ok [OF o d] o by (auto simp: ordered_def)
qed

text \<open>A workflow for the witnesses: \<open>test\<close> needs \<open>build\<close>, \<open>deploy\<close> needs both.\<close>

definition ex_job :: "string list \<Rightarrow> nat wf_job" where
  "ex_job ns = \<lparr>job_title = [], RunsOn = [''linux''], job_uses = [], job_with = [], Needs = ns,
     Steps = [\<lparr>step_name = [], step_uses = [], step_run = ''make''\<rparr>], job_env = [], Strategy = None\<rparr>"

definition ex_workflow :: "nat workflow" where
  "ex_workflow = \<lparr>wf_name = ''ci'', On = no_trigger, Concurrency = None,
     Jobs = [(''deploy'', ex_job [''test'', ''build'']), (''test'', ex_job [''build'']), (''build'', ex_job [])]\<rparr>"

theorem validated_workflow_has_order_witness:
  "GetJobOrder ex_workflow = Ok [''build'', ''test'', ''deploy''] \<and>
   (\<exists>order. GetJobOrder ex_workflow = Ok order \<and> distinct order \<and> set order = fst ` set (Jobs ex_workflow))"
proof -
  have v: "Validate ex_workflow = None" by code_simp
  have d: "distinct (map fst (Jobs ex_workflow))" by code_simp
  have "GetJobOrder ex_workflow = Ok [''build'', ''test'', ''deploy'']" by code_simp
  with validated_workflow_has_order [OF d v] show ?thesis by blast
qed

end
