(* ===== verification/Matrix.thy ===== *)
theory Matrix
  imports Workflow
begin

text \<open>
  The expansion of matrix strategies (\<open>src/kailab-control/internal/workflow/matrix.go\<close>). \<open>marshal\<close>
  is \<open>json.Marshal\<close> on matrix values and \<open>fmtn\<close> prints a number with \<open>%v\<close>; both are
  parameters. An include that matches nothing is appended itself, and later includes may extend it.
\<close>

section \<open>Values\<close>

fun valuesEqual :: "('n mval \<Rightarrow> string) \<Rightarrow> 'n mval \<Rightarrow> 'n mval \<Rightarrow> bool" where
  "valuesEqual marshal (MStr a) (MStr b) = (a = b)"
| "valuesEqual marshal (MNum a) (MNum b) = (a = b)"
| "valuesEqual marshal a b = (marshal a = marshal b)"

type_synonym 'n combo = "(string, 'n mval) gomap"

definition partialMatch :: "('n mval \<Rightarrow> string) \<Rightarrow> 'n combo \<Rightarrow> 'n combo \<Rightarrow> bool" where
  "partialMatch marshal combo include \<longleftrightarrow>
     (\<forall>(k, v) \<in> set include. case map_of combo k of Some c \<Rightarrow> valuesEqual marshal c v | None \<Rightarrow> True)"

definition fullMatch :: "('n mval \<Rightarrow> string) \<Rightarrow> 'n combo \<Rightarrow> 'n combo \<Rightarrow> bool" where
  "fullMatch marshal combo exclude \<longleftrightarrow>
     (\<forall>(k, v) \<in> set exclude. case map_of combo k of Some c \<Rightarrow> valuesEqual marshal c v | None \<Rightarrow> False)"

section \<open>Combinations\<close>

text \<open>The dimensions in the order of their sorted keys; each one multiplies the combinations.\<close>

definition add_dimension :: "string \<Rightarrow> 'n mval list \<Rightarrow> 'n combo list \<Rightarrow> 'n combo list" where
  "add_dimension key values result = concat (map (\<lambda>combo. map (\<lambda>value. AList.update key value combo) values) result)"

definition generateCombinations :: "(string, 'n mval list) gomap \<Rightarrow> 'n combo list" where
  "generateCombinations mat =
     foldl (\<lambda>result key. add_dimension key (case map_of mat key of Some vs \<Rightarrow> vs | None \<Rightarrow> []) result) [[]] (sort (map fst mat))"

definition merge_values :: "'n combo \<Rightarrow> 'n combo \<Rightarrow> 'n combo" where
  "merge_values combo include = foldl (\<lambda>m (k, v). AList.update k v m) combo include"

definition apply_include :: "('n mval \<Rightarrow> string) \<Rightarrow> 'n combo list \<Rightarrow> 'n combo \<Rightarrow> 'n combo list" where
  "apply_include marshal combinations include =
     (if (\<exists>c \<in> set combinations. partialMatch marshal c include)
      then map (\<lambda>c. if partialMatch marshal c include then merge_values c include else c) combinations
      else combinations @ [include])"

record 'n matrix_instance =
  inst_values :: "'n combo"
  inst_index :: nat

definition ExpandMatrix :: "('n mval \<Rightarrow> string) \<Rightarrow> 'n matrix option \<Rightarrow> 'n matrix_instance list" where
  "ExpandMatrix marshal strategy =
     (case strategy of
        None \<Rightarrow> [\<lparr>inst_values = [], inst_index = 0\<rparr>]
      | Some m \<Rightarrow>
          if Values m = [] \<and> Include m = [] then [\<lparr>inst_values = [], inst_index = 0\<rparr>]
          else let combinations = (if Values m \<noteq> [] then generateCombinations (Values m) else []);
                   combinations = foldl (apply_include marshal) combinations (Include m);
                   filtered = filter (\<lambda>c. \<not> (\<exists>e \<in> set (Exclude m). fullMatch marshal c e)) combinations
               in map (\<lambda>(c, i). \<lparr>inst_values = c, inst_index = i\<rparr>) (zip filtered [0..<length filtered]))"

section \<open>Jobs\<close>

text \<open>\<open>%v\<close>: maps are printed in key order.\<close>

fun join_sep :: "string \<Rightarrow> string list \<Rightarrow> string" where
  "join_sep s [] = []"
| "join_sep s [p] = p"
| "join_sep s (p # q # ps) = p @ s @ join_sep s (q # ps)"

function show_value :: "('n \<Rightarrow> string) \<Rightarrow> 'n mval \<Rightarrow> string" where
  "show_value fmtn (MStr s) = s"
| "show_value fmtn (MNum n) = fmtn n"
| "show_value fmtn (MBool b) = (if b then ''true'' else ''false'')"
| "show_value fmtn MNull = ''<nil>''"
| "show_value fmtn (MList vs) = ''['' @ join_sep '' '' (map (show_value fmtn) vs) @ '']''"
| "show_value fmtn (MObj kvs) =
     ''map['' @ join_sep '' '' (map (\<lambda>kv. fst kv @ '':'' @ show_value fmtn (snd kv)) (sort_key fst kvs)) @ '']''"
  by pat_completeness auto
termination
  by (relation "measure (\<lambda>(f, v). size v)") (auto simp: size_list_estimation' less_Suc_eq_le
      intro!: le_imp_less_Suc dest!: size_list_estimation [rotated])

definition GetMatrixDisplayName :: "('n \<Rightarrow> string) \<Rightarrow> 'n combo \<Rightarrow> string" where
  "GetMatrixDisplayName fmtn values = join_sep '', '' (map (\<lambda>kv. show_value fmtn (snd kv)) (sort_key fst values))"

text \<open>\<open>strings.ReplaceAll\<close> for a non-empty old string.\<close>

function ReplaceAll :: "string \<Rightarrow> string \<Rightarrow> string \<Rightarrow> string" where
  "ReplaceAll [] old new = []"
| "ReplaceAll (c # s) old new =
     (if old \<noteq> [] \<and> HasPrefix (c # s) old then new @ ReplaceAll (drop (length old) (c # s)) old new
      else c # ReplaceAll s old new)"
  by pat_completeness auto
termination by (relation "measure (\<lambda>(s, old, new). length s)") (auto simp: length_greater_0_conv [symmetric] simp del: length_greater_0_conv)

definition matrix_placeholder :: "string \<Rightarrow> string" where
  "matrix_placeholder k = ''${{ matrix.'' @ k @ '' }}''"

definition substitute :: "('n \<Rightarrow> string) \<Rightarrow> 'n combo \<Rightarrow> string \<Rightarrow> string" where
  "substitute fmtn values s = foldl (\<lambda>s (k, v). ReplaceAll s (matrix_placeholder k) (show_value fmtn v)) s values"

record 'n expanded_job =
  ej_key :: string
  ej_name :: string
  ej_job :: "'n wf_job"
  ej_values :: "'n combo"
  ej_index :: nat

definition expand_job :: "('n \<Rightarrow> string) \<Rightarrow> string \<Rightarrow> 'n wf_job \<Rightarrow> 'n matrix_instance \<Rightarrow> 'n expanded_job" where
  "expand_job fmtn key job inst =
     (let vals = inst_values inst;
          name = substitute fmtn vals (GetJobDisplayName job key);
          name = (if vals \<noteq> [] \<and> \<not> Contains name ''${{'' then name
                  else if vals \<noteq> [] then name @ '' ('' @ GetMatrixDisplayName fmtn vals @ '')''
                  else name);
          job = (if vals \<noteq> [] then job\<lparr>RunsOn := map (substitute fmtn vals) (RunsOn job)\<rparr> else job)
      in \<lparr>ej_key = key, ej_name = name, ej_job = job, ej_values = vals, ej_index = inst_index inst\<rparr>)"

definition ExpandJobsWithMatrix ::
  "('n mval \<Rightarrow> string) \<Rightarrow> ('n \<Rightarrow> string) \<Rightarrow> 'n workflow \<Rightarrow> (string, 'n expanded_job list) gomap" where
  "ExpandJobsWithMatrix marshal fmtn w =
     map (\<lambda>(key, job). (key, map (expand_job fmtn key job) (ExpandMatrix marshal (Strategy job)))) (Jobs w)"

section \<open>What a matrix expands to\<close>

definition values_of :: "(string, 'n mval list) gomap \<Rightarrow> string \<Rightarrow> 'n mval list" where
  "values_of mat key = (case map_of mat key of Some vs \<Rightarrow> vs | None \<Rightarrow> [])"

text \<open>The choices: a value for every key and no other.\<close>

definition choices :: "(string, 'n mval list) gomap \<Rightarrow> string set \<Rightarrow> (string \<Rightarrow> 'n mval option) set" where
  "choices mat K = {f. dom f = K \<and> (\<forall>k v. f k = Some v \<longrightarrow> v \<in> set (values_of mat k))}"

lemma choices_insert:
  assumes "k \<notin> K"
  shows "choices mat (insert k K) = {f(k \<mapsto> v) |f v. f \<in> choices mat K \<and> v \<in> set (values_of mat k)}"
proof (intro set_eqI iffI)
  fix g assume g: "g \<in> choices mat (insert k K)"
  then have "k \<in> dom g" by (simp add: choices_def)
  then obtain v where v: "g k = Some v" by auto
  have "g(k := None) \<in> choices mat K" using g assms by (auto simp: choices_def split: if_splits)
  moreover have "v \<in> set (values_of mat k)" using g v by (auto simp: choices_def)
  moreover have "g = (g(k := None))(k \<mapsto> v)" using v by auto
  ultimately show "g \<in> {f(k \<mapsto> v) |f v. f \<in> choices mat K \<and> v \<in> set (values_of mat k)}" by blast
next
  fix g assume "g \<in> {f(k \<mapsto> v) |f v. f \<in> choices mat K \<and> v \<in> set (values_of mat k)}"
  then show "g \<in> choices mat (insert k K)" using assms by (auto simp: choices_def split: if_splits)
qed

lemma add_dimension_map_of: "map_of ` set (add_dimension k vs cs) = {f(k \<mapsto> v) |f v. f \<in> map_of ` set cs \<and> v \<in> set vs}"
proof -
  have "set (add_dimension k vs cs) = {AList.update k v c |c v. c \<in> set cs \<and> v \<in> set vs}" by (auto simp: add_dimension_def)
  then show ?thesis by (auto simp: image_iff) (metis map_of_update)+
qed

lemma combinations_choices:
  "distinct ks \<Longrightarrow> map_of ` set (foldl (\<lambda>result key. add_dimension key (values_of mat key) result) [[]] ks) = choices mat (set ks) \<and>
     length (foldl (\<lambda>result key. add_dimension key (values_of mat key) result) [[]] ks) = (\<Prod>k \<leftarrow> ks. length (values_of mat k))"
proof (induction ks rule: rev_induct)
  case Nil
  then show ?case by (auto simp: choices_def)
next
  case (snoc k ks)
  have len: "length (add_dimension key vs cs) = length vs * length cs" for key and vs :: "'a mval list" and cs
    by (induction cs) (simp_all add: add_dimension_def)
  show ?case using snoc by (simp add: add_dimension_map_of choices_insert len)
qed

definition excluded :: "('n mval \<Rightarrow> string) \<Rightarrow> (string \<Rightarrow> 'n mval option) \<Rightarrow> 'n combo \<Rightarrow> bool" where
  "excluded marshal f exclude \<longleftrightarrow> (\<forall>(k, v) \<in> set exclude. case f k of Some c \<Rightarrow> valuesEqual marshal c v | None \<Rightarrow> False)"

lemma map_zip_upt: "map f (map fst (zip xs [0..<length xs])) = map f xs"
  by simp


definition ex_matrix :: "nat matrix" where
  "ex_matrix = \<lparr>Include = [], Exclude = [[(''os'', MStr ''mac''), (''v'', MNum 2)]],
     Values = [(''v'', [MNum 1, MNum 2]), (''os'', [MStr ''linux'', MStr ''mac''])]\<rparr>"


section \<open>Names of the instances\<close>

lemma ReplaceAll_absent:
  assumes "old = c # t" and "c \<notin> set s"
  shows "ReplaceAll s old new = s"
  using assms(2) by (induction s) (auto simp: assms(1) HasPrefix_def)

lemma substitute_absent: "CHR ''$'' \<notin> set s \<Longrightarrow> substitute fmtn vals s = s"
proof (induction vals arbitrary: s)
  case (Cons kv vals)
  have "ReplaceAll s (matrix_placeholder (fst kv)) (show_value fmtn (snd kv)) = s"
    by (rule ReplaceAll_absent [OF _ Cons.prems]) (simp add: matrix_placeholder_def)
  then show ?case using Cons by (simp add: substitute_def case_prod_beta)
qed (simp add: substitute_def)

text \<open>A name without an expression needs no resolving, and the suffix that would tell the instances apart
  is left out.\<close>

lemma expand_job_same_name:
  assumes "CHR ''$'' \<notin> set (GetJobDisplayName job key)"
  shows "ej_name (expand_job fmtn key job inst) = GetJobDisplayName job key"
  by (simp add: expand_job_def Let_def Contains_def substitute_absent [OF assms] str_index_absent [OF assms])

end
