(* ===== verification/Trigger.thy ===== *)
theory Trigger
  imports Workflow
begin

text \<open>
  Which events start a workflow: \<open>src/kailab-control/internal/workflow/trigger.go\<close>. Names and patterns are
  ASCII. Of an event's payload the code reads two entries: \<open>changed_files\<close> counts only if its dynamic
  type is \<open>[]string\<close>, \<open>target_branch\<close> only if it is a string.
\<close>

section \<open>\<open>filepath.Match\<close>\<close>

text \<open>A character of a class, possibly escaped; a class may not end there.\<close>

fun get_esc :: "string \<Rightarrow> (char \<times> string) option" where
  "get_esc [] = None"
| "get_esc (c # s) =
     (if c = CHR ''-'' \<or> c = CHR '']'' then None
      else if c = CHR 0x5C then (case s of c' # (t # ts) \<Rightarrow> Some (c', t # ts) | _ \<Rightarrow> None)
      else if s = [] then None else Some (c, s))"

text \<open>The ranges of a class up to its closing bracket, and the rest of the pattern.\<close>

function class_ranges :: "bool \<Rightarrow> string \<Rightarrow> ((char \<times> char) list \<times> string) option" where
  "class_ranges seen s =
     (case s of
        c # rest \<Rightarrow> if c = CHR '']'' \<and> seen then Some ([], rest)
          else (case get_esc s of
             None \<Rightarrow> None
           | Some (lo, r) \<Rightarrow>
               (case (if r \<noteq> [] \<and> hd r = CHR ''-'' then get_esc (tl r) else Some (lo, r)) of
                  None \<Rightarrow> None
                | Some (hi, r') \<Rightarrow> if length r' < length s then map_option (\<lambda>(rs, t). ((lo, hi) # rs, t)) (class_ranges True r') else None))
      | [] \<Rightarrow> None)"
  by pat_completeness auto
termination by (relation "measure (\<lambda>(b, s). length s)") auto

declare class_ranges.simps [simp del]

text \<open>The rest of the pattern is always shorter; the test keeps the function total.\<close>

definition in_class :: "(char \<times> char) list \<Rightarrow> char \<Rightarrow> bool" where
  "in_class rs c \<longleftrightarrow> (\<exists>(lo, hi) \<in> set rs. (of_char lo :: nat) \<le> of_char c \<and> of_char c \<le> (of_char hi :: nat))"

text \<open>The star stops at a slash, like the question mark; a class does not. A malformed pattern matches nothing.\<close>

function glob :: "string \<Rightarrow> string \<Rightarrow> bool" where
  "glob [] s = (s = [])"
| "glob (p # ps) s =
     (if p = CHR ''*'' then glob ps s \<or> (if s \<noteq> [] \<and> hd s \<noteq> CHR ''/'' then glob (p # ps) (tl s) else False)
      else if p = CHR ''?'' then s \<noteq> [] \<and> hd s \<noteq> CHR ''/'' \<and> glob ps (tl s)
      else if p = CHR ''['' then
        (let negated = (ps \<noteq> [] \<and> hd ps = CHR 0x5E) in
         case class_ranges False (if negated then tl ps else ps) of
           None \<Rightarrow> False
         | Some (rs, rest) \<Rightarrow> if length rest \<le> length ps then s \<noteq> [] \<and> in_class rs (hd s) \<noteq> negated \<and> glob rest (tl s) else False)
      else if p = CHR 0x5C then ps \<noteq> [] \<and> s \<noteq> [] \<and> hd s = hd ps \<and> glob (tl ps) (tl s)
      else s \<noteq> [] \<and> hd s = p \<and> glob ps (tl s))"
  by pat_completeness auto
termination by (relation "measures [\<lambda>(p, s). length p, \<lambda>(p, s). length s]") (auto simp: less_Suc_eq_le)

declare glob.simps(2) [simp del]

section \<open>Patterns\<close>

text \<open>\<open>strings.Split(pattern, "**")\<close>.\<close>

function split_stars :: "string \<Rightarrow> string list" where
  "split_stars [] = [[]]"
| "split_stars (c # s) =
     (if c = CHR ''*'' \<and> s \<noteq> [] \<and> hd s = CHR ''*'' then [] # split_stars (tl s)
      else (case split_stars s of l # ls \<Rightarrow> (c # l) # ls | [] \<Rightarrow> [[c]]))"
  by pat_completeness auto
termination by (relation "measure length") (auto simp: less_Suc_eq_le)

definition matchDoubleStarPattern :: "string \<Rightarrow> string \<Rightarrow> bool" where
  "matchDoubleStarPattern name pattern =
     (let parts = split_stars pattern in
      if length parts = 1 then glob pattern name
      else
        let prefix = TrimSuffix (hd parts) ''/'' in
        if hd parts \<noteq> [] \<and> prefix \<noteq> [] \<and> \<not> HasPrefix name prefix then False
        else
          let name = (if hd parts \<noteq> [] then TrimPrefix (TrimPrefix name prefix) ''/'' else name);
              suffix = TrimPrefix (last parts) ''/''
          in \<not> (last parts \<noteq> [] \<and> suffix \<noteq> [] \<and> \<not> HasSuffix name suffix))"

definition matchPattern :: "string \<Rightarrow> string \<Rightarrow> bool" where
  "matchPattern name pattern = (if Contains pattern ''**'' then matchDoubleStarPattern name pattern else glob pattern name)"

definition matchPatterns :: "string \<Rightarrow> string list \<Rightarrow> bool" where
  "matchPatterns name patterns \<longleftrightarrow> (\<exists>p \<in> set patterns. matchPattern name p)"

definition matchDoubleStarPath :: "string \<Rightarrow> string \<Rightarrow> bool" where
  "matchDoubleStarPath path pattern =
     (let parts = split_stars pattern;
          prefix = TrimSuffix (hd parts) ''/''
      in if hd parts \<noteq> [] \<and> \<not> HasPrefix path prefix then False
         else
           let path = (if hd parts \<noteq> [] then TrimPrefix (TrimPrefix path prefix) ''/'' else path)
           in if length parts > 1 \<and> last parts \<noteq> [] then
                let suffix = TrimPrefix (last parts) ''/'' in
                if HasPrefix suffix ''*.'' then HasSuffix path (TrimPrefix suffix ''*'') else HasSuffix path suffix
              else True)"

definition matchPathPattern :: "string \<Rightarrow> string \<Rightarrow> bool" where
  "matchPathPattern path pattern =
     (let path = TrimPrefix path ''/''; pattern = TrimPrefix pattern ''/'' in
      if Contains pattern ''**'' then matchDoubleStarPath path pattern
      else glob pattern path \<or> (HasSuffix pattern ''/*'' \<and> HasPrefix path (TrimSuffix pattern ''/*'' @ ''/'')))"

definition matchAnyPath :: "string list \<Rightarrow> string list \<Rightarrow> bool" where
  "matchAnyPath changedFiles patterns \<longleftrightarrow> (\<exists>f \<in> set changedFiles. \<exists>p \<in> set patterns. matchPathPattern f p)"

definition matchAllPaths :: "string list \<Rightarrow> string list \<Rightarrow> bool" where
  "matchAllPaths changedFiles patterns \<longleftrightarrow> (\<forall>f \<in> set changedFiles. \<exists>p \<in> set patterns. matchPathPattern f p)"

section \<open>Events\<close>

record trigger_event =
  ev_type :: string
  ev_ref :: string
  ev_sha :: string
  changed_files :: "string list option"
  target_branch :: "string option"

definition paths_ok :: "string list option \<Rightarrow> string list \<Rightarrow> string list \<Rightarrow> bool" where
  "paths_ok changed paths ignored =
     (case changed of None \<Rightarrow> True
      | Some fs \<Rightarrow> \<not> (paths \<noteq> [] \<and> \<not> matchAnyPath fs paths) \<and> \<not> (ignored \<noteq> [] \<and> matchAllPaths fs ignored))"

definition names_ok :: "string \<Rightarrow> string list \<Rightarrow> string list \<Rightarrow> bool" where
  "names_ok name wanted ignored \<longleftrightarrow>
     \<not> (wanted \<noteq> [] \<and> \<not> matchPatterns name wanted) \<and> \<not> (ignored \<noteq> [] \<and> matchPatterns name ignored)"

definition matchPushTrigger :: "'n workflow \<Rightarrow> trigger_event \<Rightarrow> bool" where
  "matchPushTrigger w event =
     (case on_push (On w) of
        None \<Rightarrow> False
      | Some push \<Rightarrow>
          let ref = ev_ref event; isBranch = HasPrefix ref ''refs/heads/''; isTag = HasPrefix ref ''refs/tags/'';
              name = (if isBranch then TrimPrefix ref ''refs/heads/'' else if isTag then TrimPrefix ref ''refs/tags/'' else [])
          in (isTag \<longrightarrow> names_ok name (Tags push) (TagsIgnore push) \<and>
                \<not> (Tags push = [] \<and> TagsIgnore push = [] \<and> (Branches push \<noteq> [] \<or> BranchesIgnore push \<noteq> []))) \<and>
             (isBranch \<longrightarrow> names_ok name (Branches push) (BranchesIgnore push)) \<and>
             paths_ok (changed_files event) (Paths push) (PathsIgnore push))"

definition review_action :: "string \<Rightarrow> string option" where
  "review_action ty = (if ty = ''review_created'' then Some ''opened'' else if ty = ''review_updated'' then Some ''synchronize'' else None)"

definition matchReviewTrigger :: "'n workflow \<Rightarrow> trigger_event \<Rightarrow> bool" where
  "matchReviewTrigger w event =
     (case (on_review (On w), review_action (ev_type event)) of
        (Some types, Some action) \<Rightarrow> types = [] \<or> action \<in> set types
      | _ \<Rightarrow> False)"

definition matchPullRequestTrigger :: "'n workflow \<Rightarrow> trigger_event \<Rightarrow> bool" where
  "matchPullRequestTrigger w event =
     (case (on_pull_request (On w), review_action (ev_type event)) of
        (Some pr, Some action) \<Rightarrow>
          (pr_types pr = [] \<or> action \<in> set (pr_types pr)) \<and>
          (case target_branch event of
             Some b \<Rightarrow> b \<noteq> [] \<longrightarrow> names_ok b (pr_branches pr) (pr_branches_ignore pr)
           | None \<Rightarrow> True) \<and>
          paths_ok (changed_files event) (pr_paths pr) (pr_paths_ignore pr)
      | _ \<Rightarrow> False)"

definition MatchTrigger :: "'n workflow \<Rightarrow> trigger_event \<Rightarrow> bool" where
  "MatchTrigger w event =
     (let ty = ev_type event in
      if ty = ''push'' then matchPushTrigger w event
      else if ty = ''review_created'' \<or> ty = ''review_updated'' then matchReviewTrigger w event \<or> matchPullRequestTrigger w event
      else if ty = ''workflow_dispatch'' then on_dispatch (On w)
      else if ty = ''schedule'' then on_schedule (On w) \<noteq> []
      else if ty = ''workflow_call'' then on_call (On w)
      else False)"

definition FilterWorkflowsByEvent :: "'n workflow list \<Rightarrow> trigger_event \<Rightarrow> 'n workflow list" where
  "FilterWorkflowsByEvent ws event = filter (\<lambda>w. MatchTrigger w event) ws"

end
