(* ===== verification/CIStore.thy ===== *)
theory CIStore
  imports GoText RefStore
begin

text \<open>
  The CI tables of the control plane and the operations on them
  (\<open>src/kailab-control/internal/db/ci.go\<close>, schema files \<open>0004_ci.sql\<close> to \<open>0010_job_heartbeat.sql\<close>).
  A table is the list of its rows in insertion order; rows that an \<open>ORDER BY\<close> leaves tied are read in that
  order. A NULL column is \<open>None\<close>; reading one into a Go field gives the zero value. Foreign keys are enforced
  (both drivers). An operation gets the time and the fresh id that it makes; an insert or a
  foreign key that violates a constraint is an error and changes nothing. A column holding a JSON array is
  the list, or \<open>None\<close> for the JSON \<open>null\<close> that \<open>json.Marshal\<close> makes of a nil slice.
\<close>

section \<open>Tables\<close>

datatype job_status = JobQueued | JobPending | JobInProgress | JobCompleted
datatype run_status = RunQueued | RunInProgress | RunCompleted
datatype step_status = StepPending | StepInProgress | StepCompleted

abbreviation (input) ConclusionSuccess :: string where "ConclusionSuccess \<equiv> ''success''"
abbreviation (input) ConclusionFailure :: string where "ConclusionFailure \<equiv> ''failure''"
abbreviation (input) ConclusionCancelled :: string where "ConclusionCancelled \<equiv> ''cancelled''"

record workflow_row =
  w_id :: string
  w_repo :: string
  w_path :: string
  w_name :: string
  w_hash :: string
  w_json :: string
  w_triggers :: "string list"
  w_active :: bool
  w_created :: int
  w_updated :: int

record run_row =
  r_id :: string
  r_workflow :: string
  r_repo :: string
  r_number :: int
  r_event :: string
  r_ref :: string
  r_sha :: string
  r_payload :: string
  r_status :: run_status
  r_conclusion :: "string option"
  r_started :: "int option"
  r_completed :: "int option"
  r_created :: int
  r_created_by :: "string option"

record job_row =
  j_id :: string
  j_run :: string
  j_name :: string
  j_runner :: "string option"
  j_status :: job_status
  j_conclusion :: "string option"
  j_matrix :: "string option"
  j_needs :: "string list option"
  j_runs_on :: "string list option"
  j_runner_name :: "string option"
  j_started :: "int option"
  j_completed :: "int option"
  j_created :: int
  j_heartbeat :: "int option"
  j_outputs :: "(string, string) gomap"
  j_summary :: string

record step_row =
  s_id :: string
  s_job :: string
  s_number :: int
  s_name :: string
  s_status :: step_status
  s_conclusion :: "string option"
  s_started :: "int option"
  s_completed :: "int option"
  s_exit :: "int option"

record log_row =
  l_id :: string
  l_job :: string
  l_step :: "string option"
  l_seq :: int
  l_content :: string
  l_time :: int

record artifact_row =
  a_id :: string
  a_run :: string
  a_job :: string
  a_name :: string
  a_path :: string
  a_size :: int
  a_expires :: "int option"
  a_created :: int

text \<open>Secrets and variables have the same shape; the value of a secret is its encrypted bytes.\<close>

record secret_row =
  x_id :: string
  x_repo :: "string option"
  x_org :: "string option"
  x_name :: string
  x_value :: bytes
  x_created :: int
  x_updated :: int
  x_created_by :: string

record runner_row =
  n_id :: string
  n_name :: string
  n_org :: "string option"
  n_labels :: "string list"
  n_status :: string
  n_seen :: "int option"
  n_created :: int

record cache_row =
  c_id :: string
  c_repo :: string
  c_key :: string
  c_path :: string
  c_size :: int
  c_created :: int
  c_used :: int

record lock_row =
  k_id :: string
  k_group :: string
  k_run :: string
  k_job :: "string option"
  k_repo :: string
  k_created :: int

text \<open>\<open>repos\<close> maps a repository's id to its full name, the slug of its org, a slash and its name.\<close>

record ci_db =
  repos :: "(string, string) gomap"
  orgs :: "string list"
  workflows :: "workflow_row list"
  runs :: "run_row list"
  jobs :: "job_row list"
  steps :: "step_row list"
  job_logs :: "log_row list"
  artifacts :: "artifact_row list"
  secrets :: "secret_row list"
  variables :: "secret_row list"
  runners :: "runner_row list"
  caches :: "cache_row list"
  locks :: "lock_row list"

datatype db_error = NotFound | Constraint | BadJSON

text \<open>\<open>UPDATE ... WHERE id = ?\<close> and \<open>SELECT ... WHERE id = ?\<close>.\<close>

definition update_where :: "('a \<Rightarrow> bool) \<Rightarrow> ('a \<Rightarrow> 'a) \<Rightarrow> 'a list \<Rightarrow> 'a list" where
  "update_where P f rows = map (\<lambda>r. if P r then f r else r) rows"

definition select_one :: "('a \<Rightarrow> bool) \<Rightarrow> 'a list \<Rightarrow> (db_error, 'a) go" where
  "select_one P rows = (case find P rows of Some r \<Rightarrow> Ok r | None \<Rightarrow> Err NotFound)"

lemma update_where_simps [simp]:
  "update_where P f [] = []" "update_where P f (r # rows) = (if P r then f r else r) # update_where P f rows"
  "length (update_where P f rows) = length rows"
  by (simp_all add: update_where_def)

lemma set_update_where: "set (update_where P f rows) = (\<lambda>r. if P r then f r else r) ` set rows"
  by (simp add: update_where_def)

lemma map_update_where: "(\<And>r. P r \<Longrightarrow> g (f r) = g r) \<Longrightarrow> map g (update_where P f rows) = map g rows"
  by (simp add: update_where_def)

section \<open>Workflows\<close>

definition CreateWorkflow ::
  "int \<Rightarrow> string \<Rightarrow> string \<Rightarrow> string \<Rightarrow> string \<Rightarrow> string \<Rightarrow> string \<Rightarrow> string list \<Rightarrow> ci_db \<Rightarrow> (db_error, workflow_row \<times> ci_db) go" where
  "CreateWorkflow now newid repoID path name hash json triggers db =
     (if map_of (repos db) repoID = None \<or> newid \<in> w_id ` set (workflows db) \<or>
         (\<exists>w \<in> set (workflows db). w_repo w = repoID \<and> w_path w = path) then Err Constraint
      else let row = \<lparr>w_id = newid, w_repo = repoID, w_path = path, w_name = name, w_hash = hash, w_json = json,
                      w_triggers = triggers, w_active = True, w_created = now, w_updated = now\<rparr>
           in Ok (row, db\<lparr>workflows := workflows db @ [row]\<rparr>))"

definition GetWorkflowByID :: "ci_db \<Rightarrow> string \<Rightarrow> (db_error, workflow_row) go" where
  "GetWorkflowByID db i = select_one (\<lambda>w. w_id w = i) (workflows db)"

definition GetWorkflowByRepoAndPath :: "ci_db \<Rightarrow> string \<Rightarrow> string \<Rightarrow> (db_error, workflow_row) go" where
  "GetWorkflowByRepoAndPath db repoID path = select_one (\<lambda>w. w_repo w = repoID \<and> w_path w = path) (workflows db)"

definition ListRepoWorkflows :: "ci_db \<Rightarrow> string \<Rightarrow> workflow_row list" where
  "ListRepoWorkflows db repoID = sort_key w_name (filter (\<lambda>w. w_repo w = repoID) (workflows db))"

text \<open>The triggers column is searched as text for the quoted trigger; the trigger is a plain word, and
  \<open>LIKE\<close> takes its \<open>_\<close> as a wildcard.\<close>

fun json_strings :: "string list \<Rightarrow> string" where
  "json_strings [] = []"
| "json_strings [s] = json_string s"
| "json_strings (s # t # ss) = json_string s @ '','' @ json_strings (t # ss)"

definition json_array :: "string list \<Rightarrow> string" where
  "json_array ss = ''['' @ json_strings ss @ '']''"

definition triggers_like :: "string list \<Rightarrow> string \<Rightarrow> bool" where
  "triggers_like triggers trigger = like (''%'' @ [CHR 0x22] @ trigger @ [CHR 0x22] @ ''%'') (json_array triggers)"

definition ListActiveWorkflowsByTrigger :: "ci_db \<Rightarrow> string \<Rightarrow> string \<Rightarrow> workflow_row list" where
  "ListActiveWorkflowsByTrigger db repoID trigger =
     filter (\<lambda>w. w_repo w = repoID \<and> w_active w \<and> triggers_like (w_triggers w) trigger) (workflows db)"

definition ListAllScheduleWorkflows :: "ci_db \<Rightarrow> workflow_row list" where
  "ListAllScheduleWorkflows db = filter (\<lambda>w. w_active w \<and> triggers_like (w_triggers w) ''schedule'') (workflows db)"

definition UpdateWorkflow ::
  "int \<Rightarrow> string \<Rightarrow> string \<Rightarrow> string \<Rightarrow> string \<Rightarrow> string list \<Rightarrow> bool \<Rightarrow> ci_db \<Rightarrow> ci_db" where
  "UpdateWorkflow now i name hash json triggers active db = db\<lparr>workflows := update_where (\<lambda>w. w_id w = i)
     (\<lambda>w. w\<lparr>w_name := name, w_hash := hash, w_json := json, w_triggers := triggers, w_active := active, w_updated := now\<rparr>)
     (workflows db)\<rparr>"

text \<open>Deleting a workflow cascades to its runs and from them to their jobs, steps, logs, artifacts and locks.\<close>

definition DeleteWorkflow :: "string \<Rightarrow> ci_db \<Rightarrow> ci_db" where
  "DeleteWorkflow i db =
     (let gone_runs = map r_id (filter (\<lambda>r. r_workflow r = i) (runs db));
          gone_jobs = map j_id (filter (\<lambda>j. j_run j \<in> set gone_runs) (jobs db))
      in db\<lparr>workflows := filter (\<lambda>w. w_id w \<noteq> i) (workflows db),
            runs := filter (\<lambda>r. r_id r \<notin> set gone_runs) (runs db),
            jobs := filter (\<lambda>j. j_id j \<notin> set gone_jobs) (jobs db),
            steps := filter (\<lambda>s. s_job s \<notin> set gone_jobs) (steps db),
            job_logs := filter (\<lambda>l. l_job l \<notin> set gone_jobs) (job_logs db),
            artifacts := filter (\<lambda>a. a_run a \<notin> set gone_runs \<and> a_job a \<notin> set gone_jobs) (artifacts db),
            locks := filter (\<lambda>k. k_run k \<notin> set gone_runs) (locks db)\<rparr>)"

section \<open>Runs\<close>

definition next_run_number :: "ci_db \<Rightarrow> string \<Rightarrow> int" where
  "next_run_number db workflowID = fold max (map r_number (filter (\<lambda>r. r_workflow r = workflowID) (runs db))) 0 + 1"

definition opt_string :: "string \<Rightarrow> string option" where
  "opt_string s = (if s = [] then None else Some s)"

definition CreateWorkflowRun ::
  "int \<Rightarrow> string \<Rightarrow> string \<Rightarrow> string \<Rightarrow> string \<Rightarrow> string \<Rightarrow> string \<Rightarrow> string \<Rightarrow> string \<Rightarrow> ci_db \<Rightarrow> (db_error, run_row \<times> ci_db) go" where
  "CreateWorkflowRun now newid workflowID repoID event ref sha payload createdBy db =
     (if map_of (repos db) repoID = None \<or> workflowID \<notin> w_id ` set (workflows db) \<or> newid \<in> r_id ` set (runs db) then Err Constraint
      else let row = \<lparr>r_id = newid, r_workflow = workflowID, r_repo = repoID, r_number = next_run_number db workflowID,
                      r_event = event, r_ref = ref, r_sha = sha, r_payload = payload, r_status = RunQueued,
                      r_conclusion = None, r_started = None, r_completed = None, r_created = now,
                      r_created_by = opt_string createdBy\<rparr>
           in Ok (row, db\<lparr>runs := runs db @ [row]\<rparr>))"

definition GetWorkflowRunByID :: "ci_db \<Rightarrow> string \<Rightarrow> (db_error, run_row) go" where
  "GetWorkflowRunByID db i = select_one (\<lambda>r. r_id r = i) (runs db)"

text \<open>The list of a repository's runs is joined with the workflow for its name and path.\<close>

definition run_details :: "ci_db \<Rightarrow> string \<Rightarrow> (run_row \<times> string \<times> string) list" where
  "run_details db repoID = concat (map (\<lambda>r. map (\<lambda>w. (r, w_name w, w_path w)) (filter (\<lambda>w. w_id w = r_workflow r) (workflows db)))
     (sort_key (\<lambda>r. - r_created r) (filter (\<lambda>r. r_repo r = repoID) (runs db))))"

definition ListRepoWorkflowRuns :: "ci_db \<Rightarrow> string \<Rightarrow> nat \<Rightarrow> (run_row \<times> string \<times> string) list" where
  "ListRepoWorkflowRuns db repoID limit = take limit (run_details db repoID)"

definition ListRepoWorkflowRunsPaginated :: "ci_db \<Rightarrow> string \<Rightarrow> nat \<Rightarrow> nat \<Rightarrow> (run_row \<times> string \<times> string) list" where
  "ListRepoWorkflowRunsPaginated db repoID limit offset = take limit (drop offset (run_details db repoID))"

definition CountRepoWorkflowRuns :: "ci_db \<Rightarrow> string \<Rightarrow> nat" where
  "CountRepoWorkflowRuns db repoID = length (filter (\<lambda>r. r_repo r = repoID) (runs db))"

definition UpdateWorkflowRunStatus :: "int \<Rightarrow> string \<Rightarrow> run_status \<Rightarrow> ci_db \<Rightarrow> ci_db" where
  "UpdateWorkflowRunStatus now i status db = db\<lparr>runs := update_where (\<lambda>r. r_id r = i)
     (\<lambda>r. if status = RunInProgress then r\<lparr>r_status := status, r_started := Some now\<rparr> else r\<lparr>r_status := status\<rparr>) (runs db)\<rparr>"

definition CompleteWorkflowRun :: "int \<Rightarrow> string \<Rightarrow> string \<Rightarrow> ci_db \<Rightarrow> ci_db" where
  "CompleteWorkflowRun now i conclusion db = db\<lparr>runs := update_where (\<lambda>r. r_id r = i)
     (\<lambda>r. r\<lparr>r_status := RunCompleted, r_conclusion := Some conclusion, r_completed := Some now\<rparr>) (runs db)\<rparr>"

section \<open>Jobs\<close>

definition CreateJob ::
  "int \<Rightarrow> string \<Rightarrow> string \<Rightarrow> string \<Rightarrow> string list option \<Rightarrow> string \<Rightarrow> string list option \<Rightarrow> ci_db \<Rightarrow> (db_error, job_row \<times> ci_db) go" where
  "CreateJob now newid runID name needs matrix runsOn db =
     (if runID \<notin> r_id ` set (runs db) \<or> newid \<in> j_id ` set (jobs db) then Err Constraint
      else let row = \<lparr>j_id = newid, j_run = runID, j_name = name, j_runner = None, j_status = JobQueued, j_conclusion = None,
                      j_matrix = opt_string matrix, j_needs = needs, j_runs_on = runsOn, j_runner_name = None,
                      j_started = None, j_completed = None, j_created = now, j_heartbeat = None, j_outputs = [], j_summary = []\<rparr>
           in Ok (row, db\<lparr>jobs := jobs db @ [row]\<rparr>))"

definition GetJobByID :: "ci_db \<Rightarrow> string \<Rightarrow> (db_error, job_row) go" where
  "GetJobByID db i = select_one (\<lambda>j. j_id j = i) (jobs db)"

definition ListWorkflowRunJobs :: "ci_db \<Rightarrow> string \<Rightarrow> job_row list" where
  "ListWorkflowRunJobs db runID = sort_key j_created (filter (\<lambda>j. j_run j = runID) (jobs db))"

definition update_job :: "string \<Rightarrow> (job_row \<Rightarrow> job_row) \<Rightarrow> ci_db \<Rightarrow> ci_db" where
  "update_job i f db = db\<lparr>jobs := update_where (\<lambda>j. j_id j = i) f (jobs db)\<rparr>"

definition StartJob :: "int \<Rightarrow> string \<Rightarrow> string \<Rightarrow> ci_db \<Rightarrow> ci_db" where
  "StartJob now i runnerName =
     update_job i (\<lambda>j. j\<lparr>j_status := JobInProgress, j_runner_name := Some runnerName, j_started := Some now\<rparr>)"

definition CompleteJob :: "int \<Rightarrow> string \<Rightarrow> string \<Rightarrow> ci_db \<Rightarrow> ci_db" where
  "CompleteJob now i conclusion =
     update_job i (\<lambda>j. j\<lparr>j_status := JobCompleted, j_conclusion := Some conclusion, j_completed := Some now\<rparr>)"

definition SetJobOutputs :: "string \<Rightarrow> (string, string) gomap \<Rightarrow> ci_db \<Rightarrow> ci_db" where
  "SetJobOutputs i outputs = update_job i (\<lambda>j. j\<lparr>j_outputs := outputs\<rparr>)"

definition GetJobOutputs :: "ci_db \<Rightarrow> string \<Rightarrow> (db_error, (string, string) gomap) go" where
  "GetJobOutputs db i = bind_go (GetJobByID db i) (\<lambda>j. Ok (j_outputs j))"

definition SetJobSummary :: "string \<Rightarrow> string \<Rightarrow> ci_db \<Rightarrow> ci_db" where
  "SetJobSummary i summary = update_job i (\<lambda>j. j\<lparr>j_summary := summary\<rparr>)"

definition GetJobSummary :: "ci_db \<Rightarrow> string \<Rightarrow> (db_error, string) go" where
  "GetJobSummary db i = bind_go (GetJobByID db i) (\<lambda>j. Ok (j_summary j))"

definition HeartbeatJob :: "int \<Rightarrow> string \<Rightarrow> ci_db \<Rightarrow> ci_db" where
  "HeartbeatJob now i = update_job i (\<lambda>j. if j_status j = JobInProgress then j\<lparr>j_heartbeat := Some now\<rparr> else j)"

definition stale :: "int \<Rightarrow> int \<Rightarrow> job_row \<Rightarrow> bool" where
  "stale heartbeatCutoff fallbackCutoff j \<longleftrightarrow>
     (case j_heartbeat j of
        Some h \<Rightarrow> j_status j = JobInProgress \<and> h < heartbeatCutoff
      | None \<Rightarrow> j_status j \<in> {JobInProgress, JobPending} \<and>
          (case j_started j of Some s \<Rightarrow> s < fallbackCutoff | None \<Rightarrow> j_created j < fallbackCutoff))"

text \<open>The timeouts are in seconds. The affected runs are reported once each, in the order in which they are met.\<close>

definition FailStaleJobs :: "int \<Rightarrow> int \<Rightarrow> int \<Rightarrow> ci_db \<Rightarrow> string list \<times> ci_db" where
  "FailStaleJobs now heartbeatTimeout fallbackTimeout db =
     (let found = filter (stale (now - heartbeatTimeout) (now - fallbackTimeout)) (jobs db)
      in (rev (remdups (rev (map j_run found))),
          foldl (\<lambda>db j. CompleteJob now (j_id j) ConclusionFailure db) db found))"

section \<open>Claiming\<close>

text \<open>The labels a runner offers, expanded with the names of GitHub's hosted runners.\<close>

definition label_aliases :: "string \<Rightarrow> string list" where
  "label_aliases l =
     (if HasPrefix l ''linux'' then [''ubuntu-latest'', ''ubuntu-22.04'', ''ubuntu-24.04'']
      else if HasPrefix l ''ubuntu'' then [''linux'']
      else if HasPrefix l ''macos'' then [''macos-latest'', ''macos-14'', ''macos-15'']
      else if HasPrefix l ''windows'' then [''windows-latest'', ''windows-2022'']
      else [])"

definition expand_labels :: "string list \<Rightarrow> string list" where
  "expand_labels labels = labels @ concat (map label_aliases labels)"

definition dep_done :: "ci_db \<Rightarrow> string \<Rightarrow> string \<Rightarrow> string \<Rightarrow> bool" where
  "dep_done db runID conclusion needed \<longleftrightarrow> (\<exists>dep \<in> set (jobs db). j_run dep = runID \<and> j_name dep = needed \<and>
     j_status dep = JobCompleted \<and> j_conclusion dep = Some conclusion)"

definition repo_allowed :: "ci_db \<Rightarrow> string list \<Rightarrow> job_row \<Rightarrow> bool" where
  "repo_allowed db filter_repos j \<longleftrightarrow> filter_repos = [] \<or>
     (\<exists>r \<in> set (runs db). r_id r = j_run j \<and> (case map_of (repos db) (r_repo r) of Some full \<Rightarrow> full \<in> set filter_repos | None \<Rightarrow> False))"

text \<open>The Postgres query. A needs column that is not an array counts as no needs, but the labels are
  unpacked without that check, and \<open>jsonb_array_elements_text\<close> fails on a scalar; the query has to look at
  every queued job to find the oldest.\<close>

definition pg_needs_ok :: "ci_db \<Rightarrow> job_row \<Rightarrow> bool" where
  "pg_needs_ok db j \<longleftrightarrow> (case j_needs j of None \<Rightarrow> True
     | Some ns \<Rightarrow> (\<forall>n \<in> set ns. dep_done db (j_run j) ConclusionSuccess n))"

definition pg_candidates :: "string list \<Rightarrow> string list \<Rightarrow> ci_db \<Rightarrow> (db_error, job_row list) go" where
  "pg_candidates labels filter_repos db =
     (let ready = filter (\<lambda>j. j_status j = JobQueued \<and> pg_needs_ok db j) (jobs db)
      in if (\<exists>j \<in> set ready. j_runs_on j = None) then Err BadJSON
         else Ok (sort_key j_created (filter (\<lambda>j. set (the (j_runs_on j)) \<subseteq> set labels \<and> repo_allowed db filter_repos j) ready)))"

text \<open>The SQLite query is written for the order status, dependency status, dependency conclusion, labels, but
  the arguments come in the order of the Postgres parameters: a dependency's conclusion is compared with the JSON of
  the labels, and the labels are read from the text \<open>success\<close>, which is not JSON. \<open>json_each\<close> gives one
  NULL row for \<open>null\<close>, which equals nothing.\<close>

definition sqlite_needs_ok :: "ci_db \<Rightarrow> string list \<Rightarrow> job_row \<Rightarrow> bool" where
  "sqlite_needs_ok db labels j \<longleftrightarrow> (case j_needs j of None \<Rightarrow> False
     | Some ns \<Rightarrow> (\<forall>n \<in> set ns. dep_done db (j_run j) (json_array labels) n))"

definition sqlite_candidates :: "string list \<Rightarrow> string list \<Rightarrow> ci_db \<Rightarrow> (db_error, job_row list) go" where
  "sqlite_candidates labels filter_repos db =
     (let ready = filter (\<lambda>j. j_status j = JobQueued \<and> sqlite_needs_ok db labels j) (jobs db)
      in if (\<exists>j \<in> set ready. j_runs_on j \<noteq> Some []) then Err BadJSON
         else Ok (sort_key j_created (filter (repo_allowed db filter_repos) ready)))"

datatype driver = Postgres | SQLite

text \<open>Selecting and claiming are two statements; the second one only takes a job that is still queued.\<close>

definition select_job :: "driver \<Rightarrow> string list \<Rightarrow> string list \<Rightarrow> ci_db \<Rightarrow> (db_error, string option) go" where
  "select_job drv labels filter_repos db =
     bind_go (case drv of Postgres \<Rightarrow> pg_candidates (expand_labels labels) filter_repos db
        | SQLite \<Rightarrow> sqlite_candidates (expand_labels labels) filter_repos db)
       (\<lambda>cs. Ok (case cs of [] \<Rightarrow> None | j # _ \<Rightarrow> Some (j_id j)))"

definition take_job :: "string \<Rightarrow> string \<Rightarrow> ci_db \<Rightarrow> job_row option \<times> ci_db" where
  "take_job runnerID jobID db =
     (if \<not> (\<exists>j \<in> set (jobs db). j_id j = jobID \<and> j_status j = JobQueued) then (None, db)
      else let db' = db\<lparr>jobs := update_where (\<lambda>j. j_id j = jobID \<and> j_status j = JobQueued)
                         (\<lambda>j. j\<lparr>j_runner := Some runnerID, j_status := JobPending\<rparr>) (jobs db)\<rparr>
           in (find (\<lambda>j. j_id j = jobID) (jobs db'), db'))"

definition ClaimJob ::
  "driver \<Rightarrow> string \<Rightarrow> string list \<Rightarrow> string list \<Rightarrow> ci_db \<Rightarrow> (db_error, job_row option \<times> ci_db) go" where
  "ClaimJob drv runnerID labels filter_repos db =
     bind_go (select_job drv labels filter_repos db) (\<lambda>found.
       case found of None \<Rightarrow> Ok (None, db) | Some jobID \<Rightarrow> Ok (take_job runnerID jobID db))"

section \<open>Steps and logs\<close>

definition CreateStep :: "string \<Rightarrow> string \<Rightarrow> int \<Rightarrow> string \<Rightarrow> ci_db \<Rightarrow> (db_error, step_row \<times> ci_db) go" where
  "CreateStep newid jobID number name db =
     (if jobID \<notin> j_id ` set (jobs db) \<or> newid \<in> s_id ` set (steps db) \<or>
         (\<exists>s \<in> set (steps db). s_job s = jobID \<and> s_number s = number) then Err Constraint
      else let row = \<lparr>s_id = newid, s_job = jobID, s_number = number, s_name = name, s_status = StepPending,
                      s_conclusion = None, s_started = None, s_completed = None, s_exit = None\<rparr>
           in Ok (row, db\<lparr>steps := steps db @ [row]\<rparr>))"

definition GetStepByID :: "ci_db \<Rightarrow> string \<Rightarrow> (db_error, step_row) go" where
  "GetStepByID db i = select_one (\<lambda>s. s_id s = i) (steps db)"

definition GetStepByJobAndNumber :: "ci_db \<Rightarrow> string \<Rightarrow> int \<Rightarrow> (db_error, step_row) go" where
  "GetStepByJobAndNumber db jobID number = select_one (\<lambda>s. s_job s = jobID \<and> s_number s = number) (steps db)"

definition ListJobSteps :: "ci_db \<Rightarrow> string \<Rightarrow> step_row list" where
  "ListJobSteps db jobID = sort_key s_number (filter (\<lambda>s. s_job s = jobID) (steps db))"

definition StartStep :: "int \<Rightarrow> string \<Rightarrow> ci_db \<Rightarrow> ci_db" where
  "StartStep now i db = db\<lparr>steps := update_where (\<lambda>s. s_id s = i)
     (\<lambda>s. s\<lparr>s_status := StepInProgress, s_started := Some now\<rparr>) (steps db)\<rparr>"

definition CompleteStep :: "int \<Rightarrow> string \<Rightarrow> string \<Rightarrow> ci_db \<Rightarrow> ci_db" where
  "CompleteStep now i conclusion db = db\<lparr>steps := update_where (\<lambda>s. s_id s = i)
     (\<lambda>s. s\<lparr>s_status := StepCompleted, s_conclusion := Some conclusion, s_completed := Some now\<rparr>) (steps db)\<rparr>"

definition CompleteStepWithExitCode :: "int \<Rightarrow> string \<Rightarrow> string \<Rightarrow> int \<Rightarrow> ci_db \<Rightarrow> ci_db" where
  "CompleteStepWithExitCode now i conclusion exitCode db = db\<lparr>steps := update_where (\<lambda>s. s_id s = i)
     (\<lambda>s. s\<lparr>s_status := StepCompleted, s_conclusion := Some conclusion, s_completed := Some now, s_exit := Some exitCode\<rparr>)
     (steps db)\<rparr>"

definition next_chunk :: "ci_db \<Rightarrow> string \<Rightarrow> int" where
  "next_chunk db jobID = fold max (map l_seq (filter (\<lambda>l. l_job l = jobID) (job_logs db))) (- 1) + 1"

definition AppendJobLog :: "int \<Rightarrow> string \<Rightarrow> string \<Rightarrow> string \<Rightarrow> string \<Rightarrow> ci_db \<Rightarrow> (db_error, ci_db) go" where
  "AppendJobLog now newid jobID stepID content db =
     (if jobID \<notin> j_id ` set (jobs db) \<or> newid \<in> l_id ` set (job_logs db) \<or>
         (stepID \<noteq> [] \<and> stepID \<notin> s_id ` set (steps db)) then Err Constraint
      else Ok (db\<lparr>job_logs := job_logs db @ [\<lparr>l_id = newid, l_job = jobID, l_step = opt_string stepID,
             l_seq = next_chunk db jobID, l_content = content, l_time = now\<rparr>]\<rparr>))"

definition GetJobLogs :: "ci_db \<Rightarrow> string \<Rightarrow> log_row list" where
  "GetJobLogs db jobID = sort_key l_seq (filter (\<lambda>l. l_job l = jobID) (job_logs db))"

definition GetJobLogsSince :: "ci_db \<Rightarrow> string \<Rightarrow> int \<Rightarrow> log_row list" where
  "GetJobLogsSince db jobID afterSeq = sort_key l_seq (filter (\<lambda>l. l_job l = jobID \<and> l_seq l > afterSeq) (job_logs db))"

section \<open>Artifacts\<close>

definition CreateArtifact ::
  "int \<Rightarrow> string \<Rightarrow> string \<Rightarrow> string \<Rightarrow> string \<Rightarrow> string \<Rightarrow> int \<Rightarrow> int option \<Rightarrow> ci_db \<Rightarrow> (db_error, artifact_row \<times> ci_db) go" where
  "CreateArtifact now newid runID jobID name path sz expiresAt db =
     (if runID \<notin> r_id ` set (runs db) \<or> jobID \<notin> j_id ` set (jobs db) \<or> newid \<in> a_id ` set (artifacts db) then Err Constraint
      else let row = \<lparr>a_id = newid, a_run = runID, a_job = jobID, a_name = name, a_path = path, a_size = sz,
                      a_expires = expiresAt, a_created = now\<rparr>
           in Ok (row, db\<lparr>artifacts := artifacts db @ [row]\<rparr>))"

definition GetArtifactByID :: "ci_db \<Rightarrow> string \<Rightarrow> (db_error, artifact_row) go" where
  "GetArtifactByID db i = select_one (\<lambda>a. a_id a = i) (artifacts db)"

definition ListWorkflowRunArtifacts :: "ci_db \<Rightarrow> string \<Rightarrow> artifact_row list" where
  "ListWorkflowRunArtifacts db runID = sort_key a_created (filter (\<lambda>a. a_run a = runID) (artifacts db))"

definition DeleteArtifact :: "string \<Rightarrow> ci_db \<Rightarrow> ci_db" where
  "DeleteArtifact i db = db\<lparr>artifacts := filter (\<lambda>a. a_id a \<noteq> i) (artifacts db)\<rparr>"

definition expired :: "int \<Rightarrow> artifact_row \<Rightarrow> bool" where
  "expired now a \<longleftrightarrow> (case a_expires a of Some t \<Rightarrow> t < now | None \<Rightarrow> False)"

definition DeleteExpiredArtifacts :: "int \<Rightarrow> ci_db \<Rightarrow> artifact_row list \<times> ci_db" where
  "DeleteExpiredArtifacts now db =
     (filter (expired now) (artifacts db), db\<lparr>artifacts := filter (\<lambda>a. \<not> expired now a) (artifacts db)\<rparr>)"

definition GetArtifactByName :: "ci_db \<Rightarrow> string \<Rightarrow> string \<Rightarrow> (db_error, artifact_row) go" where
  "GetArtifactByName db runID name = select_one (\<lambda>a. a_run a = runID \<and> a_name a = name) (artifacts db)"

section \<open>Secrets and variables\<close>

text \<open>Names are unique in a repository, and among the organisation's own.\<close>

definition name_taken :: "secret_row list \<Rightarrow> secret_row \<Rightarrow> bool" where
  "name_taken rows row \<longleftrightarrow> (\<exists>s \<in> set rows. x_name s = x_name row \<and>
     (case x_repo row of Some r \<Rightarrow> x_repo s = Some r
      | None \<Rightarrow> x_org row \<noteq> None \<and> x_repo s = None \<and> x_org s = x_org row))"

definition owner_ok :: "ci_db \<Rightarrow> string option \<Rightarrow> string option \<Rightarrow> bool" where
  "owner_ok db repo org \<longleftrightarrow> (case repo of Some r \<Rightarrow> map_of (repos db) r \<noteq> None | None \<Rightarrow> True) \<and>
     (case org of Some g \<Rightarrow> g \<in> set (orgs db) | None \<Rightarrow> True)"

definition CreateWorkflowSecret ::
  "int \<Rightarrow> string \<Rightarrow> string \<Rightarrow> string \<Rightarrow> string \<Rightarrow> bytes \<Rightarrow> string \<Rightarrow> ci_db \<Rightarrow> (db_error, secret_row \<times> ci_db) go" where
  "CreateWorkflowSecret now newid repoID orgID name encrypted createdBy db =
     (let row = \<lparr>x_id = newid, x_repo = opt_string repoID, x_org = opt_string orgID, x_name = name, x_value = encrypted,
                 x_created = now, x_updated = now, x_created_by = createdBy\<rparr>
      in if newid \<in> x_id ` set (secrets db) \<or> name_taken (secrets db) row \<or> \<not> owner_ok db (x_repo row) (x_org row)
         then Err Constraint
         else Ok (row, db\<lparr>secrets := secrets db @ [row]\<rparr>))"

definition GetWorkflowSecretByID :: "ci_db \<Rightarrow> string \<Rightarrow> (db_error, secret_row) go" where
  "GetWorkflowSecretByID db i = select_one (\<lambda>s. x_id s = i) (secrets db)"

definition by_name :: "string \<Rightarrow> string \<Rightarrow> string \<Rightarrow> secret_row list \<Rightarrow> (db_error, secret_row) go" where
  "by_name repoID orgID name rows =
     (if repoID \<noteq> [] then select_one (\<lambda>s. x_repo s = Some repoID \<and> x_name s = name) rows
      else if orgID \<noteq> [] then select_one (\<lambda>s. x_org s = Some orgID \<and> x_repo s = None \<and> x_name s = name) rows
      else Err NotFound)"

definition GetWorkflowSecretByName :: "ci_db \<Rightarrow> string \<Rightarrow> string \<Rightarrow> string \<Rightarrow> (db_error, secret_row) go" where
  "GetWorkflowSecretByName db repoID orgID name = by_name repoID orgID name (secrets db)"

definition visible :: "string \<Rightarrow> string \<Rightarrow> secret_row \<Rightarrow> bool" where
  "visible repoID orgID s \<longleftrightarrow> x_repo s = Some repoID \<or> (x_org s = Some orgID \<and> x_repo s = None)"

definition ListRepoSecrets :: "ci_db \<Rightarrow> string \<Rightarrow> string \<Rightarrow> secret_row list" where
  "ListRepoSecrets db repoID orgID = sort_key x_name (filter (visible repoID orgID) (secrets db))"

definition UpdateWorkflowSecret :: "int \<Rightarrow> string \<Rightarrow> bytes \<Rightarrow> ci_db \<Rightarrow> ci_db" where
  "UpdateWorkflowSecret now i encrypted db = db\<lparr>secrets := update_where (\<lambda>s. x_id s = i)
     (\<lambda>s. s\<lparr>x_value := encrypted, x_updated := now\<rparr>) (secrets db)\<rparr>"

definition DeleteWorkflowSecret :: "string \<Rightarrow> ci_db \<Rightarrow> ci_db" where
  "DeleteWorkflowSecret i db = db\<lparr>secrets := filter (\<lambda>s. x_id s \<noteq> i) (secrets db)\<rparr>"

definition GetVariableByName :: "ci_db \<Rightarrow> string \<Rightarrow> string \<Rightarrow> string \<Rightarrow> (db_error, secret_row) go" where
  "GetVariableByName db repoID orgID name = by_name repoID orgID name (variables db)"

definition SetVariable :: "int \<Rightarrow> string \<Rightarrow> string \<Rightarrow> string \<Rightarrow> string \<Rightarrow> bytes \<Rightarrow> ci_db \<Rightarrow> (db_error, ci_db) go" where
  "SetVariable now newid repoID orgID name val db =
     (case GetVariableByName db repoID orgID name of
        Ok existing \<Rightarrow> Ok (db\<lparr>variables := update_where (\<lambda>v. x_id v = x_id existing)
            (\<lambda>v. v\<lparr>x_value := val, x_updated := now\<rparr>) (variables db)\<rparr>)
      | _ \<Rightarrow>
          let row = \<lparr>x_id = newid, x_repo = opt_string repoID, x_org = (if repoID \<noteq> [] then None else Some orgID),
                     x_name = name, x_value = val, x_created = now, x_updated = now, x_created_by = []\<rparr>
          in if newid \<in> x_id ` set (variables db) \<or> name_taken (variables db) row \<or> \<not> owner_ok db (x_repo row) (x_org row)
             then Err Constraint
             else Ok (db\<lparr>variables := variables db @ [row]\<rparr>))"

definition ListRepoVariables :: "ci_db \<Rightarrow> string \<Rightarrow> string \<Rightarrow> secret_row list" where
  "ListRepoVariables db repoID orgID = sort_key x_name (filter (visible repoID orgID) (variables db))"

definition DeleteVariable :: "string \<Rightarrow> ci_db \<Rightarrow> ci_db" where
  "DeleteVariable i db = db\<lparr>variables := filter (\<lambda>v. x_id v \<noteq> i) (variables db)\<rparr>"

section \<open>Runners\<close>

definition CreateRunner :: "int \<Rightarrow> string \<Rightarrow> string \<Rightarrow> string \<Rightarrow> string list \<Rightarrow> ci_db \<Rightarrow> (db_error, runner_row \<times> ci_db) go" where
  "CreateRunner now newid name orgID labels db =
     (if newid \<in> n_id ` set (runners db) \<or> \<not> owner_ok db None (opt_string orgID) then Err Constraint
      else let row = \<lparr>n_id = newid, n_name = name, n_org = opt_string orgID, n_labels = labels, n_status = ''offline'',
                      n_seen = None, n_created = now\<rparr>
           in Ok (row, db\<lparr>runners := runners db @ [row]\<rparr>))"

definition GetRunnerByID :: "ci_db \<Rightarrow> string \<Rightarrow> (db_error, runner_row) go" where
  "GetRunnerByID db i = select_one (\<lambda>n. n_id n = i) (runners db)"

definition RegisterRunner :: "int \<Rightarrow> string \<Rightarrow> string list \<Rightarrow> ci_db \<Rightarrow> ci_db" where
  "RegisterRunner now i labels db =
     (if i \<in> n_id ` set (runners db)
      then db\<lparr>runners := update_where (\<lambda>n. n_id n = i) (\<lambda>n. n\<lparr>n_labels := labels, n_status := ''online'', n_seen := Some now\<rparr>) (runners db)\<rparr>
      else db\<lparr>runners := runners db @ [\<lparr>n_id = i, n_name = i, n_org = None, n_labels = labels, n_status = ''online'',
             n_seen = Some now, n_created = now\<rparr>]\<rparr>)"

definition label_expansions :: "string \<Rightarrow> string list" where
  "label_expansions l =
     (if l = ''linux'' then [''ubuntu-latest'', ''ubuntu-22.04'', ''ubuntu-24.04'']
      else if l = ''ubuntu'' then [''linux'', ''ubuntu-latest'']
      else if l = ''macos'' then [''macos-latest'', ''macos-14'', ''macos-15'']
      else if l = ''windows'' then [''windows-latest'', ''windows-2022'']
      else [])"

definition matchesRunsOn :: "string \<Rightarrow> string \<Rightarrow> bool" where
  "matchesRunsOn runnerLabel runsOnLabel \<longleftrightarrow> runnerLabel = runsOnLabel \<or> runsOnLabel \<in> set (label_expansions runnerLabel)"

definition CanRunLabel :: "int \<Rightarrow> ci_db \<Rightarrow> string \<Rightarrow> bool" where
  "CanRunLabel now db l \<longleftrightarrow> (\<exists>n \<in> set (runners db).
     (n_status n \<noteq> ''offline'' \<or> (case n_seen n of Some t \<Rightarrow> t > now - 300 | None \<Rightarrow> False)) \<and>
     (\<exists>rl \<in> set (n_labels n). matchesRunsOn rl l))"

definition UpdateRunnerStatus :: "int \<Rightarrow> string \<Rightarrow> string \<Rightarrow> ci_db \<Rightarrow> ci_db" where
  "UpdateRunnerStatus now i status db = db\<lparr>runners := update_where (\<lambda>n. n_id n = i)
     (\<lambda>n. n\<lparr>n_status := status, n_seen := Some now\<rparr>) (runners db)\<rparr>"

definition ListRunners :: "ci_db \<Rightarrow> string \<Rightarrow> runner_row list" where
  "ListRunners db orgID = sort_key n_name
     (if orgID \<noteq> [] then filter (\<lambda>n. n_org n = Some orgID \<or> n_org n = None) (runners db) else runners db)"

section \<open>Caches\<close>

definition GetCache :: "ci_db \<Rightarrow> string \<Rightarrow> string \<Rightarrow> (db_error, cache_row) go" where
  "GetCache db repoID key = select_one (\<lambda>c. c_repo c = repoID \<and> c_key c = key) (caches db)"

definition GetCacheByPrefix :: "ci_db \<Rightarrow> string \<Rightarrow> string \<Rightarrow> (db_error, cache_row) go" where
  "GetCacheByPrefix db repoID keyPrefix =
     select_one (\<lambda>_. True) (sort_key (\<lambda>c. - c_used c) (filter (\<lambda>c. c_repo c = repoID \<and> like (keyPrefix @ ''%'') (c_key c)) (caches db)))"

definition CreateCache ::
  "int \<Rightarrow> string \<Rightarrow> string \<Rightarrow> string \<Rightarrow> string \<Rightarrow> int \<Rightarrow> ci_db \<Rightarrow> (db_error, cache_row \<times> ci_db) go" where
  "CreateCache now newid repoID key path sz db =
     (if map_of (repos db) repoID = None \<or> newid \<in> c_id ` set (caches db) then Err Constraint
      else let db' = (if (\<exists>c \<in> set (caches db). c_repo c = repoID \<and> c_key c = key)
            then db\<lparr>caches := update_where (\<lambda>c. c_repo c = repoID \<and> c_key c = key)
                   (\<lambda>c. c\<lparr>c_path := path, c_size := sz, c_used := now\<rparr>) (caches db)\<rparr>
            else db\<lparr>caches := caches db @ [\<lparr>c_id = newid, c_repo = repoID, c_key = key, c_path = path, c_size = sz,
                   c_created = now, c_used = now\<rparr>]\<rparr>)
           in bind_go (GetCache db' repoID key) (\<lambda>c. Ok (c, db')))"

definition TouchCache :: "int \<Rightarrow> string \<Rightarrow> ci_db \<Rightarrow> ci_db" where
  "TouchCache now i db = db\<lparr>caches := update_where (\<lambda>c. c_id c = i) (\<lambda>c. c\<lparr>c_used := now\<rparr>) (caches db)\<rparr>"

definition DeleteCache :: "string \<Rightarrow> ci_db \<Rightarrow> ci_db" where
  "DeleteCache i db = db\<lparr>caches := filter (\<lambda>c. c_id c \<noteq> i) (caches db)\<rparr>"

definition DeleteExpiredCaches :: "int \<Rightarrow> ci_db \<Rightarrow> cache_row list \<times> ci_db" where
  "DeleteExpiredCaches threshold db =
     (filter (\<lambda>c. c_used c < threshold) (caches db), db\<lparr>caches := filter (\<lambda>c. \<not> c_used c < threshold) (caches db)\<rparr>)"

section \<open>Concurrency locks\<close>

definition GetConcurrencyLock :: "ci_db \<Rightarrow> string \<Rightarrow> (db_error, lock_row) go" where
  "GetConcurrencyLock db groupKey = select_one (\<lambda>k. k_group k = groupKey) (locks db)"

definition AcquireConcurrencyLock ::
  "int \<Rightarrow> string \<Rightarrow> string \<Rightarrow> string \<Rightarrow> string \<Rightarrow> string \<Rightarrow> ci_db \<Rightarrow> (db_error, (lock_row \<times> bool) \<times> ci_db) go" where
  "AcquireConcurrencyLock now newid groupKey runID repoID jobID db =
     (if newid \<in> k_id ` set (locks db) \<or> groupKey \<in> k_group ` set (locks db) \<or> runID \<notin> r_id ` set (runs db) \<or>
         map_of (repos db) repoID = None
      then (case GetConcurrencyLock db groupKey of Ok existing \<Rightarrow> Ok ((existing, False), db) | _ \<Rightarrow> Err Constraint)
      else let lock = \<lparr>k_id = newid, k_group = groupKey, k_run = runID, k_job = opt_string jobID, k_repo = repoID, k_created = now\<rparr>
           in Ok ((lock, True), db\<lparr>locks := locks db @ [lock]\<rparr>))"

definition ReleaseConcurrencyLock :: "string \<Rightarrow> ci_db \<Rightarrow> ci_db" where
  "ReleaseConcurrencyLock runID db = db\<lparr>locks := filter (\<lambda>k. k_run k \<noteq> runID) (locks db)\<rparr>"

definition ReleaseConcurrencyLockByGroup :: "string \<Rightarrow> ci_db \<Rightarrow> ci_db" where
  "ReleaseConcurrencyLockByGroup groupKey db = db\<lparr>locks := filter (\<lambda>k. k_group k \<noteq> groupKey) (locks db)\<rparr>"

definition ReleaseStaleLocksForRepo :: "string \<Rightarrow> ci_db \<Rightarrow> nat \<times> ci_db" where
  "ReleaseStaleLocksForRepo repoID db =
     (let gone = (\<lambda>k. k_repo k = repoID \<and> (\<exists>r \<in> set (runs db). r_id r = k_run k \<and> r_status r = RunCompleted))
      in (length (filter gone (locks db)), db\<lparr>locks := filter (\<lambda>k. \<not> gone k) (locks db)\<rparr>))"

end
