(* ===== verification/Expr.thy ===== *)
theory Expr
  imports Matrix
begin

text \<open>
  Workflow expressions: \<open>src/kailab-control/internal/workflow/expressions.go\<close>. The parser of the code
  evaluates while it parses and moves only forward, so its position is the input that is left. A value of type
  \<open>interface{}\<close> is an \<open>xval\<close>; the maps of strings and the result structs that an expression can name are
  objects. Text is ASCII. Parameters are the float operations, \<open>encoding/json\<close> and \<open>HashFilesFunc\<close>.

  The loop over the arguments of a call need not end, so the parser takes fuel: every call of one of its
  functions uses one unit, and \<open>None\<close> is no answer yet. \<open>parse_mono\<close> shows that an answer
  does not depend on the fuel.
\<close>

section \<open>Values and contexts\<close>

datatype 'f xval = XNil | XBool bool | XStr string | XInt int | XFloat 'f
  | XList "'f xval list" | XObj "(string \<times> 'f xval) list"

record step_result =
  step_outputs :: "(string, string) gomap"
  step_outcome :: string
  step_conclusion :: string

record job_result =
  job_outputs :: "(string, string) gomap"
  job_res :: string

record 'f expr_context =
  GitHub :: "(string, 'f xval) gomap"
  EnvVars :: "(string, string) gomap"
  Secrets :: "(string, string) gomap"
  MatrixVals :: "(string, 'f xval) gomap"
  StepsCtx :: "(string, step_result) gomap"
  NeedsCtx :: "(string, job_result) gomap"
  Runner :: "(string, string) gomap"
  Inputs :: "(string, string) gomap"
  Vars :: "(string, string) gomap"
  HashFilesFunc :: "(string list \<Rightarrow> string) option"
  scan_float :: "string \<Rightarrow> 'f"
  float_of_int :: "int \<Rightarrow> 'f"
  float_less :: "'f \<Rightarrow> 'f \<Rightarrow> bool"
  float_zero :: "'f \<Rightarrow> bool"
  show_float :: "'f \<Rightarrow> string"
  json_marshal :: "'f xval \<Rightarrow> string"
  json_unmarshal :: "string \<Rightarrow> 'f xval"

section \<open>Helpers\<close>

definition to_lower :: "char \<Rightarrow> char" where
  "to_lower c = (let n = of_char c :: nat in if 65 \<le> n \<and> n \<le> 90 then char_of (n + 32) else c)"

definition ToLower :: "string \<Rightarrow> string" where
  "ToLower = map to_lower"


primrec toBool :: "'f expr_context \<Rightarrow> 'f xval \<Rightarrow> bool" where
  "toBool c XNil = False"
| "toBool c (XBool b) = b"
| "toBool c (XStr s) = (s \<noteq> [])"
| "toBool c (XInt n) = (n \<noteq> 0)"
| "toBool c (XFloat f) = (\<not> float_zero c f)"
| "toBool c (XList vs) = True"
| "toBool c (XObj m) = True"

definition exprToString :: "'f expr_context \<Rightarrow> 'f xval \<Rightarrow> string" where
  "exprToString c v =
     (case v of XNil \<Rightarrow> [] | XStr s \<Rightarrow> s | XBool b \<Rightarrow> (if b then ''true'' else ''false'') | XInt n \<Rightarrow> show_int n
      | XFloat f \<Rightarrow> show_float c f | _ \<Rightarrow> json_marshal c v)"

definition exprEquals :: "'f expr_context \<Rightarrow> 'f xval \<Rightarrow> 'f xval \<Rightarrow> bool" where
  "exprEquals c a b \<longleftrightarrow> ToLower (exprToString c a) = ToLower (exprToString c b)"

definition toFloat :: "'f expr_context \<Rightarrow> 'f xval \<Rightarrow> 'f" where
  "toFloat c v = (case v of XInt n \<Rightarrow> float_of_int c n | XFloat f \<Rightarrow> f | XStr s \<Rightarrow> scan_float c s | _ \<Rightarrow> float_of_int c 0)"

definition exprCompare :: "'f expr_context \<Rightarrow> 'f xval \<Rightarrow> 'f xval \<Rightarrow> int" where
  "exprCompare c a b =
     (if float_less c (toFloat c a) (toFloat c b) then -1
      else if float_less c (toFloat c b) (toFloat c a) then 1 else 0)"

definition exprContains :: "'f expr_context \<Rightarrow> 'f xval \<Rightarrow> 'f xval \<Rightarrow> bool" where
  "exprContains c haystack needle \<longleftrightarrow> Contains (ToLower (exprToString c haystack)) (ToLower (exprToString c needle))"

definition placeholder :: "nat \<Rightarrow> string" where
  "placeholder i = ''{'' @ show_nat i @ ''}''"

fun exprFormat :: "'f expr_context \<Rightarrow> 'f xval list \<Rightarrow> string" where
  "exprFormat c [] = []"
| "exprFormat c (t # args) =
     foldl (\<lambda>template (i, arg). ReplaceAll template (placeholder i) (exprToString c arg)) (exprToString c t)
       (zip [0..<length args] args)"

definition exprJoin :: "'f expr_context \<Rightarrow> 'f xval \<Rightarrow> string \<Rightarrow> string" where
  "exprJoin c v sep = (case v of XList vs \<Rightarrow> join_sep sep (map (exprToString c) vs) | _ \<Rightarrow> exprToString c v)"

section \<open>Contexts and functions\<close>

text \<open>\<open>strings.SplitN(path, ".", 2)\<close>.\<close>

definition split_dot :: "string \<Rightarrow> string \<times> string option" where
  "split_dot path = (case dropWhile (\<lambda>ch. ch \<noteq> CHR ''.'') path of
     [] \<Rightarrow> (path, None) | _ # rest \<Rightarrow> (takeWhile (\<lambda>ch. ch \<noteq> CHR ''.'') path, Some rest))"

lemma split_dot_shorter: "split_dot path = (k, Some rest) \<Longrightarrow> length rest < length path"
proof -
  assume "split_dot path = (k, Some rest)"
  then obtain x where "dropWhile (\<lambda>ch. ch \<noteq> CHR ''.'') path = x # rest" by (auto simp: split_dot_def split: list.splits)
  then show ?thesis using length_dropWhile_le [of "\<lambda>ch. ch \<noteq> CHR ''.''" path] by simp
qed

definition strings_obj :: "(string, string) gomap \<Rightarrow> 'f xval" where
  "strings_obj m = XObj (map (\<lambda>(k, v). (k, XStr v)) m)"

definition get_string :: "(string, string) gomap \<Rightarrow> string \<Rightarrow> 'f xval" where
  "get_string m k = XStr (case map_of m k of Some v \<Rightarrow> v | None \<Rightarrow> [])"

definition string_ctx :: "(string, string) gomap \<Rightarrow> string \<Rightarrow> 'f xval" where
  "string_ctx m rest = (if rest \<noteq> [] then get_string m rest else strings_obj m)"

function deepLookup :: "(string, 'f xval) gomap \<Rightarrow> string \<Rightarrow> 'f xval" where
  "deepLookup m path =
     (if path = [] then XObj m
      else case split_dot path of
        (key, None) \<Rightarrow> (case map_of m key of None \<Rightarrow> XNil | Some v \<Rightarrow> v)
      | (key, Some rest) \<Rightarrow> (case map_of m key of Some (XObj sub) \<Rightarrow> deepLookup sub rest | _ \<Rightarrow> XNil))"
  by pat_completeness auto
termination by (relation "measure (\<lambda>(m, path). length path)") (auto dest: split_dot_shorter [OF sym])

declare deepLookup.simps [simp del]

definition step_obj :: "step_result \<Rightarrow> 'f xval" where
  "step_obj s = XObj [(''outputs'', strings_obj (step_outputs s)), (''outcome'', XStr (step_outcome s)),
     (''conclusion'', XStr (step_conclusion s))]"

definition job_obj :: "job_result \<Rightarrow> 'f xval" where
  "job_obj j = XObj [(''outputs'', strings_obj (job_outputs j)), (''result'', XStr (job_res j))]"

definition lookupSteps :: "'f expr_context \<Rightarrow> string \<Rightarrow> 'f xval" where
  "lookupSteps c path =
     (if path = [] then XObj (map (\<lambda>(k, s). (k, step_obj s)) (StepsCtx c))
      else case split_dot path of (stepID, sub) \<Rightarrow>
        (case map_of (StepsCtx c) stepID of
           None \<Rightarrow> XNil
         | Some s \<Rightarrow> (case sub of
             None \<Rightarrow> step_obj s
           | Some rest \<Rightarrow>
               if rest = ''outcome'' then XStr (step_outcome s)
               else if rest = ''conclusion'' then XStr (step_conclusion s)
               else if HasPrefix rest ''outputs.'' then get_string (step_outputs s) (TrimPrefix rest ''outputs.'')
               else if rest = ''outputs'' then strings_obj (step_outputs s)
               else XNil)))"

definition lookupNeeds :: "'f expr_context \<Rightarrow> string \<Rightarrow> 'f xval" where
  "lookupNeeds c path =
     (if path = [] then XObj (map (\<lambda>(k, j). (k, job_obj j)) (NeedsCtx c))
      else case split_dot path of (jobID, sub) \<Rightarrow>
        (case map_of (NeedsCtx c) jobID of
           None \<Rightarrow> XNil
         | Some j \<Rightarrow> (case sub of
             None \<Rightarrow> job_obj j
           | Some rest \<Rightarrow>
               if rest = ''result'' then XStr (job_res j)
               else if HasPrefix rest ''outputs.'' then get_string (job_outputs j) (TrimPrefix rest ''outputs.'')
               else if rest = ''outputs'' then strings_obj (job_outputs j)
               else XNil)))"

definition lookupContext :: "'f expr_context \<Rightarrow> string \<Rightarrow> 'f xval" where
  "lookupContext c path =
     (case split_dot path of (root, sub) \<Rightarrow>
        let rest = (case sub of Some r \<Rightarrow> r | None \<Rightarrow> []) in
        if root = ''github'' then deepLookup (GitHub c) rest
        else if root = ''env'' then string_ctx (EnvVars c) rest
        else if root = ''secrets'' then string_ctx (Secrets c) rest
        else if root = ''matrix'' then deepLookup (MatrixVals c) rest
        else if root = ''steps'' then lookupSteps c rest
        else if root = ''needs'' then lookupNeeds c rest
        else if root = ''runner'' then string_ctx (Runner c) rest
        else if root = ''inputs'' then string_ctx (Inputs c) rest
        else if root = ''vars'' then string_ctx (Vars c) rest
        else XNil)"

definition statusCheck :: "'f expr_context \<Rightarrow> string \<Rightarrow> bool" where
  "statusCheck c check =
     (case map_of (GitHub c) ''job_status'' of
        Some (XStr status) \<Rightarrow> status = check
      | _ \<Rightarrow> check = ''success'')"

definition callFunction :: "'f expr_context \<Rightarrow> string \<Rightarrow> 'f xval list \<Rightarrow> 'f xval" where
  "callFunction c name args =
     (let f = ToLower name; arg = (\<lambda>i. args ! i); n = length args; str = (\<lambda>i. exprToString c (args ! i)) in
      if f = ''contains'' \<and> n \<ge> 2 then XBool (exprContains c (arg 0) (arg 1))
      else if f = ''startswith'' \<and> n \<ge> 2 then XBool (HasPrefix (ToLower (str 0)) (ToLower (str 1)))
      else if f = ''endswith'' \<and> n \<ge> 2 then XBool (HasSuffix (ToLower (str 0)) (ToLower (str 1)))
      else if f = ''format'' \<and> n \<ge> 1 then XStr (exprFormat c args)
      else if f = ''join'' \<and> n \<ge> 1 then XStr (exprJoin c (arg 0) (if n \<ge> 2 then str 1 else '',''))
      else if f = ''tojson'' \<and> n \<ge> 1 then XStr (json_marshal c (arg 0))
      else if f = ''fromjson'' \<and> n \<ge> 1 then json_unmarshal c (str 0)
      else if f = ''hashfiles'' then
        (case HashFilesFunc c of Some h \<Rightarrow> XStr (if n \<ge> 1 then h (map (exprToString c) args) else []) | None \<Rightarrow> XStr [])
      else if f = ''success'' \<or> f = ''failure'' \<or> f = ''cancelled'' then XBool (statusCheck c f)
      else if f = ''always'' then XBool True
      else XNil)"

section \<open>The parser\<close>

definition skipWhitespace :: "string \<Rightarrow> string" where
  "skipWhitespace = dropWhile (\<lambda>ch. ch = CHR '' '' \<or> ch = CHR 0x09)"

definition is_letter :: "char \<Rightarrow> bool" where
  "is_letter ch \<longleftrightarrow> 65 \<le> (of_char ch :: nat) \<and> of_char ch \<le> (90 :: nat) \<or> 97 \<le> (of_char ch :: nat) \<and> of_char ch \<le> (122 :: nat)"

definition ident_char :: "char \<Rightarrow> bool" where
  "ident_char ch \<longleftrightarrow> ch = CHR ''.'' \<or> ch = CHR ''_'' \<or> ch = CHR ''-'' \<or> is_letter ch \<or> is_digit ch"

text \<open>A literal's characters after the opening quote; two quotes stand for one.\<close>

fun parseString :: "string \<Rightarrow> string \<times> string" where
  "parseString [] = ([], [])"
| "parseString (ch # s) =
     (if ch = CHR 0x27 then
        (case s of q # t \<Rightarrow> if q = CHR 0x27 then (let (l, r) = parseString t in (CHR 0x27 # l, r)) else ([], s) | [] \<Rightarrow> ([], s))
      else let (l, r) = parseString s in (ch # l, r))"

text \<open>\<open>Sscanf\<close> leaves the variable 0 when the number does not fit an \<open>int64\<close>.\<close>

definition parseNumber :: "'f expr_context \<Rightarrow> string \<Rightarrow> 'f xval \<times> string" where
  "parseNumber c s =
     (let p = (\<lambda>ch. is_digit ch \<or> ch = CHR ''.''); num = takeWhile p s; n = digits_value num in
      (if CHR ''.'' \<in> set num then XFloat (scan_float c num) else XInt (if n < 2 ^ 63 then int n else 0),
       dropWhile p s))"

datatype cmp_op = CEq | CNe | CLe | CGe | CLt | CGt

primrec apply_cmp :: "'f expr_context \<Rightarrow> cmp_op \<Rightarrow> 'f xval \<Rightarrow> 'f xval \<Rightarrow> 'f xval" where
  "apply_cmp c CEq a b = XBool (exprEquals c a b)"
| "apply_cmp c CNe a b = XBool (\<not> exprEquals c a b)"
| "apply_cmp c CLe a b = XBool (exprCompare c a b \<le> 0)"
| "apply_cmp c CGe a b = XBool (exprCompare c a b \<ge> 0)"
| "apply_cmp c CLt a b = XBool (exprCompare c a b < 0)"
| "apply_cmp c CGt a b = XBool (exprCompare c a b > 0)"

definition cmp_operator :: "string \<Rightarrow> (cmp_op \<times> string) option" where
  "cmp_operator s =
     (if HasPrefix s ''=='' then Some (CEq, drop 2 s)
      else if HasPrefix s ''!='' then Some (CNe, drop 2 s)
      else if HasPrefix s ''<='' then Some (CLe, drop 2 s)
      else if HasPrefix s ''>='' then Some (CGe, drop 2 s)
      else if HasPrefix s ''<'' then Some (CLt, drop 1 s)
      else if HasPrefix s ''>'' then Some (CGt, drop 1 s)
      else None)"

definition literal :: "string \<Rightarrow> 'f xval option" where
  "literal name = (let l = ToLower name in
     if l = ''true'' then Some (XBool True) else if l = ''false'' then Some (XBool False)
     else if l = ''null'' then Some XNil else None)"

text \<open>A call of one of the parser's functions or of its loops. Each function is written over \<open>p\<close>, which
  makes the calls; \<open>parse\<close> ties the knot. The arguments of a call come back as a list.\<close>

datatype 'f task = TOr string | TOrLoop "'f xval" string | TAnd string | TAndLoop "'f xval" string
  | TComparison string | TNot string | TPrimary string | TIdentifier string | TArgs "'f xval list" string

type_synonym 'f parsed = "('f xval \<times> string) option"
type_synonym 'f calls = "'f task \<Rightarrow> 'f parsed"

definition parseOr :: "'f calls \<Rightarrow> string \<Rightarrow> 'f parsed" where
  "parseOr p s = Option.bind (p (TAnd s)) (\<lambda>(lv, s). p (TOrLoop lv s))"

definition orLoop :: "'f calls \<Rightarrow> 'f expr_context \<Rightarrow> 'f xval \<Rightarrow> string \<Rightarrow> 'f parsed" where
  "orLoop p c lv s =
     (let s = skipWhitespace s in
      if HasPrefix s ''||'' then
        Option.bind (p (TAnd (drop 2 s))) (\<lambda>(rv, s). if toBool c lv then Some (lv, s) else p (TOrLoop rv s))
      else Some (lv, s))"

definition parseAnd :: "'f calls \<Rightarrow> string \<Rightarrow> 'f parsed" where
  "parseAnd p s = Option.bind (p (TComparison s)) (\<lambda>(lv, s). p (TAndLoop lv s))"

definition andLoop :: "'f calls \<Rightarrow> 'f expr_context \<Rightarrow> 'f xval \<Rightarrow> string \<Rightarrow> 'f parsed" where
  "andLoop p c lv s =
     (let s = skipWhitespace s in
      if HasPrefix s ''&&'' then
        Option.bind (p (TComparison (drop 2 s))) (\<lambda>(rv, s). if \<not> toBool c lv then Some (lv, s) else p (TAndLoop rv s))
      else Some (lv, s))"

definition parseComparison :: "'f calls \<Rightarrow> 'f expr_context \<Rightarrow> string \<Rightarrow> 'f parsed" where
  "parseComparison p c s =
     Option.bind (p (TNot s)) (\<lambda>(lv, s).
       let s = skipWhitespace s in
       case cmp_operator s of
         None \<Rightarrow> Some (lv, s)
       | Some (op, s) \<Rightarrow> Option.bind (p (TNot s)) (\<lambda>(rv, s). Some (apply_cmp c op lv rv, s)))"

definition parseNot :: "'f calls \<Rightarrow> 'f expr_context \<Rightarrow> string \<Rightarrow> 'f parsed" where
  "parseNot p c s =
     (let s = skipWhitespace s in
      if HasPrefix s ''!'' then Option.bind (p (TNot (tl s))) (\<lambda>(v, s). Some (XBool (\<not> toBool c v), s))
      else p (TPrimary s))"

definition parsePrimary :: "'f calls \<Rightarrow> 'f expr_context \<Rightarrow> string \<Rightarrow> 'f parsed" where
  "parsePrimary p c s =
     (case skipWhitespace s of
        [] \<Rightarrow> Some (XNil, [])
      | ch # t \<Rightarrow>
          if ch = CHR ''('' then
            Option.bind (p (TOr t)) (\<lambda>(v, s). let s = skipWhitespace s in Some (v, if HasPrefix s '')'' then tl s else s))
          else if ch = CHR 0x27 then (let (l, r) = parseString t in Some (XStr l, r))
          else if is_digit ch then Some (parseNumber c (ch # t))
          else p (TIdentifier (ch # t)))"

definition parseFunction :: "'f calls \<Rightarrow> 'f expr_context \<Rightarrow> string \<Rightarrow> string \<Rightarrow> 'f parsed" where
  "parseFunction p c name s =
     Option.bind (p (TArgs [] (tl s))) (\<lambda>(v, s).
       Some (callFunction c name (case v of XList args \<Rightarrow> args | _ \<Rightarrow> []), if HasPrefix s '')'' then tl s else s))"

definition parseIdentifier :: "'f calls \<Rightarrow> 'f expr_context \<Rightarrow> string \<Rightarrow> 'f parsed" where
  "parseIdentifier p c s =
     (let name = takeWhile ident_char s; s = dropWhile ident_char s in
      if name = [] then Some (XNil, s)
      else case literal name of
        Some v \<Rightarrow> Some (v, s)
      | None \<Rightarrow>
          let s = skipWhitespace s in
          if HasPrefix s ''('' then parseFunction p c name s else Some (lookupContext c name, s))"

definition parseArgs :: "'f calls \<Rightarrow> 'f xval list \<Rightarrow> string \<Rightarrow> 'f parsed" where
  "parseArgs p args s =
     (let s = skipWhitespace s in
      if s = [] \<or> HasPrefix s '')'' then Some (XList args, s)
      else let s = (if args \<noteq> [] \<and> HasPrefix s '','' then tl s else s) in
        Option.bind (p (TOr s)) (\<lambda>(v, s). p (TArgs (args @ [v]) s)))"

primrec parse :: "nat \<Rightarrow> 'f expr_context \<Rightarrow> 'f calls" where
  "parse 0 c t = None"
| "parse (Suc k) c t =
     (case t of
        TOr s \<Rightarrow> parseOr (parse k c) s
      | TOrLoop lv s \<Rightarrow> orLoop (parse k c) c lv s
      | TAnd s \<Rightarrow> parseAnd (parse k c) s
      | TAndLoop lv s \<Rightarrow> andLoop (parse k c) c lv s
      | TComparison s \<Rightarrow> parseComparison (parse k c) c s
      | TNot s \<Rightarrow> parseNot (parse k c) c s
      | TPrimary s \<Rightarrow> parsePrimary (parse k c) c s
      | TIdentifier s \<Rightarrow> parseIdentifier (parse k c) c s
      | TArgs args s \<Rightarrow> parseArgs (parse k c) args s)"

definition EvalExpr :: "nat \<Rightarrow> 'f expr_context \<Rightarrow> string \<Rightarrow> 'f xval option" where
  "EvalExpr fuel c expr = map_option fst (parse fuel c (TOr expr))"

definition EvalExprBool :: "nat \<Rightarrow> 'f expr_context \<Rightarrow> string \<Rightarrow> bool option" where
  "EvalExprBool fuel c expr =
     map_option (toBool c) (EvalExpr fuel c (TrimSpace (TrimSuffix (TrimPrefix (TrimSpace expr) ''${{'') ''}}'')))"

text \<open>An expression is closed by the first pair of braces after it.\<close>

function Interpolate :: "nat \<Rightarrow> 'f expr_context \<Rightarrow> string \<Rightarrow> string option" where
  "Interpolate fuel c s =
     (case str_index s ''${{'' of
        None \<Rightarrow> Some s
      | Some idx \<Rightarrow>
          let before = take idx s; rest = drop (idx + 3) s in
          case str_index rest ''}}'' of
            None \<Rightarrow> map_option (\<lambda>r. before @ ''${{'' @ r) (Interpolate fuel c rest)
          | Some end_idx \<Rightarrow>
              Option.bind (EvalExpr fuel c (TrimSpace (take end_idx rest))) (\<lambda>v.
                map_option (\<lambda>r. before @ exprToString c v @ r) (Interpolate fuel c (drop (end_idx + 2) rest))))"
  by pat_completeness auto
termination by (relation "measure (\<lambda>(k, c, s). length s)") (auto dest!: str_index_Some)

declare Interpolate.simps [simp del]

definition InterpolateMap :: "nat \<Rightarrow> 'f expr_context \<Rightarrow> (string, string) gomap \<Rightarrow> (string, string) gomap option" where
  "InterpolateMap fuel c m = those (map (\<lambda>(k, v). map_option (Pair k) (Interpolate fuel c v)) m)"

section \<open>More fuel gives the same answer\<close>

definition le_opt :: "'a option \<Rightarrow> 'a option \<Rightarrow> bool" where
  "le_opt x y \<longleftrightarrow> x = None \<or> x = y"

lemma le_opt_refl [simp]: "le_opt x x"
  by (simp add: le_opt_def)

lemma le_opt_bind: "le_opt x y \<Longrightarrow> (\<And>v. le_opt (f v) (g v)) \<Longrightarrow> le_opt (Option.bind x f) (Option.bind y g)"
  unfolding le_opt_def by (cases x) (simp_all, metis Option.bind.simps(2))

lemma le_opt_bind_pair:
  "le_opt x y \<Longrightarrow> (\<And>v s. le_opt (f v s) (g v s)) \<Longrightarrow> le_opt (Option.bind x (\<lambda>(v, s). f v s)) (Option.bind y (\<lambda>(v, s). g v s))"
  by (rule le_opt_bind) auto

lemma calls_mono:
  assumes "\<And>t. le_opt (p t) (q t)"
  shows "le_opt (parseOr p s) (parseOr q s)"
    and "le_opt (orLoop p c lv s) (orLoop q c lv s)"
    and "le_opt (parseAnd p s) (parseAnd q s)"
    and "le_opt (andLoop p c lv s) (andLoop q c lv s)"
    and "le_opt (parseComparison p c s) (parseComparison q c s)"
    and "le_opt (parseNot p c s) (parseNot q c s)"
    and "le_opt (parsePrimary p c s) (parsePrimary q c s)"
    and "le_opt (parseIdentifier p c s) (parseIdentifier q c s)"
    and "le_opt (parseArgs p args s) (parseArgs q args s)"
  unfolding parseOr_def orLoop_def parseAnd_def andLoop_def parseComparison_def parseNot_def parsePrimary_def
    parseIdentifier_def parseFunction_def parseArgs_def Let_def
  by (auto intro!: le_opt_bind_pair assms split: option.split list.split)

lemma parse_Suc: "le_opt (parse k c t) (parse (Suc k) c t)"
proof (induction k arbitrary: t)
  case (Suc k)
  note m = calls_mono [of "parse k c" "parse (Suc k) c", OF Suc.IH]
  show ?case
    unfolding parse.simps(2) [of "Suc k"] using m
    by (cases t) (simp_all del: parse.simps(2) add: parse.simps(2) [of k])
qed (simp add: le_opt_def)

lemma parse_mono:
  assumes "parse k c t = Some r" and "k \<le> j"
  shows "parse j c t = Some r"
  using assms(2)
proof (induction rule: dec_induct)
  case (step n)
  then show ?case using parse_Suc [of n c t] by (simp add: le_opt_def del: parse.simps)
qed (rule assms(1))

definition answers :: "'f expr_context \<Rightarrow> 'f task \<Rightarrow> 'f xval \<Rightarrow> string \<Rightarrow> bool" where
  "answers c t v r \<longleftrightarrow> (\<exists>k. parse k c t = Some (v, r))"

lemma answers_unique: "answers c t v r \<Longrightarrow> parse k c t = Some (w, q) \<Longrightarrow> w = v \<and> q = r"
proof -
  assume "answers c t v r" and k: "parse k c t = Some (w, q)"
  then obtain j where "parse j c t = Some (v, r)" by (auto simp: answers_def)
  then have "parse (max j k) c t = Some (v, r)" "parse (max j k) c t = Some (w, q)"
    using k by (auto intro: parse_mono)
  then show ?thesis by simp
qed

text \<open>A step of the parser after one or two calls.\<close>

lemma answers1:
  assumes "answers c t v r" and "\<And>k. parse k c t = Some (v, r) \<Longrightarrow> parse (Suc k) c u = Some (w, q)"
  shows "answers c u w q"
  using assms unfolding answers_def by blast

lemma answers2:
  assumes "answers c t v r" and "answers c t' v' r'"
    and "\<And>k. parse k c t = Some (v, r) \<Longrightarrow> parse k c t' = Some (v', r') \<Longrightarrow> parse (Suc k) c u = Some (w, q)"
  shows "answers c u w q"
proof -
  obtain i j where "parse i c t = Some (v, r)" "parse j c t' = Some (v', r')" using assms(1,2) by (auto simp: answers_def)
  then have "parse (max i j) c t = Some (v, r)" "parse (max i j) c t' = Some (v', r')" by (auto intro: parse_mono)
  from assms(3) [OF this] show ?thesis unfolding answers_def by blast
qed

section \<open>What the parser does on each construct\<close>

lemma skip_idem [simp]: "skipWhitespace (skipWhitespace s) = skipWhitespace s"
  unfolding skipWhitespace_def by (induction s) auto

lemma parse_skip:
  "parse k c (TPrimary (skipWhitespace s)) = parse k c (TPrimary s)"
  "parse k c (TNot (skipWhitespace s)) = parse k c (TNot s)"
  "parse k c (TOrLoop v (skipWhitespace s)) = parse k c (TOrLoop v s)"
  "parse k c (TAndLoop v (skipWhitespace s)) = parse k c (TAndLoop v s)"
  "parse k c (TArgs args (skipWhitespace s)) = parse k c (TArgs args s)"
proof -
  show p: "parse k c (TPrimary (skipWhitespace s)) = parse k c (TPrimary s)" for k
    by (cases k) (simp_all add: parsePrimary_def)
  show "parse k c (TNot (skipWhitespace s)) = parse k c (TNot s)"
    by (cases k) (simp_all add: parseNot_def p)
qed (cases k; simp add: orLoop_def andLoop_def parseArgs_def)+

lemma answers_skip:
  "answers c (TOrLoop v (skipWhitespace s)) w r = answers c (TOrLoop v s) w r"
  "answers c (TAndLoop v (skipWhitespace s)) w r = answers c (TAndLoop v s) w r"
  "answers c (TArgs args (skipWhitespace s)) w r = answers c (TArgs args s) w r"
  "answers c (TNot (skipWhitespace s)) w r = answers c (TNot s) w r"
  by (simp_all add: answers_def parse_skip)

lemma answers_skip_cong:
  "skipWhitespace s = skipWhitespace s' \<Longrightarrow> answers c (TOrLoop v s) w r = answers c (TOrLoop v s') w r"
  "skipWhitespace s = skipWhitespace s' \<Longrightarrow> answers c (TAndLoop v s) w r = answers c (TAndLoop v s') w r"
  "skipWhitespace s = skipWhitespace s' \<Longrightarrow> answers c (TArgs args s) w r = answers c (TArgs args s') w r"
  "skipWhitespace s = skipWhitespace s' \<Longrightarrow> answers c (TNot s) w r = answers c (TNot s') w r"
  by (metis answers_skip)+

lemma answers_Suc: "parse (Suc k) c t = Some (v, r) \<Longrightarrow> answers c t v r"
  unfolding answers_def by blast

lemma answers_Or: "answers c (TAnd s) v s' \<Longrightarrow> answers c (TOrLoop v s') w r \<Longrightarrow> answers c (TOr s) w r"
  by (erule (1) answers2) (simp add: parseOr_def)

lemma answers_And: "answers c (TComparison s) v s' \<Longrightarrow> answers c (TAndLoop v s') w r \<Longrightarrow> answers c (TAnd s) w r"
  by (erule (1) answers2) (simp add: parseAnd_def)

lemma answers_OrLoop_end: "\<not> HasPrefix (skipWhitespace s) ''||'' \<Longrightarrow> answers c (TOrLoop v s) v (skipWhitespace s)"
  unfolding answers_def by (intro exI [of _ 1]) (simp add: orLoop_def)

lemma answers_OrLoop_true:
  "answers c (TAnd t) v s' \<Longrightarrow> skipWhitespace s = ''||'' @ t \<Longrightarrow> toBool c lv \<Longrightarrow> answers c (TOrLoop lv s) lv s'"
  by (erule answers1) (simp add: orLoop_def HasPrefix_def)

lemma answers_OrLoop_false:
  "answers c (TAnd t) v s' \<Longrightarrow> answers c (TOrLoop v s') w r \<Longrightarrow> skipWhitespace s = ''||'' @ t \<Longrightarrow> \<not> toBool c lv \<Longrightarrow>
   answers c (TOrLoop lv s) w r"
  by (erule (1) answers2) (simp add: orLoop_def HasPrefix_def)

lemma answers_AndLoop_end: "\<not> HasPrefix (skipWhitespace s) ''&&'' \<Longrightarrow> answers c (TAndLoop v s) v (skipWhitespace s)"
  unfolding answers_def by (intro exI [of _ 1]) (simp add: andLoop_def)

lemma answers_AndLoop_false:
  "answers c (TComparison t) v s' \<Longrightarrow> skipWhitespace s = ''&&'' @ t \<Longrightarrow> \<not> toBool c lv \<Longrightarrow> answers c (TAndLoop lv s) lv s'"
  by (erule answers1) (simp add: andLoop_def HasPrefix_def)

lemma answers_AndLoop_true:
  "answers c (TComparison t) v s' \<Longrightarrow> answers c (TAndLoop v s') w r \<Longrightarrow> skipWhitespace s = ''&&'' @ t \<Longrightarrow> toBool c lv \<Longrightarrow>
   answers c (TAndLoop lv s) w r"
  by (erule (1) answers2) (simp add: andLoop_def HasPrefix_def)

lemma answers_Comparison_none:
  "answers c (TNot s) v s' \<Longrightarrow> cmp_operator (skipWhitespace s') = None \<Longrightarrow> answers c (TComparison s) v (skipWhitespace s')"
  by (erule answers1) (simp add: parseComparison_def)

lemma answers_Comparison:
  "answers c (TNot s) v s' \<Longrightarrow> answers c (TNot t) w r \<Longrightarrow> cmp_operator (skipWhitespace s') = Some (op, t) \<Longrightarrow>
   answers c (TComparison s) (apply_cmp c op v w) r"
  by (erule (1) answers2) (simp add: parseComparison_def)

lemma answers_Not_primary: "answers c (TPrimary s) v r \<Longrightarrow> \<not> HasPrefix (skipWhitespace s) ''!'' \<Longrightarrow> answers c (TNot s) v r"
  by (erule answers1) (simp add: parseNot_def parse_skip)

lemma answers_Not: "answers c (TNot s) v r \<Longrightarrow> answers c (TNot (CHR ''!'' # s)) (XBool (\<not> toBool c v)) r"
  by (erule answers1) (simp add: parseNot_def skipWhitespace_def HasPrefix_def)

lemma answers_paren:
  assumes "answers c (TOr s) v s'"
  shows "answers c (TNot (CHR ''('' # s)) v
    (if HasPrefix (skipWhitespace s') '')'' then tl (skipWhitespace s') else skipWhitespace s')"
proof (rule answers_Not_primary)
  show "answers c (TPrimary (CHR ''('' # s)) v
      (if HasPrefix (skipWhitespace s') '')'' then tl (skipWhitespace s') else skipWhitespace s')"
    by (rule answers1 [OF assms]) (simp add: parsePrimary_def skipWhitespace_def)
qed (simp add: skipWhitespace_def HasPrefix_def)

lemma answers_ArgsStep:
  "answers c (TOr t) v s' \<Longrightarrow> answers c (TArgs (args @ [v]) s') w r \<Longrightarrow> skipWhitespace s = u \<Longrightarrow> u \<noteq> [] \<Longrightarrow> \<not> HasPrefix u '')'' \<Longrightarrow>
   t = (if args \<noteq> [] \<and> HasPrefix u '','' then tl u else u) \<Longrightarrow> answers c (TArgs args s) w r"
  by (erule (1) answers2) (simp add: parseArgs_def)

lemma answers_ArgsEnd: "HasPrefix (skipWhitespace s) '')'' \<Longrightarrow> answers c (TArgs args s) (XList args) (skipWhitespace s)"
  unfolding answers_def by (intro exI [of _ 1]) (simp add: parseArgs_def)

section \<open>Expressions as trees\<close>

text \<open>The value an expression stands for. Both sides of a connective that is a side of the same connective are
  printed in parentheses.\<close>

datatype ast = EStr string | EInt nat | ETrue | EFalse | ENull | ECtx string | ENot ast
  | ECmp cmp_op ast ast | EAnd ast ast | EOr ast ast | ECall string "ast list"

fun sem :: "'f expr_context \<Rightarrow> ast \<Rightarrow> 'f xval" where
  "sem c (EStr s) = XStr s"
| "sem c (EInt n) = XInt (int n)"
| "sem c ETrue = XBool True"
| "sem c EFalse = XBool False"
| "sem c ENull = XNil"
| "sem c (ECtx path) = lookupContext c path"
| "sem c (ENot a) = XBool (\<not> toBool c (sem c a))"
| "sem c (ECmp op a b) = apply_cmp c op (sem c a) (sem c b)"
| "sem c (EAnd a b) = (if toBool c (sem c a) then sem c b else sem c a)"
| "sem c (EOr a b) = (if toBool c (sem c a) then sem c a else sem c b)"
| "sem c (ECall f args) = callFunction c f (map (sem c) args)"

fun quote_chars :: "string \<Rightarrow> string" where
  "quote_chars [] = []"
| "quote_chars (ch # s) = (if ch = CHR 0x27 then [CHR 0x27, CHR 0x27] else [ch]) @ quote_chars s"

primrec op_text :: "cmp_op \<Rightarrow> string" where
  "op_text CEq = ''==''" | "op_text CNe = ''!=''" | "op_text CLe = ''<=''"
| "op_text CGe = ''>=''" | "op_text CLt = ''<''" | "op_text CGt = ''>''"

definition paren :: "bool \<Rightarrow> string \<Rightarrow> string" where
  "paren b s = (if b then ''('' @ s @ '')'' else s)"

text \<open>The first argument is the level of the surrounding construct: 0 for a side of an argument list or
  parentheses, 1 for a side of an or, 2 for a side of an and, 3 for a side of a comparison or negation.\<close>

fun show_expr :: "nat \<Rightarrow> ast \<Rightarrow> string" where
  "show_expr d (EStr s) = CHR 0x27 # quote_chars s @ [CHR 0x27]"
| "show_expr d (EInt n) = show_nat n"
| "show_expr d ETrue = ''true''"
| "show_expr d EFalse = ''false''"
| "show_expr d ENull = ''null''"
| "show_expr d (ECtx path) = path"
| "show_expr d (ENot a) = ''!'' @ show_expr 3 a"
| "show_expr d (ECmp op a b) = paren (d > 2) (show_expr 3 a @ '' '' @ op_text op @ '' '' @ show_expr 3 b)"
| "show_expr d (EAnd a b) = paren (d > 1) (show_expr 2 a @ '' && '' @ show_expr 2 b)"
| "show_expr d (EOr a b) = paren (d > 0) (show_expr 1 a @ '' || '' @ show_expr 1 b)"
| "show_expr d (ECall f args) = f @ ''('' @ join_sep '', '' (map (show_expr 0) args) @ '')''"

definition name_ok :: "string \<Rightarrow> bool" where
  "name_ok f \<longleftrightarrow> f \<noteq> [] \<and> list_all ident_char f \<and> \<not> is_digit (hd f) \<and> ToLower f \<notin> {''true'', ''false'', ''null''}"

fun ast_ok :: "ast \<Rightarrow> bool" where
  "ast_ok (EInt n) = (n < 2 ^ 63)"
| "ast_ok (ECtx path) = name_ok path"
| "ast_ok (ENot a) = ast_ok a"
| "ast_ok (ECmp op a b) = (ast_ok a \<and> ast_ok b)"
| "ast_ok (EAnd a b) = (ast_ok a \<and> ast_ok b)"
| "ast_ok (EOr a b) = (ast_ok a \<and> ast_ok b)"
| "ast_ok (ECall f args) = (name_ok f \<and> list_all ast_ok args)"
| "ast_ok _ = True"

section \<open>Printed expressions evaluate to their value\<close>

text \<open>What may follow an expression of a level.\<close>

definition follow :: "nat \<Rightarrow> string \<Rightarrow> bool" where
  "follow d s \<longleftrightarrow> (s = [] \<or> hd s \<in> {CHR '' '', CHR '')'', CHR '',''}) \<and>
     (let h = skipWhitespace s in
        h = [] \<or> hd h \<in> {CHR '')'', CHR '',''} \<or> d \<ge> 1 \<and> HasPrefix h ''||'' \<or> d \<ge> 2 \<and> HasPrefix h ''&&'' \<or>
        d \<ge> 3 \<and> cmp_operator h \<noteq> None)"

lemma follow_mono: "follow d s \<Longrightarrow> d \<le> e \<Longrightarrow> follow e s"
  by (auto simp: follow_def Let_def)

lemma no_cmp: "h = [] \<or> hd h \<in> {CHR '')'', CHR '','', CHR ''|'', CHR ''&''} \<Longrightarrow> cmp_operator h = None"
  by (cases h) (auto simp: cmp_operator_def HasPrefix_def)

lemma follow_hd:
  assumes "follow d s" and "d \<le> 2"
  shows "skipWhitespace s = [] \<or> hd (skipWhitespace s) \<in> {CHR '')'', CHR '','', CHR ''|'', CHR ''&''}"
  using assms by (auto simp: follow_def Let_def HasPrefix_iff)

lemma follow_no_op:
  "follow 2 s \<Longrightarrow> cmp_operator (skipWhitespace s) = None"
  "follow 1 s \<Longrightarrow> \<not> HasPrefix (skipWhitespace s) ''&&''"
  "follow 0 s \<Longrightarrow> \<not> HasPrefix (skipWhitespace s) ''||''"
  by (auto simp: follow_def Let_def HasPrefix_iff intro!: no_cmp)

lemma follow_no_paren: "follow d s \<Longrightarrow> \<not> HasPrefix (skipWhitespace s) ''(''"
  by (auto simp: follow_def Let_def HasPrefix_iff cmp_operator_def split: if_splits)

lemma follow_not_ident: "follow d s \<Longrightarrow> s = [] \<or> \<not> ident_char (hd s)"
  by (auto simp: follow_def ident_char_def is_letter_def is_digit_def)

lemma ident_takeWhile:
  "list_all ident_char f \<Longrightarrow> s = [] \<or> \<not> ident_char (hd s) \<Longrightarrow> takeWhile ident_char (f @ s) = f \<and> dropWhile ident_char (f @ s) = s"
  by (induction f) (auto simp: neq_Nil_conv dropWhile_eq_self_iff takeWhile_eq_Nil_iff)

lemma skip_nonblank: "ch \<noteq> CHR '' '' \<Longrightarrow> ch \<noteq> CHR 0x09 \<Longrightarrow> skipWhitespace (ch # s) = ch # s"
  by (simp add: skipWhitespace_def)

lemma answers_primary_char:
  assumes "answers c (TPrimary (ch # s)) v r" and "ch \<noteq> CHR ''!''" and "ch \<noteq> CHR '' ''" and "ch \<noteq> CHR 0x09"
  shows "answers c (TNot (ch # s)) v r"
  using assms(2-4) by (intro answers_Not_primary assms(1)) (simp add: skip_nonblank HasPrefix_def)

lemma ident_char_distinct: "ident_char ch \<Longrightarrow> ch \<notin> {CHR '' '', CHR 0x09, CHR ''!'', CHR ''('', CHR '')'', CHR 0x27, CHR '','', CHR ''|'', CHR ''&''}"
  by (auto simp: ident_char_def is_letter_def is_digit_def)

lemma answers_identifier:
  assumes "name_ok f" and "answers c (TIdentifier (f @ s)) v r"
  shows "answers c (TNot (f @ s)) v r"
proof -
  obtain ch g where f: "f = ch # g" using assms(1) by (cases f) (auto simp: name_ok_def)
  have ch: "ident_char ch" "\<not> is_digit ch" using assms(1) by (auto simp: f name_ok_def)
  have "answers c (TPrimary (f @ s)) v r"
    using assms(2) ch ident_char_distinct [OF ch(1)]
    by (elim answers1) (simp add: f parsePrimary_def skip_nonblank)
  then show ?thesis unfolding f append_Cons by (rule answers_primary_char) (use ident_char_distinct [OF ch(1)] in auto)
qed

lemma literal_name: "name_ok f \<Longrightarrow> literal f = None"
  by (simp add: literal_def name_ok_def Let_def)

lemma answers_ctx:
  assumes "name_ok f" and "follow 3 s"
  shows "answers c (TNot (f @ s)) (lookupContext c f) (skipWhitespace s)"
proof (rule answers_identifier [OF assms(1)])
  have t: "takeWhile ident_char (f @ s) = f" "dropWhile ident_char (f @ s) = s"
    using ident_takeWhile [OF _ follow_not_ident [OF assms(2)], of f] assms(1) by (simp_all add: name_ok_def)
  show "answers c (TIdentifier (f @ s)) (lookupContext c f) (skipWhitespace s)"
    unfolding answers_def using assms(1) [unfolded name_ok_def] follow_no_paren [OF assms(2)]
    by (intro exI [of _ 1]) (simp add: parseIdentifier_def t literal_name [OF assms(1)])
qed

lemma answers_literal:
  assumes "literal f = Some v" and "list_all ident_char f" "f \<noteq> []" "\<not> is_digit (hd f)" and "follow 3 s"
  shows "answers c (TNot (f @ s)) v s"
proof -
  obtain ch g where f: "f = ch # g" using assms(3) by (cases f) auto
  have ch: "ident_char ch" "\<not> is_digit ch" using assms(2,4) by (auto simp: f)
  have t: "takeWhile ident_char (f @ s) = f" "dropWhile ident_char (f @ s) = s"
    using ident_takeWhile [OF assms(2) follow_not_ident [OF assms(5)]] by simp_all
  have "answers c (TIdentifier (f @ s)) v s"
    unfolding answers_def using assms(1,3) by (intro exI [of _ 1]) (simp add: parseIdentifier_def t)
  then have "answers c (TPrimary (f @ s)) v s"
    using ch ident_char_distinct [OF ch(1)] by (elim answers1) (simp add: f parsePrimary_def skip_nonblank)
  then show ?thesis unfolding f append_Cons by (rule answers_primary_char) (use ident_char_distinct [OF ch(1)] in auto)
qed

lemma parseString_quote: "s = [] \<or> hd s \<noteq> CHR 0x27 \<Longrightarrow> parseString (quote_chars t @ CHR 0x27 # s) = (t, s)"
  by (induction t) (auto simp: neq_Nil_conv split: list.splits)

lemma answers_string:
  assumes "follow 3 s"
  shows "answers c (TNot (CHR 0x27 # quote_chars t @ CHR 0x27 # s)) (XStr t) s"
proof (rule answers_primary_char)
  have "s = [] \<or> hd s \<noteq> CHR 0x27" using assms by (auto simp: follow_def)
  from parseString_quote [OF this, of t]
  show "answers c (TPrimary (CHR 0x27 # quote_chars t @ CHR 0x27 # s)) (XStr t) s"
    unfolding answers_def by (intro exI [of _ 1]) (simp add: parsePrimary_def skip_nonblank)
qed simp_all

lemma answers_int:
  assumes "n < 2 ^ 63" and "follow 3 s"
  shows "answers c (TNot (show_nat n @ s)) (XInt (int n)) s"
proof -
  let ?p = "\<lambda>ch. is_digit ch \<or> ch = CHR ''.''"
  obtain ch g where f: "show_nat n = ch # g" using show_nat_digits [of n] by (cases "show_nat n") auto
  have ch: "is_digit ch" using show_nat_digits [of n] by (simp add: f)
  have d: "s = [] \<or> \<not> ?p (hd s)" using assms(2) by (auto simp: follow_def is_digit_def)
  have all: "\<forall>x \<in> set (show_nat n). is_digit x" using show_nat_digits [of n] by (simp add: list_all_iff)
  have t: "takeWhile ?p (show_nat n @ s) = show_nat n" "dropWhile ?p (show_nat n @ s) = s"
    using all d by (auto simp: takeWhile_append2 dropWhile_append2 takeWhile_eq_Nil_iff dropWhile_eq_self_iff)
  have nd: "CHR ''.'' \<notin> set (show_nat n)" using all by (auto simp: is_digit_def)
  have "parseNumber c (show_nat n @ s) = (XInt (int n), s)"
    unfolding parseNumber_def Let_def t digits_value_show using nd assms(1) by simp
  moreover have "ch \<notin> {CHR '' '', CHR 0x09, CHR ''!'', CHR ''('', CHR 0x27}" using ch by (auto simp: is_digit_def)
  ultimately have "answers c (TPrimary (show_nat n @ s)) (XInt (int n)) s"
    unfolding answers_def using ch by (intro exI [of _ 1]) (auto simp: parsePrimary_def f skip_nonblank)
  then show ?thesis unfolding f append_Cons
    by (rule answers_primary_char) (use ch in \<open>auto simp: is_digit_def\<close>)
qed

text \<open>The function that reads an expression of a level.\<close>

definition task_at :: "nat \<Rightarrow> string \<Rightarrow> 'f task" where
  "task_at d s = (if d = 0 then TOr s else if d = 1 then TAnd s else if d = 2 then TComparison s else TNot s)"

definition reads :: "'f expr_context \<Rightarrow> nat \<Rightarrow> string \<Rightarrow> 'f xval \<Rightarrow> string \<Rightarrow> bool" where
  "reads c d s v rest \<longleftrightarrow> (\<exists>r. answers c (task_at d s) v r \<and> skipWhitespace r = skipWhitespace rest)"

lemma reads_iff:
  "reads c 0 s v rest \<longleftrightarrow> (\<exists>r. answers c (TOr s) v r \<and> skipWhitespace r = skipWhitespace rest)"
  "reads c 1 s v rest \<longleftrightarrow> (\<exists>r. answers c (TAnd s) v r \<and> skipWhitespace r = skipWhitespace rest)"
  "reads c 2 s v rest \<longleftrightarrow> (\<exists>r. answers c (TComparison s) v r \<and> skipWhitespace r = skipWhitespace rest)"
  "reads c 3 s v rest \<longleftrightarrow> (\<exists>r. answers c (TNot s) v r \<and> skipWhitespace r = skipWhitespace rest)"
  by (simp_all add: reads_def task_at_def)

lemma parse_task_skip: "parse k c (task_at d (skipWhitespace s)) = parse k c (task_at d s)"
proof -
  have n: "parse k c (TNot (skipWhitespace s)) = parse k c (TNot s)" for k by (rule parse_skip)
  have m: "parse k c (TComparison (skipWhitespace s)) = parse k c (TComparison s)" for k
    by (cases k) (simp_all add: parseComparison_def n)
  have a: "parse k c (TAnd (skipWhitespace s)) = parse k c (TAnd s)" for k
    by (cases k) (simp_all add: parseAnd_def m)
  have o: "parse k c (TOr (skipWhitespace s)) = parse k c (TOr s)" for k
    by (cases k) (simp_all add: parseOr_def a)
  show ?thesis by (simp add: task_at_def n m a o)
qed

lemma reads_blank: "reads c d (CHR '' '' # s) v rest = reads c d s v rest"
proof -
  have "skipWhitespace (CHR '' '' # s) = skipWhitespace s" by (simp add: skipWhitespace_def)
  then have "parse k c (task_at d (CHR '' '' # s)) = parse k c (task_at d s)" for k
    by (metis parse_task_skip)
  then show ?thesis by (simp add: reads_def answers_def)
qed

lemma reads_lift:
  assumes "reads c e s v rest" and "d \<le> e" and "e \<le> 3" and "follow d rest"
  shows "reads c d s v rest"
proof -
  have 2: "reads c 2 s v rest" if h: "reads c 3 s v rest" "follow 2 rest"
  proof -
    obtain r where "answers c (TNot s) v r" "skipWhitespace r = skipWhitespace rest"
      using h(1) unfolding reads_iff by blast
    then show ?thesis using follow_no_op(1) [OF h(2)]
      by (auto simp: reads_def task_at_def intro!: exI [of _ "skipWhitespace r"] answers_Comparison_none)
  qed
  have 1: "reads c 1 s v rest" if h: "reads c 2 s v rest" "follow 1 rest"
  proof -
    obtain r where "answers c (TComparison s) v r" "skipWhitespace r = skipWhitespace rest"
      using h(1) unfolding reads_iff by blast
    then show ?thesis using follow_no_op(2) [OF h(2)]
      by (auto simp: reads_def task_at_def intro!: exI [of _ "skipWhitespace r"] answers_And answers_AndLoop_end)
  qed
  have 0: "reads c 0 s v rest" if h: "reads c 1 s v rest" "follow 0 rest"
  proof -
    obtain r where "answers c (TAnd s) v r" "skipWhitespace r = skipWhitespace rest"
      using h(1) unfolding reads_iff by blast
    then show ?thesis using follow_no_op(3) [OF h(2)]
      by (auto simp: reads_def task_at_def intro!: exI [of _ "skipWhitespace r"] answers_Or answers_OrLoop_end)
  qed
  have f: "follow d' rest" if "d \<le> d'" for d' using follow_mono [OF assms(4) that] .
  consider "d = e" | "d = 2" "e = 3" | "d = 1" "e = 3" | "d = 1" "e = 2" | "d = 0" "e = 3" | "d = 0" "e = 2" | "d = 0" "e = 1"
    using assms(2,3) by linarith
  then show ?thesis
    by cases (use assms(1) 0 1 2 f in simp_all)
qed

lemma reads_paren:
  assumes "reads c 0 s v (CHR '')'' # rest)"
  shows "reads c 3 (CHR ''('' # s) v rest"
proof -
  obtain r where "answers c (TOr s) v r" "skipWhitespace r = CHR '')'' # rest"
    using assms by (auto simp: reads_def task_at_def skip_nonblank)
  from answers_paren [OF this(1)] this(2) show ?thesis by (auto simp: reads_def task_at_def HasPrefix_def)
qed

lemma follow_close [simp]: "follow d (CHR '')'' # s)"
  by (simp add: follow_def skip_nonblank)

lemma reads_level:
  assumes t: "\<And>s. follow e s \<Longrightarrow> reads c e (t @ s) v s" and d: "d \<le> 3" "e \<le> 3" and s: "follow d s"
  shows "reads c d (paren (d > e) t @ s) v s"
proof (cases "d \<le> e")
  case True
  then show ?thesis using reads_lift [OF t [OF follow_mono [OF s]]] d s by (simp add: paren_def)
next
  case False
  have "reads c 0 (t @ CHR '')'' # s) v (CHR '')'' # s)"
    by (rule reads_lift [OF t]) (use d in simp_all)
  from reads_lift [OF reads_paren [OF this] d(1) order_refl s] show ?thesis using False by (simp add: paren_def)
qed

lemma cmp_op_text: "cmp_operator (op_text op @ CHR '' '' # s) = Some (op, CHR '' '' # s)"
  by (cases op) (simp_all add: cmp_operator_def HasPrefix_def)

lemma follow_op: "follow 3 (CHR '' '' # op_text op @ CHR '' '' # s)"
proof -
  have "skipWhitespace (CHR '' '' # op_text op @ CHR '' '' # s) = op_text op @ CHR '' '' # s"
    by (cases op) (simp_all add: skipWhitespace_def)
  then show ?thesis by (simp add: follow_def cmp_op_text)
qed

lemma follow_and: "follow 2 ('' && '' @ s)"
  by (simp add: follow_def skipWhitespace_def HasPrefix_def)

lemma follow_or: "follow 1 ('' || '' @ s)"
  by (simp add: follow_def skipWhitespace_def HasPrefix_def)

lemma reads_cmp:
  assumes "reads c 3 (x @ CHR '' '' # op_text op @ CHR '' '' # y @ s) v (CHR '' '' # op_text op @ CHR '' '' # y @ s)"
    and "reads c 3 (y @ s) w s"
  shows "reads c 2 (x @ CHR '' '' # op_text op @ CHR '' '' # y @ s) (apply_cmp c op v w) s"
proof -
  have "skipWhitespace (CHR '' '' # op_text op @ CHR '' '' # y @ s) = op_text op @ CHR '' '' # y @ s"
    by (cases op) (simp_all add: skipWhitespace_def)
  then obtain r where r: "answers c (TNot (x @ CHR '' '' # op_text op @ CHR '' '' # y @ s)) v r"
      "skipWhitespace r = op_text op @ CHR '' '' # y @ s"
    using assms(1) by (auto simp: reads_def task_at_def)
  obtain q where "answers c (TNot (CHR '' '' # y @ s)) w q" "skipWhitespace q = skipWhitespace s"
    using assms(2) unfolding reads_blank [of c 3 "y @ s", symmetric] unfolding reads_iff by blast
  with answers_Comparison [OF r(1) this(1)] r(2) show ?thesis
    by (auto simp: reads_def task_at_def cmp_op_text)
qed

lemma reads_and:
  assumes "reads c 2 (x @ '' && '' @ y @ s) v ('' && '' @ y @ s)" and "reads c 2 (y @ s) w s" and "follow 1 s"
  shows "reads c 1 (x @ '' && '' @ y @ s) (if toBool c v then w else v) s"
proof -
  obtain r where r: "answers c (TComparison (x @ '' && '' @ y @ s)) v r" "skipWhitespace r = ''&&'' @ CHR '' '' # y @ s"
    using assms(1) by (auto simp: reads_def task_at_def skipWhitespace_def)
  obtain q where q: "answers c (TComparison (CHR '' '' # y @ s)) w q" "skipWhitespace q = skipWhitespace s"
    using assms(2) unfolding reads_blank [of c 2 "y @ s", symmetric] unfolding reads_iff by blast
  show ?thesis
  proof (cases "toBool c v")
    case True
    have "answers c (TAndLoop w q) w (skipWhitespace q)"
      by (rule answers_AndLoop_end) (use q(2) follow_no_op(2) [OF assms(3)] in simp)
    from answers_And [OF r(1) answers_AndLoop_true [OF q(1) this r(2) True]] q(2) True show ?thesis
      by (auto simp: reads_def task_at_def)
  next
    case False
    from answers_And [OF r(1) answers_AndLoop_false [OF q(1) r(2) False]] q(2) False show ?thesis
      by (auto simp: reads_def task_at_def)
  qed
qed

lemma reads_or:
  assumes "reads c 1 (x @ '' || '' @ y @ s) v ('' || '' @ y @ s)" and "reads c 1 (y @ s) w s" and "follow 0 s"
  shows "reads c 0 (x @ '' || '' @ y @ s) (if toBool c v then v else w) s"
proof -
  obtain r where r: "answers c (TAnd (x @ '' || '' @ y @ s)) v r" "skipWhitespace r = ''||'' @ CHR '' '' # y @ s"
    using assms(1) by (auto simp: reads_def task_at_def skipWhitespace_def)
  obtain q where q: "answers c (TAnd (CHR '' '' # y @ s)) w q" "skipWhitespace q = skipWhitespace s"
    using assms(2) unfolding reads_blank [of c 1 "y @ s", symmetric] unfolding reads_iff by blast
  show ?thesis
  proof (cases "toBool c v")
    case True
    from answers_Or [OF r(1) answers_OrLoop_true [OF q(1) r(2) True]] q(2) True show ?thesis
      by (auto simp: reads_def task_at_def)
  next
    case False
    have "answers c (TOrLoop w q) w (skipWhitespace q)"
      by (rule answers_OrLoop_end) (use q(2) follow_no_op(3) [OF assms(3)] in simp)
    from answers_Or [OF r(1) answers_OrLoop_false [OF q(1) this r(2) False]] q(2) False show ?thesis
      by (auto simp: reads_def task_at_def)
  qed
qed

lemma show_expr_head:
  "ast_ok e \<Longrightarrow> \<exists>ch t. show_expr d e = ch # t \<and> ch \<notin> {CHR '' '', CHR 0x09, CHR '')'', CHR '',''}"
proof (induction e arbitrary: d)
  case (EInt n)
  obtain ch t where "show_nat n = ch # t" "is_digit ch" using show_nat_digits [of n] by (cases "show_nat n") auto
  then show ?case by (auto simp: is_digit_def)
next
  case (ECtx f)
  then obtain ch t where "f = ch # t" "ident_char ch" by (cases f) (auto simp: name_ok_def)
  then show ?case using ident_char_distinct by fastforce
next
  case (ECall f args)
  then obtain ch t where "f = ch # t" "ident_char ch" by (cases f) (auto simp: name_ok_def)
  then show ?case using ident_char_distinct by fastforce
next
  case (ECmp op a b)
  from ECmp.IH(1) [of 3] ECmp.prems obtain ch t where "show_expr 3 a = ch # t" "ch \<notin> {CHR '' '', CHR 0x09, CHR '')'', CHR '',''}" by auto
  then show ?case by (auto simp: paren_def)
next
  case (EAnd a b)
  from EAnd.IH(1) [of 2] EAnd.prems obtain ch t where "show_expr 2 a = ch # t" "ch \<notin> {CHR '' '', CHR 0x09, CHR '')'', CHR '',''}" by auto
  then show ?case by (auto simp: paren_def)
next
  case (EOr a b)
  from EOr.IH(1) [of 1] EOr.prems obtain ch t where "show_expr 1 a = ch # t" "ch \<notin> {CHR '' '', CHR 0x09, CHR '')'', CHR '',''}" by auto
  then show ?case by (auto simp: paren_def)
qed simp_all

lemma answers_args:
  assumes "\<And>a s. a \<in> set as \<Longrightarrow> follow 0 s \<Longrightarrow> reads c 0 (show_expr 0 a @ s) (sem c a) s" and "list_all ast_ok as"
    and "follow 0 s"
  shows "\<exists>q. skipWhitespace q = skipWhitespace s \<and>
    (\<forall>w r. answers c (TArgs (acc @ map (sem c) as) q) w r \<longrightarrow>
      answers c (TArgs acc ((if acc \<noteq> [] \<and> as \<noteq> [] then '', '' else []) @ join_sep '', '' (map (show_expr 0) as) @ s)) w r)"
  using assms(1,2)
proof (induction as arbitrary: acc)
  case Nil
  then show ?case by (intro exI [of _ s]) simp
next
  case (Cons a as)
  define rest where "rest = (if as \<noteq> [] then '', '' else []) @ join_sep '', '' (map (show_expr 0) as) @ s"
  have split: "join_sep '', '' (map (show_expr 0) (a # as)) @ s = show_expr 0 a @ rest"
    by (cases as) (simp_all add: rest_def)
  have "follow 0 rest" using assms(3) by (auto simp: rest_def follow_def Let_def skipWhitespace_def)
  then obtain r where r: "answers c (TOr (show_expr 0 a @ rest)) (sem c a) r" "skipWhitespace r = skipWhitespace rest"
    using Cons.prems(1) [of a rest] by (auto simp: reads_iff)
  obtain r' where r': "answers c (TOr (CHR '' '' # show_expr 0 a @ rest)) (sem c a) r'" "skipWhitespace r' = skipWhitespace rest"
    using Cons.prems(1) [of a rest] \<open>follow 0 rest\<close> reads_blank [of c 0 "show_expr 0 a @ rest" "sem c a" rest] by (auto simp: reads_iff)
  obtain ch t where h: "show_expr 0 a = ch # t" "ch \<notin> {CHR '' '', CHR 0x09, CHR '')'', CHR '',''}"
    using show_expr_head [of a 0] Cons.prems(2) by auto
  obtain q where q: "skipWhitespace q = skipWhitespace s"
    "\<And>w r. answers c (TArgs (acc @ map (sem c) (a # as)) q) w r \<Longrightarrow> answers c (TArgs (acc @ [sem c a]) rest) w r"
    using Cons.IH [of "acc @ [sem c a]"] Cons.prems by (auto simp: rest_def)
  have "answers c (TArgs acc ((if acc \<noteq> [] then '', '' else []) @ show_expr 0 a @ rest)) w z"
    if w: "answers c (TArgs (acc @ map (sem c) (a # as)) q) w z" for w z
  proof (cases "acc = []")
    case True
    have "answers c (TArgs (acc @ [sem c a]) r) w z" using q(2) [OF w] r(2) answers_skip_cong(3) by blast
    from answers_ArgsStep [OF r(1) this refl] h True show ?thesis by (auto simp: skip_nonblank HasPrefix_def)
  next
    case False
    have "answers c (TArgs (acc @ [sem c a]) r') w z" using q(2) [OF w] r'(2) answers_skip_cong(3) by blast
    from answers_ArgsStep [OF r'(1) this refl] h False show ?thesis by (auto simp: skip_nonblank HasPrefix_def)
  qed
  then show ?case using q(1) by (intro exI [of _ q]) (simp only: split, simp)
qed

lemma answers_call:
  assumes f: "name_ok f" and args: "list_all ast_ok as"
    and IH: "\<And>a s. a \<in> set as \<Longrightarrow> follow 0 s \<Longrightarrow> reads c 0 (show_expr 0 a @ s) (sem c a) s"
  shows "answers c (TNot (f @ ''('' @ join_sep '', '' (map (show_expr 0) as) @ '')'' @ s)) (callFunction c f (map (sem c) as)) s"
proof (rule answers_identifier [OF f])
  let ?in = "join_sep '', '' (map (show_expr 0) as) @ '')'' @ s"
  obtain q where q: "skipWhitespace q = CHR '')'' # s"
    "\<And>w r. answers c (TArgs (map (sem c) as) q) w r \<Longrightarrow> answers c (TArgs [] ?in) w r"
    using answers_args [OF IH args, of "'')'' @ s" "[]"] by (auto simp: skip_nonblank)
  have a: "answers c (TArgs [] ?in) (XList (map (sem c) as)) (CHR '')'' # s)"
    by (rule q(2)) (use answers_ArgsEnd [of q] in \<open>simp add: q(1) HasPrefix_def\<close>)
  have t: "takeWhile ident_char (f @ ''('' @ ?in) = f" "dropWhile ident_char (f @ ''('' @ ?in) = ''('' @ ?in"
    using ident_takeWhile [of f "''('' @ ?in"] f by (simp_all add: name_ok_def ident_char_def is_letter_def is_digit_def)
  have n: "f \<noteq> []" using f by (simp add: name_ok_def)
  show "answers c (TIdentifier (f @ ''('' @ ?in)) (callFunction c f (map (sem c) as)) s"
    by (rule answers1 [OF a])
      (simp only: parse.simps task.case parseIdentifier_def Let_def t literal_name [OF f] n if_False option.case,
       simp add: skip_nonblank HasPrefix_def parseFunction_def)
qed

lemma reads_show:
  "ast_ok e \<Longrightarrow> d \<le> 3 \<Longrightarrow> follow d s \<Longrightarrow> reads c d (show_expr d e @ s) (sem c e) s"
proof (induction e arbitrary: d s)
  case (ENot a)
  have "reads c 3 (show_expr 3 (ENot a) @ s) (sem c (ENot a)) s" if h: "follow 3 s" for s
  proof -
    obtain r where "answers c (TNot (show_expr 3 a @ s)) (sem c a) r" "skipWhitespace r = skipWhitespace s"
      using ENot.IH [of 3 s] ENot.prems h unfolding reads_iff by auto
    from answers_Not [OF this(1)] this(2) show ?thesis by (auto simp: reads_iff)
  qed
  from reads_level [of 3 c _ _ d s, OF this] ENot.prems show ?case by (simp add: paren_def)
next
  case (ECmp op a b)
  have "reads c 2 ((show_expr 3 a @ '' '' @ op_text op @ '' '' @ show_expr 3 b) @ s) (sem c (ECmp op a b)) s" if "follow 2 s" for s
    using reads_cmp [OF ECmp.IH(1) [OF _ order_refl follow_op] ECmp.IH(2) [OF _ order_refl follow_mono [OF that]]] ECmp.prems
    by simp
  from reads_level [of 2 c _ _ d s, OF this] ECmp.prems show ?case by simp
next
  case (EAnd a b)
  have "reads c 1 ((show_expr 2 a @ '' && '' @ show_expr 2 b) @ s) (sem c (EAnd a b)) s" if "follow 1 s" for s
    using reads_and [OF EAnd.IH(1) [OF _ _ follow_and] EAnd.IH(2) [OF _ _ follow_mono [OF that]] that] EAnd.prems
    by simp
  from reads_level [of 1 c _ _ d s, OF this] EAnd.prems show ?case by simp
next
  case (EOr a b)
  have "reads c 0 ((show_expr 1 a @ '' || '' @ show_expr 1 b) @ s) (sem c (EOr a b)) s" if "follow 0 s" for s
    using reads_or [OF EOr.IH(1) [OF _ _ follow_or] EOr.IH(2) [OF _ _ follow_mono [OF that]] that] EOr.prems
    by simp
  from reads_level [of 0 c _ _ d s, OF this] EOr.prems show ?case by simp
next
  case (ECall f as)
  have args: "reads c 0 (show_expr 0 a @ s) (sem c a) s" if "a \<in> set as" "follow 0 s" for a s
    using ECall.IH [OF that(1), of 0 s] ECall.prems that by (auto simp: list_all_iff)
  have "reads c 3 (show_expr 3 (ECall f as) @ s) (sem c (ECall f as)) s" if "follow 3 s" for s
    using answers_call [OF _ _ args, where f = f and s = s] ECall.prems by (auto simp: reads_iff)
  from reads_level [of 3 c _ _ d s, OF this] ECall.prems show ?case by (simp add: paren_def)
next
  case (EStr t)
  have "reads c 3 (show_expr 3 (EStr t) @ s) (XStr t) s" if "follow 3 s" for s
    using answers_string [OF that] by (auto simp: reads_iff)
  from reads_level [of 3 c _ _ d s, OF this] EStr.prems show ?case by (simp add: paren_def)
next
  case (EInt n)
  have "reads c 3 (show_expr 3 (EInt n) @ s) (XInt (int n)) s" if "follow 3 s" for s
    using answers_int [OF _ that, of n] EInt by (auto simp: reads_iff)
  from reads_level [of 3 c _ _ d s, OF this] EInt.prems show ?case by (simp add: paren_def)
next
  case (ECtx f)
  have "reads c 3 (show_expr 3 (ECtx f) @ s) (lookupContext c f) s" if "follow 3 s" for s
    using answers_ctx [OF _ that, where f = f and c = c] ECtx unfolding reads_iff by (intro exI [of _ "skipWhitespace s"]) simp
  from reads_level [of 3 c _ _ d s, OF this] ECtx.prems show ?case by (simp add: paren_def)
next
  case ETrue
  have "reads c 3 (''true'' @ s) (XBool True) s" if "follow 3 s" for s
    using answers_literal [OF _ _ _ _ that, of "''true''" "XBool True"]
    by (auto simp: reads_iff literal_def ToLower_def to_lower_def ident_char_def is_letter_def is_digit_def)
  from reads_level [of 3 c _ _ d s, OF this] ETrue.prems show ?case by (simp add: paren_def)
next
  case EFalse
  have "reads c 3 (''false'' @ s) (XBool False) s" if "follow 3 s" for s
    using answers_literal [OF _ _ _ _ that, of "''false''" "XBool False"]
    by (auto simp: reads_iff literal_def ToLower_def to_lower_def ident_char_def is_letter_def is_digit_def)
  from reads_level [of 3 c _ _ d s, OF this] EFalse.prems show ?case by (simp add: paren_def)
next
  case ENull
  have "reads c 3 (''null'' @ s) XNil s" if "follow 3 s" for s
    using answers_literal [OF _ _ _ _ that, of "''null''" XNil]
    by (auto simp: reads_iff literal_def ToLower_def to_lower_def ident_char_def is_letter_def is_digit_def)
  from reads_level [of 3 c _ _ d s, OF this] ENull.prems show ?case by (simp add: paren_def)
qed

lemma answers_EvalExpr:
  assumes r: "answers c (TOr s) v r"
  shows "(\<exists>k. EvalExpr k c s = Some v) \<and> (\<forall>k w. EvalExpr k c s = Some w \<longrightarrow> w = v)"
proof (intro conjI allI impI)
  obtain k where "parse k c (TOr s) = Some (v, r)" using r by (auto simp: answers_def)
  then have "EvalExpr k c s = Some v" by (simp add: EvalExpr_def)
  then show "\<exists>k. EvalExpr k c s = Some v" ..
  fix k w assume "EvalExpr k c s = Some w"
  then obtain q where "parse k c (TOr s) = Some (w, q)" by (auto simp: EvalExpr_def)
  from answers_unique [OF r this] show "w = v" ..
qed

text \<open>C35: an expression printed with every chain of one connective parenthesised evaluates to its value: with
  enough fuel the parser answers, and it never gives another answer.\<close>

theorem eval_printed:
  assumes "ast_ok e"
  shows "(\<exists>k. EvalExpr k c (show_expr 0 e) = Some (sem c e)) \<and> (\<forall>k v. EvalExpr k c (show_expr 0 e) = Some v \<longrightarrow> v = sem c e)"
proof -
  have "follow 0 []" by (simp add: follow_def skipWhitespace_def)
  from reads_show [OF assms _ this, of c] obtain r where r: "answers c (TOr (show_expr 0 e)) (sem c e) r"
    by (auto simp: reads_iff)
  from answers_EvalExpr [OF r] show ?thesis .
qed

definition ex_ctx :: "int expr_context" where
  "ex_ctx = \<lparr>GitHub = [(''event_name'', XStr ''push''), (''ref'', XStr ''refs/heads/dev'')], EnvVars = [], Secrets = [], MatrixVals = [],
     StepsCtx = [], NeedsCtx = [], Runner = [], Inputs = [], Vars = [], HashFilesFunc = None,
     scan_float = (\<lambda>s. int (digits_value (filter is_digit s))), float_of_int = id, float_less = (<), float_zero = (\<lambda>f. f = 0),
     show_float = show_int, json_marshal = (\<lambda>v. ''{}''), json_unmarshal = (\<lambda>s. XNil)\<rparr>"

definition ex_expr :: ast where
  "ex_expr = EAnd (EOr (ECmp CEq (ECtx ''github.event_name'') (EStr ''push'')) (ECtx ''env.CI''))
     (ECall ''startsWith'' [ECtx ''github.ref'', EStr ''refs/tags''])"

theorem eval_printed_witness:
  "show_expr 0 ex_expr = ''(github.event_name == '' @ [CHR 0x27] @ ''push'' @ [CHR 0x27] @ '' || env.CI) && startsWith(github.ref, '' @ [CHR 0x27] @ ''refs/tags'' @ [CHR 0x27] @ '')'' \<and>
   (\<exists>k. EvalExpr k ex_ctx (show_expr 0 ex_expr) = Some (XBool False))"
proof -
  have "ast_ok ex_expr" by code_simp
  moreover have "sem ex_ctx ex_expr = XBool False" by code_simp
  ultimately have "\<exists>k. EvalExpr k ex_ctx (show_expr 0 ex_expr) = Some (XBool False)"
    using eval_printed [of ex_expr ex_ctx] by simp
  then show ?thesis by (simp add: ex_expr_def paren_def)
qed

section \<open>Chains of three\<close>

text \<open>Once the left side decides a connective, the loop returns right after the side at hand, and the rest of
  the chain is left for the callers, which take it for theirs.\<close>

text \<open>In \<open>(a || b || c) && d\<close> with a true first alternative the condition \<open>d\<close> is never looked at:
  the whole expression has the value of \<open>a\<close>.\<close>

lemma or_chain_drops_condition:
  fixes d :: string
  assumes ok: "ast_ok a" "ast_ok b" "ast_ok e" and "toBool c (sem c a)"
  defines "text \<equiv> ''('' @ show_expr 1 a @ '' || '' @ show_expr 1 b @ '' || '' @ show_expr 1 e @ '') && '' @ d"
  shows "(\<exists>k. EvalExpr k c text = Some (sem c a)) \<and> (\<forall>k v. EvalExpr k c text = Some v \<longrightarrow> v = sem c a)"
proof -
  define Z where "Z = show_expr 1 e @ CHR '')'' # '' && '' @ d"
  define Y where "Y = show_expr 1 b @ '' || '' @ Z"
  have or: "skipWhitespace ('' || '' @ s) = ''||'' @ CHR '' '' # s" for s by (simp add: skipWhitespace_def)
  obtain r where r: "answers c (TAnd (show_expr 1 a @ '' || '' @ Y)) (sem c a) r" "skipWhitespace r = ''||'' @ CHR '' '' # Y"
    using reads_show [OF ok(1) _ follow_or, of c Y] unfolding reads_iff or by auto
  obtain q where q: "answers c (TAnd (CHR '' '' # Y)) (sem c b) q" "skipWhitespace q = ''||'' @ CHR '' '' # Z"
    using reads_show [OF ok(2) _ follow_or, of c Z, folded Y_def, folded reads_blank [of c 1 Y]] unfolding reads_iff or by auto
  have "reads c 1 Z (sem c e) (CHR '')'' # '' && '' @ d)"
    unfolding Z_def by (rule reads_show [OF ok(3) _ follow_close]) simp
  then obtain z where z: "answers c (TAnd (CHR '' '' # Z)) (sem c e) z"
    unfolding reads_blank [of c 1 Z, symmetric] unfolding reads_iff by auto
  have "answers c (TOr (show_expr 1 a @ '' || '' @ Y)) (sem c a) q"
    by (rule answers_Or [OF r(1) answers_OrLoop_true [OF q(1) r(2) assms(4)]])
  from answers_paren [OF this] have "answers c (TNot (CHR ''('' # show_expr 1 a @ '' || '' @ Y)) (sem c a) (''||'' @ CHR '' '' # Z)"
    by (simp add: q(2) HasPrefix_def)
  from answers_Comparison_none [OF this] have "answers c (TComparison (CHR ''('' # show_expr 1 a @ '' || '' @ Y)) (sem c a) (''||'' @ CHR '' '' # Z)"
    by (simp add: skip_nonblank no_cmp)
  from answers_And [OF this] answers_AndLoop_end [of "''||'' @ CHR '' '' # Z" c "sem c a"]
  have "answers c (TAnd (CHR ''('' # show_expr 1 a @ '' || '' @ Y)) (sem c a) (''||'' @ CHR '' '' # Z)"
    by (simp add: skip_nonblank HasPrefix_def)
  from answers_Or [OF this answers_OrLoop_true [OF z _ assms(4)]] have t: "answers c (TOr text) (sem c a) z"
    by (simp add: text_def Y_def Z_def skip_nonblank)
  from answers_EvalExpr [OF t] show ?thesis .
qed

text \<open>A condition on the branch that a run for another branch passes.\<close>

lemma or_chain_drops_condition_witness:
  "\<exists>k. EvalExpr k ex_ctx (''('' @ show_expr 1 (ECmp CEq (ECtx ''github.event_name'') (EStr ''push'')) @ '' || '' @ show_expr 1 EFalse @
     '' || '' @ show_expr 1 EFalse @ '') && '' @ show_expr 2 (ECmp CEq (ECtx ''github.ref'') (EStr ''refs/heads/main''))) = Some (XBool True) \<and>
   sem ex_ctx (ECmp CEq (ECtx ''github.ref'') (EStr ''refs/heads/main'')) = XBool False"
proof -
  let ?a = "ECmp CEq (ECtx ''github.event_name'') (EStr ''push'')"
  have "ast_ok ?a" "ast_ok EFalse" "sem ex_ctx ?a = XBool True" by code_simp+
  moreover have "sem ex_ctx (ECmp CEq (ECtx ''github.ref'') (EStr ''refs/heads/main'')) = XBool False" by code_simp
  ultimately show ?thesis
    using or_chain_drops_condition [of ?a EFalse EFalse ex_ctx "show_expr 2 (ECmp CEq (ECtx ''github.ref'') (EStr ''refs/heads/main''))"]
    by simp
qed

section \<open>Calls that are never closed\<close>

text \<open>A character that starts no expression and closes nothing, such as a double quote or a bracket.\<close>

definition stuck_char :: "char \<Rightarrow> bool" where
  "stuck_char ch \<longleftrightarrow> \<not> ident_char ch \<and>
     ch \<notin> {CHR '' '', CHR 0x09, CHR '')'', CHR '','', CHR ''('', CHR 0x27, CHR ''!'', CHR ''='', CHR ''<'', CHR ''>'', CHR ''|'', CHR ''&''}"

lemma answers_stuck:
  assumes "stuck_char ch"
  shows "answers c (TOr (ch # s)) XNil (ch # s)"
proof -
  have n: "skipWhitespace (ch # s) = ch # s" using assms by (simp add: stuck_char_def skip_nonblank)
  have "answers c (TIdentifier (ch # s)) XNil (ch # s)"
    unfolding answers_def using assms by (intro exI [of _ 1]) (simp add: parseIdentifier_def stuck_char_def)
  then have "answers c (TPrimary (ch # s)) XNil (ch # s)"
    using assms by (elim answers1) (auto simp: parsePrimary_def n stuck_char_def ident_char_def)
  from answers_Not_primary [OF this] have "answers c (TNot (ch # s)) XNil (ch # s)"
    using assms by (simp add: n HasPrefix_def stuck_char_def)
  from answers_Comparison_none [OF this] have "answers c (TComparison (ch # s)) XNil (ch # s)"
    using assms by (simp add: n cmp_operator_def HasPrefix_def stuck_char_def)
  from answers_And [OF this] answers_AndLoop_end [of "ch # s" c XNil] have "answers c (TAnd (ch # s)) XNil (ch # s)"
    using assms by (simp add: n HasPrefix_def stuck_char_def)
  from answers_Or [OF this] answers_OrLoop_end [of "ch # s" c XNil] show ?thesis
    using assms by (simp add: n HasPrefix_def stuck_char_def)
qed

lemma args_step:
  assumes "answers c (TOr t) v q" and "skipWhitespace s = u" "u \<noteq> []" "\<not> HasPrefix u '')''"
    and "t = (if args \<noteq> [] \<and> HasPrefix u '','' then tl u else u)" and "\<And>k. parse k c (TArgs (args @ [v]) q) = None"
  shows "parse k c (TArgs args s) = None"
proof (cases k)
  case (Suc j)
  show ?thesis
  proof (cases "parse j c (TOr t)")
    case None
    then show ?thesis using assms by (simp add: Suc parseArgs_def)
  next
    case (Some w)
    then have "w = (v, q)" using answers_unique [OF assms(1)] by (cases w) auto
    then show ?thesis using Some assms by (simp add: Suc parseArgs_def)
  qed
qed simp

lemma args_stuck:
  assumes "stuck_char ch"
  shows "parse k c (TArgs args (ch # s)) = None"
proof (induction k arbitrary: args)
  case (Suc k)
  have n: "skipWhitespace (ch # s) = ch # s" using assms by (simp add: stuck_char_def skip_nonblank)
  show ?case
  proof (cases "parse k c (TOr (ch # s))")
    case None
    then show ?thesis using assms by (simp add: parseArgs_def n HasPrefix_def stuck_char_def)
  next
    case (Some w)
    then have "w = (XNil, ch # s)"
      by (cases w) (use answers_unique [OF answers_stuck [OF assms], of k c s] Some in auto)
    then show ?thesis using Some Suc assms by (simp add: parseArgs_def n HasPrefix_def stuck_char_def)
  qed
qed simp

lemma args_stuck_after:
  assumes "stuck_char ch" and "list_all ast_ok as"
  shows "parse k c (TArgs acc ((if acc \<noteq> [] then '', '' else []) @ join_sep '', '' (map (show_expr 0) as @ [ch # s]))) = None"
  using assms(2)
proof (induction as arbitrary: acc k)
  case Nil
  show ?case
  proof (cases "acc = []")
    case False
    have "answers c (TOr (CHR '' '' # ch # s)) XNil (ch # s)"
      using answers_stuck [OF assms(1), of c s] parse_task_skip [of _ c 0 "CHR '' '' # ch # s"] assms(1)
      by (simp add: answers_def task_at_def skipWhitespace_def stuck_char_def)
    show ?thesis
      by (rule args_step [OF \<open>answers c (TOr (CHR '' '' # ch # s)) XNil (ch # s)\<close> refl])
        (use False args_stuck [OF assms(1)] in \<open>simp_all add: skip_nonblank HasPrefix_def\<close>)
  qed (simp add: args_stuck [OF assms(1)])
next
  case (Cons a as)
  define J where "J = join_sep '', '' (map (show_expr 0) as @ [ch # s])"
  have J: "join_sep '', '' (map (show_expr 0) (a # as) @ [ch # s]) = show_expr 0 a @ '', '' @ J"
    by (cases as) (simp_all add: J_def)
  have f: "follow 0 ('', '' @ J)" by (simp add: follow_def skipWhitespace_def)
  obtain r where r: "answers c (TOr (show_expr 0 a @ '', '' @ J)) (sem c a) r" "skipWhitespace r = skipWhitespace ('', '' @ J)"
    using reads_show [OF _ _ f, of a c] Cons.prems by (auto simp: reads_iff)
  have "reads c 0 (CHR '' '' # show_expr 0 a @ '', '' @ J) (sem c a) ('', '' @ J)"
    unfolding reads_blank using reads_show [OF _ _ f, of a c] Cons.prems by simp
  then obtain q where q: "answers c (TOr (CHR '' '' # show_expr 0 a @ '', '' @ J)) (sem c a) q" "skipWhitespace q = skipWhitespace ('', '' @ J)"
    unfolding reads_iff by blast
  have IH: "parse k c (TArgs (acc @ [sem c a]) z) = None" if "skipWhitespace z = skipWhitespace ('', '' @ J)" for k z
  proof -
    have "parse k c (TArgs (acc @ [sem c a]) ('', '' @ J)) = None"
      using Cons.IH [of k "acc @ [sem c a]"] Cons.prems by (simp add: J_def)
    then show ?thesis using parse_skip(5) [of k c "acc @ [sem c a]"] that by metis
  qed
  obtain h t where h: "show_expr 0 a = h # t" "h \<notin> {CHR '' '', CHR 0x09, CHR '')'', CHR '',''}"
    using show_expr_head [of a 0] Cons.prems by auto
  show ?case
  proof (cases "acc = []")
    case True
    show ?thesis unfolding J
      by (rule args_step [OF r(1) refl _ _ _ IH [OF r(2)]]) (use True h in \<open>auto simp: skip_nonblank HasPrefix_def\<close>)
  next
    case False
    show ?thesis unfolding J
      by (rule args_step [OF q(1) refl _ _ _ IH [OF q(2)]]) (use False h in \<open>auto simp: skip_nonblank HasPrefix_def\<close>)
  qed
qed

text \<open>C36: a call with a character that starts no expression where an argument should be, for example a string in
  double quotes, is never answered, whatever arguments come before and whatever text follows: the parser
  appends empty arguments for ever.\<close>

theorem unreadable_argument_never_returns:
  assumes "name_ok f" and "list_all ast_ok as" and "stuck_char ch"
  shows "EvalExpr k c (f @ ''('' @ join_sep '', '' (map (show_expr 0) as @ [ch # s])) = None"
proof -
  define J where "J = join_sep '', '' (map (show_expr 0) as @ [ch # s])"
  have J: "parse k c (TArgs [] J) = None" for k
    using args_stuck_after [OF assms(3,2), of k c "[]"] by (simp add: J_def)
  have t: "takeWhile ident_char (f @ ''('' @ J) = f" "dropWhile ident_char (f @ ''('' @ J) = ''('' @ J"
    using ident_takeWhile [of f "''('' @ J"] assms(1) by (simp_all add: name_ok_def ident_char_def is_letter_def is_digit_def)
  obtain h g where f: "f = h # g" using assms(1) by (cases f) (auto simp: name_ok_def)
  have h: "ident_char h" "\<not> is_digit h" using assms(1) by (auto simp: f name_ok_def)
  note hd = ident_char_distinct [OF h(1)]
  have "parseIdentifier (parse k c) c (f @ ''('' @ J) = None" for k
    unfolding parseIdentifier_def Let_def t literal_name [OF assms(1)]
    using assms(1) by (simp add: skip_nonblank HasPrefix_def parseFunction_def J name_ok_def)
  then have "parse k c (TIdentifier (f @ ''('' @ J)) = None" for k by (cases k) simp_all
  then have "parse k c (TPrimary (f @ ''('' @ J)) = None" for k
    using hd h by (cases k) (auto simp: parsePrimary_def f skip_nonblank)
  then have "parse k c (TNot (f @ ''('' @ J)) = None" for k
    using hd by (cases k) (auto simp: parseNot_def f skip_nonblank HasPrefix_def)
  then have "parse k c (TComparison (f @ ''('' @ J)) = None" for k by (cases k) (simp_all add: parseComparison_def)
  then have "parse k c (TAnd (f @ ''('' @ J)) = None" for k by (cases k) (simp_all add: parseAnd_def)
  then have "parse k c (TOr (f @ ''('' @ J)) = None" for k by (cases k) (simp_all add: parseOr_def)
  then show ?thesis by (simp add: EvalExpr_def J_def)
qed

theorem unreadable_argument_never_returns_witness:
  "\<forall>k. EvalExpr k ex_ctx (''contains(github.ref, '' @ [CHR 0x22] @ ''refs/tags'' @ [CHR 0x22] @ '')'') = None"
proof
  fix k
  have "name_ok ''contains''" "list_all ast_ok [ECtx ''github.ref'']" "stuck_char (CHR 0x22)" by code_simp+
  from unreadable_argument_never_returns [OF this, of k ex_ctx "''refs/tags'' @ [CHR 0x22] @ '')''"]
  show "EvalExpr k ex_ctx (''contains(github.ref, '' @ [CHR 0x22] @ ''refs/tags'' @ [CHR 0x22] @ '')'') = None" by simp
qed

end
