(* ===== verification/Cron.thy ===== *)
theory Cron
  imports GoText
begin

text \<open>
  Cron expressions (\<open>src/kailab-control/internal/cron/cron.go\<close>): parsing the five fields, matching a time
  and finding the next matching minute. A time is the number of nanoseconds since 1970, in UTC, as the scheduler
  uses it; the civil calendar is that of package \<open>time\<close>. Space is ASCII space.
\<close>

section \<open>Package \<open>time\<close>\<close>

definition leap :: "nat \<Rightarrow> bool" where
  "leap y \<longleftrightarrow> y mod 4 = 0 \<and> (y mod 100 \<noteq> 0 \<or> y mod 400 = 0)"

definition month_lengths :: "nat \<Rightarrow> nat list" where
  "month_lengths y = [31, if leap y then 29 else 28, 31, 30, 31, 30, 31, 31, 30, 31, 30, 31]"

text \<open>The year and the day in the year \<open>n\<close> days after the start of \<open>y\<close>.\<close>

fun year_day :: "nat \<Rightarrow> nat \<Rightarrow> nat \<times> nat" where
  "year_day y n = (let len = (if leap y then 366 else 365) in if n < len then (y, n) else year_day (y + 1) (n - len))"

declare year_day.simps [simp del]

fun month_day :: "nat \<Rightarrow> nat list \<Rightarrow> nat \<Rightarrow> nat \<times> nat" where
  "month_day m [] n = (m, n + 1)"
| "month_day m (l # ls) n = (if n < l then (m, n + 1) else month_day (m + 1) ls (n - l))"

definition minutes_since :: "int \<Rightarrow> int" where
  "minutes_since t = t div 60000000000"

definition t_minute :: "int \<Rightarrow> nat" where
  "t_minute t = nat (minutes_since t mod 60)"

definition t_hour :: "int \<Rightarrow> nat" where
  "t_hour t = nat (minutes_since t div 60 mod 24)"

definition t_days :: "int \<Rightarrow> int" where
  "t_days t = minutes_since t div 1440"

text \<open>The calendar repeats every 400 years; the first of January 2000 is day 10957.\<close>

definition t_date :: "int \<Rightarrow> nat \<times> nat" where
  "t_date t = (let (y, n) = year_day 2000 (nat ((t_days t - 10957) mod 146097)) in month_day 1 (month_lengths y) n)"

definition t_month :: "int \<Rightarrow> nat" where "t_month t = fst (t_date t)"
definition t_day :: "int \<Rightarrow> nat" where "t_day t = snd (t_date t)"

definition t_weekday :: "int \<Rightarrow> nat" where
  "t_weekday t = nat ((t_days t + 4) mod 7)"

section \<open>Parsing\<close>

record Schedule =
  Minutes :: "bool list"
  Hours :: "bool list"
  DaysOfMonth :: "bool list"
  Months :: "bool list"
  DaysOfWeek :: "bool list"

datatype part_error = InvalidStep | InvalidRangeStart | InvalidRangeEnd | RangeOutOfBounds | InvalidValue | ValueOutOfBounds
datatype cron_error = FieldCount | InField string part_error

lemma wrap64_over: "2 ^ 63 \<le> n \<Longrightarrow> n < 2 ^ 64 \<Longrightarrow> wrap64 n < 0"
proof -
  assume n: "2 ^ 63 \<le> n" "n < 2 ^ 64"
  then have "(n + 2 ^ 63) mod 2 ^ 64 = n + 2 ^ 63 - 2 ^ 64" by (intro int_mod_pos_eq [where q = 1]) auto
  with n show "wrap64 n < 0" by (simp add: wrap64_def)
qed

text \<open>\<open>for i := lo; i <= hi; i += step { bits[i] = true }\<close> with a positive step; \<open>i\<close> and \<open>step\<close> are
  64-bit integers, so the sum may wrap to a negative index.\<close>

function mark :: "int \<Rightarrow> int \<Rightarrow> int \<Rightarrow> bool list \<Rightarrow> (part_error, bool list) go" where
  "mark i hi step bits =
     (if i > hi \<or> step \<notin> {1..<2 ^ 63} \<or> hi \<ge> 2 ^ 63 then Ok bits
      else if i < 0 \<or> i \<ge> int (length bits) then Panic
      else mark (wrap64 (i + step)) hi step (bits[nat i := True]))"
  by pat_completeness auto
termination
proof (relation "measure (\<lambda>(i, hi, step, bits). if i < 0 then 0 else nat (hi + 1 - i))", simp, goal_cases)
  case (1 i hi step bits)
  show ?case
  proof (cases "i + step < 2 ^ 63")
    case True
    then have "wrap64 (i + step) = i + step" using 1 by (intro wrap64_small) auto
    then show ?thesis using 1 by auto
  next
    case False
    then have "wrap64 (i + step) < 0" using 1 by (intro wrap64_over) auto
    then show ?thesis using 1 by auto
  qed
qed

declare mark.simps [simp del]

definition cut_step :: "string \<Rightarrow> (part_error, int \<times> string) go" where
  "cut_step part = (case str_index part ''/'' of
         None \<Rightarrow> Ok (1, part)
       | Some idx \<Rightarrow> (case Atoi (drop (idx + 1) part) of
             None \<Rightarrow> Err InvalidStep
           | Some step \<Rightarrow> if step \<le> 0 then Err InvalidStep else Ok (step, take idx part)))"

definition parsePart :: "string \<Rightarrow> bool list \<Rightarrow> int \<Rightarrow> int \<Rightarrow> (part_error, bool list) go" where
  "parsePart part bits mn mx =
     bind_go (cut_step part) (\<lambda>(step, part).
       if part = ''*'' then mark mn mx step bits
       else case str_index part ''-'' of
         Some idx \<Rightarrow>
           (case Atoi (take idx part) of
              None \<Rightarrow> Err InvalidRangeStart
            | Some lo \<Rightarrow> (case Atoi (drop (idx + 1) part) of
                  None \<Rightarrow> Err InvalidRangeEnd
                | Some hi \<Rightarrow> if lo < mn \<or> hi > mx \<or> lo > hi then Err RangeOutOfBounds else mark lo hi step bits))
       | None \<Rightarrow>
           (case Atoi part of
              None \<Rightarrow> Err InvalidValue
            | Some val \<Rightarrow> if val < mn \<or> val > mx then Err ValueOutOfBounds
                else if val < 0 \<or> val \<ge> int (length bits) then Panic else Ok (bits[nat val := True])))"

fun parse_parts :: "string list \<Rightarrow> bool list \<Rightarrow> int \<Rightarrow> int \<Rightarrow> (part_error, bool list) go" where
  "parse_parts [] bits mn mx = Ok bits"
| "parse_parts (p # ps) bits mn mx = bind_go (parsePart p bits mn mx) (\<lambda>bits. parse_parts ps bits mn mx)"

definition parseField :: "string \<Rightarrow> bool list \<Rightarrow> int \<Rightarrow> int \<Rightarrow> (part_error, bool list) go" where
  "parseField field = parse_parts (split_on CHR '','' field)"

definition in_field :: "string \<Rightarrow> (part_error, 'a) go \<Rightarrow> (cron_error, 'a) go" where
  "in_field name m = (case m of Ok x \<Rightarrow> Ok x | Err e \<Rightarrow> Err (InField name e) | Panic \<Rightarrow> Panic)"

definition Parse :: "string \<Rightarrow> (cron_error, Schedule) go" where
  "Parse expr =
     (case Fields (TrimSpace expr) of
        [f1, f2, f3, f4, f5] \<Rightarrow>
          bind_go (in_field ''minute'' (parseField f1 (replicate 60 False) 0 59)) (\<lambda>m.
          bind_go (in_field ''hour'' (parseField f2 (replicate 24 False) 0 23)) (\<lambda>h.
          bind_go (in_field ''day-of-month'' (parseField f3 (replicate 32 False) 1 31)) (\<lambda>d.
          bind_go (in_field ''month'' (parseField f4 (replicate 13 False) 1 12)) (\<lambda>mo.
          bind_go (in_field ''day-of-week'' (parseField f5 (replicate 7 False) 0 6)) (\<lambda>w.
            Ok \<lparr>Minutes = m, Hours = h, DaysOfMonth = d, Months = mo, DaysOfWeek = w\<rparr>)))))
      | _ \<Rightarrow> Err FieldCount)"

definition Match :: "Schedule \<Rightarrow> int \<Rightarrow> bool" where
  "Match s t \<longleftrightarrow> Minutes s ! t_minute t \<and> Hours s ! t_hour t \<and> DaysOfMonth s ! t_day t \<and>
     Months s ! t_month t \<and> DaysOfWeek s ! t_weekday t"

text \<open>\<open>Next\<close> goes on minute by minute for 366 days; \<open>None\<close> is the zero time.\<close>

function next_from :: "Schedule \<Rightarrow> int \<Rightarrow> int \<Rightarrow> int option" where
  "next_from s t limit = (if t < limit then if Match s t then Some t else next_from s (t + 60000000000) limit else None)"
  by pat_completeness auto
termination by (relation "measure (\<lambda>(s, t, limit). nat (limit - t))") auto

declare next_from.simps [simp del]

definition Next :: "Schedule \<Rightarrow> int \<Rightarrow> int option" where
  "Next s after = next_from s (minutes_since after * 60000000000 + 60000000000) (after + 366 * 86400000000000)"

section \<open>What an expression means\<close>

text \<open>The parts of a field as they are written, and the values each stands for.\<close>

datatype cron_item = Star "nat option" | Span nat nat "nat option" | At nat

definition show_step :: "nat option \<Rightarrow> string" where
  "show_step st = (case st of None \<Rightarrow> [] | Some n \<Rightarrow> CHR ''/'' # show_nat n)"

primrec show_item :: "cron_item \<Rightarrow> string" where
  "show_item (Star st) = ''*'' @ show_step st"
| "show_item (Span lo hi st) = show_nat lo @ CHR ''-'' # show_nat hi @ show_step st"
| "show_item (At v) = show_nat v"

fun show_field :: "cron_item list \<Rightarrow> string" where
  "show_field [] = []"
| "show_field [i] = show_item i"
| "show_field (i # j # is) = show_item i @ CHR '','' # show_field (j # is)"

definition step_of :: "nat option \<Rightarrow> nat" where
  "step_of st = (case st of None \<Rightarrow> 1 | Some n \<Rightarrow> n)"

primrec denotes :: "nat \<Rightarrow> nat \<Rightarrow> cron_item \<Rightarrow> nat \<Rightarrow> bool" where
  "denotes mn mx (Star st) v \<longleftrightarrow> mn \<le> v \<and> v \<le> mx \<and> step_of st dvd (v - mn)"
| "denotes mn mx (Span lo hi st) v \<longleftrightarrow> lo \<le> v \<and> v \<le> hi \<and> step_of st dvd (v - lo)"
| "denotes mn mx (At n) v \<longleftrightarrow> v = n"

text \<open>Values in range, and a step that cannot overflow the loop variable.\<close>

definition step_ok :: "nat \<Rightarrow> nat option \<Rightarrow> bool" where
  "step_ok hi st \<longleftrightarrow> 0 < step_of st \<and> hi + step_of st < 2 ^ 63"

primrec item_ok :: "nat \<Rightarrow> nat \<Rightarrow> cron_item \<Rightarrow> bool" where
  "item_ok mn mx (Star st) \<longleftrightarrow> step_ok mx st"
| "item_ok mn mx (Span lo hi st) \<longleftrightarrow> mn \<le> lo \<and> lo \<le> hi \<and> hi \<le> mx \<and> step_ok hi st"
| "item_ok mn mx (At v) \<longleftrightarrow> mn \<le> v \<and> v \<le> mx"

definition set_bits :: "(nat \<Rightarrow> bool) \<Rightarrow> bool list \<Rightarrow> bool list" where
  "set_bits P bits = map (\<lambda>v. bits ! v \<or> P v) [0..<length bits]"

lemma set_bits_simps [simp]:
  "length (set_bits P bits) = length bits" "v < length bits \<Longrightarrow> set_bits P bits ! v \<longleftrightarrow> bits ! v \<or> P v"
  by (simp_all add: set_bits_def)

lemma set_bits_comp: "set_bits Q (set_bits P bits) = set_bits (\<lambda>v. P v \<or> Q v) bits"
  by (rule nth_equalityI) auto

lemma mark_set_bits:
  assumes "hi < length bits" and "0 < step" and "hi + step < 2 ^ 63"
  shows "mark (int i) (int hi) (int step) bits = Ok (set_bits (\<lambda>v. i \<le> v \<and> v \<le> hi \<and> step dvd (v - i)) bits)"
  using assms
proof (induction "hi + 1 - i" arbitrary: i bits rule: less_induct)
  case less
  show ?case
  proof (cases "i > hi")
    case True
    then have "mark (int i) (int hi) (int step) bits = Ok bits" by (subst mark.simps) simp
    moreover have "set_bits (\<lambda>v. i \<le> v \<and> v \<le> hi \<and> step dvd (v - i)) bits = bits"
      by (rule nth_equalityI) (use True in auto)
    ultimately show ?thesis by simp
  next
    case False
    let ?bits = "bits[i := True]"
    have lt: "hi + 1 - (i + step) < hi + 1 - i" using False less.prems by linarith
    have fits: "int i + int step < 2 ^ 63" "int step < 2 ^ 63" "int hi < 2 ^ 63" using less.prems False by simp_all
    then have w: "wrap64 (int i + int step) = int (i + step)" by (subst wrap64_small) auto
    have "mark (int i) (int hi) (int step) bits = mark (int (i + step)) (int hi) (int step) ?bits"
      by (subst mark.simps) (use False fits less.prems in \<open>simp add: w\<close>)
    also have "\<dots> = Ok (set_bits (\<lambda>v. i + step \<le> v \<and> v \<le> hi \<and> step dvd (v - (i + step))) ?bits)"
      using less.hyps [OF lt, of ?bits] less.prems by simp
    also have "set_bits (\<lambda>v. i + step \<le> v \<and> v \<le> hi \<and> step dvd (v - (i + step))) ?bits =
        set_bits (\<lambda>v. i \<le> v \<and> v \<le> hi \<and> step dvd (v - i)) bits"
    proof (rule nth_equalityI; simp)
      fix v assume v: "v < length bits"
      have "i \<le> v \<and> step dvd (v - i) \<longleftrightarrow> v = i \<or> i + step \<le> v \<and> step dvd (v - (i + step))"
      proof (cases "i + step \<le> v")
        case True
        then have "v - i = (v - (i + step)) + step" by simp
        then have "step dvd (v - i) \<longleftrightarrow> step dvd (v - (i + step))" by simp
        with True show ?thesis by auto
      next
        case False
        then show ?thesis using \<open>0 < step\<close> by (auto dest: dvd_imp_le)
      qed
      then show "(?bits ! v \<or> i + step \<le> v \<and> v \<le> hi \<and> step dvd (v - (i + step))) = (bits ! v \<or> i \<le> v \<and> v \<le> hi \<and> step dvd (v - i))"
        using v \<open>\<not> i > hi\<close> by (cases "v = i") (auto simp: nth_list_update)
    qed
    finally show ?thesis .
  qed
qed

lemma show_nat_chars:
  "c \<in> set (show_nat n) \<Longrightarrow> is_digit c"
  using show_nat_digits [of n] by (simp add: list_all_iff)

lemma show_nat_clean:
  "CHR ''/'' \<notin> set (show_nat n)" "CHR ''-'' \<notin> set (show_nat n)" "CHR '','' \<notin> set (show_nat n)" "show_nat n \<noteq> ''*''" "show_nat n \<noteq> []"
  using show_nat_digits [of n] by (auto dest!: show_nat_chars simp: is_digit_def list_all_iff)

lemma cut_step_show:
  assumes "CHR ''/'' \<notin> set p" and "0 < step_of st" and "step_of st < 2 ^ 63"
  shows "cut_step (p @ show_step st) = Ok (int (step_of st), p)"
proof (cases st)
  case None
  then show ?thesis using str_index_absent [OF assms(1)] by (simp add: cut_step_def show_step_def step_of_def)
next
  case (Some n)
  then show ?thesis
    using str_index_char [OF assms(1), of "show_nat n"] assms(2,3)
    by (simp add: cut_step_def show_step_def step_of_def Atoi_show_nat)
qed

lemma denotes_fun:
  "denotes mn mx (Star st) = (\<lambda>v. mn \<le> v \<and> v \<le> mx \<and> step_of st dvd (v - mn))"
  "denotes mn mx (Span lo hi st) = (\<lambda>v. lo \<le> v \<and> v \<le> hi \<and> step_of st dvd (v - lo))"
  "denotes mn mx (At n) = (\<lambda>v. v = n)"
  by (auto simp: fun_eq_iff)

lemma parsePart_show:
  assumes "item_ok mn mx i" and "mx < length bits" and "mx < 2 ^ 63"
  shows "parsePart (show_item i) bits (int mn) (int mx) = Ok (set_bits (denotes mn mx i) bits)"
proof (cases i)
  case (Star st)
  then have st: "0 < step_of st" "mx + step_of st < 2 ^ 63" using assms(1) by (auto simp: step_ok_def)
  then have "cut_step (''*'' @ show_step st) = Ok (int (step_of st), ''*'')" by (intro cut_step_show) auto
  then show ?thesis
    using mark_set_bits [OF assms(2) st, of mn]
    by (simp add: Star parsePart_def denotes_fun)
next
  case (Span lo hi st)
  then have st: "0 < step_of st" "hi + step_of st < 2 ^ 63" and r: "mn \<le> lo" "lo \<le> hi" "hi \<le> mx"
    using assms(1) by (auto simp: step_ok_def)
  let ?p = "show_nat lo @ CHR ''-'' # show_nat hi"
  have "CHR ''/'' \<notin> set ?p" using show_nat_clean by auto
  then have c: "cut_step (?p @ show_step st) = Ok (int (step_of st), ?p)" using st by (intro cut_step_show) auto
  have ne: "?p \<noteq> ''*''" using show_nat_clean(5) [of lo] by (cases "show_nat lo") auto
  have ix: "str_index ?p ''-'' = Some (length (show_nat lo))" using str_index_char [OF show_nat_clean(2)] by simp
  have "lo < 2 ^ 63" "hi < 2 ^ 63" using st r by auto
  then have a: "Atoi (show_nat lo) = Some (int lo)" "Atoi (show_nat hi) = Some (int hi)" by (simp_all add: Atoi_show_nat)
  have "hi < length bits" using r assms(2) by simp
  from mark_set_bits [OF this st, of lo] show ?thesis
    using c ne ix a r by (simp add: Span parsePart_def denotes_fun)
next
  case (At v)
  then have v: "mn \<le> v" "v \<le> mx" using assms(1) by auto
  have "cut_step (show_nat v) = Ok (1, show_nat v)" using str_index_absent [OF show_nat_clean(1)] by (simp add: cut_step_def)
  moreover have "str_index (show_nat v) ''-'' = None" by (rule str_index_absent [OF show_nat_clean(2)])
  moreover have "Atoi (show_nat v) = Some (int v)" using v assms(3) by (intro Atoi_show_nat) simp
  moreover have "bits[v := True] = set_bits (\<lambda>w. w = v) bits"
    by (rule nth_equalityI) (use v assms(2) in \<open>auto simp: nth_list_update\<close>)
  ultimately show ?thesis
    using show_nat_clean(4) v assms(2) by (simp add: At parsePart_def denotes_fun)
qed

lemma parse_parts_show:
  assumes "\<forall>i \<in> set is. item_ok mn mx i" and "mx < length bits" and "mx < 2 ^ 63"
  shows "parse_parts (map show_item is) bits (int mn) (int mx) = Ok (set_bits (\<lambda>v. \<exists>i \<in> set is. denotes mn mx i v) bits)"
  using assms
proof (induction "is" arbitrary: bits)
  case Nil
  then show ?case by (auto intro: nth_equalityI)
next
  case (Cons i "is")
  then show ?case by (simp add: parsePart_show set_bits_comp)
qed

abbreviation no_space :: "string \<Rightarrow> bool" where
  "no_space \<equiv> list_all (\<lambda>c. \<not> is_space c)"

lemma is_space_chars [simp]:
  "is_space CHR '' ''" "\<not> is_space CHR ''*''" "\<not> is_space CHR ''-''" "\<not> is_space CHR ''/''" "\<not> is_space CHR '',''"
  by (simp_all add: is_space_def)

lemma digit_clean: "is_digit c \<Longrightarrow> c \<noteq> CHR '','' \<and> \<not> is_space c"
  by (auto simp: is_digit_def is_space_def)

lemma show_nat_no_space [simp]: "no_space (show_nat n)" "show_nat n \<noteq> []"
  using show_nat_digits [of n] by (auto simp: list_all_iff dest: digit_clean)

lemma show_item_clean [simp]: "CHR '','' \<notin> set (show_item i)" "no_space (show_item i)" "show_item i \<noteq> []"
  by (cases i; simp add: show_step_def show_nat_clean split: option.split)+

lemma split_show_field: "is \<noteq> [] \<Longrightarrow> split_on CHR '','' (show_field is) = map show_item is"
  by (induction "is" rule: show_field.induct) (simp_all add: split_on_none split_on_line show_item_clean)

lemma show_field_clean [simp]: "is \<noteq> [] \<Longrightarrow> show_field is \<noteq> []" "no_space (show_field is)"
  by (induction "is" rule: show_field.induct) simp_all

lemma parseField_show:
  assumes "is \<noteq> []" and "\<forall>i \<in> set is. item_ok mn mx i" and "mx < n" and "mx < 2 ^ 63"
  shows "parseField (show_field is) (replicate n False) (int mn) (int mx) =
    Ok (map (\<lambda>v. \<exists>i \<in> set is. denotes mn mx i v) [0..<n])"
proof -
  have "set_bits P (replicate n False) = map P [0..<n]" for P by (rule nth_equalityI) auto
  then show ?thesis
    using parse_parts_show [OF assms(2), of "replicate n False"] assms by (simp add: parseField_def split_show_field)
qed

lemma Fields_cons: "no_space w \<Longrightarrow> w \<noteq> [] \<Longrightarrow> Fields (w @ CHR '' '' # s) = w # Fields s"
proof -
  assume w: "no_space w" "w \<noteq> []"
  let ?f = "\<lambda>ch. if is_space ch then CHR '' '' else ch"
  have m: "map ?f w = w" using w(1) by (induction w) auto
  have "CHR '' '' \<notin> set w" using w(1) by (auto simp: list_all_iff is_space_def)
  from split_on_line [OF this, of "map ?f s"] show ?thesis using w(2) by (simp add: Fields_def m)
qed

lemma Fields_last: "no_space w \<Longrightarrow> w \<noteq> [] \<Longrightarrow> Fields w = [w]"
proof -
  assume w: "no_space w" "w \<noteq> []"
  have m: "map (\<lambda>ch. if is_space ch then CHR '' '' else ch) w = w" using w(1) by (induction w) auto
  have "CHR '' '' \<notin> set w" using w(1) by (auto simp: list_all_iff is_space_def)
  with w(2) show ?thesis by (simp add: Fields_def m split_on_none)
qed

lemma TrimSpace_none: "a \<noteq> [] \<Longrightarrow> \<not> is_space (hd a) \<Longrightarrow> b \<noteq> [] \<Longrightarrow> \<not> is_space (last b) \<Longrightarrow> TrimSpace (a @ s @ b) = a @ s @ b"
  by (cases a; cases b rule: rev_cases) (simp_all add: TrimSpace_def)

record cron_fields =
  on_minutes :: "cron_item list"
  on_hours :: "cron_item list"
  on_days :: "cron_item list"
  on_months :: "cron_item list"
  on_weekdays :: "cron_item list"

definition show_cron :: "cron_fields \<Rightarrow> string" where
  "show_cron c = show_field (on_minutes c) @ CHR '' '' # show_field (on_hours c) @ CHR '' '' # show_field (on_days c) @
     CHR '' '' # show_field (on_months c) @ CHR '' '' # show_field (on_weekdays c)"

definition field_ok :: "nat \<Rightarrow> nat \<Rightarrow> cron_item list \<Rightarrow> bool" where
  "field_ok mn mx is \<longleftrightarrow> is \<noteq> [] \<and> (\<forall>i \<in> set is. item_ok mn mx i)"

definition cron_ok :: "cron_fields \<Rightarrow> bool" where
  "cron_ok c \<longleftrightarrow> field_ok 0 59 (on_minutes c) \<and> field_ok 0 23 (on_hours c) \<and> field_ok 1 31 (on_days c) \<and>
     field_ok 1 12 (on_months c) \<and> field_ok 0 6 (on_weekdays c)"

definition listed :: "nat \<Rightarrow> nat \<Rightarrow> cron_item list \<Rightarrow> nat \<Rightarrow> bool" where
  "listed mn mx is v \<longleftrightarrow> (\<exists>i \<in> set is. denotes mn mx i v)"

lemma parseField_listed:
  "field_ok mn mx is \<Longrightarrow> mx < n \<Longrightarrow> mx < 64 \<Longrightarrow>
   parseField (show_field is) (replicate n False) (int mn) (int mx) = Ok (map (listed mn mx is) [0..<n])"
  using parseField_show [of "is" mn mx n] by (simp add: field_ok_def listed_def [abs_def])

lemma Fields_show_cron:
  assumes "cron_ok c"
  shows "Fields (TrimSpace (show_cron c)) =
    [show_field (on_minutes c), show_field (on_hours c), show_field (on_days c), show_field (on_months c), show_field (on_weekdays c)]"
proof -
  have ne: "on_minutes c \<noteq> []" "on_hours c \<noteq> []" "on_days c \<noteq> []" "on_months c \<noteq> []" "on_weekdays c \<noteq> []"
    using assms by (auto simp: cron_ok_def field_ok_def)
  have "\<not> is_space (hd (show_field is))" "\<not> is_space (last (show_field is))" if "is \<noteq> []" for "is"
    using show_field_clean(2) [of "is"] show_field_clean(1) [OF that] by (auto simp: list_all_iff)
  then have "TrimSpace (show_cron c) = show_cron c"
    using TrimSpace_none [of "show_field (on_minutes c)" "show_field (on_weekdays c)"
      "CHR '' '' # show_field (on_hours c) @ CHR '' '' # show_field (on_days c) @ CHR '' '' # show_field (on_months c) @ '' ''"] ne
    by (simp add: show_cron_def)
  with ne show ?thesis by (simp add: show_cron_def Fields_cons Fields_last)
qed

section \<open>The calendar\<close>

lemma year_day_bound: "snd (year_day y n) < (if leap (fst (year_day y n)) then 366 else 365)"
  by (induction y n rule: year_day.induct) (subst (1 2) year_day.simps, auto simp: Let_def)

lemma month_day_bound:
  "n < sum_list ls \<Longrightarrow> \<forall>l \<in> set ls. l \<le> 31 \<Longrightarrow> m \<le> fst (month_day m ls n) \<and> fst (month_day m ls n) < m + length ls \<and>
     1 \<le> snd (month_day m ls n) \<and> snd (month_day m ls n) \<le> 31"
proof (induction m ls n rule: month_day.induct)
  case (2 m l ls n)
  then show ?case by (cases "n < l") force+
qed simp

lemma t_ranges: "t_minute t < 60" "t_hour t < 24" "1 \<le> t_day t" "t_day t \<le> 31" "1 \<le> t_month t" "t_month t \<le> 12" "t_weekday t < 7"
proof -
  show "t_minute t < 60" "t_hour t < 24" "t_weekday t < 7"
    by (simp_all add: t_minute_def t_hour_def t_weekday_def nat_less_iff)
  obtain y n where yn: "year_day 2000 (nat ((t_days t - 10957) mod 146097)) = (y, n)" by fastforce
  have "n < (if leap y then 366 else 365)" using year_day_bound [of 2000 "nat ((t_days t - 10957) mod 146097)"] by (simp add: yn)
  then have "n < sum_list (month_lengths y)" by (simp add: month_lengths_def split: if_splits)
  moreover have "\<forall>l \<in> set (month_lengths y). l \<le> 31" "length (month_lengths y) = 12" by (simp_all add: month_lengths_def)
  ultimately show "1 \<le> t_day t" "t_day t \<le> 31" "1 \<le> t_month t" "t_month t \<le> 12"
    using month_day_bound [of n "month_lengths y" 1] by (simp_all add: t_day_def t_month_def t_date_def yn)
qed

section \<open>Properties\<close>


lemma next_from_least:
  "next_from s t limit = Some u \<longleftrightarrow> (\<exists>k. u = t + int k * 60000000000 \<and> u < limit \<and> Match s u \<and> (\<forall>i < k. \<not> Match s (t + int i * 60000000000)))"
proof (induction s t limit rule: next_from.induct)
  case (1 s t limit)
  let ?r = "\<lambda>t. \<exists>k. u = t + int k * 60000000000 \<and> u < limit \<and> Match s u \<and> (\<forall>i < k. \<not> Match s (t + int i * 60000000000))"
  show ?case
  proof (cases "t < limit \<and> \<not> Match s t")
    case True
    then have "next_from s t limit = next_from s (t + 60000000000) limit" by (subst next_from.simps) simp
    also have "\<dots> = Some u \<longleftrightarrow> (\<exists>k. u = t + int (Suc k) * 60000000000 \<and> u < limit \<and> Match s u \<and> (\<forall>i < k. \<not> Match s (t + int (Suc i) * 60000000000)))"
      using 1 True by (simp add: algebra_simps)
    also have "\<dots> \<longleftrightarrow> (\<exists>k. u = t + int k * 60000000000 \<and> u < limit \<and> Match s u \<and> (\<forall>i < k. \<not> Match s (t + int i * 60000000000)))"
    proof
      assume "\<exists>k. u = t + int (Suc k) * 60000000000 \<and> u < limit \<and> Match s u \<and> (\<forall>i < k. \<not> Match s (t + int (Suc i) * 60000000000))"
      then obtain k where k: "u = t + int (Suc k) * 60000000000" "u < limit" "Match s u" "\<forall>i < k. \<not> Match s (t + int (Suc i) * 60000000000)" by blast
      have "\<not> Match s (t + int i * 60000000000)" if "i < Suc k" for i using that k(4) True by (cases i) auto
      with k show "\<exists>k. u = t + int k * 60000000000 \<and> u < limit \<and> Match s u \<and> (\<forall>i < k. \<not> Match s (t + int i * 60000000000))" by blast
    next
      assume "\<exists>k. u = t + int k * 60000000000 \<and> u < limit \<and> Match s u \<and> (\<forall>i < k. \<not> Match s (t + int i * 60000000000))"
      then obtain k where k: "u = t + int k * 60000000000" "u < limit" "Match s u" "\<forall>i < k. \<not> Match s (t + int i * 60000000000)" by blast
      then obtain k' where "k = Suc k'" using True by (cases k) auto
      with k show "\<exists>k. u = t + int (Suc k) * 60000000000 \<and> u < limit \<and> Match s u \<and> (\<forall>i < k. \<not> Match s (t + int (Suc i) * 60000000000))" by blast
    qed
    finally show ?thesis .
  next
    case False
    show ?thesis
    proof (cases "t < limit")
      case True
      with False have m: "Match s t" by simp
      then have "next_from s t limit = Some t" using True by (subst next_from.simps) simp
      moreover have "?r t \<longleftrightarrow> u = t"
      proof
        assume "?r t"
        then obtain k where k: "u = t + int k * 60000000000" "\<forall>i < k. \<not> Match s (t + int i * 60000000000)" by blast
        have "k = 0"
        proof (rule ccontr)
          assume "k \<noteq> 0"
          then have "\<not> Match s (t + int 0 * 60000000000)" using k(2) by blast
          then show False using m by simp
        qed
        with k show "u = t" by simp
      next
        assume "u = t"
        then show "?r t" by (intro exI [of _ 0]) (use m True in simp)
      qed
      ultimately show ?thesis by auto
    next
      case False
      then have "next_from s t limit = None" by (subst next_from.simps) simp
      moreover have "\<not> ?r t" using False by auto
      ultimately show ?thesis by simp
    qed
  qed
qed

text \<open>C40: the search for the next run ends, and gives the first whole minute after the given time that matches,
  if there is one in the following 366 days.\<close>

theorem Next_first_match:
  "Next s after = Some u \<longleftrightarrow>
     (after < u \<and> u < after + 366 * 86400000000000 \<and> u mod 60000000000 = 0 \<and> Match s u \<and>
      \<not> (\<exists>v. after < v \<and> v < u \<and> v mod 60000000000 = 0 \<and> Match s v))"
proof -
  let ?m = "60000000000 :: int"
  let ?t = "minutes_since after * ?m + ?m"
  let ?lim = "after + 366 * 86400000000000"
  have after: "?t - ?m \<le> after" "after < ?t" by (simp_all add: minutes_since_def)
  have steps: "after < v \<and> v mod ?m = 0 \<longleftrightarrow> (\<exists>k. v = ?t + int k * ?m)" for v
  proof
    assume v: "after < v \<and> v mod ?m = 0"
    then obtain q where q: "v = q * ?m" by (metis mult.commute mod_0_imp_dvd dvdE)
    have "minutes_since after < q" using v q after by simp
    then have "v = ?t + int (nat (q - minutes_since after - 1)) * ?m" by (simp add: q algebra_simps)
    then show "\<exists>k. v = ?t + int k * ?m" by blast
  next
    assume "\<exists>k. v = ?t + int k * ?m"
    then obtain k where k: "v = ?t + int k * ?m" by blast
    then have "v = (minutes_since after + 1 + int k) * ?m" by (simp add: algebra_simps)
    then show "after < v \<and> v mod ?m = 0" using after k by auto
  qed
  have "Next s after = Some u \<longleftrightarrow> (\<exists>k. u = ?t + int k * ?m \<and> u < ?lim \<and> Match s u \<and> (\<forall>i < k. \<not> Match s (?t + int i * ?m)))"
    unfolding Next_def by (rule next_from_least)
  also have "\<dots> \<longleftrightarrow> (\<exists>k. u = ?t + int k * ?m) \<and> u < ?lim \<and> Match s u \<and> (\<forall>v. (\<exists>i. v = ?t + int i * ?m) \<and> v < u \<longrightarrow> \<not> Match s v)"
    by auto
  finally show ?thesis unfolding steps [symmetric] by auto
qed

definition ex_cron :: cron_fields where
  "ex_cron = \<lparr>on_minutes = [Star (Some 15)], on_hours = [At 6, Span 9 17 None], on_days = [Star None], on_months = [Star None],
     on_weekdays = [Span 1 5 None]\<rparr>"


text \<open>A step near the largest integer overflows the loop variable of a field that starts at one; the negative
  index is a run-time panic, which nothing recovers from in the scheduler.\<close>

lemma step_overflow_panics:
  assumes "1 \<le> mn" and "mn \<le> mx" and "mx < length bits" and "mx < 2 ^ 62" and "2 ^ 63 \<le> mn + step" and "step < 2 ^ 63"
  shows "parsePart (show_item (Star (Some step))) bits (int mn) (int mx) = Panic"
proof -
  have "cut_step (''*'' @ show_step (Some step)) = Ok (int (step_of (Some step)), ''*'')"
    by (rule cut_step_show) (use assms in \<open>auto simp: step_of_def\<close>)
  then have "parsePart (show_item (Star (Some step))) bits (int mn) (int mx) = mark (int mn) (int mx) (int step) bits"
    by (simp add: parsePart_def step_of_def)
  also have "\<dots> = mark (wrap64 (int mn + int step)) (int mx) (int step) (bits[mn := True])"
    by (subst mark.simps) (use assms in simp)
  also have "wrap64 (int mn + int step) < 0" by (rule wrap64_over) (use assms in auto)
  then have "mark (wrap64 (int mn + int step)) (int mx) (int step) (bits[mn := True]) = Panic"
    by (subst mark.simps) (use assms in simp)
  finally show ?thesis .
qed

lemma step_overflow_panics_witness:
  "show_item (Star (Some 9223372036854775807)) = ''*/9223372036854775807'' \<and>
   parsePart ''*/9223372036854775807'' (replicate 32 False) 1 31 = Panic"
proof -
  have s: "show_item (Star (Some 9223372036854775807)) = ''*/9223372036854775807''"
    by (simp add: show_step_def show_nat.simps) code_simp
  show ?thesis using step_overflow_panics [of 1 31 "replicate 32 False" 9223372036854775807] s by simp
qed

end
