(* ===== verification/CIRun.thy ===== *)
theory CIRun
  imports CIStore Trigger Expr Cron
begin

text \<open>
  The life of a workflow run: \<open>src/kailab-control/internal/api/ci.go\<close> and \<open>scheduler.go\<close>. A handler is a
  function of the CI tables. Fresh ids and the times at which rows are made come from a supply (\<open>uuid\<close>,
  \<open>clock\<close>) with the number of draws in the state; one \<open>now\<close> serves the updates of a request. Decoding
  a stored workflow and encoding matrix values are \<open>encoding/json\<close>, a parameter. Audit entries, mails and the
  HTTP responses are left out.

  A stored workflow was written by \<open>ToJSON\<close>, which always writes \<open>runs_on\<close>, so a job's labels are never a
  nil slice.
\<close>

section \<open>Creating jobs\<close>

record 'n ci_env =
  from_json :: "string \<Rightarrow> 'n workflow option"
  mat_marshal :: "'n mval \<Rightarrow> string"
  mat_fmt :: "'n \<Rightarrow> string"
  uuid :: "nat \<Rightarrow> string"
  clock :: "nat \<Rightarrow> int"

datatype create_error = BadWorkflow | OrderError wf_error | DbError db_error | DbPanic

type_synonym srv = "nat \<times> ci_db"

fun create_steps :: "'n ci_env \<Rightarrow> string \<Rightarrow> nat \<Rightarrow> wf_step list \<Rightarrow> srv \<Rightarrow> create_error option \<times> srv" where
  "create_steps env jobID i [] st = (None, st)"
| "create_steps env jobID i (s # ss) (n, db) =
     (case CreateStep (uuid env n) jobID (int i) (GetDisplayName s i) db of
        Ok (_, db) \<Rightarrow> create_steps env jobID (i + 1) ss (n + 1, db)
      | Err e \<Rightarrow> (Some (DbError e), (n + 1, db))
      | Panic \<Rightarrow> (Some DbPanic, (n + 1, db)))"

text \<open>The names of all instances of the needed jobs; no names is a nil slice.\<close>

definition expand_needs :: "(string, string list) gomap \<Rightarrow> string list \<Rightarrow> string list option" where
  "expand_needs keyToNames needs =
     (let names = concat (map (\<lambda>need. case map_of keyToNames need of Some ns \<Rightarrow> ns | None \<Rightarrow> []) needs)
      in if names = [] then None else Some names)"

definition matrix_json :: "'n ci_env \<Rightarrow> 'n combo \<Rightarrow> string" where
  "matrix_json env values = (if values = [] then [] else mat_marshal env (MObj values))"

fun create_jobs ::
  "'n ci_env \<Rightarrow> string \<Rightarrow> (string, string list) gomap \<Rightarrow> 'n expanded_job list \<Rightarrow> srv \<Rightarrow> create_error option \<times> srv" where
  "create_jobs env runID keyToNames [] st = (None, st)"
| "create_jobs env runID keyToNames (ej # ejs) (n, db) =
     (case CreateJob (clock env n) (uuid env n) runID (ej_name ej) (expand_needs keyToNames (Needs (ej_job ej)))
             (matrix_json env (ej_values ej)) (Some (RunsOn (ej_job ej))) db of
        Ok (job, db) \<Rightarrow>
          (case create_steps env (j_id job) 0 (Steps (ej_job ej)) (n + 1, db) of
             (None, st) \<Rightarrow> create_jobs env runID keyToNames ejs st
           | (Some e, st) \<Rightarrow> (Some e, st))
      | Err e \<Rightarrow> (Some (DbError e), (n + 1, db))
      | Panic \<Rightarrow> (Some DbPanic, (n + 1, db)))"

section \<open>Reusable workflows\<close>

text \<open>The path of a \<open>uses\<close> reference: without a leading dot and slash and without the part from the last at
  sign on.\<close>

definition uses_path :: "string \<Rightarrow> string" where
  "uses_path uses =
     (let path = TrimPrefix uses ''./'';
          after = takeWhile (\<lambda>ch. ch \<noteq> CHR ''@'') (rev path);
          idx = length path - length after - 1
      in if CHR ''@'' \<in> set path \<and> idx > 0 then take idx path else path)"

definition ToUpper :: "string \<Rightarrow> string" where
  "ToUpper = map (\<lambda>ch. let n = of_char ch :: nat in if 97 \<le> n \<and> n \<le> 122 then char_of (n - 32) else ch)"

definition inline_key :: "string \<Rightarrow> string \<Rightarrow> string" where
  "inline_key jobKey calledKey = jobKey @ ''/'' @ calledKey"

definition inline_job :: "string \<Rightarrow> 'n wf_job \<Rightarrow> 'n wf_job \<Rightarrow> 'n wf_job" where
  "inline_job jobKey caller called =
     called\<lparr>Needs := (if Needs called \<noteq> [] then map (inline_key jobKey) (Needs called) else Needs caller),
            job_env := foldl (\<lambda>m (k, v). AList.update (''INPUT_'' @ ToUpper k) v m) (job_env called) (job_with caller)\<rparr>"

definition resolve_ref :: "'n ci_env \<Rightarrow> ci_db \<Rightarrow> string \<Rightarrow> 'n workflow \<Rightarrow> string \<times> 'n wf_job \<Rightarrow> 'n workflow" where
  "resolve_ref env db repoID w = (\<lambda>(jobKey, job).
     case GetWorkflowByRepoAndPath db repoID (uses_path (job_uses job)) of
       Ok row \<Rightarrow>
         (case from_json env (w_json row) of
            Some called \<Rightarrow>
              if on_call (On called)
              then w\<lparr>Jobs := foldl (\<lambda>js (k, j). AList.update (inline_key jobKey k) (inline_job jobKey job j) js)
                               (AList.delete jobKey (Jobs w)) (Jobs called)\<rparr>
              else w
          | None \<Rightarrow> w)
     | _ \<Rightarrow> w)"

definition resolveReusableWorkflows :: "'n ci_env \<Rightarrow> ci_db \<Rightarrow> string \<Rightarrow> 'n workflow \<Rightarrow> 'n workflow" where
  "resolveReusableWorkflows env db repoID w =
     foldl (resolve_ref env db repoID) w (filter (\<lambda>(key, job). IsReusableWorkflowCall job) (Jobs w))"

definition key_names :: "(string, 'n expanded_job list) gomap \<Rightarrow> string list \<Rightarrow> (string, string list) gomap" where
  "key_names expanded order =
     map (\<lambda>key. (key, map ej_name (case map_of expanded key of Some ejs \<Rightarrow> ejs | None \<Rightarrow> []))) order"

definition jobs_in_order :: "(string, 'n expanded_job list) gomap \<Rightarrow> string list \<Rightarrow> 'n expanded_job list" where
  "jobs_in_order expanded order = concat (map (\<lambda>key. case map_of expanded key of Some ejs \<Rightarrow> ejs | None \<Rightarrow> []) order)"

definition createJobsFromWorkflow :: "'n ci_env \<Rightarrow> workflow_row \<Rightarrow> run_row \<Rightarrow> srv \<Rightarrow> create_error option \<times> srv" where
  "createJobsFromWorkflow env wr run st =
     (case from_json env (w_json wr) of
        None \<Rightarrow> (Some BadWorkflow, st)
      | Some parsed \<Rightarrow>
          let w = resolveReusableWorkflows env (snd st) (w_repo wr) parsed;
              expanded = ExpandJobsWithMatrix (mat_marshal env) (mat_fmt env) w
          in case GetJobOrder w of
               Ok order \<Rightarrow> create_jobs env (r_id run) (key_names expanded order) (jobs_in_order expanded order) st
             | Err e \<Rightarrow> (Some (OrderError e), st)
             | Panic \<Rightarrow> (Some DbPanic, st))"

section \<open>Starting runs\<close>

datatype http_error = NotFoundError | BadRequest | InternalError

definition http_of :: "db_error \<Rightarrow> http_error" where
  "http_of e = (if e = NotFound then NotFoundError else InternalError)"

text \<open>A new run with its jobs. Whatever the outcome of the second part, the run exists.\<close>

definition start_run ::
  "'n ci_env \<Rightarrow> workflow_row \<Rightarrow> string \<Rightarrow> string \<Rightarrow> string \<Rightarrow> string \<Rightarrow> string \<Rightarrow> string \<Rightarrow> srv \<Rightarrow> (http_error, string) go \<times> srv" where
  "start_run env wr repoID event ref sha payload createdBy = (\<lambda>(n, db).
     case CreateWorkflowRun (clock env n) (uuid env n) (w_id wr) repoID event ref sha payload createdBy db of
       Ok (run, db) \<Rightarrow>
         (case createJobsFromWorkflow env wr run (n + 1, db) of
            (None, st) \<Rightarrow> (Ok (r_id run), st)
          | (Some _, st) \<Rightarrow> (Err InternalError, st))
     | _ \<Rightarrow> (Err InternalError, (n + 1, db)))"

definition DispatchWorkflow ::
  "'n ci_env \<Rightarrow> string \<Rightarrow> string \<Rightarrow> string \<Rightarrow> string \<Rightarrow> string \<Rightarrow> srv \<Rightarrow> (http_error, string) go \<times> srv" where
  "DispatchWorkflow env repoID userID workflowID ref payload st =
     (case GetWorkflowByID (snd st) workflowID of
        Ok wr \<Rightarrow>
          if w_repo wr \<noteq> repoID then (Err NotFoundError, st)
          else if ''workflow_dispatch'' \<notin> set (w_triggers wr) then (Err BadRequest, st)
          else start_run env wr repoID ''workflow_dispatch'' ref [] payload userID st
      | Err e \<Rightarrow> (Err (http_of e), st)
      | Panic \<Rightarrow> (Panic, st))"

text \<open>Only the column lookups of the old run are repeated: nothing ties the run or its workflow to the
  repository of the request.\<close>

definition str_of :: "string option \<Rightarrow> string" where
  "str_of s = (case s of Some t \<Rightarrow> t | None \<Rightarrow> [])"

definition RerunWorkflowRun :: "'n ci_env \<Rightarrow> string \<Rightarrow> string \<Rightarrow> string \<Rightarrow> srv \<Rightarrow> (http_error, string) go \<times> srv" where
  "RerunWorkflowRun env repoID userID runID st =
     (case GetWorkflowRunByID (snd st) runID of
        Ok run \<Rightarrow>
          (case GetWorkflowByID (snd st) (r_workflow run) of
             Ok wr \<Rightarrow> start_run env wr repoID (r_event run) (r_ref run) (r_sha run) (r_payload run) userID st
           | _ \<Rightarrow> (Err InternalError, st))
      | Err e \<Rightarrow> (Err (http_of e), st)
      | Panic \<Rightarrow> (Panic, st))"

definition CancelWorkflowRun :: "int \<Rightarrow> string \<Rightarrow> ci_db \<Rightarrow> (http_error, unit) go \<times> ci_db" where
  "CancelWorkflowRun now runID db =
     (case GetWorkflowRunByID db runID of
        Ok run \<Rightarrow>
          if r_status run = RunCompleted then (Err BadRequest, db)
          else let db = CompleteWorkflowRun now runID ConclusionCancelled db
               in (Ok (), foldl (\<lambda>db j. if j_status j \<noteq> JobCompleted then CompleteJob now (j_id j) ConclusionCancelled db else db)
                            db (ListWorkflowRunJobs db runID))
      | Err e \<Rightarrow> (Err (http_of e), db)
      | Panic \<Rightarrow> (Panic, db))"

section \<open>Triggers\<close>

record ci_event =
  e_repo :: string
  e_name :: string
  e_trigger :: trigger_event
  e_payload :: string
  e_user :: string

definition trigger_type :: "string \<Rightarrow> string option" where
  "trigger_type event =
     (if event = ''push'' then Some ''push''
      else if event = ''review_created'' \<or> event = ''review_updated'' then Some ''review''
      else if event = ''schedule'' then Some ''schedule''
      else if event = ''workflow_call'' then Some ''workflow_call''
      else None)"

definition concurrency_ctx :: "'f expr_context \<Rightarrow> ci_event \<Rightarrow> string \<Rightarrow> 'f expr_context" where
  "concurrency_ctx empty_ctx ev wf_nm =
     (let ref = ev_ref (e_trigger ev) in
      empty_ctx\<lparr>GitHub := [(''repository'', XStr (e_name ev)), (''ref'', XStr ref),
        (''ref_name'', XStr (TrimPrefix (TrimPrefix ref ''refs/heads/'') ''refs/tags/'')),
        (''sha'', XStr (ev_sha (e_trigger ev))), (''event_name'', XStr (ev_type (e_trigger ev))), (''workflow'', XStr wf_nm)]\<rparr>)"

text \<open>The group is empty when the workflow asks for none.\<close>

definition concurrency_group :: "nat \<Rightarrow> 'f expr_context \<Rightarrow> ci_event \<Rightarrow> workflow_row \<Rightarrow> 'n workflow \<Rightarrow> string option" where
  "concurrency_group fuel empty_ctx ev wr w =
     (case Concurrency w of
        Some c \<Rightarrow> if conc_group c \<noteq> [] then Interpolate fuel (concurrency_ctx empty_ctx ev (w_name wr)) (conc_group c) else Some []
      | None \<Rightarrow> Some [])"

text \<open>One workflow of a trigger: it may be skipped, cancel the run that holds its group, and start a run.\<close>

definition acquire_group :: "bool \<Rightarrow> string \<Rightarrow> int \<Rightarrow> ci_db \<Rightarrow> ci_db option" where
  "acquire_group cancel grp now db =
     (if grp = [] then Some db
      else case GetConcurrencyLock db grp of
        Ok existing \<Rightarrow>
          if cancel then Some (ReleaseConcurrencyLock (k_run existing) (CompleteWorkflowRun now (k_run existing) ConclusionCancelled db))
          else None
      | _ \<Rightarrow> Some db)"

definition trigger_run :: "'n ci_env \<Rightarrow> ci_event \<Rightarrow> workflow_row \<Rightarrow> string \<Rightarrow> srv \<Rightarrow> string list \<times> srv" where
  "trigger_run env ev wr grp = (\<lambda>(n, db).
     let t = e_trigger ev in
     case CreateWorkflowRun (clock env n) (uuid env n) (w_id wr) (e_repo ev) (ev_type t) (ev_ref t) (ev_sha t) (e_payload ev) (e_user ev) db of
       Ok (run, db) \<Rightarrow>
         let (n, db) = (if grp \<noteq> [] then
               (n + 2, case AcquireConcurrencyLock (clock env (n + 1)) (uuid env (n + 1)) grp (r_id run) (e_repo ev) [] db of
                         Ok (_, db') \<Rightarrow> db' | _ \<Rightarrow> db)
             else (n + 1, db))
         in (case createJobsFromWorkflow env wr run (n, db) of
               (None, st) \<Rightarrow> ([r_id run], st)
             | (Some _, st) \<Rightarrow> ([], st))
     | _ \<Rightarrow> ([], (n + 1, db)))"

definition trigger_workflow ::
  "'n ci_env \<Rightarrow> nat \<Rightarrow> 'f expr_context \<Rightarrow> ci_event \<Rightarrow> workflow_row \<Rightarrow> srv \<Rightarrow> (string list \<times> srv) option" where
  "trigger_workflow env fuel empty_ctx ev wr st =
     (case from_json env (w_json wr) of
        None \<Rightarrow> Some ([], st)
      | Some w \<Rightarrow>
          if \<not> MatchTrigger w (e_trigger ev) then Some ([], st)
          else Option.bind (concurrency_group fuel empty_ctx ev wr w) (\<lambda>grp.
            let cancel = (case Concurrency w of Some c \<Rightarrow> CancelInProgress c | None \<Rightarrow> False) in
            Some (case acquire_group cancel grp (clock env (fst st)) (snd st) of
              None \<Rightarrow> ([], st)
            | Some db \<Rightarrow> trigger_run env ev wr grp (fst st, db))))"

fun trigger_all ::
  "'n ci_env \<Rightarrow> nat \<Rightarrow> 'f expr_context \<Rightarrow> ci_event \<Rightarrow> workflow_row list \<Rightarrow> srv \<Rightarrow> (string list \<times> srv) option" where
  "trigger_all env fuel empty_ctx ev [] st = Some ([], st)"
| "trigger_all env fuel empty_ctx ev (wr # wrs) st =
     Option.bind (trigger_workflow env fuel empty_ctx ev wr st) (\<lambda>(ids, st).
       map_option (\<lambda>(ids', st). (ids @ ids', st)) (trigger_all env fuel empty_ctx ev wrs st))"

text \<open>The handler after its look-ups; \<open>None\<close> means that a group's expression was not evaluated within the
  fuel.\<close>

definition TriggerCI ::
  "'n ci_env \<Rightarrow> nat \<Rightarrow> 'f expr_context \<Rightarrow> ci_event \<Rightarrow> srv \<Rightarrow> (http_error, string list \<times> srv) go option" where
  "TriggerCI env fuel empty_ctx ev st =
     (case trigger_type (ev_type (e_trigger ev)) of
        None \<Rightarrow> Some (Err BadRequest)
      | Some ty \<Rightarrow> map_option Ok (trigger_all env fuel empty_ctx ev (ListActiveWorkflowsByTrigger (snd st) (e_repo ev) ty) st))"

section \<open>Runners\<close>

definition needs_of :: "job_row \<Rightarrow> string list" where
  "needs_of j = (case j_needs j of Some ns \<Rightarrow> ns | None \<Rightarrow> [])"

definition conclusions :: "job_row list \<Rightarrow> (string, string) gomap" where
  "conclusions js = foldl (\<lambda>m j. if j_status j = JobCompleted then AList.update (j_name j) (str_of (j_conclusion j)) m else m) [] js"

text \<open>Jobs that wait for a failed job are cancelled. The loop is over the rows read before.\<close>

fun cancel_blocked :: "int \<Rightarrow> job_row list \<Rightarrow> (string, string) gomap \<Rightarrow> ci_db \<Rightarrow> ci_db" where
  "cancel_blocked now [] m db = db"
| "cancel_blocked now (j # js) m db =
     (if j_status j \<in> {JobQueued, JobPending} \<and> (\<exists>need \<in> set (needs_of j). map_of m need = Some ConclusionFailure)
      then cancel_blocked now js (AList.update (j_name j) ConclusionCancelled m) (CompleteJob now (j_id j) ConclusionCancelled db)
      else cancel_blocked now js m db)"

definition run_conclusion :: "job_row list \<Rightarrow> string option" where
  "run_conclusion js =
     (if \<exists>j \<in> set js. j_status j \<noteq> JobCompleted then None
      else if \<exists>j \<in> set js. j_conclusion j = Some ConclusionFailure then Some ConclusionFailure
      else if \<exists>j \<in> set js. j_conclusion j = Some ConclusionCancelled then Some ConclusionCancelled
      else Some ConclusionSuccess)"

definition checkAndCompleteWorkflowRun :: "int \<Rightarrow> string \<Rightarrow> ci_db \<Rightarrow> ci_db" where
  "checkAndCompleteWorkflowRun now runID db =
     (let js = ListWorkflowRunJobs db runID;
          db = cancel_blocked now js (conclusions js) db
      in case run_conclusion (ListWorkflowRunJobs db runID) of
           None \<Rightarrow> db
         | Some conclusion \<Rightarrow> ReleaseConcurrencyLock runID (CompleteWorkflowRun now runID conclusion db))"

definition h_StartJob :: "int \<Rightarrow> string \<Rightarrow> string \<Rightarrow> ci_db \<Rightarrow> ci_db" where
  "h_StartJob now jobID runnerName db =
     (let db = HeartbeatJob now jobID (StartJob now jobID runnerName db)
      in case GetJobByID db jobID of
           Ok job \<Rightarrow>
             (case GetWorkflowRunByID db (j_run job) of
                Ok run \<Rightarrow> if r_status run = RunQueued then UpdateWorkflowRunStatus now (r_id run) RunInProgress db else db
              | _ \<Rightarrow> db)
         | _ \<Rightarrow> db)"

definition h_CompleteJob :: "int \<Rightarrow> string \<Rightarrow> string \<Rightarrow> (string, string) gomap \<Rightarrow> string \<Rightarrow> ci_db \<Rightarrow> ci_db" where
  "h_CompleteJob now jobID conclusion outputs summary db =
     (let db = CompleteJob now jobID conclusion db;
          db = (if outputs \<noteq> [] then SetJobOutputs jobID outputs db else db);
          db = (if summary \<noteq> [] then SetJobSummary jobID summary db else db)
      in case GetJobByID db jobID of Ok job \<Rightarrow> checkAndCompleteWorkflowRun now (j_run job) db | _ \<Rightarrow> db)"

definition h_CompleteStep :: "int \<Rightarrow> string \<Rightarrow> int \<Rightarrow> string \<Rightarrow> int \<Rightarrow> ci_db \<Rightarrow> (http_error, ci_db) go" where
  "h_CompleteStep now jobID number conclusion exitCode db =
     (case GetStepByJobAndNumber db jobID number of
        Ok s \<Rightarrow> Ok (CompleteStepWithExitCode now (s_id s) conclusion exitCode db)
      | _ \<Rightarrow> Err NotFoundError)"

definition h_AppendLogs :: "int \<Rightarrow> string \<Rightarrow> string \<Rightarrow> string \<Rightarrow> string \<Rightarrow> ci_db \<Rightarrow> (http_error, ci_db) go" where
  "h_AppendLogs now newid jobID stepID content db = map_err (\<lambda>_. InternalError) (AppendJobLog now newid jobID stepID content db)"

definition h_Heartbeat :: "int \<Rightarrow> string \<Rightarrow> ci_db \<Rightarrow> ci_db" where
  "h_Heartbeat now jobID = HeartbeatJob now jobID"

definition h_RegisterRunner :: "int \<Rightarrow> string \<Rightarrow> string list \<Rightarrow> ci_db \<Rightarrow> (http_error, ci_db) go" where
  "h_RegisterRunner now runnerID labels db = (if runnerID = [] then Err BadRequest else Ok (RegisterRunner now runnerID labels db))"

text \<open>Five and forty-five minutes.\<close>

definition reapStaleJobs :: "int \<Rightarrow> ci_db \<Rightarrow> ci_db" where
  "reapStaleJobs now db =
     (case FailStaleJobs now 300 2700 db of (affected, db) \<Rightarrow> foldl (\<lambda>db runID. checkAndCompleteWorkflowRun now runID db) db affected)"

text \<open>The scheduler's tick: the first of a workflow's expressions that matches starts one run. A panic while
  parsing an expression ends the process.\<close>

fun try_schedules ::
  "'n ci_env \<Rightarrow> workflow_row \<Rightarrow> int \<Rightarrow> string list \<Rightarrow> srv \<Rightarrow> (http_error, srv) go" where
  "try_schedules env wr now [] st = Ok st"
| "try_schedules env wr now (expr # exprs) st =
     (case Parse expr of
        Panic \<Rightarrow> Panic
      | Err _ \<Rightarrow> try_schedules env wr now exprs st
      | Ok sched \<Rightarrow>
          if \<not> Match sched now then try_schedules env wr now exprs st
          else if map_of (repos (snd st)) (w_repo wr) = None then Ok st
          else Ok (snd (start_run env wr (w_repo wr) ''schedule'' ''refs/heads/main'' []
                          (marshal_map [(''schedule'', JStr expr)]) [] st)))"

definition checkAndTriggerSchedule :: "'n ci_env \<Rightarrow> int \<Rightarrow> workflow_row \<Rightarrow> srv \<Rightarrow> (http_error, srv) go" where
  "checkAndTriggerSchedule env now wr st =
     (case from_json env (w_json wr) of None \<Rightarrow> Ok st | Some w \<Rightarrow> try_schedules env wr now (on_schedule (On w)) st)"

definition runScheduledWorkflows :: "'n ci_env \<Rightarrow> int \<Rightarrow> srv \<Rightarrow> (http_error, srv) go" where
  "runScheduledWorkflows env now st =
     foldl (\<lambda>m wr. bind_go m (checkAndTriggerSchedule env now wr)) (Ok st) (ListAllScheduleWorkflows (snd st))"

text \<open>What a claimed job is sent of its surroundings: the secrets by name, a later row replacing an earlier
  one, and the outputs of the first completed job of each needed name.\<close>

definition secrets_context :: "secret_row list \<Rightarrow> (string, bytes) gomap" where
  "secrets_context rows = foldl (\<lambda>m s. AList.update (x_name s) (x_value s) m) [] rows"

definition needs_context :: "ci_db \<Rightarrow> job_row \<Rightarrow> (string, (string, string) gomap \<times> string) gomap" where
  "needs_context db job =
     foldl (\<lambda>m dep. case find (\<lambda>j. j_name j = dep \<and> j_status j = JobCompleted) (ListWorkflowRunJobs db (j_run job)) of
         Some j \<Rightarrow> AList.update dep (j_outputs j, str_of (j_conclusion j)) m
       | None \<Rightarrow> m) [] (needs_of job)"

definition h_ClaimJob ::
  "driver \<Rightarrow> int \<Rightarrow> string \<Rightarrow> string list \<Rightarrow> string list \<Rightarrow> ci_db \<Rightarrow> (http_error, job_row option) go \<times> ci_db" where
  "h_ClaimJob drv now runnerID labels filter_repos db =
     (let db = UpdateRunnerStatus now runnerID ''online'' db
      in case ClaimJob drv runnerID labels filter_repos db of
           Ok (job, db) \<Rightarrow> (Ok job, db)
         | Err _ \<Rightarrow> (Err InternalError, db)
         | Panic \<Rightarrow> (Panic, db))"

end
