(* ===== verification/CIQueue.thy ===== *)
theory CIQueue
  imports CIRun
begin

text \<open>
  The job queue of the control plane as a state machine over the handlers of \<open>CIRun\<close>: what requests can do
  to the jobs, that a job is handed out at most once, what claiming selects, and which jobs can never run.
\<close>

section \<open>How requests change the jobs\<close>

text \<open>What no operation changes in a job.\<close>

definition job_core :: "job_row \<Rightarrow> string \<times> string \<times> string \<times> string list option \<times> string list option \<times> int" where
  "job_core j = (j_id j, j_run j, j_name j, j_needs j, j_runs_on j, j_created j)"

text \<open>Operations other than claiming keep the runner of a job and never make it queued again; new jobs belong
  to new runs and have no runner.\<close>

definition keeps_job :: "(job_row \<Rightarrow> job_row) \<Rightarrow> bool" where
  "keeps_job f \<longleftrightarrow> (\<forall>j. job_core (f j) = job_core j \<and> j_runner (f j) = j_runner j \<and> (j_status (f j) = JobQueued \<longrightarrow> j_status j = JobQueued))"

definition jobs_evolve :: "ci_db \<Rightarrow> ci_db \<Rightarrow> bool" where
  "jobs_evolve db db' \<longleftrightarrow> r_id ` set (runs db) \<subseteq> r_id ` set (runs db') \<and> (\<exists>f new. keeps_job f \<and> jobs db' = map f (jobs db) @ new \<and>
     (\<forall>j \<in> set new. j_runner j = None \<and> j_run j \<notin> r_id ` set (runs db)) \<and>
     distinct (map j_id new) \<and> set (map j_id new) \<inter> set (map j_id (jobs db)) = {})"

lemma keeps_jobD:
  "keeps_job f \<Longrightarrow> j_id (f j) = j_id j" "keeps_job f \<Longrightarrow> j_run (f j) = j_run j" "keeps_job f \<Longrightarrow> j_name (f j) = j_name j"
  "keeps_job f \<Longrightarrow> j_needs (f j) = j_needs j" "keeps_job f \<Longrightarrow> j_runs_on (f j) = j_runs_on j"
  "keeps_job f \<Longrightarrow> j_runner (f j) = j_runner j" "keeps_job f \<Longrightarrow> j_created (f j) = j_created j"
  "keeps_job f \<Longrightarrow> j_status (f j) = JobQueued \<Longrightarrow> j_status j = JobQueued"
  by (auto simp: keeps_job_def job_core_def)

lemma keeps_job_comp: "keeps_job f \<Longrightarrow> keeps_job g \<Longrightarrow> keeps_job (g \<circ> f)"
  unfolding keeps_job_def by (metis comp_apply)

lemma keeps_job_id [simp]: "keeps_job (\<lambda>j. j)"
  by (simp add: keeps_job_def)

lemma map_ids: "keeps_job f \<Longrightarrow> map j_id (map f js) = map j_id js"
  by (simp add: keeps_jobD)

lemma jobs_evolve_refl [simp]: "jobs_evolve db db"
  unfolding jobs_evolve_def by (intro conjI exI [of _ "\<lambda>j. j"] exI [of _ "[]"]) simp_all

lemma jobs_evolve_trans:
  assumes "jobs_evolve a b" and "jobs_evolve b c"
  shows "jobs_evolve a c"
proof -
  obtain f new where f: "keeps_job f" "jobs b = map f (jobs a) @ new"
    "\<forall>j \<in> set new. j_runner j = None \<and> j_run j \<notin> r_id ` set (runs a)" "distinct (map j_id new)"
    "set (map j_id new) \<inter> set (map j_id (jobs a)) = {}"
    using assms(1) by (auto simp: jobs_evolve_def)
  obtain g new' where g: "keeps_job g" "jobs c = map g (jobs b) @ new'"
    "\<forall>j \<in> set new'. j_runner j = None \<and> j_run j \<notin> r_id ` set (runs b)" "distinct (map j_id new')"
    "set (map j_id new') \<inter> set (map j_id (jobs b)) = {}"
    using assms(2) by (auto simp: jobs_evolve_def)
  have sub: "r_id ` set (runs a) \<subseteq> r_id ` set (runs b)" "r_id ` set (runs b) \<subseteq> r_id ` set (runs c)"
    using assms by (auto simp: jobs_evolve_def)
  have ids: "set (map j_id (jobs b)) = set (map j_id (jobs a)) \<union> set (map j_id new)"
    using f(1) by (auto simp: f(2) keeps_jobD image_image)
  show ?thesis unfolding jobs_evolve_def
  proof (intro conjI exI)
    show "r_id ` set (runs a) \<subseteq> r_id ` set (runs c)" using sub by blast
    show "keeps_job (g \<circ> f)" by (rule keeps_job_comp [OF f(1) g(1)])
    show "jobs c = map (g \<circ> f) (jobs a) @ (map g new @ new')" by (simp add: f(2) g(2))
    show "\<forall>j \<in> set (map g new @ new'). j_runner j = None \<and> j_run j \<notin> r_id ` set (runs a)"
      using f(3) g(3) subsetD [OF sub(1)] by (fastforce simp: keeps_jobD [OF g(1)])
    show "distinct (map j_id (map g new @ new'))"
      using f(4) g(4,5) ids by (auto simp: comp_def keeps_jobD [OF g(1)])
    show "set (map j_id (map g new @ new')) \<inter> set (map j_id (jobs a)) = {}"
      using f(5) g(5) ids by (auto simp: keeps_jobD [OF g(1)])
  qed
qed

lemma jobs_evolve_foldl: "(\<And>db x. jobs_evolve db (f db x)) \<Longrightarrow> jobs_evolve db (foldl f db xs)"
  by (induction xs arbitrary: db) (auto intro: jobs_evolve_trans)

lemma jobs_evolve_update:
  assumes "\<And>j. job_core (f j) = job_core j \<and> j_runner (f j) = j_runner j \<and> (j_status (f j) = JobQueued \<longrightarrow> j_status j = JobQueued)"
  shows "jobs_evolve db (update_job i f db)"
  unfolding jobs_evolve_def update_job_def update_where_def
  by (intro conjI exI [of _ "\<lambda>j. if j_id j = i then f j else j"] exI [of _ "[]"])
    (use assms in \<open>simp_all add: keeps_job_def\<close>)

named_theorems evolve

lemma evolve_job_ops [evolve]:
  "jobs_evolve db (StartJob now i r db)" "jobs_evolve db (CompleteJob now i c db)"
  "jobs_evolve db (HeartbeatJob now i db)" "jobs_evolve db (SetJobOutputs i outputs db)" "jobs_evolve db (SetJobSummary i summary db)"
  unfolding StartJob_def CompleteJob_def HeartbeatJob_def SetJobOutputs_def SetJobSummary_def
  by (rule jobs_evolve_update; simp add: job_core_def)+

lemma run_ids [simp]:
  "map r_id (runs (UpdateWorkflowRunStatus now i st db)) = map r_id (runs db)"
  "map r_id (runs (CompleteWorkflowRun now i c db)) = map r_id (runs db)"
  by (simp_all add: UpdateWorkflowRunStatus_def CompleteWorkflowRun_def map_update_where)

lemma jobs_evolve_same: "jobs db' = jobs db \<Longrightarrow> map r_id (runs db') = map r_id (runs db) \<Longrightarrow> jobs_evolve db db'"
proof -
  assume j: "jobs db' = jobs db" and "map r_id (runs db') = map r_id (runs db)"
  then have "r_id ` set (runs db') = r_id ` set (runs db)" by (metis set_map)
  with j show ?thesis
    unfolding jobs_evolve_def by (intro conjI exI [of _ "\<lambda>j. j"] exI [of _ "[]"]) simp_all
qed

lemma evolve_run_ops [evolve]:
  "jobs_evolve db (UpdateWorkflowRunStatus now i st db)" "jobs_evolve db (CompleteWorkflowRun now i c db)"
  "jobs_evolve db (ReleaseConcurrencyLock i db)"
  by (rule jobs_evolve_same; simp add: UpdateWorkflowRunStatus_def CompleteWorkflowRun_def ReleaseConcurrencyLock_def map_update_where)+

lemma evolve_cancel_blocked [evolve]: "jobs_evolve db (cancel_blocked now js m db)"
  by (induction now js m db rule: cancel_blocked.induct) (auto intro: jobs_evolve_trans evolve)

lemma evolve_check [evolve]: "jobs_evolve db (checkAndCompleteWorkflowRun now i db)"
  unfolding checkAndCompleteWorkflowRun_def Let_def
  by (auto split: option.split intro!: evolve intro: jobs_evolve_trans [OF evolve_cancel_blocked] jobs_evolve_trans [OF evolve_run_ops(2)])

lemma evolve_start [evolve]: "jobs_evolve db (h_StartJob now i r db)"
proof -
  have "jobs_evolve db (HeartbeatJob now i (StartJob now i r db))" by (rule jobs_evolve_trans; rule evolve)
  then show ?thesis
    unfolding h_StartJob_def Let_def
    by (auto split: go.split intro: jobs_evolve_trans [OF _ evolve_run_ops(1)])
qed

lemma evolve_complete [evolve]: "jobs_evolve db (h_CompleteJob now i c outputs summary db)"
proof -
  define a where "a = CompleteJob now i c db"
  define b where "b = (if outputs \<noteq> [] then SetJobOutputs i outputs a else a)"
  define d where "d = (if summary \<noteq> [] then SetJobSummary i summary b else b)"
  have "jobs_evolve db a" "jobs_evolve a b" "jobs_evolve b d" by (simp_all add: a_def b_def d_def evolve)
  then have "jobs_evolve db d" by (blast intro: jobs_evolve_trans)
  then show ?thesis
    unfolding h_CompleteJob_def Let_def a_def [symmetric] b_def [symmetric] d_def [symmetric]
    by (auto split: go.split intro: jobs_evolve_trans [OF _ evolve_check])
qed

lemma evolve_reap [evolve]: "jobs_evolve db (reapStaleJobs now db)"
proof -
  have "jobs_evolve db (snd (FailStaleJobs now 300 2700 db))"
    unfolding FailStaleJobs_def Let_def snd_conv by (rule jobs_evolve_foldl) (rule evolve)
  then show ?thesis
    unfolding reapStaleJobs_def case_prod_beta by (rule jobs_evolve_trans) (rule jobs_evolve_foldl, rule evolve)
qed

lemma evolve_cancel [evolve]: "jobs_evolve db (snd (CancelWorkflowRun now i db))"
proof -
  have "jobs_evolve d (foldl (\<lambda>db j. if j_status j \<noteq> JobCompleted then CompleteJob now (j_id j) ConclusionCancelled db else db) d js)" for d js
    by (rule jobs_evolve_foldl) (simp add: evolve)
  then show ?thesis
    unfolding CancelWorkflowRun_def Let_def
    by (auto split: go.split intro: jobs_evolve_trans [OF evolve_run_ops(2)])
qed
section \<open>New runs\<close>

lemma CreateStep_jobs: "CreateStep newid i n name db = Ok (s, db') \<Longrightarrow> jobs db' = jobs db \<and> runs db' = runs db"
  by (auto simp: CreateStep_def Let_def split: if_splits)

lemma create_steps_jobs:
  "jobs (snd (snd (create_steps env i n ss (k, db)))) = jobs db \<and> runs (snd (snd (create_steps env i n ss (k, db)))) = runs db"
proof (induction ss arbitrary: n k db)
  case (Cons s ss)
  then show ?case by (auto split: go.split dest!: CreateStep_jobs)
qed simp

definition adds_jobs :: "string \<Rightarrow> ci_db \<Rightarrow> ci_db \<Rightarrow> bool" where
  "adds_jobs runID db db' \<longleftrightarrow> runs db' = runs db \<and> (\<exists>new. jobs db' = jobs db @ new \<and>
     (\<forall>j \<in> set new. j_runner j = None \<and> j_run j = runID \<and> j_status j = JobQueued) \<and> distinct (map j_id new) \<and>
     set (map j_id new) \<inter> set (map j_id (jobs db)) = {})"

lemma adds_jobs_refl: "jobs db' = jobs db \<Longrightarrow> runs db' = runs db \<Longrightarrow> adds_jobs i db db'"
  by (simp add: adds_jobs_def)

lemma adds_jobs_trans:
  assumes "adds_jobs i a b" and "adds_jobs i b c"
  shows "adds_jobs i a c"
proof -
  obtain n where n: "jobs b = jobs a @ n" "\<forall>j \<in> set n. j_runner j = None \<and> j_run j = i \<and> j_status j = JobQueued"
    "distinct (map j_id n)" "set (map j_id n) \<inter> set (map j_id (jobs a)) = {}"
    using assms(1) by (auto simp: adds_jobs_def)
  obtain m where m: "jobs c = jobs b @ m" "\<forall>j \<in> set m. j_runner j = None \<and> j_run j = i \<and> j_status j = JobQueued"
    "distinct (map j_id m)" "set (map j_id m) \<inter> set (map j_id (jobs b)) = {}"
    using assms(2) by (auto simp: adds_jobs_def)
  show ?thesis unfolding adds_jobs_def
    by (intro conjI exI [of _ "n @ m"]) (use assms n m in \<open>auto simp: adds_jobs_def\<close>)
qed

lemma CreateJob_adds: "CreateJob now newid i name needs mat ro db = Ok (job, db') \<Longrightarrow> adds_jobs i db db'"
  by (auto simp: CreateJob_def Let_def adds_jobs_def split: if_splits)

lemma create_jobs_adds: "adds_jobs i db (snd (snd (create_jobs env i names ejs (n, db))))"
proof (induction ejs arbitrary: n db)
  case (Cons ej ejs)
  show ?case
  proof (cases "CreateJob (clock env n) (uuid env n) i (ej_name ej) (expand_needs names (Needs (ej_job ej)))
      (matrix_json env (ej_values ej)) (Some (RunsOn (ej_job ej))) db")
    case (Ok r)
    obtain job db1 where r: "r = (job, db1)" by (cases r)
    obtain e n2 db2 where s: "create_steps env (j_id job) 0 (Steps (ej_job ej)) (n + 1, db1) = (e, n2, db2)"
      by (metis prod_cases3)
    have "adds_jobs i db db1" using CreateJob_adds Ok r by blast
    moreover have "adds_jobs i db1 db2"
      using create_steps_jobs [of env "j_id job" 0 "Steps (ej_job ej)" "n + 1" db1] s by (intro adds_jobs_refl) auto
    ultimately have "adds_jobs i db db2" by (rule adds_jobs_trans)
    then show ?thesis using Ok r s Cons.IH [of db2 n2] by (cases e) (auto intro: adds_jobs_trans)
  qed (simp_all add: adds_jobs_refl)
qed (simp add: adds_jobs_refl)

lemma createJobs_adds: "adds_jobs (r_id run) db (snd (snd (createJobsFromWorkflow env wr run (n, db))))"
  using create_jobs_adds [of "r_id run" db env _ _ n]
  by (auto simp: createJobsFromWorkflow_def Let_def adds_jobs_refl split: option.split go.split)

lemma evolve_new_run:
  assumes "runs db1 = runs db @ [run]" and "jobs db1 = jobs db" and "r_id run \<notin> set (map r_id (runs db))" and "adds_jobs (r_id run) db1 db2"
  shows "jobs_evolve db db2"
proof -
  obtain new where n: "jobs db2 = jobs db1 @ new" "\<forall>j \<in> set new. j_runner j = None \<and> j_run j = r_id run \<and> j_status j = JobQueued"
    "distinct (map j_id new)" "set (map j_id new) \<inter> set (map j_id (jobs db1)) = {}" "runs db2 = runs db1"
    using assms(4) by (auto simp: adds_jobs_def)
  show ?thesis unfolding jobs_evolve_def
    by (intro conjI exI [of _ "\<lambda>j. j"] exI [of _ new]) (use assms(1-3) n in auto)
qed

lemma CreateWorkflowRun_new:
  "CreateWorkflowRun now newid w repo ev ref sha payload by_user db = Ok (run, db') \<Longrightarrow>
   runs db' = runs db @ [run] \<and> jobs db' = jobs db \<and> r_id run \<notin> set (map r_id (runs db)) \<and> r_id run = newid"
  by (auto simp: CreateWorkflowRun_def Let_def split: if_splits)

lemma evolve_start_run [evolve]: "jobs_evolve db (snd (snd (start_run env wr repo ev ref sha payload user (n, db))))"
proof (cases "CreateWorkflowRun (clock env n) (uuid env n) (w_id wr) repo ev ref sha payload user db")
  case (Ok r)
  obtain run db1 where r: "r = (run, db1)" by (cases r)
  note c = CreateWorkflowRun_new [OF Ok [unfolded r]]
  have "jobs_evolve db (snd (snd (createJobsFromWorkflow env wr run (n + 1, db1))))"
    by (rule evolve_new_run [OF _ _ _ createJobs_adds]) (use c in auto)
  then show ?thesis using Ok r by (auto simp: start_run_def split: prod.split option.split) 
qed (simp_all add: start_run_def)

lemma AcquireConcurrencyLock_jobs:
  "AcquireConcurrencyLock now newid g run repo job db = Ok (x, db') \<Longrightarrow> jobs db' = jobs db \<and> runs db' = runs db"
  by (auto simp: AcquireConcurrencyLock_def Let_def split: if_splits go.splits)

lemma evolve_trigger_run [evolve]: "jobs_evolve db (snd (snd (trigger_run env ev wr grp (n, db))))"
proof (cases "CreateWorkflowRun (clock env n) (uuid env n) (w_id wr) (e_repo ev) (ev_type (e_trigger ev)) (ev_ref (e_trigger ev))
    (ev_sha (e_trigger ev)) (e_payload ev) (e_user ev) db")
  case (Ok r)
  obtain run db1 where r: "r = (run, db1)" by (cases r)
  note c = CreateWorkflowRun_new [OF Ok [unfolded r]]
  obtain m db2 where l: "(if grp \<noteq> [] then (n + 2, case AcquireConcurrencyLock (clock env (n + 1)) (uuid env (n + 1)) grp (r_id run) (e_repo ev) [] db1 of
      Ok (_, db') \<Rightarrow> db' | _ \<Rightarrow> db1) else (n + 1, db1)) = (m, db2)" by (metis prod.exhaust)
  have db2: "jobs db2 = jobs db1" "runs db2 = runs db1"
    using l AcquireConcurrencyLock_jobs by (fastforce split: if_splits go.splits)+
  have "jobs_evolve db (snd (snd (createJobsFromWorkflow env wr run (m, db2))))"
    by (rule evolve_new_run [OF _ _ _ createJobs_adds]) (use c db2 in auto)
  then show ?thesis using Ok r l by (auto simp: trigger_run_def Let_def split: prod.split option.split)
qed (simp_all add: trigger_run_def)

lemma evolve_acquire: "acquire_group cancel grp now db = Some db' \<Longrightarrow> jobs_evolve db db'"
  by (auto simp: acquire_group_def split: if_splits go.splits intro!: jobs_evolve_trans [OF evolve_run_ops(2) evolve_run_ops(3)])
section \<open>The queue as a state machine\<close>

text \<open>The tables, the claims in flight (a runner's request that has selected a job and not yet taken it), the
  jobs handed out so far, each with its runner, and the ids drawn. Requests interleave at the level of their
  database statements where claiming is concerned. A runner reports only on jobs it was given.\<close>

record queue_state =
  q_db :: ci_db
  q_selected :: "(string \<times> string) list"
  q_claims :: "(string \<times> string) list"
  q_drawn :: nat

datatype queue_act = AStart | ATrigger string | ASelect | ATake | AStartJob string | ACompleteJob string string
  | ABeat | AReap | ACancel string

inductive queue_step :: "'n ci_env \<Rightarrow> driver \<Rightarrow> queue_act \<Rightarrow> queue_state \<Rightarrow> queue_state \<Rightarrow> bool" for env drv where
  start: "start_run env wr repo ev ref sha payload user (q_drawn s, q_db s) = (out, n, db) \<Longrightarrow>
    queue_step env drv AStart s (s\<lparr>q_db := db, q_drawn := n\<rparr>)"
| trigger: "acquire_group cancel grp now (q_db s) = Some db1 \<Longrightarrow> trigger_run env ev wr grp (q_drawn s, db1) = (ids, n, db) \<Longrightarrow>
    queue_step env drv (ATrigger grp) s (s\<lparr>q_db := db, q_drawn := n\<rparr>)"
| select: "select_job drv labels allowed (q_db s) = Ok (Some job) \<Longrightarrow>
    queue_step env drv ASelect s (s\<lparr>q_selected := (runner, job) # q_selected s\<rparr>)"
| take: "(runner, job) \<in> set (q_selected s) \<Longrightarrow> take_job runner job (q_db s) = (found, db) \<Longrightarrow>
    queue_step env drv ATake s (s\<lparr>q_db := db, q_selected := remove1 (runner, job) (q_selected s),
      q_claims := (case found of Some _ \<Rightarrow> (job, runner) # q_claims s | None \<Rightarrow> q_claims s)\<rparr>)"
| start_job: "(job, runner) \<in> set (q_claims s) \<Longrightarrow>
    queue_step env drv (AStartJob job) s (s\<lparr>q_db := h_StartJob now job name (q_db s)\<rparr>)"
| complete_job: "(job, runner) \<in> set (q_claims s) \<Longrightarrow>
    queue_step env drv (ACompleteJob job conclusion) s (s\<lparr>q_db := h_CompleteJob now job conclusion outputs summary (q_db s)\<rparr>)"
| beat: "(job, runner) \<in> set (q_claims s) \<Longrightarrow>
    queue_step env drv ABeat s (s\<lparr>q_db := h_Heartbeat now job (q_db s)\<rparr>)"
| reap: "queue_step env drv AReap s (s\<lparr>q_db := reapStaleJobs now (q_db s)\<rparr>)"
| cancel: "queue_step env drv (ACancel run) s (s\<lparr>q_db := snd (CancelWorkflowRun now run (q_db s))\<rparr>)"

inductive queue_steps :: "'n ci_env \<Rightarrow> driver \<Rightarrow> queue_act list \<Rightarrow> queue_state \<Rightarrow> queue_state \<Rightarrow> bool" for env drv where
  none: "queue_steps env drv [] s s"
| more: "queue_step env drv a s t \<Longrightarrow> queue_steps env drv as t u \<Longrightarrow> queue_steps env drv (a # as) s u"

inductive_cases queue_stepE: "queue_step env drv a s t"
inductive_simps queue_steps_Nil [simp]: "queue_steps env drv [] s t"
inductive_simps queue_steps_Cons: "queue_steps env drv (a # as) s t"

definition queue_init :: "queue_state \<Rightarrow> bool" where
  "queue_init s \<longleftrightarrow> jobs (q_db s) = [] \<and> q_claims s = []"

text \<open>Every step but taking a job evolves the jobs.\<close>

lemma queue_step_evolves:
  assumes "queue_step env drv a s t" and "a \<noteq> ATake"
  shows "jobs_evolve (q_db s) (q_db t) \<and> q_claims t = q_claims s"
  using assms
proof (cases rule: queue_step.cases)
  case (start wr repo ev ref sha payload user out n db)
  then show ?thesis using evolve_start_run [of "q_db s" env wr repo ev ref sha payload user "q_drawn s"] by simp
next
  case (trigger cancel grp now db1 ev wr ids n db)
  then show ?thesis
    using evolve_trigger_run [of db1 env ev wr grp "q_drawn s"] evolve_acquire by (fastforce intro: jobs_evolve_trans)
qed (auto simp: h_Heartbeat_def intro: evolve)

lemma take_job_cases:
  assumes "take_job runner job db = (found, db')"
  obtains (taken) j where "j \<in> set (jobs db)" "j_id j = job" "j_status j = JobQueued" "found \<noteq> None"
      "db' = db\<lparr>jobs := update_where (\<lambda>j. j_id j = job \<and> j_status j = JobQueued) (\<lambda>j. j\<lparr>j_runner := Some runner, j_status := JobPending\<rparr>) (jobs db)\<rparr>"
    | (missed) "found = None" "db' = db"
proof (cases "\<exists>j \<in> set (jobs db). j_id j = job \<and> j_status j = JobQueued")
  case True
  then obtain j where j: "j \<in> set (jobs db)" "j_id j = job" "j_status j = JobQueued" by blast
  have "find (\<lambda>j. j_id j = job) (update_where (\<lambda>j. j_id j = job \<and> j_status j = JobQueued)
      (\<lambda>j. j\<lparr>j_runner := Some runner, j_status := JobPending\<rparr>) (jobs db)) \<noteq> None"
    using j by (auto simp: find_None_iff set_update_where)
  moreover have "take_job runner job db = (find (\<lambda>j. j_id j = job) (jobs db2), db2)"
    if "db2 = db\<lparr>jobs := update_where (\<lambda>j. j_id j = job \<and> j_status j = JobQueued)
      (\<lambda>j. j\<lparr>j_runner := Some runner, j_status := JobPending\<rparr>) (jobs db)\<rparr>" for db2
    unfolding that take_job_def Let_def by (rule if_not_P) (use True in blast)
  ultimately show ?thesis using assms by (intro taken [OF j]) auto
next
  case False
  then show ?thesis using assms by (intro missed) (auto simp: take_job_def)
qed

definition queue_inv :: "queue_state \<Rightarrow> bool" where
  "queue_inv s \<longleftrightarrow> distinct (map j_id (jobs (q_db s))) \<and>
     (\<forall>j \<in> set (jobs (q_db s)). j_status j = JobQueued \<longrightarrow> j_runner j = None) \<and>
     (\<forall>(job, runner) \<in> set (q_claims s). \<exists>j \<in> set (jobs (q_db s)). j_id j = job \<and> j_runner j = Some runner) \<and>
     distinct (map fst (q_claims s))"

lemma claim_row:
  assumes "queue_inv s" and "(job, r) \<in> set (q_claims s)"
  obtains j where "j \<in> set (jobs (q_db s))" "j_id j = job" "j_runner j = Some r"
proof -
  have "\<forall>(job, runner) \<in> set (q_claims s). \<exists>j \<in> set (jobs (q_db s)). j_id j = job \<and> j_runner j = Some runner"
    using assms(1) by (simp add: queue_inv_def)
  from bspec [OF this assms(2)] show ?thesis using that by auto
qed

lemma queue_inv_evolve:
  assumes i: "queue_inv s" and e: "jobs_evolve (q_db s) (q_db t)" and c: "q_claims t = q_claims s"
  shows "queue_inv t"
proof -
  obtain f new where f: "keeps_job f" "jobs (q_db t) = map f (jobs (q_db s)) @ new"
    "\<forall>j \<in> set new. j_runner j = None" "distinct (map j_id new)" "set (map j_id new) \<inter> set (map j_id (jobs (q_db s))) = {}"
    using e by (auto simp: jobs_evolve_def)
  note k = keeps_jobD [OF f(1)]
  show ?thesis unfolding queue_inv_def
  proof (intro conjI ballI impI)
    show "distinct (map j_id (jobs (q_db t)))"
      using i f(4,5) by (auto simp: queue_inv_def f(2) k comp_def)
    show "distinct (map fst (q_claims t))" using i c by (simp add: queue_inv_def)
  next
    fix j assume "j \<in> set (jobs (q_db t))" "j_status j = JobQueued"
    then show "j_runner j = None" using i f(3) k(8) by (auto simp: queue_inv_def f(2) k(6))
  next
    fix x assume "x \<in> set (q_claims t)"
    moreover obtain job runner where x: "x = (job, runner)" by (cases x)
    ultimately have "(job, runner) \<in> set (q_claims s)" using c by simp
    from claim_row [OF i this] obtain j where "j \<in> set (jobs (q_db s))" "j_id j = job" "j_runner j = Some runner" .
    moreover from this have "f j \<in> set (jobs (q_db t))" by (simp add: f(2))
    ultimately show "case x of (job, runner) \<Rightarrow> \<exists>j \<in> set (jobs (q_db t)). j_id j = job \<and> j_runner j = Some runner"
      unfolding x prod.case using k(1,6) [of j] by (intro bexI [of _ "f j"]) simp_all
  qed
qed

lemma queue_inv_take:
  assumes i: "queue_inv s" and t: "take_job runner job (q_db s) = (found, db')" and q: "q_db t = db'"
    and c: "q_claims t = (case found of Some _ \<Rightarrow> (job, runner) # q_claims s | None \<Rightarrow> q_claims s)"
  shows "queue_inv t"
  using t
proof (cases rule: take_job_cases)
  case (taken j)
  let ?f = "\<lambda>j. if j_id j = job \<and> j_status j = JobQueued then j\<lparr>j_runner := Some runner, j_status := JobPending\<rparr> else j"
  have jobs: "jobs (q_db t) = map ?f (jobs (q_db s))" by (simp add: q taken update_where_def)
  have cl: "q_claims t = (job, runner) # q_claims s" using taken(4) c by auto
  have ids: "map j_id (jobs (q_db t)) = map j_id (jobs (q_db s))" by (simp add: jobs)
  have d: "distinct (map j_id (jobs (q_db s)))" using i by (simp add: queue_inv_def)
  have uniq: "j' = j" if "j' \<in> set (jobs (q_db s))" "j_id j' = job" for j'
    using d that taken(1,2) by (metis eq_key_imp_eq_value distinct_map inj_onD)
  have free: "job \<notin> fst ` set (q_claims s)"
  proof
    assume "job \<in> fst ` set (q_claims s)"
    then obtain r where "(job, r) \<in> set (q_claims s)" by auto
    from claim_row [OF i this] obtain j' where "j' \<in> set (jobs (q_db s))" "j_id j' = job" "j_runner j' = Some r" .
    moreover have "j_runner j = None" using i taken(1,3) by (simp add: queue_inv_def)
    ultimately show False using uniq by auto
  qed
  show ?thesis unfolding queue_inv_def
  proof (intro conjI ballI impI)
    show "distinct (map j_id (jobs (q_db t)))" using d ids by simp
    show "distinct (map fst (q_claims t))" using i free cl by (simp add: queue_inv_def)
  next
    fix j' assume "j' \<in> set (jobs (q_db t))" "j_status j' = JobQueued"
    then show "j_runner j' = None" using i by (auto simp: jobs queue_inv_def split: if_splits)
  next
    fix x assume "x \<in> set (q_claims t)"
    then consider "x = (job, runner)" | "x \<in> set (q_claims s)" using cl by auto
    then show "case x of (job, runner) \<Rightarrow> \<exists>j \<in> set (jobs (q_db t)). j_id j = job \<and> j_runner j = Some runner"
    proof cases
      case 1
      have "?f j \<in> set (jobs (q_db t))" unfolding jobs set_map using taken(1) by (rule imageI)
      then show ?thesis unfolding 1 prod.case using taken(2,3) by (intro bexI [of _ "?f j"]) simp_all
    next
      case 2
      obtain job' r where x: "x = (job', r)" by (cases x)
      obtain j' where j': "j' \<in> set (jobs (q_db s))" "j_id j' = job'" "j_runner j' = Some r"
        using claim_row [OF i 2 [unfolded x]] .
      then have "?f j' = j'" using i by (auto simp: queue_inv_def)
      moreover have "?f j' \<in> set (jobs (q_db t))" unfolding jobs set_map using j'(1) by (rule imageI)
      ultimately show ?thesis unfolding x prod.case using j'(2,3) by (intro bexI [of _ j']) simp_all
    qed
  qed
next
  case missed
  then show ?thesis using i c q by (simp add: queue_inv_def)
qed

lemma queue_inv_step: "queue_step env drv a s t \<Longrightarrow> queue_inv s \<Longrightarrow> queue_inv t"
proof (cases "a = ATake")
  case True
  assume st: "queue_step env drv a s t" and i: "queue_inv s"
  from st True obtain runner job found db where "take_job runner job (q_db s) = (found, db)"
      "t = s\<lparr>q_db := db, q_selected := remove1 (runner, job) (q_selected s),
        q_claims := (case found of Some _ \<Rightarrow> (job, runner) # q_claims s | None \<Rightarrow> q_claims s)\<rparr>"
    by (auto elim: queue_stepE)
  with queue_inv_take [OF i, of runner job found db t] show "queue_inv t" by simp
qed (auto dest: queue_step_evolves intro: queue_inv_evolve)

lemma queue_inv_steps: "queue_steps env drv as s t \<Longrightarrow> queue_inv s \<Longrightarrow> queue_inv t"
  by (induction rule: queue_steps.induct) (auto intro: queue_inv_step)

lemma queue_inv_init: "queue_init s \<Longrightarrow> queue_inv s"
  by (simp add: queue_init_def queue_inv_def)

text \<open>C37: however requests interleave, a job is handed out at most once, and its row keeps the runner it was
  handed to.\<close>

theorem claimed_at_most_once:
  assumes "queue_init s" and "queue_steps env drv as s t"
  shows "distinct (map fst (q_claims t)) \<and>
    (\<forall>job runner. (job, runner) \<in> set (q_claims t) \<longrightarrow> (\<exists>j \<in> set (jobs (q_db t)). j_id j = job \<and> j_runner j = Some runner))"
  using queue_inv_steps [OF assms(2) queue_inv_init [OF assms(1)]] by (auto simp: queue_inv_def)

section \<open>Jobs left alone\<close>

text \<open>What decides about a job's future.\<close>

definition job_view :: "job_row \<Rightarrow> (string \<times> string \<times> string \<times> string list option \<times> string list option \<times> int) \<times> job_status \<times> string option \<times> string option" where
  "job_view j = (job_core j, j_status j, j_conclusion j, j_runner j)"

definition quiet_by :: "(job_row \<Rightarrow> bool) \<Rightarrow> ci_db \<Rightarrow> ci_db \<Rightarrow> (job_row \<Rightarrow> job_row) \<Rightarrow> job_row list \<Rightarrow> bool" where
  "quiet_by P db db' f new \<longleftrightarrow> r_id ` set (runs db) \<subseteq> r_id ` set (runs db') \<and> jobs db' = map f (jobs db) @ new \<and>
     (\<forall>j. job_core (f j) = job_core j) \<and> (\<forall>j \<in> set (jobs db). P j \<longrightarrow> job_view (f j) = job_view j) \<and>
     (\<forall>j \<in> set new. j_run j \<notin> r_id ` set (runs db))"

definition quiet :: "(job_row \<Rightarrow> bool) \<Rightarrow> ci_db \<Rightarrow> ci_db \<Rightarrow> bool" where
  "quiet P db db' \<longleftrightarrow> (\<exists>f new. quiet_by P db db' f new)"

lemma quiet_byI: "quiet_by P db db' f new \<Longrightarrow> quiet P db db'"
  unfolding quiet_def by blast

text \<open>The jobs of a predicate are told by what never changes.\<close>

definition by_core :: "(job_row \<Rightarrow> bool) \<Rightarrow> bool" where
  "by_core P \<longleftrightarrow> (\<forall>j j'. job_core j = job_core j' \<longrightarrow> P j = P j')"

lemma quiet_refl [simp]: "quiet P db db"
  by (rule quiet_byI [of _ _ _ "\<lambda>j. j" "[]"]) (simp add: quiet_by_def)

lemma quiet_trans:
  assumes P: "by_core P" and ab: "quiet P a b" and bc: "quiet P b c"
  shows "quiet P a c"
proof -
  obtain f n where fn: "quiet_by P a b f n" using ab unfolding quiet_def by blast
  obtain g m where gm: "quiet_by P b c g m" using bc unfolding quiet_def by blast
  have f: "jobs b = map f (jobs a) @ n" "\<And>j. job_core (f j) = job_core j"
    "\<And>j. j \<in> set (jobs a) \<Longrightarrow> P j \<Longrightarrow> job_view (f j) = job_view j" "\<forall>j \<in> set n. j_run j \<notin> r_id ` set (runs a)"
    and sub1: "r_id ` set (runs a) \<subseteq> r_id ` set (runs b)"
    using fn by (simp_all add: quiet_by_def)
  have g: "jobs c = map g (jobs b) @ m" "\<And>j. job_core (g j) = job_core j"
    "\<And>j. j \<in> set (jobs b) \<Longrightarrow> P j \<Longrightarrow> job_view (g j) = job_view j" "\<forall>j \<in> set m. j_run j \<notin> r_id ` set (runs b)"
    and sub2: "r_id ` set (runs b) \<subseteq> r_id ` set (runs c)"
    using gm by (simp_all add: quiet_by_def)
  have gr: "j_run (g j) = j_run j" for j using g(2) [of j] by (simp add: job_core_def)
  have "quiet_by P a c (g \<circ> f) (map g n @ m)" unfolding quiet_by_def
  proof (intro conjI ballI allI impI)
    show "r_id ` set (runs a) \<subseteq> r_id ` set (runs c)" using sub1 sub2 by blast
    show "jobs c = map (g \<circ> f) (jobs a) @ (map g n @ m)" by (simp add: f(1) g(1))
    show "job_core ((g \<circ> f) j) = job_core j" for j by (simp add: f(2) g(2))
    show "job_view ((g \<circ> f) j) = job_view j" if "j \<in> set (jobs a)" "P j" for j
    proof -
      have "P (f j) = P j" using P f(2) unfolding by_core_def by blast
      then have "P (f j)" using that(2) by simp
      moreover have "f j \<in> set (jobs b)" using that(1) by (simp add: f(1))
      ultimately show ?thesis using g(3) f(3) that by simp
    qed
    show "j_run j \<notin> r_id ` set (runs a)" if "j \<in> set (map g n @ m)" for j
      using that f(4) g(4) subsetD [OF sub1] by (auto simp: gr)
  qed
  then show ?thesis by (rule quiet_byI)
qed

lemma quiet_update:
  assumes "\<And>j. j \<in> set (jobs db) \<Longrightarrow> P j \<Longrightarrow> j_id j \<noteq> i" and "\<And>j. job_core (f j) = job_core j"
  shows "quiet P db (update_job i f db)"
  by (rule quiet_byI [of _ _ _ "\<lambda>j. if j_id j = i then f j else j" "[]"])
    (use assms in \<open>simp add: quiet_by_def update_job_def update_where_def\<close>)

lemma quiet_jobs: "jobs db' = jobs db \<Longrightarrow> map r_id (runs db') = map r_id (runs db) \<Longrightarrow> quiet P db db'"
  by (rule quiet_byI [of _ _ _ "\<lambda>j. j" "[]"]) (auto simp: quiet_by_def dest: arg_cong [where f = set])

lemma quiet_ops:
  assumes "\<And>j. j \<in> set (jobs db) \<Longrightarrow> P j \<Longrightarrow> j_id j \<noteq> i"
  shows "quiet P db (StartJob now i r db)" "quiet P db (CompleteJob now i c db)" "quiet P db (HeartbeatJob now i db)"
    "quiet P db (SetJobOutputs i outputs db)" "quiet P db (SetJobSummary i summary db)"
  unfolding StartJob_def CompleteJob_def HeartbeatJob_def SetJobOutputs_def SetJobSummary_def
  by (rule quiet_update [OF assms]; simp add: job_core_def)+

lemma quiet_run_ops:
  "quiet P db (UpdateWorkflowRunStatus now i st db)" "quiet P db (CompleteWorkflowRun now i c db)"
  "quiet P db (ReleaseConcurrencyLock i db)"
  by (rule quiet_jobs; simp add: UpdateWorkflowRunStatus_def CompleteWorkflowRun_def ReleaseConcurrencyLock_def map_update_where)+

section \<open>A job whose needs were cancelled\<close>

text \<open>The job \<open>c\<close> of a run is queued and has needs, every job of these names was cancelled without having
  been handed out, and no claim of \<open>c\<close> is in flight.\<close>

definition watched :: "string \<Rightarrow> string \<Rightarrow> string list \<Rightarrow> job_row \<Rightarrow> bool" where
  "watched run c needs j \<longleftrightarrow> j_run j = run \<and> (j_id j = c \<or> j_name j \<in> set needs)"

definition blocked_job :: "ci_db \<Rightarrow> string \<Rightarrow> string \<Rightarrow> string list \<Rightarrow> bool" where
  "blocked_job db run c needs \<longleftrightarrow> run \<in> r_id ` set (runs db) \<and> needs \<noteq> [] \<and>
     (\<exists>j \<in> set (jobs db). j_id j = c \<and> j_run j = run \<and> j_status j = JobQueued \<and> j_needs j = Some needs) \<and>
     (\<forall>j \<in> set (jobs db). j_run j = run \<longrightarrow> j_id j = c \<longrightarrow> j_status j = JobQueued \<and> j_runner j = None \<and> j_needs j = Some needs) \<and>
     (\<forall>d \<in> set (jobs db). j_run d = run \<longrightarrow> j_name d \<in> set needs \<longrightarrow>
        j_status d = JobCompleted \<and> j_conclusion d = Some ConclusionCancelled \<and> j_runner d = None)"

lemma by_core_watched: "by_core (watched run c needs)"
  by (auto simp: by_core_def watched_def job_core_def)

lemma blocked_quiet:
  assumes b: "blocked_job db run c needs" and q: "quiet (watched run c needs) db db'"
  shows "blocked_job db' run c needs"
proof -
  obtain f new where fn: "quiet_by (watched run c needs) db db' f new" using q unfolding quiet_def by blast
  have f: "jobs db' = map f (jobs db) @ new" "\<And>j. job_core (f j) = job_core j"
    "\<And>j. j \<in> set (jobs db) \<Longrightarrow> watched run c needs j \<Longrightarrow> job_view (f j) = job_view j"
    "\<And>j. j \<in> set new \<Longrightarrow> j_run j \<notin> r_id ` set (runs db)" "r_id ` set (runs db) \<subseteq> r_id ` set (runs db')"
    using fn by (simp_all add: quiet_by_def)
  have run: "run \<in> r_id ` set (runs db)" using b by (simp add: blocked_job_def)
  have core: "j_id (f j) = j_id j" "j_run (f j) = j_run j" "j_name (f j) = j_name j" "j_needs (f j) = j_needs j" for j
    using f(2) [of j] by (auto simp: job_core_def)
  have view: "j_status (f j) = j_status j" "j_conclusion (f j) = j_conclusion j" "j_runner (f j) = j_runner j"
    if "j \<in> set (jobs db)" "watched run c needs j" for j
    using f(3) [OF that] by (auto simp: job_view_def)
  have old: "\<exists>i \<in> set (jobs db). j = f i" if "j \<in> set (jobs db')" "j_run j = run" for j
    using that f(1,4) run by auto
  show ?thesis unfolding blocked_job_def
  proof (intro conjI ballI impI)
    show "run \<in> r_id ` set (runs db')" using run f(5) by blast
    show "needs \<noteq> []" using b by (simp add: blocked_job_def)
    obtain j where j: "j \<in> set (jobs db)" "j_id j = c" "j_run j = run" "j_status j = JobQueued" "j_needs j = Some needs"
      using b unfolding blocked_job_def by blast
    have "watched run c needs j" using j by (simp add: watched_def)
    moreover have "f j \<in> set (jobs db')" using j(1) by (simp add: f(1))
    ultimately show "\<exists>j \<in> set (jobs db'). j_id j = c \<and> j_run j = run \<and> j_status j = JobQueued \<and> j_needs j = Some needs"
      using j view core by (intro bexI [of _ "f j"]) simp_all
  next
    fix j assume j: "j \<in> set (jobs db')" "j_run j = run"
    obtain i where i: "i \<in> set (jobs db)" "j = f i" using old [OF j] by blast
    {
      assume "j_id j = c"
      then have w: "watched run c needs i" "j_id i = c" "j_run i = run" using i j by (auto simp: watched_def core)
      then show "j_status j = JobQueued" "j_runner j = None" "j_needs j = Some needs"
        using b i view [OF i(1) w(1)] core by (auto simp: blocked_job_def)
    next
      assume "j_name j \<in> set needs"
      then have w: "watched run c needs i" "j_name i \<in> set needs" "j_run i = run" using i j by (auto simp: watched_def core)
      then show "j_status j = JobCompleted" "j_conclusion j = Some ConclusionCancelled" "j_runner j = None"
        using b i view [OF i(1) w(1)] by (auto simp: blocked_job_def)
    }
  qed
qed
text \<open>The ids of the watched jobs.\<close>

definition watch_ids :: "(job_row \<Rightarrow> bool) \<Rightarrow> ci_db \<Rightarrow> string set \<Rightarrow> bool" where
  "watch_ids P db A \<longleftrightarrow> (\<forall>j \<in> set (jobs db). P j \<longrightarrow> j_id j \<in> A)"

lemma watch_ids_CompleteJob: "by_core P \<Longrightarrow> watch_ids P db A \<Longrightarrow> watch_ids P (CompleteJob now i c db) A"
proof -
  assume P: "by_core P" and w: "watch_ids P db A"
  have "P (j\<lparr>j_status := st, j_conclusion := co, j_completed := t\<rparr>) = P j" for j st co t
    using P [unfolded by_core_def, rule_format, of "j\<lparr>j_status := st, j_conclusion := co, j_completed := t\<rparr>" j]
    by (simp add: job_core_def)
  then show ?thesis using w by (auto simp: watch_ids_def CompleteJob_def update_job_def set_update_where)
qed

lemma quiet_CompleteJobs:
  assumes P: "by_core P" and "watch_ids P db A" and "\<forall>j \<in> set js. test j \<longrightarrow> j_id j \<notin> A"
  shows "quiet P db (foldl (\<lambda>db j. if test j then CompleteJob now (j_id j) c db else db) db js)"
  using assms(2,3)
proof (induction js arbitrary: db)
  case (Cons j js)
  show ?case
  proof (cases "test j")
    case True
    have "quiet P db (CompleteJob now (j_id j) c db)"
      by (rule quiet_ops) (use Cons.prems True in \<open>auto simp: watch_ids_def\<close>)
    moreover have "quiet P (CompleteJob now (j_id j) c db) (foldl (\<lambda>db j. if test j then CompleteJob now (j_id j) c db else db) (CompleteJob now (j_id j) c db) js)"
      using Cons watch_ids_CompleteJob [OF P] by simp
    ultimately show ?thesis using True quiet_trans [OF P] by simp
  next
    case False
    then show ?thesis using Cons by simp
  qed
qed simp

lemma quiet_cancel_blocked:
  assumes P: "by_core P" and "watch_ids P db A" and "{n. map_of m n = Some ConclusionFailure} \<subseteq> F"
    and "\<forall>j \<in> set js. j_status j \<in> {JobQueued, JobPending} \<longrightarrow> set (needs_of j) \<inter> F \<noteq> {} \<longrightarrow> j_id j \<notin> A"
  shows "quiet P db (cancel_blocked now js m db)"
  using assms(2-4)
proof (induction js arbitrary: m db)
  case (Cons j js)
  let ?b = "j_status j \<in> {JobQueued, JobPending} \<and> (\<exists>need \<in> set (needs_of j). map_of m need = Some ConclusionFailure)"
  show ?case
  proof (cases ?b)
    case True
    let ?db = "CompleteJob now (j_id j) ConclusionCancelled db"
    let ?m = "AList.update (j_name j) ConclusionCancelled m"
    have id: "j_id j \<notin> A" using Cons.prems(2,3) True by auto
    have "quiet P db ?db"
      by (rule quiet_ops) (use Cons.prems(1) id in \<open>auto simp: watch_ids_def\<close>)
    moreover have "quiet P ?db (cancel_blocked now js ?m ?db)"
    proof (rule Cons.IH)
      show "watch_ids P ?db A" by (rule watch_ids_CompleteJob [OF P Cons.prems(1)])
      show "{n. map_of ?m n = Some ConclusionFailure} \<subseteq> F" using Cons.prems(2) by (auto split: if_splits)
    qed (use Cons.prems(3) in simp)
    ultimately have "quiet P db (cancel_blocked now js ?m ?db)" by (rule quiet_trans [OF P])
    with True show ?thesis by (simp only: cancel_blocked.simps if_P)
  next
    case False
    then have "cancel_blocked now (j # js) m db = cancel_blocked now js m db" by (simp only: cancel_blocked.simps if_False)
    with Cons.IH [OF Cons.prems(1,2)] Cons.prems(3) show ?thesis by simp
  qed
qed simp

lemma conclusions_snoc:
  "conclusions (js @ [j]) = (if j_status j = JobCompleted then AList.update (j_name j) (str_of (j_conclusion j)) (conclusions js) else conclusions js)"
  by (simp add: conclusions_def)

lemma conclusions_Some:
  "map_of (conclusions js) n = Some v \<Longrightarrow> \<exists>j \<in> set js. j_name j = n \<and> j_status j = JobCompleted \<and> str_of (j_conclusion j) = v"
proof (induction js rule: rev_induct)
  case (snoc j js)
  then show ?case by (auto simp: conclusions_snoc split: if_splits)
qed (simp add: conclusions_def)

lemma evolve_distinct: "jobs_evolve db db' \<Longrightarrow> distinct (map j_id (jobs db)) \<Longrightarrow> distinct (map j_id (jobs db'))"
  by (auto simp: jobs_evolve_def comp_def keeps_jobD) blast

lemma same_id: "distinct (map j_id js) \<Longrightarrow> i \<in> set js \<Longrightarrow> j \<in> set js \<Longrightarrow> j_id i = j_id j \<Longrightarrow> i = j"
  by (metis distinct_map inj_onD)

lemma run_jobs_set: "set (ListWorkflowRunJobs db r) = {j \<in> set (jobs db). j_run j = r}"
  by (auto simp: ListWorkflowRunJobs_def)

lemma blocked_check:
  assumes b: "blocked_job db run c needs" and d: "distinct (map j_id (jobs db))"
  shows "quiet (watched run c needs) db (checkAndCompleteWorkflowRun now r db)"
proof -
  let ?W = "watched run c needs"
  let ?js = "ListWorkflowRunJobs db r"
  let ?F = "{n. map_of (conclusions ?js) n = Some ConclusionFailure}"
  have "quiet ?W db (cancel_blocked now ?js (conclusions ?js) db)"
  proof (rule quiet_cancel_blocked [OF by_core_watched, where A = "j_id ` {j \<in> set (jobs db). ?W j}" and F = ?F])
    show "\<forall>j \<in> set ?js. j_status j \<in> {JobQueued, JobPending} \<longrightarrow> set (needs_of j) \<inter> ?F \<noteq> {} \<longrightarrow>
        j_id j \<notin> j_id ` {j \<in> set (jobs db). ?W j}"
    proof (intro ballI impI notI)
      fix j assume j: "j \<in> set ?js" "j_status j \<in> {JobQueued, JobPending}" "set (needs_of j) \<inter> ?F \<noteq> {}"
        and "j_id j \<in> j_id ` {j \<in> set (jobs db). ?W j}"
      then have w: "?W j" "j \<in> set (jobs db)" using same_id [OF d] by (auto simp: run_jobs_set)
      have "j_name j \<notin> set needs" using b w j(2) by (auto simp: blocked_job_def watched_def)
      then have c: "j_id j = c" "j_run j = run" using w(1) by (auto simp: watched_def)
      then have n: "needs_of j = needs" using b w(2) by (simp add: blocked_job_def needs_of_def)
      obtain need where need: "need \<in> set needs" "map_of (conclusions ?js) need = Some ConclusionFailure"
        using j(3) n by auto
      obtain dep where dep: "dep \<in> set ?js" "j_name dep = need" "str_of (j_conclusion dep) = ConclusionFailure"
        using conclusions_Some [OF need(2)] by blast
      have "j_run dep = run" "dep \<in> set (jobs db)" using dep(1) j(1) c by (auto simp: run_jobs_set)
      then have "j_conclusion dep = Some ConclusionCancelled" using b dep(2) need(1) by (simp add: blocked_job_def)
      then show False using dep(3) by (simp add: str_of_def)
    qed
  qed (auto simp: watch_ids_def)
  moreover have "quiet ?W db' (ReleaseConcurrencyLock r (CompleteWorkflowRun now r x db'))" for db' x
    by (rule quiet_trans [OF by_core_watched quiet_run_ops(2) quiet_run_ops(3)])
  ultimately show ?thesis
    unfolding checkAndCompleteWorkflowRun_def Let_def
    by (auto split: option.split intro: quiet_trans [OF by_core_watched])
qed

lemma blocked_checks:
  assumes "blocked_job db run c needs" and "distinct (map j_id (jobs db))"
  shows "quiet (watched run c needs) db (foldl (\<lambda>db r. checkAndCompleteWorkflowRun now r db) db rs)"
  using assms
proof (induction rs arbitrary: db)
  case (Cons r rs)
  let ?db = "checkAndCompleteWorkflowRun now r db"
  note q = blocked_check [OF Cons.prems, of now r]
  have "quiet (watched run c needs) ?db (foldl (\<lambda>db r. checkAndCompleteWorkflowRun now r db) ?db rs)"
    by (rule Cons.IH [OF blocked_quiet [OF Cons.prems(1) q] evolve_distinct [OF evolve_check Cons.prems(2)]])
  from quiet_trans [OF by_core_watched q this] show ?case by simp
qed simp
lemma blocked_update:
  assumes b: "blocked_job db run c needs" and q: "quiet (watched run c needs) db db1" and e: "jobs_evolve db db1"
    and d: "distinct (map j_id (jobs db))"
  shows "quiet (watched run c needs) db (checkAndCompleteWorkflowRun now r db1)"
  by (rule quiet_trans [OF by_core_watched q blocked_check [OF blocked_quiet [OF b q] evolve_distinct [OF e d]]])

lemma watched_unclaimed:
  assumes i: "queue_inv s" and cl: "(i, runner) \<in> set (q_claims s)" and b: "blocked_job (q_db s) run c needs"
    and j: "j \<in> set (jobs (q_db s))" "watched run c needs j"
  shows "j_id j \<noteq> i"
proof
  assume id: "j_id j = i"
  obtain j' where j': "j' \<in> set (jobs (q_db s))" "j_id j' = i" "j_runner j' = Some runner"
    using claim_row [OF i cl] .
  have "j = j'" using i j'(1,2) id j(1) by (auto simp: queue_inv_def intro: same_id)
  moreover have "j_runner j = None" using b j by (auto simp: blocked_job_def watched_def)
  ultimately show False using j'(3) by simp
qed

lemma quiet_ids:
  assumes P: "by_core W" and q: "quiet W a b" and "map j_id (jobs b) = map j_id (jobs a)"
    and "\<And>j. j \<in> set (jobs a) \<Longrightarrow> W j \<Longrightarrow> j_id j \<noteq> i"
  shows "j \<in> set (jobs b) \<Longrightarrow> W j \<Longrightarrow> j_id j \<noteq> i"
proof -
  obtain f new where f: "quiet_by W a b f new" using q unfolding quiet_def by blast
  have "length (jobs b) = length (jobs a)" using assms(3) by (metis length_map)
  then have jb: "jobs b = map f (jobs a)" using f by (simp add: quiet_by_def)
  assume j: "j \<in> set (jobs b)" "W j"
  then obtain k where k: "k \<in> set (jobs a)" "j = f k" by (auto simp: jb)
  have "job_core j = job_core k" using f k(2) by (simp add: quiet_by_def)
  then have "W j = W k" using P unfolding by_core_def by blast
  then have "j_id k \<noteq> i" using assms(4) [OF k(1)] j(2) by simp
  then show "j_id j \<noteq> i" using \<open>job_core j = job_core k\<close> by (simp add: job_core_def)
qed

lemma update_job_ids [simp]:
  "map j_id (jobs (StartJob now i r db)) = map j_id (jobs db)"
  "map j_id (jobs (CompleteJob now i c db)) = map j_id (jobs db)"
  "map j_id (jobs (SetJobOutputs i outputs db)) = map j_id (jobs db)"
  "map j_id (jobs (SetJobSummary i summary db)) = map j_id (jobs db)"
  by (simp_all add: StartJob_def CompleteJob_def SetJobOutputs_def SetJobSummary_def update_job_def map_update_where)

lemma blocked_h_StartJob:
  assumes "\<And>j. j \<in> set (jobs db) \<Longrightarrow> W j \<Longrightarrow> j_id j \<noteq> i" and P: "by_core W"
  shows "quiet W db (h_StartJob now i name db)"
proof -
  let ?db = "StartJob now i name db"
  have a: "quiet W db ?db" by (rule quiet_ops [OF assms(1)])
  have ids: "j_id j \<noteq> i" if "j \<in> set (jobs ?db)" "W j" for j
    by (rule quiet_ids [OF P a _ assms(1) that]) simp_all
  have "quiet W ?db (HeartbeatJob now i ?db)" by (rule quiet_ops [OF ids])
  then have h: "quiet W db (HeartbeatJob now i ?db)" by (rule quiet_trans [OF P a])
  then have "quiet W db (UpdateWorkflowRunStatus now k st (HeartbeatJob now i ?db))" for k st
    by (rule quiet_trans [OF P _ quiet_run_ops(1)])
  with h show ?thesis unfolding h_StartJob_def Let_def by (auto split: go.split)
qed

lemma blocked_h_CompleteJob:
  assumes b: "blocked_job db run c needs" and d: "distinct (map j_id (jobs db))"
    and n: "\<And>j. j \<in> set (jobs db) \<Longrightarrow> watched run c needs j \<Longrightarrow> j_id j \<noteq> i"
  shows "quiet (watched run c needs) db (h_CompleteJob now i co outputs summary db)"
proof -
  let ?W = "watched run c needs"
  note P = by_core_watched [of run c needs]
  define a where "a = CompleteJob now i co db"
  define a2 where "a2 = (if outputs \<noteq> [] then SetJobOutputs i outputs a else a)"
  define a3 where "a3 = (if summary \<noteq> [] then SetJobSummary i summary a2 else a2)"
  have qa: "quiet ?W db a" unfolding a_def by (rule quiet_ops [OF n])
  have na: "j_id j \<noteq> i" if "j \<in> set (jobs a)" "?W j" for j
    by (rule quiet_ids [OF P qa _ n that]) (simp_all add: a_def)
  have q2: "quiet ?W a a2" using quiet_ops(4) [OF na] by (simp add: a2_def)
  have n2: "j_id j \<noteq> i" if "j \<in> set (jobs a2)" "?W j" for j
    by (rule quiet_ids [OF P q2 _ na that]) (simp_all add: a2_def)
  have q3: "quiet ?W a2 a3" using quiet_ops(5) [OF n2] by (simp add: a3_def)
  have q: "quiet ?W db a3" by (rule quiet_trans [OF P quiet_trans [OF P qa q2] q3])
  have e: "jobs_evolve db a3"
  proof -
    have "jobs_evolve db a" "jobs_evolve a a2" "jobs_evolve a2 a3" by (simp_all add: a_def a2_def a3_def evolve)
    then show ?thesis by (blast intro: jobs_evolve_trans)
  qed
  show ?thesis
    unfolding h_CompleteJob_def Let_def a_def [symmetric] a2_def [symmetric] a3_def [symmetric]
    using q blocked_update [OF b q e d] by (auto split: go.split)
qed

lemma blocked_reap:
  assumes b: "blocked_job db run c needs" and d: "distinct (map j_id (jobs db))"
  shows "quiet (watched run c needs) db (reapStaleJobs now db)"
proof -
  let ?W = "watched run c needs"
  let ?found = "filter (stale (now - 300) (now - 2700)) (jobs db)"
  let ?db = "foldl (\<lambda>db j. CompleteJob now (j_id j) ConclusionFailure db) db ?found"
  have no: "j_id j \<notin> j_id ` {j \<in> set (jobs db). ?W j}" if "j \<in> set ?found" for j
  proof
    assume "j_id j \<in> j_id ` {j \<in> set (jobs db). ?W j}"
    then have "?W j" using same_id [OF d] that by auto
    moreover have "j_status j \<in> {JobInProgress, JobPending}" using that by (auto simp: stale_def split: option.splits)
    ultimately show False using b that by (auto simp: blocked_job_def watched_def)
  qed
  have "quiet ?W db (foldl (\<lambda>db j. if True then CompleteJob now (j_id j) ConclusionFailure db else db) db ?found)"
    by (rule quiet_CompleteJobs [OF by_core_watched, where A = "j_id ` {j \<in> set (jobs db). ?W j}"]) (use no in \<open>auto simp: watch_ids_def\<close>)
  then have q: "quiet ?W db ?db" by simp
  have e: "jobs_evolve db ?db" by (rule jobs_evolve_foldl) (rule evolve)
  have "quiet ?W db (foldl (\<lambda>db r. checkAndCompleteWorkflowRun now r db) ?db rs)" for rs
    by (rule quiet_trans [OF by_core_watched q blocked_checks [OF blocked_quiet [OF b q] evolve_distinct [OF e d]]])
  then show ?thesis by (simp add: reapStaleJobs_def FailStaleJobs_def Let_def)
qed

lemma blocked_cancel_other:
  assumes b: "blocked_job db run c needs" and d: "distinct (map j_id (jobs db))" and "r \<noteq> run"
  shows "quiet (watched run c needs) db (snd (CancelWorkflowRun now r db))"
proof -
  let ?W = "watched run c needs"
  let ?db = "CompleteWorkflowRun now r ConclusionCancelled db"
  have j: "jobs ?db = jobs db" by (simp add: CompleteWorkflowRun_def)
  have "quiet ?W ?db (foldl (\<lambda>db j. if j_status j \<noteq> JobCompleted then CompleteJob now (j_id j) ConclusionCancelled db else db) ?db (ListWorkflowRunJobs ?db r))"
  proof (rule quiet_CompleteJobs [OF by_core_watched, where A = "j_id ` {j \<in> set (jobs db). ?W j}"])
    show "\<forall>j \<in> set (ListWorkflowRunJobs ?db r). j_status j \<noteq> JobCompleted \<longrightarrow> j_id j \<notin> j_id ` {j \<in> set (jobs db). ?W j}"
      using same_id [OF d] assms(3) by (auto simp: run_jobs_set j watched_def)
  qed (auto simp: watch_ids_def j)
  from quiet_trans [OF by_core_watched quiet_run_ops(2) this] show ?thesis
    unfolding CancelWorkflowRun_def Let_def by (auto split: go.split)
qed

lemma quiet_new_run:
  assumes "runs db1 = runs db @ [run]" and "jobs db1 = jobs db" and "r_id run \<notin> set (map r_id (runs db))" and "adds_jobs (r_id run) db1 db2"
  shows "quiet P db db2"
proof -
  obtain new where n: "jobs db2 = jobs db1 @ new" "\<forall>j \<in> set new. j_runner j = None \<and> j_run j = r_id run \<and> j_status j = JobQueued"
    "runs db2 = runs db1"
    using assms(4) by (auto simp: adds_jobs_def)
  show ?thesis
    by (rule quiet_byI [of _ _ _ "\<lambda>j. j" new]) (use assms(1-3) n in \<open>auto simp: quiet_by_def\<close>)
qed

lemma quiet_start_run: "quiet P db (snd (snd (start_run env wr repo ev ref sha payload user (n, db))))"
proof (cases "CreateWorkflowRun (clock env n) (uuid env n) (w_id wr) repo ev ref sha payload user db")
  case (Ok r)
  obtain run db1 where r: "r = (run, db1)" by (cases r)
  note c = CreateWorkflowRun_new [OF Ok [unfolded r]]
  have "quiet P db (snd (snd (createJobsFromWorkflow env wr run (n + 1, db1))))"
    by (rule quiet_new_run [OF _ _ _ createJobs_adds]) (use c in auto)
  then show ?thesis using Ok r by (auto simp: start_run_def split: prod.split option.split)
qed (simp_all add: start_run_def)

lemma quiet_trigger_run: "quiet P db (snd (snd (trigger_run env ev wr grp (n, db))))"
proof (cases "CreateWorkflowRun (clock env n) (uuid env n) (w_id wr) (e_repo ev) (ev_type (e_trigger ev)) (ev_ref (e_trigger ev))
    (ev_sha (e_trigger ev)) (e_payload ev) (e_user ev) db")
  case (Ok r)
  obtain run db1 where r: "r = (run, db1)" by (cases r)
  note c = CreateWorkflowRun_new [OF Ok [unfolded r]]
  obtain m db2 where l: "(if grp \<noteq> [] then (n + 2, case AcquireConcurrencyLock (clock env (n + 1)) (uuid env (n + 1)) grp (r_id run) (e_repo ev) [] db1 of
      Ok (_, db') \<Rightarrow> db' | _ \<Rightarrow> db1) else (n + 1, db1)) = (m, db2)" by (metis prod.exhaust)
  have db2: "jobs db2 = jobs db1" "runs db2 = runs db1"
    using l AcquireConcurrencyLock_jobs by (fastforce split: if_splits go.splits)+
  have "quiet P db (snd (snd (createJobsFromWorkflow env wr run (m, db2))))"
    by (rule quiet_new_run [OF _ _ _ createJobs_adds]) (use c db2 in auto)
  then show ?thesis using Ok r l by (auto simp: trigger_run_def Let_def split: prod.split option.split)
qed (simp_all add: trigger_run_def)

lemma quiet_acquire: "by_core P \<Longrightarrow> acquire_group cancel grp now db = Some db' \<Longrightarrow> quiet P db db'"
  by (auto simp: acquire_group_def split: if_splits go.splits intro!: quiet_trans [OF _ quiet_run_ops(2) quiet_run_ops(3)])

lemma pg_candidates_set:
  "pg_candidates labels allowed db = Ok cs \<Longrightarrow> j \<in> set cs \<Longrightarrow> j \<in> set (jobs db) \<and> j_status j = JobQueued \<and> pg_needs_ok db j"
  by (auto simp: pg_candidates_def Let_def split: if_splits)

lemma blocked_not_selected:
  assumes b: "blocked_job db run c needs" and s: "select_job Postgres labels allowed db = Ok (Some job)"
    and d: "distinct (map j_id (jobs db))"
  shows "job \<noteq> c"
proof
  assume "job = c"
  obtain x where x: "pg_candidates (expand_labels labels) allowed db = Ok x" "(case x of [] \<Rightarrow> None | j # _ \<Rightarrow> Some (j_id j)) = Some c"
    using s \<open>job = c\<close> by (auto simp: select_job_def bind_go_Ok_iff)
  then obtain j xs where xs: "x = j # xs" "j_id j = c" by (cases x) auto
  note cs = x(1) [unfolded xs(1)]
  have j: "j \<in> set (jobs db)" "pg_needs_ok db j"
    using pg_candidates_set [OF cs, of j] by simp_all
  obtain i where i: "i \<in> set (jobs db)" "j_id i = c" "j_run i = run" "j_needs i = Some needs"
    using b unfolding blocked_job_def by blast
  have "j = i" using same_id [OF d j(1) i(1)] xs(2) i(2) by simp
  obtain need where need: "need \<in> set needs" using b by (cases needs) (auto simp: blocked_job_def)
  have "dep_done db run ConclusionSuccess need" using j(2) need i by (simp add: \<open>j = i\<close> pg_needs_ok_def)
  then obtain dep where "dep \<in> set (jobs db)" "j_run dep = run" "j_name dep = need" "j_conclusion dep = Some ConclusionSuccess"
    by (auto simp: dep_done_def)
  then show False using b need by (auto simp: blocked_job_def)
qed

lemma blocked_take:
  assumes b: "blocked_job db run c needs" and "job \<noteq> c" and t: "take_job runner job db = (found, db')"
  shows "quiet (watched run c needs) db db'"
  using t
proof (cases rule: take_job_cases)
  case (taken j)
  show ?thesis
    by (rule quiet_byI [of _ _ _ "\<lambda>j. if j_id j = job \<and> j_status j = JobQueued then j\<lparr>j_runner := Some runner, j_status := JobPending\<rparr> else j" "[]"])
      (use b assms(2) in \<open>auto simp: quiet_by_def taken(5) update_where_def job_core_def watched_def blocked_job_def\<close>)
qed simp

lemma blocked_step:
  assumes st: "queue_step env Postgres a s t" and i: "queue_inv s" and b: "blocked_job (q_db s) run c needs"
    and n: "c \<notin> snd ` set (q_selected s)" and a: "a \<noteq> ACancel run"
  shows "blocked_job (q_db t) run c needs \<and> c \<notin> snd ` set (q_selected t)"
proof -
  let ?W = "watched run c needs"
  note P = by_core_watched [of run c needs]
  have d: "distinct (map j_id (jobs (q_db s)))" using i by (simp add: queue_inv_def)
  have "quiet ?W (q_db s) (q_db t) \<and> c \<notin> snd ` set (q_selected t)"
    using st
  proof (cases rule: queue_step.cases)
    case (start wr repo ev ref sha payload user out n db)
    then show ?thesis using quiet_start_run [of ?W "q_db s" env wr repo ev ref sha payload user "q_drawn s"] n by simp
  next
    case (trigger cancel grp now db1 ev wr ids n db)
    then have "quiet ?W db1 db" using quiet_trigger_run [of ?W db1 env ev wr grp "q_drawn s"] by simp
    then have "quiet ?W (q_db s) db" by (rule quiet_trans [OF P quiet_acquire [OF P trigger(3)]])
    then show ?thesis unfolding trigger(2) using n by simp
  next
    case (select labels allowed job runner)
    then show ?thesis using blocked_not_selected [OF b select(3) d] n by simp
  next
    case (take runner job found db)
    have "snd (runner, job) \<in> snd ` set (q_selected s)" by (rule imageI [OF take(3)])
    then have "job \<noteq> c" using n by auto
    from blocked_take [OF b this take(4)] have q: "quiet ?W (q_db s) db" .
    have "set (remove1 (runner, job) (q_selected s)) \<subseteq> set (q_selected s)" by (rule set_remove1_subset)
    then have "c \<notin> snd ` set (remove1 (runner, job) (q_selected s))" using n by blast
    with q show ?thesis unfolding take(2) by simp
  next
    case (start_job job runner now name)
    then show ?thesis using blocked_h_StartJob [of "q_db s" ?W job, OF watched_unclaimed [OF i _ b] P] n by simp
  next
    case (complete_job job runner conclusion now outputs summary)
    then show ?thesis using blocked_h_CompleteJob [OF b d watched_unclaimed [OF i _ b]] n by simp
  next
    case (beat job runner now)
    then show ?thesis using quiet_ops(3) [of "q_db s" ?W job, OF watched_unclaimed [OF i _ b]] n by (simp add: h_Heartbeat_def)
  next
    case (reap now)
    then show ?thesis using blocked_reap [OF b d] n by simp
  next
    case (cancel r now)
    then show ?thesis using blocked_cancel_other [OF b d] a n by auto
  qed
  then show ?thesis using blocked_quiet [OF b] by blast
qed

lemma blocked_steps:
  assumes "queue_steps env Postgres as s t" and "queue_inv s" and "blocked_job (q_db s) run c needs"
    and "c \<notin> snd ` set (q_selected s)" and "ACancel run \<notin> set as"
  shows "blocked_job (q_db t) run c needs"
  using assms
proof (induction rule: queue_steps.induct)
  case (more a s t as u)
  have "a \<noteq> ACancel run" using more.prems(4) by auto
  from blocked_step [OF more.hyps(1) more.prems(1,2,3) this]
  have "blocked_job (q_db t) run c needs" "c \<notin> snd ` set (q_selected t)" by blast+
  moreover have "queue_inv t" using queue_inv_step more by blast
  ultimately show ?case using more by simp
qed simp


section \<open>A chain of jobs\<close>

definition ex_chain :: "nat workflow" where
  "ex_chain = \<lparr>wf_name = ''ci'', On = no_trigger, Concurrency = None,
     Jobs = [(''a'', ex_job []), (''b'', ex_job [''a'']), (''c'', ex_job [''b''])]\<rparr>"

definition ex_ci :: "nat ci_env" where
  "ex_ci = \<lparr>from_json = (\<lambda>s. Some ex_chain), mat_marshal = (\<lambda>v. []), mat_fmt = (\<lambda>v. []),
     uuid = (\<lambda>n. replicate (n + 1) CHR ''u''), clock = int\<rparr>"

definition ex_wrow :: workflow_row where
  "ex_wrow = \<lparr>w_id = ''w'', w_repo = ''r'', w_path = ''ci.yml'', w_name = ''ci'', w_hash = [], w_json = [],
     w_triggers = [''push''], w_active = True, w_created = 0, w_updated = 0\<rparr>"

definition ex_tables :: ci_db where
  "ex_tables = \<lparr>repos = [(''r'', ''o/r'')], orgs = [], workflows = [ex_wrow], runs = [], jobs = [], steps = [],
     job_logs = [], artifacts = [], secrets = [], variables = [], runners = [], caches = [], locks = []\<rparr>"

definition ex_s0 :: queue_state where
  "ex_s0 = \<lparr>q_db = ex_tables, q_selected = [], q_claims = [], q_drawn = 0\<rparr>"

definition ex_started :: "(http_error, string) go \<times> srv" where
  "ex_started = start_run ex_ci ex_wrow ''r'' ''push'' ''refs/heads/main'' [] [] [] (0, ex_tables)"

text \<open>The run is started, a runner is given its first job, starts it and reports a failure.\<close>

definition ex_db1 :: ci_db where
  "ex_db1 = snd (snd ex_started)"
definition ex_claim :: "job_row option \<times> ci_db" where
  "ex_claim = take_job ''runner'' ''uu'' ex_db1"
definition ex_s1 :: queue_state where
  "ex_s1 = ex_s0\<lparr>q_db := ex_db1, q_drawn := fst (snd ex_started)\<rparr>"
definition ex_s2 :: queue_state where
  "ex_s2 = ex_s1\<lparr>q_selected := [(''runner'', ''uu'')]\<rparr>"
definition ex_s3 :: queue_state where
  "ex_s3 = ex_s2\<lparr>q_db := snd ex_claim, q_selected := [], q_claims := [(''uu'', ''runner'')]\<rparr>"
definition ex_s4 :: queue_state where
  "ex_s4 = ex_s3\<lparr>q_db := h_StartJob 10 ''uu'' ''host'' (snd ex_claim)\<rparr>"
definition ex_s5 :: queue_state where
  "ex_s5 = ex_s4\<lparr>q_db := h_CompleteJob 20 ''uu'' ConclusionFailure [] [] (q_db ex_s4)\<rparr>"

lemma ex_init: "queue_init ex_s0"
  by (simp add: queue_init_def ex_s0_def ex_tables_def)

lemma ex_start: "queue_step ex_ci Postgres AStart ex_s0 ex_s1"
proof -
  have "start_run ex_ci ex_wrow ''r'' ''push'' ''refs/heads/main'' [] [] [] (q_drawn ex_s0, q_db ex_s0) =
      (fst ex_started, fst (snd ex_started), ex_db1)"
    by (simp add: ex_s0_def ex_db1_def ex_started_def)
  from queue_step.start [OF this] show ?thesis unfolding ex_s1_def .
qed

lemma ex_select: "queue_step ex_ci Postgres ASelect ex_s1 ex_s2"
proof -
  have "select_job Postgres [''linux''] [] ex_db1 = Ok (Some ''uu'')" by code_simp
  then have "select_job Postgres [''linux''] [] (q_db ex_s1) = Ok (Some ''uu'')" by (simp add: ex_s1_def)
  from queue_step.select [OF this, of ex_ci "''runner''"] show ?thesis by (simp add: ex_s2_def ex_s1_def ex_s0_def)
qed

lemma ex_take: "queue_step ex_ci Postgres ATake ex_s2 ex_s3"
proof -
  have t: "take_job ''runner'' ''uu'' (q_db ex_s2) = (fst ex_claim, snd ex_claim)"
    by (simp add: ex_claim_def ex_s2_def ex_s1_def)
  have f: "fst ex_claim \<noteq> None" by code_simp
  have "(''runner'', ''uu'') \<in> set (q_selected ex_s2)" by (simp add: ex_s2_def)
  from queue_step.take [OF this t, of ex_ci Postgres] f show ?thesis
    by (auto simp: ex_s3_def ex_s2_def ex_s1_def ex_s0_def)
qed

lemma ex_report: "queue_steps ex_ci Postgres [AStartJob ''uu'', ACompleteJob ''uu'' ConclusionFailure] ex_s3 ex_s5"
proof -
  have c: "(''uu'', ''runner'') \<in> set (q_claims ex_s3)" "(''uu'', ''runner'') \<in> set (q_claims ex_s4)"
    by (simp_all add: ex_s4_def ex_s3_def)
  have "q_db ex_s3 = snd ex_claim" by (simp add: ex_s3_def)
  then have "queue_step ex_ci Postgres (AStartJob ''uu'') ex_s3 ex_s4"
    using queue_step.start_job [OF c(1)] unfolding ex_s4_def by metis
  moreover have "queue_step ex_ci Postgres (ACompleteJob ''uu'' ConclusionFailure) ex_s4 ex_s5"
    unfolding ex_s5_def by (rule queue_step.complete_job [OF c(2)])
  ultimately show ?thesis by (blast intro: queue_steps.intros)
qed

lemma ex_claimed: "queue_steps ex_ci Postgres [AStart, ASelect, ATake] ex_s0 ex_s3"
  by (rule queue_steps.more [OF ex_start queue_steps.more [OF ex_select queue_steps.more [OF ex_take queue_steps.none]]])

lemma ex_failed: "queue_steps ex_ci Postgres [AStart, ASelect, ATake, AStartJob ''uu'', ACompleteJob ''uu'' ConclusionFailure] ex_s0 ex_s5"
  by (rule queue_steps.more [OF ex_start queue_steps.more [OF ex_select queue_steps.more [OF ex_take ex_report]]])

theorem claimed_at_most_once_witness:
  "q_claims ex_s3 = [(''uu'', ''runner'')] \<and> distinct (map fst (q_claims ex_s3)) \<and>
   (\<exists>j \<in> set (jobs (q_db ex_s3)). j_id j = ''uu'' \<and> j_runner j = Some ''runner'')"
proof -
  have c: "q_claims ex_s3 = [(''uu'', ''runner'')]" by (simp add: ex_s3_def)
  with claimed_at_most_once [OF ex_init ex_claimed] show ?thesis by auto
qed

text \<open>The third job of the chain needs the second, which was cancelled with the failure of the first.\<close>

lemma ex_blocked: "blocked_job (q_db ex_s5) ''u'' ''uuuuuu'' [''b'']"
  by code_simp


end
