(* ===== verification/Spec2Isabelle.thy ===== *)
theory Spec2Isabelle
  imports Delta GitPack ObjectStore GitTree GitWalk PktLine PackBuild Extract Merge RefStore PgStore Segment Cas Json RefCommits SshHandler SshPush RefApi Review Accounts ControlApi
    Workflow Matrix Trigger CIStore Expr Cron CIRun CIQueue
begin

text \<open>
  A verification development for the Kai server: the git and HTTP data plane \<open>kailab\<close>, the control plane
  \<open>kailab-control\<close>, and the libraries \<open>kai-core\<close> they share. All paths are below \<open>src/\<close>.

  \<^bold>\<open>The program.\<close> The data plane keeps repositories as content-addressed objects in segments, refs with a hash-chained
  history, and edges between objects, in SQLite files or in one shared Postgres database. Git clients reach it over SSH:
  the server turns the refs of a repository into git commits, walks the objects a client lacks, and sends them as a pack;
  a push is unpacked into a change set to which the refs are pointed. The Kai client uses the HTTP handlers: negotiation,
  upload of segments, batches of ref updates, reviews. The control plane keeps accounts, organizations and repositories,
  decides who may do what, and runs CI: events are matched against workflows, workflows become runs of jobs, runners claim
  jobs and report. Merging and content addressing are library code.

  \<^bold>\<open>Theories, in the order of the program.\<close>

    \<^item> Shared: \<open>Prelude\<close> (the outcome of a Go call: a value, an error, a panic; slices; words as bytes) and \<open>GoText\<close>
      (packages \<open>strings\<close>, \<open>strconv\<close>, \<open>hex\<close>; Go maps as association lists).
    \<^item> Git wire formats, \<open>kailab/sshserver\<close>: \<open>Delta\<close> (\<open>delta.go\<close>, \<open>applyDelta\<close>), \<open>GitPack\<close> (\<open>gitpack.go\<close>,
      \<open>gitpack_parse.go\<close>), \<open>PktLine\<close> (\<open>protocol.go\<close>), \<open>GitTree\<close> (trees and commits, \<open>snapshot_adapter.go\<close>),
      \<open>ObjectStore\<close> (the caches), \<open>GitWalk\<close> (reachability with depth), \<open>PackBuild\<close> (\<open>pack_builder.go\<close>,
      \<open>ref_adapter.go\<close>).
    \<^item> Storage: \<open>RefStore\<close> (\<open>kailab/store/sqlite.go\<close>), \<open>PgStore\<close> (\<open>kailab/store/postgres.go\<close> and
      \<open>kailab/blobstore\<close>), \<open>Segment\<close> (\<open>kailab/pack/segment.go\<close>), \<open>Cas\<close> (\<open>kai-core/cas/cas.go\<close>), \<open>Json\<close> (reading
      JSON payloads).
    \<^item> Sessions and handlers of the data plane: \<open>RefCommits\<close> (from refs to commits), \<open>SshHandler\<close> (fetch and push over
      SSH), \<open>SshPush\<close> (their properties end to end), \<open>RefApi\<close> and \<open>Review\<close> (\<open>kailab/api/routes.go\<close>).
    \<^item> Merging: \<open>Extract\<close> and \<open>Merge\<close> (\<open>kai-core/merge\<close>).
    \<^item> Control plane: \<open>Accounts\<close> (\<open>kailab-control/internal/db/db.go\<close>, \<open>model/models.go\<close>), \<open>ControlApi\<close>
      (the account handlers and the proxy of \<open>internal/api\<close>, \<open>internal/auth\<close>, \<open>internal/routing\<close>, and the git server's
      authorizer), \<open>Workflow\<close>, \<open>Matrix\<close>,
      \<open>Trigger\<close>, \<open>Expr\<close> (\<open>internal/workflow\<close>), \<open>Cron\<close>, \<open>CIStore\<close> (\<open>internal/db/ci.go\<close>), \<open>CIRun\<close> (\<open>internal/api/ci.go\<close>,
      \<open>scheduler.go\<close>), \<open>CIQueue\<close> (the job queue as a transition system).

  \<^bold>\<open>How the model corresponds to the code.\<close> A definition has the name of the function it translates; a helper that stands
  for a part of a function names it in the text before it. A struct is a record, a tagged value a datatype, a Go error an
  \<open>Err\<close>, a panic \<open>Panic\<close> or \<open>Crash\<close>. A slice is a list, a Go map an association list: where the code sorts keys the model sorts,
  where it iterates over a map in an arbitrary order the order is that of the list, and the theorems hold for every one.
  Machine integers that can wrap are words (\<open>Delta\<close>, \<open>GitPack\<close>, \<open>Segment\<close>, \<open>Cron\<close>); lengths of slices are natural numbers.
  A table is the list of its rows in the order of insertion, a statement a function on it, and the
  constraints of the schema are errors of the statement. A handler takes the decoded request, the time, random ids and the
  state, and gives the answer, the state afterwards and the events it sends on.

  \<^bold>\<open>Parameters.\<close> Code that is not in the repository is an argument: SHA-1 and BLAKE3, zlib and zstd, the tree-sitter parser,
  floating-point numbers and their printing, the ssh library (keys and signatures), the cloud client behind the blob store,
  the \<open>HashFilesFunc\<close> of expressions. What a theorem needs of one is a hypothesis that states its documented behaviour (an
  encoder that its decoder inverts, a hash without collisions on the objects at hand), and each such theorem has a witness
  in which it is a concrete function.

  \<^bold>\<open>What is shown.\<close> The properties are numbered C1, C2 and so on, in the theories of their components. For the git
  formats: decoders invert encoders, packs parse to what was written, thin packs are complete, a walk gives exactly the
  reachable objects, and a clone or a first push followed by a fetch transfers exactly those. For the stores: refs replay
  the history and the history is a hash chain, ref updates compare and swap, Postgres refines the single-repository
  store for every write and read, uploads keep the store content-addressed, node ids are faithful. For the handlers: a push is
  atomic, a batch of updates has the effect of its accepted ones, signatures are enforced, a review follows its state
  machine. For merging: the laws of a three-way merge and which conflicts are reported. For the control plane: the database is
  well-typed after any writes, who may push, fetch and use the proxy is characterised and the two ways in agree, validated workflows have an order, the evaluator agrees with the value of the
  expression, cron schedules match what they list and the search for the next run ends, and a job is handed out at most once
  however requests interleave. Where the code fails to do what it means to, the failure is a theorem too: truncated
  encodings, lost updates, lost comments, a queue that blocks, an evaluation that does not return.

  \<^bold>\<open>Interfaces.\<close> What two implementations share is a locale, interpreted on both: the writes of a ref store (\<open>ref_store\<close> in \<open>RefApi\<close>,
  for SQLite and Postgres), and others named in their theories. Step relations and runs are lists of
  operations folded over the state, so an interleaving is a list, and an invariant is proved by induction on it.

  \<^bold>\<open>Termination and fuel.\<close> Loops are recursive functions with a measure wherever they end. A chain of change sets is
  followed for at most the ten or twenty steps the code itself counts. A key file is read with its length as fuel, and every key takes
  a byte of it. The parsing of expressions may not return and takes fuel; its result does not depend on it once there is one, and
  both that printed expressions return and that some never do are theorems. The side-band writer is a partial
  function into \<open>option\<close>.

  \<^bold>\<open>Not modelled.\<close> Pure input and output: listeners and servers, metrics, telemetry, logging, configuration, mail,
  the delivery of webhooks, the commands under \<open>cmd\<close>. The runner (\<open>internal/runner\<close>) drives Kubernetes and
  shells. The tree-sitter queries of \<open>kai-core/parse\<close>, \<open>detect\<close> and \<open>diff\<close> work on trees of a C library, and the intent engine
  (\<open>kai-core/intent\<close>) is scoring with floating-point numbers and text templates. The file, archive and diff endpoints of \<open>routes.go\<close>
  and the listings of \<open>api/ci.go\<close> print what the modelled reads return. The registries of repositories open and close
  database files; the git mirror calls the git program.
\<close>

end
